(* ===== verification/XT_Prelude.thy ===== *)
theory XT_Prelude
  imports Main "HOL-Library.Word" "HOL-Library.AList" "HOL-Library.Sublist"
begin

text \<open>
  Shared vocabulary of the xtunnel development: bytes and Go strings, big-endian integers,
  Go slicing (with the run-time panic as \<^term>\<open>None\<close>), Go dictionaries as association
  lists, 64-bit wrap-around, and the generic transition-system interface that the component
  theories interpret.
\<close>

unbundle bit_operations_syntax

section \<open>Types\<close>

text \<open>
  A Go \<^verbatim>\<open>[]byte\<close> is a list of 8-bit words. A Go string is an immutable byte sequence;
  it is modelled as \<^typ>\<open>string\<close>, whose characters are exactly the 256 byte values, and the
  conversions \<^verbatim>\<open>[]byte(s)\<close> and \<^verbatim>\<open>string(b)\<close> are \<open>bytes_of_string\<close> and
  \<open>string_of_bytes\<close>. Instants and durations are nanosecond counts of type \<^typ>\<open>int\<close>, and the
  zero \<^verbatim>\<open>time.Time\<close> is \<^term>\<open>None\<close> where the code tests \<^verbatim>\<open>IsZero\<close>.
\<close>

type_synonym byte = "8 word"
type_synonym bytes = "byte list"
type_synonym instant = int
type_synonym duration = int
type_synonym chid = int
type_synonym ref = nat

text \<open>A Go dictionary: an association list; the order of the list stands for the iteration
  order, which Go leaves open, so statements that hold for every list hold for every order.\<close>

type_synonym ('k, 'v) dict = "('k \<times> 'v) list"

definition time_Second :: duration where
  "time_Second = 1000000000"

definition time_Millisecond :: duration where
  "time_Millisecond = 1000000"

text \<open>The message types of the WebSocket library.\<close>

abbreviation (input) BinaryMessage :: int where "BinaryMessage \<equiv> 2"
abbreviation (input) CloseMessage :: int where "CloseMessage \<equiv> 8"
abbreviation (input) PingMessage :: int where "PingMessage \<equiv> 9"
abbreviation (input) PongMessage :: int where "PongMessage \<equiv> 10"

section \<open>Lemma collections\<close>

named_theorems frame_simps \<open>rewrite rules for reading back encoded frames\<close>
named_theorems inv_intros \<open>invariant preservation rules of the component operations\<close>
named_theorems inv_defs \<open>definitions of the component invariants\<close>

section \<open>Bytes and strings\<close>

definition bytes_of_string :: "string \<Rightarrow> bytes" where
  "bytes_of_string s = map (\<lambda>c. word_of_nat (of_char c)) s"

definition string_of_bytes :: "bytes \<Rightarrow> string" where
  "string_of_bytes b = map (\<lambda>w. char_of (unat w)) b"

lemma char_of_unat_byte [simp]: "char_of (unat (word_of_nat (of_char c) :: byte)) = c"
  by (simp add: unat_of_nat)

lemma byte_of_unat_mod [simp]: "word_of_nat (unat w mod 256) = w" for w :: byte
  using unsigned_less [of w, where ?'a = nat] by simp

lemma byte_of_char_of_unat [simp]: "word_of_nat (of_char (char_of (unat w))) = w" for w :: byte
  by simp

lemma string_of_bytes_of_string [simp]: "string_of_bytes (bytes_of_string s) = s"
  by (induction s) (simp_all add: string_of_bytes_def bytes_of_string_def)

lemma bytes_of_string_of_bytes [simp]: "bytes_of_string (string_of_bytes b) = b"
  by (induction b) (simp_all add: string_of_bytes_def bytes_of_string_def)

lemma length_bytes_of_string [simp]: "length (bytes_of_string s) = length s"
  by (simp add: bytes_of_string_def)

lemma length_string_of_bytes [simp]: "length (string_of_bytes b) = length b"
  by (simp add: string_of_bytes_def)

lemma bytes_of_string_eq_Nil [simp]: "bytes_of_string s = [] \<longleftrightarrow> s = []"
  by (simp add: bytes_of_string_def)

section \<open>Big-endian integers\<close>

text \<open>\<^verbatim>\<open>encoding/binary.BigEndian\<close>: the byte order the frame header, the hot-pair records and
  the channel numbers in message metadata use. The readers index the slice exactly as the
  library does; callers pass slices of the right length.\<close>

definition PutUint16 :: "16 word \<Rightarrow> bytes" where
  "PutUint16 v = [ucast (drop_bit 8 v), ucast v]"

definition Uint16 :: "bytes \<Rightarrow> 16 word" where
  "Uint16 b = ucast (b ! 1) OR push_bit 8 (ucast (b ! 0))"

definition PutUint32 :: "32 word \<Rightarrow> bytes" where
  "PutUint32 v = [ucast (drop_bit 24 v), ucast (drop_bit 16 v), ucast (drop_bit 8 v), ucast v]"

definition Uint32 :: "bytes \<Rightarrow> 32 word" where
  "Uint32 b = ucast (b ! 3) OR push_bit 8 (ucast (b ! 2)) OR
     push_bit 16 (ucast (b ! 1)) OR push_bit 24 (ucast (b ! 0))"

lemma length_PutUint16 [simp]: "length (PutUint16 v) = 2"
  by (simp add: PutUint16_def)

lemma length_PutUint32 [simp]: "length (PutUint32 v) = 4"
  by (simp add: PutUint32_def)

lemma Uint16_PutUint16 [simp]: "Uint16 (PutUint16 v) = v"
  by (rule bit_eqI) (auto simp: Uint16_def PutUint16_def bit_simps)

lemma Uint32_PutUint32 [simp]: "Uint32 (PutUint32 v) = v"
proof (rule bit_word_eqI)
  fix n assume "n < LENGTH(32)"
  then consider "n < 8" | "8 \<le> n" "n < 16" | "16 \<le> n" "n < 24" | "24 \<le> n" "n < 32"
    by fastforce
  then show "bit (Uint32 (PutUint32 v)) n = bit v n"
    by cases (auto simp: Uint32_def PutUint32_def bit_simps)
qed

lemma not_bit_byte: "8 \<le> n \<Longrightarrow> \<not> bit w n" for w :: byte
  using bit_imp_le_length [of w n] by auto

lemma PutUint16_Uint16: "length b = 2 \<Longrightarrow> PutUint16 (Uint16 b) = b"
proof -
  assume "length b = 2"
  then obtain x y where b: "b = [x, y]"
    by (metis (no_types) One_nat_def Suc_1 length_0_conv length_Suc_conv)
  show ?thesis
    unfolding b by (auto simp: Uint16_def PutUint16_def bit_simps not_bit_byte intro!: bit_word_eqI)
qed

lemma PutUint32_Uint32: "length b = 4 \<Longrightarrow> PutUint32 (Uint32 b) = b"
proof -
  assume "length b = 4"
  then obtain x y z w where b: "b = [x, y, z, w]"
    by (auto simp: numeral_eq_Suc length_Suc_conv)
  show ?thesis
    unfolding b by (auto simp: Uint32_def PutUint32_def bit_simps not_bit_byte intro!: bit_word_eqI)
qed

text \<open>Reading up to a separator.\<close>

lemma takeWhile_sep: "c \<notin> set xs \<Longrightarrow> takeWhile (\<lambda>x. x \<noteq> c) (xs @ c # ys) = xs"
  by (induction xs) auto

lemma dropWhile_sep: "c \<notin> set xs \<Longrightarrow> dropWhile (\<lambda>x. x \<noteq> c) (xs @ c # ys) = c # ys"
  by (induction xs) auto

section \<open>Slices\<close>

text \<open>\<^verbatim>\<open>b[lo:hi]\<close>: \<^term>\<open>None\<close> is the run-time panic of an out-of-range slice.\<close>

definition go_slice :: "'a list \<Rightarrow> nat \<Rightarrow> nat \<Rightarrow> 'a list option" where
  "go_slice b lo hi = (if lo \<le> hi \<and> hi \<le> length b then Some (take (hi - lo) (drop lo b)) else None)"

text \<open>\<^verbatim>\<open>b[i]\<close> as a value: \<^term>\<open>None\<close> is the panic of an out-of-range index.\<close>

definition go_index :: "'a list \<Rightarrow> nat \<Rightarrow> 'a option" where
  "go_index b i = (if i < length b then Some (b ! i) else None)"

lemma go_slice_Some: "lo \<le> hi \<Longrightarrow> hi \<le> length b \<Longrightarrow> go_slice b lo hi = Some (take (hi - lo) (drop lo b))"
  by (simp add: go_slice_def)

lemma go_index_Some: "i < length b \<Longrightarrow> go_index b i = Some (b ! i)"
  by (simp add: go_index_def)

lemma go_slice_length: "go_slice b lo hi = Some c \<Longrightarrow> length c = hi - lo"
  by (auto simp: go_slice_def split: if_splits)

lemma go_slice_append_mid [frame_simps]:
  "length a = lo \<Longrightarrow> length b = hi - lo \<Longrightarrow> lo \<le> hi \<Longrightarrow> go_slice (a @ b @ c) lo hi = Some b"
  by (simp add: go_slice_def)

section \<open>Machine integers\<close>

text \<open>Go's \<^verbatim>\<open>int64(x)\<close> and \<^verbatim>\<open>int32(x)\<close> wrap to two's complement; \<^verbatim>\<open>/\<close> truncates towards zero.\<close>

definition wrap64 :: "int \<Rightarrow> int" where
  "wrap64 x = sint (word_of_int x :: 64 word)"

definition wrap32 :: "int \<Rightarrow> int" where
  "wrap32 x = sint (word_of_int x :: 32 word)"

definition go_div :: "int \<Rightarrow> int \<Rightarrow> int" where
  "go_div a b = sgn a * sgn b * (\<bar>a\<bar> div \<bar>b\<bar>)"

lemma wrap64_id: "- (2 ^ 63) \<le> x \<Longrightarrow> x < 2 ^ 63 \<Longrightarrow> wrap64 x = x"
  by (simp add: wrap64_def signed_of_int signed_take_bit_int_eq_self)

lemma wrap32_id: "- (2 ^ 31) \<le> x \<Longrightarrow> x < 2 ^ 31 \<Longrightarrow> wrap32 x = x"
  by (simp add: wrap32_def signed_of_int signed_take_bit_int_eq_self)

lemma go_div_nonneg: "0 \<le> a \<Longrightarrow> 0 < b \<Longrightarrow> go_div a b = a div b"
  by (cases "a = 0") (simp_all add: go_div_def)

section \<open>Dictionaries\<close>

abbreviation dict_get :: "('k, 'v) dict \<Rightarrow> 'k \<Rightarrow> 'v option" where
  "dict_get m k \<equiv> map_of m k"

abbreviation dict_set :: "('k, 'v) dict \<Rightarrow> 'k \<Rightarrow> 'v \<Rightarrow> ('k, 'v) dict" where
  "dict_set m k v \<equiv> AList.update k v m"

abbreviation dict_del :: "('k, 'v) dict \<Rightarrow> 'k \<Rightarrow> ('k, 'v) dict" where
  "dict_del m k \<equiv> AList.delete k m"

definition dict_keys :: "('k, 'v) dict \<Rightarrow> 'k list" where
  "dict_keys m = map fst m"

text \<open>A dictionary has one entry per key.\<close>

definition dict_ok :: "('k, 'v) dict \<Rightarrow> bool" where
  "dict_ok m \<longleftrightarrow> distinct (map fst m)"

text \<open>The dictionary left by a loop that deletes the entries that fail a test.\<close>

definition dict_filter :: "('k \<Rightarrow> 'v \<Rightarrow> bool) \<Rightarrow> ('k, 'v) dict \<Rightarrow> ('k, 'v) dict" where
  "dict_filter P m = filter (\<lambda>(k, v). P k v) m"

lemma dict_ok_Nil [simp]: "dict_ok []"
  by (simp add: dict_ok_def)

lemma dict_ok_set [simp]: "dict_ok m \<Longrightarrow> dict_ok (dict_set m k v)"
  by (simp add: dict_ok_def distinct_update)

lemma dict_ok_del [simp]: "dict_ok m \<Longrightarrow> dict_ok (dict_del m k)"
  by (simp add: dict_ok_def distinct_delete)

lemma dict_ok_filter [simp]: "dict_ok m \<Longrightarrow> dict_ok (dict_filter P m)"
  by (simp add: dict_ok_def dict_filter_def distinct_map_filter)

lemma dict_get_set [simp]: "dict_get (dict_set m k v) x = (if x = k then Some v else dict_get m x)"
  by (simp add: update_conv')

lemma dict_get_del [simp]: "dict_get (dict_del m k) x = (if x = k then None else dict_get m x)"
  by (simp add: delete_conv')

lemma dict_get_filter:
  assumes "dict_ok m"
  shows "dict_get (dict_filter P m) k =
    (case dict_get m k of None \<Rightarrow> None | Some v \<Rightarrow> if P k v then Some v else None)"
  using assms
proof (induction m)
  case (Cons x m)
  obtain a b where x: "x = (a, b)" by fastforce
  from Cons.prems x have ok: "dict_ok m" and a: "a \<notin> fst ` set m"
    by (auto simp: dict_ok_def)
  then have "map_of m a = None" by (simp add: map_of_eq_None_iff)
  with Cons.IH [OF ok] x show ?case
    by (auto simp: dict_filter_def split: option.splits)
qed (simp add: dict_filter_def)

lemma dict_filter_True [simp]: "dict_filter (\<lambda>_ _. True) m = m"
  by (simp add: dict_filter_def)

lemma dict_set_subset: "set (dict_set m k v) \<subseteq> insert (k, v) (set m)"
  by (induction m) auto

lemma dict_del_subset: "set (dict_del m k) \<subseteq> set m"
  by (auto simp: AList.delete_eq)

lemma dict_get_in_set: "dict_ok m \<Longrightarrow> (k, v) \<in> set m \<longleftrightarrow> dict_get m k = Some v"
  by (simp add: dict_ok_def)

section \<open>Slices of pointers\<close>

text \<open>The entries of a slice of pointers that are not nil.\<close>

fun non_nil :: "'a option list \<Rightarrow> 'a list" where
  "non_nil [] = []"
| "non_nil (None # xs) = non_nil xs"
| "non_nil (Some x # xs) = x # non_nil xs"

lemma non_nil_append [simp]: "non_nil (xs @ ys) = non_nil xs @ non_nil ys"
  by (induction xs rule: non_nil.induct) auto

lemma in_non_nil [simp]: "x \<in> set (non_nil xs) \<longleftrightarrow> Some x \<in> set xs"
  by (induction xs rule: non_nil.induct) auto

section \<open>Sums over a heap\<close>

text \<open>Replacing one cell of a heap changes a sum over its cells by that cell's share.\<close>

lemma sum_fun_upd:
  fixes f :: "'a \<Rightarrow> int" and r n :: nat
  assumes "r < n"
  shows "(\<Sum>x\<in>{..<n}. f ((h(r := v)) x)) = (\<Sum>x\<in>{..<n}. f (h x)) - f (h r) + f v"
proof -
  have "(\<Sum>x\<in>{..<n} - {r}. f ((h(r := v)) x)) = (\<Sum>x\<in>{..<n} - {r}. f (h x))"
    by (rule sum.cong) auto
  with assms show ?thesis
    using sum.remove [of "{..<n}" r "\<lambda>x. f (h x)"] sum.remove [of "{..<n}" r "\<lambda>x. f ((h(r := v)) x)"]
    by simp
qed

section \<open>Transition systems\<close>

text \<open>
  The interface behind every safety argument of the development: a set of initial states, a
  step relation and a property that holds initially and that every step keeps. The component
  theories interpret it on their own states and steps.
\<close>

locale invariant_system =
  fixes init :: "'s \<Rightarrow> bool"
    and step :: "'s \<Rightarrow> 's \<Rightarrow> bool"
    and inv :: "'s \<Rightarrow> bool"
  assumes inv_init: "init s \<Longrightarrow> inv s"
    and inv_step: "inv s \<Longrightarrow> step s t \<Longrightarrow> inv t"
begin

lemma run_inv: "inv s \<Longrightarrow> step\<^sup>*\<^sup>* s t \<Longrightarrow> inv t"
  by (rule rtranclp_induct [of step s t]) (auto intro: inv_step)

lemma reachable_inv: "init s \<Longrightarrow> step\<^sup>*\<^sup>* s t \<Longrightarrow> inv t"
  by (blast intro: run_inv inv_init)

end

end
