(* ===== verification/Protocol.thy ===== *)
theory Protocol
  imports XT_Prelude "HOL-Library.Monad_Syntax"
begin

text \<open>
  The wire protocol shared by client and server (\<^verbatim>\<open>src/protocol/protocol.go\<close>,
  \<^verbatim>\<open>src/protocol/errors.go\<close>): message types, the 8-byte frame header, the batch of hot-pair
  records, the hot-pair connection identifiers and the helpers on log identifiers and error
  texts. A slice or index outside its bounds would be a run-time panic; the decoders are
  therefore modelled in the option monad and proved never to return \<^term>\<open>None\<close>.
\<close>

section \<open>Message types and states\<close>

type_synonym MessageType = "8 word"
type_synonym BackpressureState = "8 word"
type_synonym ConnStatus = "8 word"

abbreviation (input) MsgTCPConnect :: MessageType where "MsgTCPConnect \<equiv> 1"
abbreviation (input) MsgTCPData :: MessageType where "MsgTCPData \<equiv> 2"
abbreviation (input) MsgTCPClose :: MessageType where "MsgTCPClose \<equiv> 3"
abbreviation (input) MsgUDPConnect :: MessageType where "MsgUDPConnect \<equiv> 4"
abbreviation (input) MsgUDPData :: MessageType where "MsgUDPData \<equiv> 5"
abbreviation (input) MsgUDPClose :: MessageType where "MsgUDPClose \<equiv> 6"
abbreviation (input) MsgConnStatus :: MessageType where "MsgConnStatus \<equiv> 7"
abbreviation (input) MsgSelectUplink :: MessageType where "MsgSelectUplink \<equiv> 8"
abbreviation (input) MsgSelectDownlink :: MessageType where "MsgSelectDownlink \<equiv> 9"
abbreviation (input) MsgBackpressure :: MessageType where "MsgBackpressure \<equiv> 10"
abbreviation (input) MsgPrebindRequest :: MessageType where "MsgPrebindRequest \<equiv> 0x10"
abbreviation (input) MsgChannelReset :: MessageType where "MsgChannelReset \<equiv> 0x11"
abbreviation (input) MsgReverseListen :: MessageType where "MsgReverseListen \<equiv> 0x20"
abbreviation (input) MsgReverseListenResult :: MessageType where "MsgReverseListenResult \<equiv> 0x21"
abbreviation (input) MsgHotPairNotify :: MessageType where "MsgHotPairNotify \<equiv> 0x22"
abbreviation (input) MsgHotPairBegin :: MessageType where "MsgHotPairBegin \<equiv> 0x23"

abbreviation (input) BackpressureNormal :: BackpressureState where "BackpressureNormal \<equiv> 0"
abbreviation (input) BackpressureSlowDown :: BackpressureState where "BackpressureSlowDown \<equiv> 1"
abbreviation (input) BackpressurePause :: BackpressureState where "BackpressurePause \<equiv> 2"

abbreviation (input) StatusOK :: ConnStatus where "StatusOK \<equiv> 0"
abbreviation (input) StatusERR :: ConnStatus where "StatusERR \<equiv> 1"

text \<open>The resolution strategy byte (\<^verbatim>\<open>src/protocol/ip_strategy.go\<close>) that travels as the first
  metadata byte of connection requests.\<close>

type_synonym IPStrategy = "8 word"

abbreviation (input) IPStrategyDefault :: IPStrategy where "IPStrategyDefault \<equiv> 0"
abbreviation (input) IPStrategyIPv4Only :: IPStrategy where "IPStrategyIPv4Only \<equiv> 1"
abbreviation (input) IPStrategyIPv6Only :: IPStrategy where "IPStrategyIPv6Only \<equiv> 2"
abbreviation (input) IPStrategyPv4Pv6 :: IPStrategy where "IPStrategyPv4Pv6 \<equiv> 3"
abbreviation (input) IPStrategyPv6Pv4 :: IPStrategy where "IPStrategyPv6Pv4 \<equiv> 4"

definition PrebindTarget :: string where
  "PrebindTarget = ''x-tunnel.prebind''"

section \<open>Frames\<close>

text \<open>The five results of \<^verbatim>\<open>DecodeMessage\<close>: the four frame fields or one of its two errors.\<close>

record frame =
  f_type :: MessageType
  f_connID :: string
  f_meta :: bytes
  f_payload :: bytes

datatype decode_error = FrameTooShort | InvalidLength

definition headerLen :: nat where
  "headerLen = 8"

text \<open>\<^verbatim>\<open>int(^uint(0) >> 1)\<close> on a 64-bit platform.\<close>

definition maxInt :: nat where
  "maxInt = 2 ^ 63 - 1"

definition EncodeMessage :: "MessageType \<Rightarrow> string \<Rightarrow> bytes \<Rightarrow> bytes \<Rightarrow> bytes" where
  "EncodeMessage t connID meta payload =
     (let connID = (if length connID > 255 then take 255 connID else connID)
      in [t, word_of_nat (length connID)]
         @ PutUint16 (word_of_nat (length meta))
         @ PutUint32 (word_of_nat (length payload))
         @ bytes_of_string connID @ meta @ payload)"

definition DecodeMessage :: "bytes \<Rightarrow> (decode_error + frame) option" where
  "DecodeMessage b =
     (if length b < headerLen then Some (Inl FrameTooShort)
      else do {
        t \<leftarrow> go_index b 0;
        idLen \<leftarrow> map_option unat (go_index b 1);
        metaLen \<leftarrow> map_option (unat \<circ> Uint16) (go_slice b 2 4);
        payloadLen \<leftarrow> map_option (unat \<circ> Uint32) (go_slice b 4 8);
        let total = headerLen + idLen + metaLen + payloadLen;
        if total > length b \<or> total > maxInt then Some (Inl InvalidLength)
        else do {
          connID \<leftarrow> go_slice b headerLen (headerLen + idLen);
          meta \<leftarrow> go_slice b (headerLen + idLen) (headerLen + idLen + metaLen);
          payload \<leftarrow> go_slice b (headerLen + idLen + metaLen)
                       (headerLen + idLen + metaLen + payloadLen);
          Some (Inr \<lparr>f_type = t, f_connID = string_of_bytes connID, f_meta = meta,
                     f_payload = payload\<rparr>)
        }
      })"

text \<open>The frames whose lengths fit the header's fields.\<close>

definition frame_fits :: "string \<Rightarrow> bytes \<Rightarrow> bytes \<Rightarrow> bool" where
  "frame_fits connID meta payload \<longleftrightarrow>
     length connID \<le> 255 \<and> length meta < 2 ^ 16 \<and> length payload < 2 ^ 32"

lemma unat_word_of_nat_small:
  "n < 2 ^ LENGTH('a) \<Longrightarrow> unat (word_of_nat n :: 'a::len word) = n"
  by (simp add: unat_of_nat)

lemma length_EncodeMessage:
  "length (EncodeMessage t c m p) = headerLen + min 255 (length c) + length m + length p"
  by (simp add: EncodeMessage_def Let_def headerLen_def min_def)

text \<open>Reading the header of any sufficiently long buffer succeeds.\<close>

lemma DecodeMessage_total: "DecodeMessage b \<noteq> None"
  by (auto simp: DecodeMessage_def headerLen_def go_index_def go_slice_def Let_def)

text \<open>The frame at the head of a buffer, with the header split into its four fields.\<close>

lemma DecodeMessage_header:
  assumes "length hm = 2" "length hp = 4"
  shows "DecodeMessage (t # n # hm @ hp @ rest) =
    (let idLen = unat n; metaLen = unat (Uint16 hm); payloadLen = unat (Uint32 hp)
     in if idLen + metaLen + payloadLen > length rest
           \<or> headerLen + idLen + metaLen + payloadLen > maxInt
        then Some (Inl InvalidLength)
        else Some (Inr \<lparr>f_type = t, f_connID = string_of_bytes (take idLen rest),
               f_meta = take metaLen (drop idLen rest),
               f_payload = take payloadLen (drop (idLen + metaLen) rest)\<rparr>))"
proof -
  have "go_slice (t # n # hm @ hp @ rest) 2 4 = Some hm"
    using assms by (simp add: go_slice_def)
  moreover have "go_slice (t # n # hm @ hp @ rest) 4 8 = Some hp"
    using assms by (simp add: go_slice_def)
  moreover have "drop (8 + k) (t # n # hm @ hp @ rest) = drop k rest" for k
    using assms by (simp add: drop_Cons')
  moreover have "drop (8 + j + k) (t # n # hm @ hp @ rest) = drop (j + k) rest" for j k
    using assms by (simp add: drop_Cons')
  ultimately show ?thesis
    using assms
    by (simp add: DecodeMessage_def headerLen_def go_index_def Let_def go_slice_def)
qed

lemma unat_byte_le: "unat w \<le> 255" for w :: byte
  using unsigned_less [of w, where ?'a = nat] by simp

lemma unat_Uint16_le: "unat w < 65536" for w :: "16 word"
  using unsigned_less [of w, where ?'a = nat] by simp

lemma unat_Uint32_le: "unat w < 4294967296" for w :: "32 word"
  using unsigned_less [of w, where ?'a = nat] by simp

text \<open>With fields of at most one, two and four bytes the total always fits an \<^verbatim>\<open>int\<close>: the second
  length test of the decoder can only fire on a 32-bit platform.\<close>

lemma header_total_le_maxInt:
  fixes n :: byte and m :: "16 word" and k :: "32 word"
  shows "headerLen + unat n + unat m + unat k \<le> maxInt"
  using unat_byte_le [of n] unat_Uint16_le [of m] unat_Uint32_le [of k]
  unfolding headerLen_def maxInt_def by simp

lemma DecodeMessage_EncodeMessage:
  assumes "length m < 2 ^ 16" "length p < 2 ^ 32"
  shows "DecodeMessage (EncodeMessage t c m p @ rest) =
    Some (Inr \<lparr>f_type = t, f_connID = take 255 c, f_meta = m, f_payload = p\<rparr>)"
proof -
  define c' where "c' = (if length c > 255 then take 255 c else c)"
  then have c': "take 255 c = c'" and len: "length c' \<le> 255"
    by auto
  have 1: "unat (word_of_nat (length c') :: byte) = length c'"
    using len by (simp add: unat_of_nat)
  have 2: "unat (word_of_nat (length m) :: 16 word) = length m"
    using assms(1) by (simp add: unat_of_nat)
  have 3: "unat (word_of_nat (length p) :: 32 word) = length p"
    using assms(2) by (simp add: unat_of_nat)
  have "EncodeMessage t c m p @ rest =
      t # word_of_nat (length c') # PutUint16 (word_of_nat (length m))
        @ PutUint32 (word_of_nat (length p)) @ (bytes_of_string c' @ m @ p @ rest)"
    by (simp add: EncodeMessage_def c'_def Let_def)
  then show ?thesis
    using len assms
    by (simp add: DecodeMessage_header Let_def 1 2 3 c' headerLen_def maxInt_def)
qed

text \<open>What a successful decode says about the buffer: the header fields are the lengths of the
  three parts, so encoding them again rebuilds the consumed bytes.\<close>

lemma buffer_header_cases:
  assumes "headerLen \<le> length b"
  obtains t n hm hp rest where "b = t # n # hm @ hp @ rest" "length hm = 2" "length hp = 4"
proof -
  obtain t n b' where b: "b = t # n # b'" and len: "6 \<le> length b'"
    using assms by (auto simp: headerLen_def Suc_le_length_iff numeral_eq_Suc)
  have "b' = take 2 b' @ take 4 (drop 2 b') @ drop 4 (drop 2 b')"
    by (simp only: append_take_drop_id)
  with b have "b = t # n # take 2 b' @ take 4 (drop 2 b') @ drop 4 (drop 2 b')"
    by simp
  moreover have "length (take 2 b') = 2" "length (take 4 (drop 2 b')) = 4"
    using len by simp_all
  ultimately show thesis by (rule that)
qed

lemma DecodeMessage_errors:
  "DecodeMessage b = Some (Inl FrameTooShort) \<longleftrightarrow> length b < headerLen"
  "DecodeMessage b = Some (Inl InvalidLength) \<longleftrightarrow>
     headerLen \<le> length b \<and>
     length b < headerLen + unat (b ! 1) + unat (Uint16 (take 2 (drop 2 b)))
                + unat (Uint32 (take 4 (drop 4 b)))"
proof -
  have short: "DecodeMessage b = Some (Inl FrameTooShort)" if "length b < headerLen"
    using that by (simp add: DecodeMessage_def)
  show "DecodeMessage b = Some (Inl FrameTooShort) \<longleftrightarrow> length b < headerLen"
  proof
    assume eq: "DecodeMessage b = Some (Inl FrameTooShort)"
    show "length b < headerLen"
    proof (rule ccontr)
      assume "\<not> length b < headerLen"
      then obtain t n hm hp rest where "b = t # n # hm @ hp @ rest" "length hm = 2" "length hp = 4"
        by (meson buffer_header_cases not_less)
      with eq show False
        by (auto simp: DecodeMessage_header Let_def split: if_splits)
    qed
  qed (rule short)
  show "DecodeMessage b = Some (Inl InvalidLength) \<longleftrightarrow>
     headerLen \<le> length b \<and>
     length b < headerLen + unat (b ! 1) + unat (Uint16 (take 2 (drop 2 b)))
                + unat (Uint32 (take 4 (drop 4 b)))"
  proof (cases "length b < headerLen")
    case True
    then show ?thesis using short by simp
  next
    case False
    then obtain t n hm hp rest where b: "b = t # n # hm @ hp @ rest" "length hm = 2" "length hp = 4"
      by (meson buffer_header_cases not_less)
    have "drop 4 b = hp @ rest" using b by (simp add: drop_Cons')
    with b header_total_le_maxInt [of n "Uint16 hm" "Uint32 hp"] show ?thesis
      by (auto simp: DecodeMessage_header Let_def headerLen_def)
  qed
qed

lemma DecodeMessage_parts:
  assumes "DecodeMessage b = Some (Inr f)"
  shows "frame_fits (f_connID f) (f_meta f) (f_payload f)"
    and "prefix (EncodeMessage (f_type f) (f_connID f) (f_meta f) (f_payload f)) b"
    and "length (f_connID f) = unat (b ! 1)" "length (f_meta f) = unat (Uint16 (take 2 (drop 2 b)))"
      "length (f_payload f) = unat (Uint32 (take 4 (drop 4 b)))"
proof -
  have "headerLen \<le> length b"
    using assms by (auto simp: DecodeMessage_def split: if_splits)
  then obtain t n hm hp rest where b: "b = t # n # hm @ hp @ rest" and l: "length hm = 2" "length hp = 4"
    by (rule buffer_header_cases)
  define i m k where "i = unat n" and "m = unat (Uint16 hm)" and "k = unat (Uint32 hp)"
  from assms b l have fits: "i + m + k \<le> length rest"
    and f: "f = \<lparr>f_type = t, f_connID = string_of_bytes (take i rest),
               f_meta = take m (drop i rest), f_payload = take k (drop (i + m) rest)\<rparr>"
    by (auto simp: DecodeMessage_header Let_def i_def m_def k_def split: if_splits)
  have lens: "length (f_connID f) = i" "length (f_meta f) = m" "length (f_payload f) = k"
    using fits by (simp_all add: f)
  have "drop 4 b = hp @ rest" using b l by (simp add: drop_Cons')
  with lens b l show "length (f_connID f) = unat (b ! 1)" "length (f_meta f) = unat (Uint16 (take 2 (drop 2 b)))"
      "length (f_payload f) = unat (Uint32 (take 4 (drop 4 b)))"
    by (simp_all add: i_def m_def k_def)
  from lens show "frame_fits (f_connID f) (f_meta f) (f_payload f)"
    using unat_byte_le [of n] by (simp add: frame_fits_def i_def m_def k_def unat_Uint16_le unat_Uint32_le)
  have "rest = take i rest @ take m (drop i rest) @ take k (drop (i + m) rest) @ drop (i + m + k) rest"
  proof -
    have "drop (i + m) rest = drop m (drop i rest)" "drop (i + m + k) rest = drop k (drop m (drop i rest))"
      by (simp_all add: ac_simps)
    then show ?thesis by (simp only: append_take_drop_id)
  qed
  moreover have "word_of_nat i = n" "word_of_nat m = Uint16 hm" "word_of_nat k = Uint32 hp"
    by (simp_all add: i_def m_def k_def)
  ultimately have "b = EncodeMessage t (f_connID f) (f_meta f) (f_payload f) @ drop (i + m + k) rest"
    using b l lens unat_byte_le [of n] unfolding i_def [symmetric]
    by (simp add: EncodeMessage_def Let_def PutUint16_Uint16 PutUint32_Uint32) (simp add: f)
  then show "prefix (EncodeMessage (f_type f) (f_connID f) (f_meta f) (f_payload f)) b"
    by (metis f frame.select_convs(1) prefixI)
qed

section \<open>Codecs as an interface\<close>

text \<open>
  What the two ends rely on: decoding a buffer that starts with an encoded value gives that
  value back, whatever follows. Injectivity and prefix-freeness then hold of any codec.
\<close>

locale codec =
  fixes enc :: "'a \<Rightarrow> 'b list"
    and dec :: "'b list \<Rightarrow> 'a option"
    and ok :: "'a \<Rightarrow> bool"
  assumes dec_enc: "ok x \<Longrightarrow> dec (enc x @ rest) = Some x"
begin

lemma prefix_free: "ok x \<Longrightarrow> ok y \<Longrightarrow> prefix (enc x) (enc y) \<Longrightarrow> x = y"
  using dec_enc [of x] dec_enc [of y "[]"] by (auto elim!: prefixE)

lemma enc_inj: "ok x \<Longrightarrow> ok y \<Longrightarrow> enc x = enc y \<Longrightarrow> x = y"
  by (rule prefix_free) simp_all

end

definition encode_frame :: "frame \<Rightarrow> bytes" where
  "encode_frame f = EncodeMessage (f_type f) (f_connID f) (f_meta f) (f_payload f)"

definition decode_frame :: "bytes \<Rightarrow> frame option" where
  "decode_frame b = (case DecodeMessage b of Some (Inr f) \<Rightarrow> Some f | _ \<Rightarrow> None)"

definition frame_ok :: "frame \<Rightarrow> bool" where
  "frame_ok f \<longleftrightarrow> frame_fits (f_connID f) (f_meta f) (f_payload f)"

interpretation frames: codec encode_frame decode_frame frame_ok
  by unfold_locales
    (simp add: decode_frame_def encode_frame_def frame_ok_def frame_fits_def DecodeMessage_EncodeMessage)

section \<open>Hot-pair notifications\<close>

record HotPairInfo =
  hp_Key :: string
  hp_ChA :: int
  hp_ChB :: int

definition hotPairRecordFixedLen :: nat where
  "hotPairRecordFixedLen = 1 + 4 + 4"

text \<open>The body of the encoding loop: a record whose key is empty or longer than a byte can count
  is skipped; \<^verbatim>\<open>uint32(ch)\<close> truncates the channel number to 32 bits.\<close>

definition appendHotPairRecord :: "bytes \<Rightarrow> HotPairInfo \<Rightarrow> bytes" where
  "appendHotPairRecord buf e =
     (if length (hp_Key e) = 0 \<or> length (hp_Key e) > 255 then buf
      else buf @ [word_of_nat (length (hp_Key e))] @ bytes_of_string (hp_Key e)
               @ PutUint32 (word_of_int (hp_ChA e)) @ PutUint32 (word_of_int (hp_ChB e)))"

definition EncodeHotPairNotify :: "HotPairInfo list \<Rightarrow> bytes" where
  "EncodeHotPairNotify entries = foldl appendHotPairRecord [] entries"

function DecodeHotPairLoop :: "bytes \<Rightarrow> nat \<Rightarrow> HotPairInfo list \<Rightarrow> HotPairInfo list option" where
  "DecodeHotPairLoop payload off out =
     (if \<not> off < length payload then Some out
      else if off + hotPairRecordFixedLen > length payload then Some out
      else do {
        keyLen \<leftarrow> map_option unat (go_index payload off);
        if keyLen = 0 \<or> off + hotPairRecordFixedLen + keyLen > length payload then Some out
        else do {
          key \<leftarrow> map_option string_of_bytes (go_slice payload (off + 1) (off + 1 + keyLen));
          cha \<leftarrow> map_option (uint \<circ> Uint32) (go_slice payload (off + 1 + keyLen) (off + 5 + keyLen));
          chb \<leftarrow> map_option (uint \<circ> Uint32) (go_slice payload (off + 5 + keyLen) (off + 9 + keyLen));
          DecodeHotPairLoop payload (off + hotPairRecordFixedLen + keyLen)
            (out @ [\<lparr>hp_Key = key, hp_ChA = cha, hp_ChB = chb\<rparr>])
        }
      })"
  by pat_completeness auto
termination
  by (relation "measure (\<lambda>(payload, off, out). length payload - off)")
    (auto simp: hotPairRecordFixedLen_def)

declare DecodeHotPairLoop.simps [simp del]

definition DecodeHotPairNotify :: "bytes \<Rightarrow> HotPairInfo list option" where
  "DecodeHotPairNotify payload = DecodeHotPairLoop payload 0 []"

text \<open>A reference parser that consumes the buffer from the front instead of moving an offset.\<close>

fun parse_hot_pairs :: "bytes \<Rightarrow> HotPairInfo list" where
  "parse_hot_pairs b =
     (if length b < hotPairRecordFixedLen then []
      else if unat (b ! 0) = 0 \<or> hotPairRecordFixedLen + unat (b ! 0) > length b then []
      else \<lparr>hp_Key = string_of_bytes (take (unat (b ! 0)) (drop 1 b)),
            hp_ChA = uint (Uint32 (take 4 (drop (1 + unat (b ! 0)) b))),
            hp_ChB = uint (Uint32 (take 4 (drop (5 + unat (b ! 0)) b)))\<rparr>
           # parse_hot_pairs (drop (hotPairRecordFixedLen + unat (b ! 0)) b))"

declare parse_hot_pairs.simps [simp del]

lemma DecodeHotPairLoop_parse:
  "off \<le> length payload \<Longrightarrow>
   DecodeHotPairLoop payload off out = Some (out @ parse_hot_pairs (drop off payload))"
proof (induction payload off out rule: DecodeHotPairLoop.induct)
  case (1 payload off out)
  let ?k = "unat (payload ! off)"
  show ?case
  proof (cases "off + hotPairRecordFixedLen > length payload")
    case True
    then show ?thesis
      by (auto simp: DecodeHotPairLoop.simps [of payload] parse_hot_pairs.simps [of "drop off payload"])
  next
    case False
    then have lt: "off < length payload"
      by (simp add: hotPairRecordFixedLen_def)
    show ?thesis
    proof (cases "?k = 0 \<or> off + hotPairRecordFixedLen + ?k > length payload")
      case True
      with False lt show ?thesis
        by (simp add: DecodeHotPairLoop.simps [of payload off] go_index_def
            parse_hot_pairs.simps [of "drop off payload"]) auto
    next
      case in_range: False
      let ?e = "\<lparr>hp_Key = string_of_bytes (take ?k (drop (off + 1) payload)),
            hp_ChA = uint (Uint32 (take 4 (drop (off + 1 + ?k) payload))),
            hp_ChB = uint (Uint32 (take 4 (drop (off + 5 + ?k) payload)))\<rparr>"
      have step: "DecodeHotPairLoop payload off out =
          DecodeHotPairLoop payload (off + hotPairRecordFixedLen + ?k) (out @ [?e])"
        using in_range False lt
        by (subst DecodeHotPairLoop.simps) (simp add: go_index_def go_slice_def hotPairRecordFixedLen_def)
      also have "\<dots> = Some ((out @ [?e]) @
          parse_hot_pairs (drop (off + hotPairRecordFixedLen + ?k) payload))"
        using "1.IH" [OF _ _ _ _ _ _ _] in_range False lt
        by (simp add: go_index_def go_slice_def hotPairRecordFixedLen_def)
      also have "\<dots> = Some (out @ parse_hot_pairs (drop off payload))"
        using in_range False lt
        by (subst (2) parse_hot_pairs.simps) (simp add: ac_simps hotPairRecordFixedLen_def, linarith)
      finally show ?thesis .
    qed
  qed
qed

lemma DecodeHotPairNotify_parse: "DecodeHotPairNotify b = Some (parse_hot_pairs b)"
  by (simp add: DecodeHotPairNotify_def DecodeHotPairLoop_parse)

text \<open>The records the encoder emits, and what a channel number becomes on the wire.\<close>

definition hot_pair_key_ok :: "HotPairInfo \<Rightarrow> bool" where
  "hot_pair_key_ok e \<longleftrightarrow> hp_Key e \<noteq> [] \<and> length (hp_Key e) \<le> 255"

definition hot_pair_wire :: "HotPairInfo \<Rightarrow> HotPairInfo" where
  "hot_pair_wire e = e\<lparr>hp_ChA := hp_ChA e mod 2 ^ 32, hp_ChB := hp_ChB e mod 2 ^ 32\<rparr>"

definition hot_pair_record :: "HotPairInfo \<Rightarrow> bytes" where
  "hot_pair_record e = [word_of_nat (length (hp_Key e))] @ bytes_of_string (hp_Key e)
     @ PutUint32 (word_of_int (hp_ChA e)) @ PutUint32 (word_of_int (hp_ChB e))"

lemma length_hot_pair_record: "length (hot_pair_record e) = hotPairRecordFixedLen + length (hp_Key e)"
  by (simp add: hot_pair_record_def hotPairRecordFixedLen_def)

lemma foldl_appendHotPairRecord:
  "foldl appendHotPairRecord buf es = buf @ concat (map hot_pair_record (filter hot_pair_key_ok es))"
  by (induction es arbitrary: buf)
    (auto simp: appendHotPairRecord_def hot_pair_record_def hot_pair_key_ok_def)

lemma EncodeHotPairNotify_concat:
  "EncodeHotPairNotify es = concat (map hot_pair_record (filter hot_pair_key_ok es))"
  by (simp add: EncodeHotPairNotify_def foldl_appendHotPairRecord)

lemma uint_word_of_int_32: "uint (word_of_int x :: 32 word) = x mod 2 ^ 32"
  by (simp add: uint_word_of_int)

lemma hot_pair_wire_eq:
  "hot_pair_wire e =
     \<lparr>hp_Key = hp_Key e, hp_ChA = hp_ChA e mod 2 ^ 32, hp_ChB = hp_ChB e mod 2 ^ 32\<rparr>"
  by (cases e) (simp add: hot_pair_wire_def)

lemma parse_hot_pairs_record:
  assumes "hot_pair_key_ok e"
  shows "parse_hot_pairs (hot_pair_record e @ rest) = hot_pair_wire e # parse_hot_pairs rest"
proof -
  have k: "unat (word_of_nat (length (hp_Key e)) :: byte) = length (hp_Key e)"
    using assms by (simp add: hot_pair_key_ok_def unat_of_nat)
  have len: "length (hp_Key e) \<noteq> 0" using assms by (simp add: hot_pair_key_ok_def)
  have d5: "drop (5 + length (hp_Key e)) (x # bytes_of_string (hp_Key e) @ PutUint32 a @ b) = b" for x a b
    by (simp add: drop_Cons')
  have d9: "drop (9 + length (hp_Key e)) (x # bytes_of_string (hp_Key e) @ PutUint32 a @ PutUint32 b @ c) = c"
    for x a b c
    by (simp add: drop_Cons')
  show ?thesis
    using len
    by (subst parse_hot_pairs.simps)
      (simp add: hot_pair_record_def hotPairRecordFixedLen_def k d5 d9 hot_pair_wire_eq
        uint_word_of_int_32)
qed

lemma parse_hot_pairs_truncated:
  assumes "hot_pair_key_ok e" "n < length (hot_pair_record e)"
  shows "parse_hot_pairs (take n (hot_pair_record e)) = []"
proof (cases "n < hotPairRecordFixedLen")
  case True
  then show ?thesis by (subst parse_hot_pairs.simps) simp
next
  case False
  have "unat (word_of_nat (length (hp_Key e)) :: byte) = length (hp_Key e)"
    using assms by (simp add: hot_pair_key_ok_def unat_of_nat)
  moreover have "take n (hot_pair_record e) ! 0 = word_of_nat (length (hp_Key e))"
    using False by (simp add: hot_pair_record_def hotPairRecordFixedLen_def)
  ultimately show ?thesis
    using assms(2) by (subst parse_hot_pairs.simps) (simp add: length_hot_pair_record)
qed

lemma parse_hot_pairs_records:
  "\<forall>e\<in>set es. hot_pair_key_ok e \<Longrightarrow>
   parse_hot_pairs (concat (map hot_pair_record es)) = map hot_pair_wire es"
proof (induction es)
  case Nil
  show ?case by (subst parse_hot_pairs.simps) (simp add: hotPairRecordFixedLen_def)
qed (simp add: parse_hot_pairs_record)

lemma parse_hot_pairs_prefix:
  "\<forall>e\<in>set es. hot_pair_key_ok e \<Longrightarrow>
   prefix (parse_hot_pairs (take n (concat (map hot_pair_record es)))) (map hot_pair_wire es)"
proof (induction es arbitrary: n)
  case Nil
  show ?case by (subst parse_hot_pairs.simps) (simp add: hotPairRecordFixedLen_def)
next
  case (Cons e es)
  show ?case
  proof (cases "n < length (hot_pair_record e)")
    case True
    with Cons.prems show ?thesis by (simp add: parse_hot_pairs_truncated)
  next
    case False
    with Cons show ?thesis by (simp add: parse_hot_pairs_record)
  qed
qed

lemma hot_pair_wire_id:
  "0 \<le> hp_ChA e \<Longrightarrow> hp_ChA e < 2 ^ 32 \<Longrightarrow> 0 \<le> hp_ChB e \<Longrightarrow> hp_ChB e < 2 ^ 32 \<Longrightarrow>
   hot_pair_wire e = e"
  by (simp add: hot_pair_wire_def)

section \<open>Hot-pair connection identifiers\<close>

definition hotPairKeyPrefix :: string where
  "hotPairKeyPrefix = ''prebind-''"

definition hotPairConnIDSep :: char where
  "hotPairConnIDSep = CHR ''.''"

definition HotPairConnID :: "string \<Rightarrow> string \<Rightarrow> string" where
  "HotPairConnID key uniqueSuffix =
     (if key = [] \<or> uniqueSuffix = [] then [] else key @ [hotPairConnIDSep] @ uniqueSuffix)"

text \<open>\<^verbatim>\<open>strings.IndexByte\<close>, with \<open>-1\<close> for a byte that does not occur.\<close>

definition IndexByte :: "string \<Rightarrow> char \<Rightarrow> int" where
  "IndexByte s c = (let n = length (takeWhile (\<lambda>x. x \<noteq> c) s) in if n < length s then int n else -1)"

definition SplitHotPairConnID :: "string \<Rightarrow> (string \<times> string) option" where
  "SplitHotPairConnID connID =
     (let idx = IndexByte connID hotPairConnIDSep
      in if idx \<le> 0 \<or> idx = int (length connID) - 1 then None
         else let key = take (nat idx) connID; suf = drop (nat idx + 1) connID
              in if \<not> prefix hotPairKeyPrefix key then None else Some (key, suf))"

lemma IndexByte_append:
  assumes "c \<notin> set a"
  shows "IndexByte (a @ c # b) c = int (length a)"
proof -
  have "takeWhile (\<lambda>x. x \<noteq> c) a = a"
    using assms by (auto simp: takeWhile_eq_all_conv)
  then show ?thesis by (simp add: IndexByte_def Let_def takeWhile_tail)
qed

lemma IndexByte_pos:
  assumes "0 \<le> IndexByte s c"
  shows "s = take (nat (IndexByte s c)) s @ c # drop (nat (IndexByte s c) + 1) s"
    and "c \<notin> set (take (nat (IndexByte s c)) s)"
proof -
  let ?a = "takeWhile (\<lambda>x. x \<noteq> c) s"
  from assms have lt: "length ?a < length s" and eq: "nat (IndexByte s c) = length ?a"
    by (auto simp: IndexByte_def Let_def split: if_splits)
  have "s ! length ?a = c"
    using nth_length_takeWhile [OF lt] by simp
  with lt show "s = take (nat (IndexByte s c)) s @ c # drop (nat (IndexByte s c) + 1) s"
    unfolding eq by (metis Suc_eq_plus1 id_take_nth_drop)
  show "c \<notin> set (take (nat (IndexByte s c)) s)"
    unfolding eq by (metis (mono_tags) set_takeWhileD takeWhile_eq_take)
qed

lemma SplitHotPairConnID_HotPairConnID:
  assumes "prefix hotPairKeyPrefix key" "hotPairConnIDSep \<notin> set key" "suf \<noteq> []"
  shows "SplitHotPairConnID (HotPairConnID key suf) = Some (key, suf)"
proof -
  have "key \<noteq> []" using assms(1) by (auto simp: hotPairKeyPrefix_def)
  with assms show ?thesis
    by (simp add: SplitHotPairConnID_def HotPairConnID_def IndexByte_append Let_def)
qed

lemma SplitHotPairConnID_SomeD:
  assumes "SplitHotPairConnID connID = Some (key, suf)"
  shows "connID = HotPairConnID key suf" "prefix hotPairKeyPrefix key"
    "hotPairConnIDSep \<notin> set key" "suf \<noteq> []"
proof -
  let ?i = "IndexByte connID hotPairConnIDSep"
  from assms have i: "0 < ?i" "?i \<noteq> int (length connID) - 1"
    and k: "key = take (nat ?i) connID" and s: "suf = drop (nat ?i + 1) connID"
    and p: "prefix hotPairKeyPrefix key"
    by (auto simp: SplitHotPairConnID_def Let_def not_le split: if_splits)
  show "prefix hotPairKeyPrefix key" by (rule p)
  show "hotPairConnIDSep \<notin> set key"
    using IndexByte_pos(2) [of connID hotPairConnIDSep] i k by simp
  have eq: "connID = key @ hotPairConnIDSep # suf"
    using IndexByte_pos(1) [of connID hotPairConnIDSep] i k s by simp
  have "int (length key) = ?i"
    using i k by (auto simp: IndexByte_def Let_def split: if_splits)
  then have "length connID \<noteq> length key + 1" using i by auto
  with eq show "suf \<noteq> []" by auto
  moreover have "key \<noteq> []" using p by (auto simp: hotPairKeyPrefix_def)
  ultimately show "connID = HotPairConnID key suf"
    using eq by (simp add: HotPairConnID_def)
qed

section \<open>Log identifiers and close errors\<close>

definition ShortID :: "string \<Rightarrow> string" where
  "ShortID s =
     (if prefix ''prebind-'' s \<and> length s \<ge> 16 then take 16 s
      else if length s \<ge> 8 then take 8 s
      else s)"

function FindSubstringLoop :: "string \<Rightarrow> string \<Rightarrow> nat \<Rightarrow> bool" where
  "FindSubstringLoop s substr i =
     (if int i \<le> int (length s) - int (length substr) then
        (if go_slice s i (i + length substr) = Some substr then True
         else FindSubstringLoop s substr (Suc i))
      else False)"
  by pat_completeness auto
termination
  by (relation "measure (\<lambda>(s, substr, i). Suc (length s) - i)") auto

declare FindSubstringLoop.simps [simp del]

definition FindSubstring :: "string \<Rightarrow> string \<Rightarrow> bool" where
  "FindSubstring s substr = FindSubstringLoop s substr 0"

definition ContainsString :: "string \<Rightarrow> string \<Rightarrow> bool" where
  "ContainsString s substr \<longleftrightarrow> length s \<ge> length substr \<and> FindSubstring s substr"

text \<open>
  What \<^verbatim>\<open>IsNormalCloseError\<close> observes of a non-nil Go error: whether its chain holds
  \<^verbatim>\<open>io.EOF\<close> or \<^verbatim>\<open>net.ErrClosed\<close>, the code of a WebSocket close error in the chain, the
  \<^verbatim>\<open>Timeout()\<close> of a \<^verbatim>\<open>net.Error\<close> in the chain, and its text.
\<close>

record go_error =
  err_is_EOF :: bool
  err_is_ErrClosed :: bool
  err_CloseError :: "int option"
  err_net_Timeout :: "bool option"
  err_Error :: string

definition IsNormalCloseError :: "go_error option \<Rightarrow> bool" where
  "IsNormalCloseError err =
     (case err of
        None \<Rightarrow> False
      | Some e \<Rightarrow>
          if err_is_EOF e \<or> err_is_ErrClosed e then True
          else if (case err_CloseError e of None \<Rightarrow> False
                   | Some code \<Rightarrow> code = 1000 \<or> code = 1001 \<or> code = 1005) then True
          else if err_net_Timeout e = Some True then True
          else ContainsString (err_Error e) ''tls: bad record MAC''
             \<or> ContainsString (err_Error e) ''use of closed network connection''
             \<or> ContainsString (err_Error e) ''connection reset by peer''
             \<or> ContainsString (err_Error e) ''broken pipe''
             \<or> ContainsString (err_Error e) ''websocket: close sent'')"

lemma FindSubstringLoop_iff:
  "FindSubstringLoop s substr i \<longleftrightarrow>
   (\<exists>j\<ge>i. j + length substr \<le> length s \<and> take (length substr) (drop j s) = substr)"
proof (induction s substr i rule: FindSubstringLoop.induct)
  case (1 s substr i)
  show ?case
  proof (cases "int i \<le> int (length s) - int (length substr)")
    case False
    then show ?thesis by (subst FindSubstringLoop.simps) auto
  next
    case in_range: True
    show ?thesis
    proof (cases "take (length substr) (drop i s) = substr")
      case True
      with in_range show ?thesis
        by (subst FindSubstringLoop.simps) (auto simp: go_slice_def)
    next
      case False
      then have "(\<exists>j\<ge>i. j + length substr \<le> length s \<and> take (length substr) (drop j s) = substr)
        \<longleftrightarrow> (\<exists>j\<ge>Suc i. j + length substr \<le> length s \<and> take (length substr) (drop j s) = substr)"
        by (metis Suc_le_eq le_eq_less_or_eq less_Suc_eq_le)
      with False in_range "1.IH" show ?thesis
        by (subst FindSubstringLoop.simps) (auto simp: go_slice_def)
    qed
  qed
qed

lemma ContainsString_sublist: "ContainsString s substr \<longleftrightarrow> sublist substr s"
proof
  assume "ContainsString s substr"
  then obtain j where "take (length substr) (drop j s) = substr"
    by (auto simp: ContainsString_def FindSubstring_def FindSubstringLoop_iff)
  then show "sublist substr s"
    by (metis sublist_drop sublist_take sublist_order.order_trans)
next
  assume "sublist substr s"
  then obtain a b where "s = a @ substr @ b" by (auto simp: sublist_def)
  then show "ContainsString s substr"
    by (auto simp: ContainsString_def FindSubstring_def FindSubstringLoop_iff intro!: exI [of _ "length a"])
qed

section \<open>Properties\<close>

text \<open>Property C4: a frame whose lengths fit the header decodes to exactly the message type,
  connection identifier, metadata and payload that were encoded, whatever bytes follow it.\<close>

theorem frame_roundtrip:
  assumes "frame_fits connID meta payload"
  shows "DecodeMessage (EncodeMessage t connID meta payload @ rest) =
    Some (Inr \<lparr>f_type = t, f_connID = connID, f_meta = meta, f_payload = payload\<rparr>)"
  using assms by (simp add: frame_fits_def DecodeMessage_EncodeMessage)

theorem frame_roundtrip_witness:
  "frame_fits ''ab'' [1] [2, 3] \<and>
   DecodeMessage (EncodeMessage MsgTCPData ''ab'' [1] [2, 3] @ [9]) =
     Some (Inr \<lparr>f_type = MsgTCPData, f_connID = ''ab'', f_meta = [1], f_payload = [2, 3]\<rparr>)"
proof -
  have h: "frame_fits ''ab'' [1] [2, 3]" by (simp add: frame_fits_def)
  show ?thesis using h frame_roundtrip [OF h, of MsgTCPData "[9]"] by simp
qed

text \<open>Property C25: the decoder returns on every buffer (it never slices or indexes out of
  range); it reports a short frame exactly when there is no complete header, and an invalid
  length exactly when the buffer is shorter than the header announces; otherwise it returns parts
  of exactly the announced lengths, and the buffer is the encoding of these parts followed by
  bytes that the decoder leaves alone.\<close>

theorem DecodeMessage_never_panics:
  "\<exists>r. DecodeMessage b = Some r \<and>
     (r = Inl FrameTooShort \<longleftrightarrow> length b < headerLen) \<and>
     (r = Inl InvalidLength \<longleftrightarrow> headerLen \<le> length b \<and>
        length b < headerLen + unat (b ! 1) + unat (Uint16 (take 2 (drop 2 b)))
                   + unat (Uint32 (take 4 (drop 4 b)))) \<and>
     (case r of
        Inl e \<Rightarrow> True
      | Inr f \<Rightarrow> length (f_connID f) = unat (b ! 1) \<and> length (f_meta f) = unat (Uint16 (take 2 (drop 2 b))) \<and>
          length (f_payload f) = unat (Uint32 (take 4 (drop 4 b))) \<and>
          (\<exists>rest. b = EncodeMessage (f_type f) (f_connID f) (f_meta f) (f_payload f) @ rest))"
proof -
  obtain r where r: "DecodeMessage b = Some r"
    using DecodeMessage_total [of b] by auto
  with DecodeMessage_errors [of b] DecodeMessage_parts(2-5) [of b] show ?thesis
    by (auto simp: prefix_def split: sum.split)
qed

text \<open>Fact: every frame the decoder accepts is canonical: encoding the decoded fields
  again yields the leading bytes of the received buffer, and the fields fit the header.\<close>

theorem DecodeMessage_canonical:
  assumes "DecodeMessage b = Some (Inr f)"
  shows "frame_fits (f_connID f) (f_meta f) (f_payload f) \<and>
    prefix (EncodeMessage (f_type f) (f_connID f) (f_meta f) (f_payload f)) b"
  using DecodeMessage_parts [OF assms] by simp

theorem DecodeMessage_canonical_witness:
  "prefix (EncodeMessage 3 ''a'' [] []) ([3, 1, 0, 0, 0, 0, 0, 0, 97, 7] :: bytes)"
proof -
  have d: "DecodeMessage [3, 1, 0, 0, 0, 0, 0, 0, 97, 7] =
      Some (Inr \<lparr>f_type = 3, f_connID = ''a'', f_meta = [], f_payload = []\<rparr>)"
    using DecodeMessage_header [of "[0, 0]" "[0, 0, 0, 0]" 3 1 "[97, 7]"]
    by (simp add: Uint16_def Uint32_def headerLen_def maxInt_def string_of_bytes_def char_of_def bit_0)
  show ?thesis using DecodeMessage_canonical [OF d] by simp
qed

text \<open>Fact: a batch of hot-pair records survives the wire: decoding an encoded batch
  returns, in order, every record whose key is non-empty and at most 255 bytes long, with its
  channel numbers reduced to 32 bits.\<close>

theorem hot_pair_notify_roundtrip:
  "DecodeHotPairNotify (EncodeHotPairNotify entries) =
     Some (map hot_pair_wire (filter hot_pair_key_ok entries))"
  by (simp add: DecodeHotPairNotify_parse EncodeHotPairNotify_concat parse_hot_pairs_records)

text \<open>Fact: a truncated batch is tolerated: decoding any prefix of an encoded batch
  returns a prefix of the records, never a damaged record and never a panic.\<close>

theorem hot_pair_notify_truncated:
  "\<exists>out. DecodeHotPairNotify (take n (EncodeHotPairNotify entries)) = Some out \<and>
     prefix out (map hot_pair_wire (filter hot_pair_key_ok entries))"
  by (simp add: DecodeHotPairNotify_parse EncodeHotPairNotify_concat parse_hot_pairs_prefix)

text \<open>Fact: splitting a hot-path connection identifier is the exact inverse of composing
  it: it succeeds with a key and suffix precisely on the identifiers composed from a key with
  the prebind prefix and without a separator, and a non-empty suffix.\<close>

theorem SplitHotPairConnID_iff:
  "SplitHotPairConnID connID = Some (key, suf) \<longleftrightarrow>
     connID = HotPairConnID key suf \<and> prefix hotPairKeyPrefix key \<and>
     hotPairConnIDSep \<notin> set key \<and> suf \<noteq> []"
  by (auto simp: SplitHotPairConnID_HotPairConnID dest: SplitHotPairConnID_SomeD)

text \<open>Fact: the hand-written substring search agrees with the specification of
  containment: it answers true exactly when the text is some prefix, the substring, and some
  rest.\<close>

theorem ContainsString_iff: "ContainsString s substr \<longleftrightarrow> (\<exists>a b. s = a @ substr @ b)"
  by (simp add: ContainsString_sublist sublist_def)

end
