(* ===== verification/Hotpair_Table.thy ===== *)
theory Hotpair_Table
  imports Protocol
begin

text \<open>
  The server's passive table of prewarmed channel pairs (\<^verbatim>\<open>src/hotpair_table.go\<close>): per client
  and pair key one entry with the two channels and the time of the last notification. The
  table is filled by \<open>HandleNotify\<close>, read by \<open>Lookup\<close> (promotion of a forward dial) and
  \<open>Newest\<close> (reverse dial), and swept on expiry, channel loss and client departure. Each
  operation runs under the table's mutex and is one atomic state update here; the current
  time is an argument.
\<close>

section \<open>State and operations\<close>

record HotPairEntry =
  he_Key :: string
  he_ChA :: int
  he_ChB :: int
  he_At :: instant

definition hotPairEntryTTL :: duration where
  "hotPairEntryTTL = 10 * 60 * time_Second"

type_synonym hot_entries = "(string, HotPairEntry) dict"
type_synonym HotPairTable = "(string, hot_entries) dict"

definition NewHotPairTable :: HotPairTable where
  "NewHotPairTable = []"

definition expired :: "instant \<Rightarrow> HotPairEntry \<Rightarrow> bool" where
  "expired now e \<longleftrightarrow> now - he_At e > hotPairEntryTTL"

text \<open>One iteration of the upsert loop: records without a key or with a non-positive channel
  are skipped.\<close>

definition upsertEntry :: "instant \<Rightarrow> hot_entries \<Rightarrow> HotPairInfo \<Rightarrow> hot_entries" where
  "upsertEntry now m e =
     (if hp_Key e = [] \<or> hp_ChA e \<le> 0 \<or> hp_ChB e \<le> 0 then m
      else dict_set m (hp_Key e)
             \<lparr>he_Key = hp_Key e, he_ChA = hp_ChA e, he_ChB = hp_ChB e, he_At = now\<rparr>)"

definition HandleNotify :: "HotPairTable \<Rightarrow> string \<Rightarrow> bytes \<Rightarrow> instant \<Rightarrow> HotPairTable" where
  "HandleNotify t clientID payload now =
     (case DecodeHotPairNotify payload of
        None \<Rightarrow> t
      | Some entries \<Rightarrow>
          if entries = [] then t
          else let m = (case dict_get t clientID of None \<Rightarrow> [] | Some m \<Rightarrow> m);
                   m = dict_filter (\<lambda>_ e. \<not> expired now e) m;
                   m = foldl (upsertEntry now) m entries
               in dict_set t clientID m)"

definition Lookup :: "HotPairTable \<Rightarrow> string \<Rightarrow> string \<Rightarrow> instant \<Rightarrow> HotPairEntry option \<times> HotPairTable" where
  "Lookup t clientID key now =
     (if clientID = [] \<or> key = [] then (None, t)
      else case dict_get t clientID of
             None \<Rightarrow> (None, t)
           | Some m \<Rightarrow>
               (case dict_get m key of
                  None \<Rightarrow> (None, t)
                | Some e \<Rightarrow>
                    if expired now e then (None, dict_set t clientID (dict_del m key))
                    else (Some e, t)))"

text \<open>The selection of \<^verbatim>\<open>Newest\<close>: a later entry replaces the current best only if it is strictly
  newer.\<close>

definition newerEntry :: "HotPairEntry option \<Rightarrow> HotPairEntry \<Rightarrow> HotPairEntry option" where
  "newerEntry best e =
     (case best of None \<Rightarrow> Some e | Some b \<Rightarrow> if he_At e > he_At b then Some e else Some b)"

definition Newest :: "HotPairTable \<Rightarrow> string \<Rightarrow> instant \<Rightarrow> HotPairEntry option \<times> HotPairTable" where
  "Newest t clientID now =
     (if clientID = [] then (None, t)
      else case dict_get t clientID of
             None \<Rightarrow> (None, t)
           | Some m \<Rightarrow>
               let m' = dict_filter (\<lambda>_ e. \<not> expired now e) m
               in (foldl newerEntry None (map snd m'), dict_set t clientID m'))"

definition dropChannel :: "chid \<Rightarrow> hot_entries \<Rightarrow> hot_entries" where
  "dropChannel chID m = dict_filter (\<lambda>_ e. \<not> (he_ChA e = chID \<or> he_ChB e = chID)) m"

definition InvalidateChannel :: "HotPairTable \<Rightarrow> chid \<Rightarrow> HotPairTable" where
  "InvalidateChannel t chID =
     filter (\<lambda>(_, m). m \<noteq> []) (map (\<lambda>(c, m). (c, dropChannel chID m)) t)"

definition InvalidateClient :: "HotPairTable \<Rightarrow> string \<Rightarrow> HotPairTable" where
  "InvalidateClient t clientID = dict_del t clientID"

definition SizeForTest :: "HotPairTable \<Rightarrow> nat \<times> nat" where
  "SizeForTest t = (length t, sum_list (map (length \<circ> snd) t))"

section \<open>Invariant\<close>

text \<open>One table per client, one entry per key, every entry stored under its own key and with
  positive channels.\<close>

definition entry_ok :: "string \<Rightarrow> HotPairEntry \<Rightarrow> bool" where
  "entry_ok k e \<longleftrightarrow> he_Key e = k \<and> k \<noteq> [] \<and> 0 < he_ChA e \<and> 0 < he_ChB e"

definition entries_ok :: "hot_entries \<Rightarrow> bool" where
  "entries_ok m \<longleftrightarrow> dict_ok m \<and> (\<forall>(k, e)\<in>set m. entry_ok k e)"

definition table_ok :: "HotPairTable \<Rightarrow> bool" where
  "table_ok t \<longleftrightarrow> dict_ok t \<and> (\<forall>(c, m)\<in>set t. entries_ok m)"

lemma entries_ok_Nil [simp]: "entries_ok []"
  by (simp add: entries_ok_def)

lemma entries_ok_filter [simp]: "entries_ok m \<Longrightarrow> entries_ok (dict_filter P m)"
  by (auto simp: entries_ok_def dict_filter_def dict_ok_def distinct_map_filter)

lemma entries_ok_del [simp]: "entries_ok m \<Longrightarrow> entries_ok (dict_del m k)"
  using dict_del_subset [of k m] by (auto simp: entries_ok_def)

lemma entries_ok_set: "entries_ok m \<Longrightarrow> entry_ok k e \<Longrightarrow> entries_ok (dict_set m k e)"
  using dict_set_subset [of k e m] by (auto simp: entries_ok_def)

lemma entries_ok_upsert: "entries_ok m \<Longrightarrow> entries_ok (upsertEntry now m e)"
  by (auto simp: upsertEntry_def entry_ok_def intro!: entries_ok_set)

lemma entries_ok_upserts: "entries_ok m \<Longrightarrow> entries_ok (foldl (upsertEntry now) m es)"
  by (induction es arbitrary: m) (auto intro: entries_ok_upsert)

lemma table_ok_get: "table_ok t \<Longrightarrow> dict_get t c = Some m \<Longrightarrow> entries_ok m"
  by (auto simp: table_ok_def dest!: map_of_SomeD)

lemma table_ok_set: "table_ok t \<Longrightarrow> entries_ok m \<Longrightarrow> table_ok (dict_set t c m)"
  using dict_set_subset [of c m t] by (auto simp: table_ok_def)

lemma table_ok_HandleNotify [inv_intros]: "table_ok t \<Longrightarrow> table_ok (HandleNotify t c payload now)"
  by (auto simp: HandleNotify_def Let_def split: option.splits
      intro!: table_ok_set entries_ok_upserts dest: table_ok_get)

lemma table_ok_Lookup [inv_intros]: "table_ok t \<Longrightarrow> table_ok (snd (Lookup t c k now))"
  by (auto simp: Lookup_def split: option.splits intro!: table_ok_set dest: table_ok_get)

lemma table_ok_Newest [inv_intros]: "table_ok t \<Longrightarrow> table_ok (snd (Newest t c now))"
  by (auto simp: Newest_def Let_def split: option.splits intro!: table_ok_set dest: table_ok_get)

lemma table_ok_InvalidateChannel [inv_intros]: "table_ok t \<Longrightarrow> table_ok (InvalidateChannel t ch)"
proof -
  assume ok: "table_ok t"
  have "distinct (map fst (map (\<lambda>(c, m). (c, dropChannel ch m)) t))"
    using ok by (simp add: table_ok_def dict_ok_def case_prod_beta comp_def)
  then have "dict_ok (InvalidateChannel t ch)"
    unfolding InvalidateChannel_def dict_ok_def by (rule distinct_map_filter)
  with ok show ?thesis
    by (auto simp: table_ok_def InvalidateChannel_def dropChannel_def)
qed

lemma table_ok_InvalidateClient [inv_intros]: "table_ok t \<Longrightarrow> table_ok (InvalidateClient t c)"
  using dict_del_subset [of c t] by (auto simp: table_ok_def InvalidateClient_def)

lemma table_ok_New [simp]: "table_ok NewHotPairTable"
  by (simp add: table_ok_def NewHotPairTable_def)

section \<open>What a client of the table sees\<close>

text \<open>The live entry of a client and key at a given time: the abstract contents of the table.\<close>

definition live :: "HotPairTable \<Rightarrow> instant \<Rightarrow> string \<Rightarrow> string \<Rightarrow> HotPairEntry option" where
  "live t now c k =
     (case dict_get t c of None \<Rightarrow> None
      | Some m \<Rightarrow> (case dict_get m k of None \<Rightarrow> None
                   | Some e \<Rightarrow> if expired now e then None else Some e))"

text \<open>The record a batch installs under a key: the last usable one.\<close>

definition usable :: "HotPairInfo \<Rightarrow> bool" where
  "usable e \<longleftrightarrow> hp_Key e \<noteq> [] \<and> 0 < hp_ChA e \<and> 0 < hp_ChB e"

fun installed :: "instant \<Rightarrow> HotPairInfo list \<Rightarrow> string \<Rightarrow> HotPairEntry option" where
  "installed now [] k = None"
| "installed now (e # es) k =
     (case installed now es k of
        Some x \<Rightarrow> Some x
      | None \<Rightarrow> if usable e \<and> hp_Key e = k
          then Some \<lparr>he_Key = k, he_ChA = hp_ChA e, he_ChB = hp_ChB e, he_At = now\<rparr> else None)"

lemma installed_fresh: "installed now es k = Some e \<Longrightarrow> he_At e = now"
  by (induction es) (auto split: option.splits if_splits)

lemma not_expired_now: "he_At e = now \<Longrightarrow> \<not> expired now e"
  by (simp add: expired_def hotPairEntryTTL_def time_Second_def)

lemma expired_mono: "expired now e \<Longrightarrow> now \<le> now' \<Longrightarrow> expired now' e"
  by (simp add: expired_def)

lemma dict_get_upserts:
  "dict_get (foldl (upsertEntry now) m es) k =
     (case installed now es k of Some e \<Rightarrow> Some e | None \<Rightarrow> dict_get m k)"
  by (induction es arbitrary: m) (auto simp: upsertEntry_def usable_def split: option.splits)

lemma live_HandleNotify:
  assumes "table_ok t"
  shows "live (HandleNotify t c payload now) now c' k =
    (case DecodeHotPairNotify payload of
       Some es \<Rightarrow> (if c' = c then case installed now es k of Some e \<Rightarrow> Some e | None \<Rightarrow> live t now c k
                   else live t now c' k)
     | None \<Rightarrow> live t now c' k)"
proof (cases "dict_get t c")
  case None
  then show ?thesis
    by (auto simp: live_def HandleNotify_def Let_def dict_get_upserts dict_filter_def
        split: option.splits dest: installed_fresh not_expired_now)
next
  case (Some m)
  then have "dict_ok m" using assms table_ok_get by (auto simp: entries_ok_def)
  with Some show ?thesis
    by (auto simp: live_def HandleNotify_def Let_def dict_get_upserts dict_get_filter
        split: option.splits if_splits dest: installed_fresh not_expired_now)
qed

lemma fst_Lookup:
  "fst (Lookup t c k now) = (if c = [] \<or> k = [] then None else live t now c k)"
  by (auto simp: Lookup_def live_def split: option.splits)

lemma live_Lookup: "now \<le> now' \<Longrightarrow> live (snd (Lookup t c k now)) now' c' k' = live t now' c' k'"
  by (auto simp: Lookup_def live_def split: option.splits intro: expired_mono)

lemma live_Newest:
  assumes "table_ok t" "now \<le> now'"
  shows "live (snd (Newest t c now)) now' c' k' = live t now' c' k'"
proof (cases "dict_get t c")
  case None
  then show ?thesis by (simp add: Newest_def)
next
  case (Some m)
  then have "dict_ok m" using assms table_ok_get by (auto simp: entries_ok_def)
  with Some assms(2) show ?thesis
    by (auto simp: live_def Newest_def Let_def dict_get_filter split: option.splits intro: expired_mono)
qed

lemma dict_get_InvalidateChannel:
  "dict_ok t \<Longrightarrow> dict_get (InvalidateChannel t ch) c =
    (case dict_get t c of None \<Rightarrow> None
     | Some m \<Rightarrow> if dropChannel ch m = [] then None else Some (dropChannel ch m))"
proof (induction t)
  case (Cons x t)
  obtain a m where x: "x = (a, m)" by fastforce
  from Cons.prems x have ok: "dict_ok t" and "map_of t a = None"
    by (auto simp: dict_ok_def map_of_eq_None_iff)
  with Cons.IH [OF ok] x show ?case
    by (auto simp: InvalidateChannel_def split: option.splits)
qed (simp add: InvalidateChannel_def)

lemma live_InvalidateChannel:
  assumes "table_ok t"
  shows "live (InvalidateChannel t ch) now c k =
    (case live t now c k of None \<Rightarrow> None
     | Some e \<Rightarrow> if he_ChA e = ch \<or> he_ChB e = ch then None else Some e)"
proof (cases "dict_get t c")
  case None
  with assms show ?thesis
    by (simp add: live_def dict_get_InvalidateChannel table_ok_def)
next
  case (Some m)
  then have "dict_ok m" using assms table_ok_get by (auto simp: entries_ok_def)
  then have get: "dict_get (dropChannel ch m) k = (case dict_get m k of None \<Rightarrow> None
      | Some e \<Rightarrow> if he_ChA e = ch \<or> he_ChB e = ch then None else Some e)"
    by (auto simp: dropChannel_def dict_get_filter split: option.splits)
  show ?thesis
  proof (cases "dropChannel ch m = []")
    case True
    then have "dict_get (dropChannel ch m) k = None" by simp
    with get True Some assms show ?thesis
      by (auto simp: live_def dict_get_InvalidateChannel table_ok_def split: option.splits if_splits)
  next
    case False
    with get Some assms show ?thesis
      by (auto simp: live_def dict_get_InvalidateChannel table_ok_def split: option.splits)
  qed
qed

lemma live_InvalidateClient: "live (InvalidateClient t c) now c' k = (if c' = c then None else live t now c' k)"
  by (simp add: live_def InvalidateClient_def)

lemma foldl_newerEntry_Some:
  "\<exists>b'. foldl newerEntry (Some b) es = Some b' \<and> b' \<in> insert b (set es) \<and>
     he_At b \<le> he_At b' \<and> (\<forall>e\<in>set es. he_At e \<le> he_At b')"
proof (induction es arbitrary: b)
  case (Cons e es)
  show ?case
  proof (cases "he_At e > he_At b")
    case True
    with Cons.IH [of e] show ?thesis by (auto simp: newerEntry_def)
  next
    case False
    with Cons.IH [of b] show ?thesis by (force simp: newerEntry_def)
  qed
qed simp

lemma foldl_newerEntry:
  "foldl newerEntry None es = None \<longleftrightarrow> es = []"
  "foldl newerEntry None es = Some b \<Longrightarrow> b \<in> set es \<and> (\<forall>e\<in>set es. he_At e \<le> he_At b)"
  by (cases es; use foldl_newerEntry_Some [of "hd es" "tl es"] in \<open>auto simp: newerEntry_def\<close>)+

lemma Newest_spec:
  assumes ok: "table_ok t" and c: "c \<noteq> []"
  shows "case fst (Newest t c now) of
      None \<Rightarrow> (\<forall>k. live t now c k = None)
    | Some e \<Rightarrow> live t now c (he_Key e) = Some e \<and>
        (\<forall>k e'. live t now c k = Some e' \<longrightarrow> he_At e' \<le> he_At e)"
proof (cases "dict_get t c")
  case None
  with c show ?thesis by (simp add: Newest_def live_def)
next
  case (Some m)
  then have mok: "entries_ok m" using ok table_ok_get by blast
  let ?m = "dict_filter (\<lambda>_ e. \<not> expired now e) m"
  have mem: "(k, e) \<in> set ?m \<longleftrightarrow> live t now c k = Some e" for k e
  proof -
    have "(k, e) \<in> set ?m \<longleftrightarrow> dict_get ?m k = Some e"
      using mok by (intro dict_get_in_set) (simp add: entries_ok_def)
    also have "\<dots> \<longleftrightarrow> live t now c k = Some e"
      using Some mok by (auto simp: live_def entries_ok_def dict_get_filter split: option.splits)
    finally show ?thesis .
  qed
  have keys: "(k, e) \<in> set ?m \<Longrightarrow> he_Key e = k" for k e
    using mok by (auto simp: entries_ok_def entry_ok_def dict_filter_def)
  have fst: "fst (Newest t c now) = foldl newerEntry None (map snd ?m)"
    using Some c by (simp add: Newest_def Let_def)
  show ?thesis
  proof (cases "fst (Newest t c now)")
    case None
    then have "?m = []" using fst foldl_newerEntry(1) by simp
    with mem None show ?thesis by (auto intro: ccontr)
  next
    case (Some e)
    then have "e \<in> snd ` set ?m" and max: "\<forall>e'\<in>snd ` set ?m. he_At e' \<le> he_At e"
      using foldl_newerEntry(2) [of "map snd ?m" e] fst by auto
    then obtain k where "(k, e) \<in> set ?m" by force
    with keys mem have "live t now c (he_Key e) = Some e" by auto
    with Some max mem show ?thesis by force
  qed
qed

section \<open>The table as a directory of channel pairs\<close>

text \<open>
  What the dialling code relies on: losing a channel or a client removes exactly the pairs it
  carries. Whatever the directory, a pair that is still offered never uses a lost channel.
\<close>

locale pair_directory =
  fixes view :: "'t \<Rightarrow> instant \<Rightarrow> string \<Rightarrow> string \<Rightarrow> HotPairEntry option"
    and drop_channel :: "'t \<Rightarrow> chid \<Rightarrow> 't"
    and drop_client :: "'t \<Rightarrow> string \<Rightarrow> 't"
    and wf :: "'t \<Rightarrow> bool"
  assumes view_drop_channel: "wf t \<Longrightarrow> view (drop_channel t ch) now c k =
      (case view t now c k of None \<Rightarrow> None
       | Some e \<Rightarrow> if he_ChA e = ch \<or> he_ChB e = ch then None else Some e)"
    and view_drop_client: "wf t \<Longrightarrow> view (drop_client t c) now c' k = (if c' = c then None else view t now c' k)"
    and wf_drop_channel: "wf t \<Longrightarrow> wf (drop_channel t ch)"
    and wf_drop_client: "wf t \<Longrightarrow> wf (drop_client t c)"
begin

lemma wf_drop_channels: "wf t \<Longrightarrow> wf (foldl drop_channel t chs)"
  by (induction chs arbitrary: t) (auto intro: wf_drop_channel)

lemma view_drop_channels:
  "wf t \<Longrightarrow> view (foldl drop_channel t chs) now c k = Some e \<longleftrightarrow>
     view t now c k = Some e \<and> he_ChA e \<notin> set chs \<and> he_ChB e \<notin> set chs"
  by (induction chs arbitrary: t)
    (auto simp: wf_drop_channel view_drop_channel split: option.splits if_splits)

lemma offered_pairs_avoid_lost_channels:
  "wf t \<Longrightarrow> view (drop_client (foldl drop_channel t chs) d) now c k = Some e \<Longrightarrow>
   c \<noteq> d \<and> he_ChA e \<notin> set chs \<and> he_ChB e \<notin> set chs"
  by (auto simp: view_drop_client wf_drop_channels view_drop_channels split: if_splits)

end

interpretation hot: pair_directory live InvalidateChannel InvalidateClient table_ok
  by unfold_locales (simp_all add: live_InvalidateChannel live_InvalidateClient
      table_ok_InvalidateChannel table_ok_InvalidateClient)

section \<open>Refinement of a time-stamped directory\<close>

text \<open>
  What the table promises, without sweeping and without per-client maps: a directory remembers
  the last record announced under a client and key until a channel of the record or the client is
  lost, and an entry is visible while it is younger than the time to live. The code deletes
  expired entries at three different places and empty client maps at one; none of that shows.
\<close>

datatype table_op =
    Notify string bytes
  | Find string string
  | Freshest string
  | LoseChannel chid
  | LoseClient string

type_synonym directory = "string \<Rightarrow> string \<Rightarrow> HotPairEntry option"

definition visible :: "directory \<Rightarrow> instant \<Rightarrow> directory" where
  "visible d now c k = (case d c k of None \<Rightarrow> None | Some e \<Rightarrow> if expired now e then None else Some e)"

fun dir_next :: "instant \<Rightarrow> table_op \<Rightarrow> directory \<Rightarrow> directory" where
  "dir_next now (Notify c payload) d =
     (\<lambda>c' k. if c' = c then case installed now (parse_hot_pairs payload) k of
                             Some e \<Rightarrow> Some e | None \<Rightarrow> d c k
             else d c' k)"
| "dir_next now (LoseChannel ch) d =
     (\<lambda>c k. case d c k of None \<Rightarrow> None
            | Some e \<Rightarrow> if he_ChA e = ch \<or> he_ChB e = ch then None else Some e)"
| "dir_next now (LoseClient c) d = (\<lambda>c' k. if c' = c then None else d c' k)"
| "dir_next now (Find c k) d = d"
| "dir_next now (Freshest c) d = d"

text \<open>The answers the directory allows: a search has one, the freshest entry may be any of the
  newest.\<close>

fun dir_answer :: "instant \<Rightarrow> table_op \<Rightarrow> directory \<Rightarrow> HotPairEntry option \<Rightarrow> bool" where
  "dir_answer now (Find c k) d a \<longleftrightarrow> a = (if c = [] \<or> k = [] then None else visible d now c k)"
| "dir_answer now (Freshest c) d a \<longleftrightarrow>
     (if c = [] then a = None
      else case a of
             None \<Rightarrow> (\<forall>k. visible d now c k = None)
           | Some e \<Rightarrow> visible d now c (he_Key e) = Some e \<and>
               (\<forall>k e'. visible d now c k = Some e' \<longrightarrow> he_At e' \<le> he_At e))"
| "dir_answer now op d a \<longleftrightarrow> a = None"

fun table_run :: "instant \<Rightarrow> table_op \<Rightarrow> HotPairTable \<Rightarrow> HotPairEntry option \<times> HotPairTable" where
  "table_run now (Notify c payload) t = (None, HandleNotify t c payload now)"
| "table_run now (Find c k) t = Lookup t c k now"
| "table_run now (Freshest c) t = Newest t c now"
| "table_run now (LoseChannel ch) t = (None, InvalidateChannel t ch)"
| "table_run now (LoseClient c) t = (None, InvalidateClient t c)"

fun table_answers :: "(instant \<times> table_op) list \<Rightarrow> HotPairTable \<Rightarrow> HotPairEntry option list" where
  "table_answers [] t = []"
| "table_answers ((now, op) # ops) t = (let (a, t) = table_run now op t in a # table_answers ops t)"

fun allowed :: "(instant \<times> table_op) list \<Rightarrow> directory \<Rightarrow> HotPairEntry option list \<Rightarrow> bool" where
  "allowed [] d as \<longleftrightarrow> as = []"
| "allowed ((now, op) # ops) d as \<longleftrightarrow>
     (case as of [] \<Rightarrow> False | a # as \<Rightarrow> dir_answer now op d a \<and> allowed ops (dir_next now op d) as)"

text \<open>The simulation relation holds from a point in time on: table and directory then show the same
  entries.\<close>

definition shows_directory :: "instant \<Rightarrow> HotPairTable \<Rightarrow> directory \<Rightarrow> bool" where
  "shows_directory now t d \<longleftrightarrow> table_ok t \<and> (\<forall>now' c k. now \<le> now' \<longrightarrow> live t now' c k = visible d now' c k)"

lemma live_HandleNotify_later:
  assumes "table_ok t" "now \<le> now'"
  shows "live (HandleNotify t c payload now) now' c' k =
    (if c' = c then case installed now (parse_hot_pairs payload) k of
                      Some e \<Rightarrow> if expired now' e then None else Some e
                    | None \<Rightarrow> live t now' c k
     else live t now' c' k)"
proof (cases "dict_get t c")
  case None
  then show ?thesis
    by (auto simp: live_def HandleNotify_def Let_def dict_get_upserts dict_filter_def
        DecodeHotPairNotify_parse split: option.splits)
next
  case (Some m)
  then have "dict_ok m" using assms table_ok_get by (auto simp: entries_ok_def)
  with Some assms(2) show ?thesis
    by (auto simp: live_def HandleNotify_def Let_def dict_get_upserts dict_get_filter
        DecodeHotPairNotify_parse split: option.splits if_splits intro: expired_mono)
qed

lemma table_run_refines:
  assumes "shows_directory now t d"
  shows "dir_answer now op d (fst (table_run now op t)) \<and>
    shows_directory now (snd (table_run now op t)) (dir_next now op d)"
proof -
  have ok: "table_ok t" and eq: "now \<le> now' \<Longrightarrow> live t now' c k = visible d now' c k" for now' c k
    using assms by (auto simp: shows_directory_def)
  show ?thesis
  proof (cases op)
    case (Freshest c)
    have "dir_answer now op d (fst (Newest t c now))"
    proof (cases "c = []")
      case False
      with Newest_spec [OF ok False, of now] eq [of now] Freshest show ?thesis
        by (simp split: option.splits)
    qed (simp add: Freshest Newest_def)
    with Freshest ok eq show ?thesis
      by (simp add: shows_directory_def live_Newest table_ok_Newest)
  qed (use ok eq in \<open>auto simp: shows_directory_def visible_def fst_Lookup live_Lookup live_HandleNotify_later
      live_InvalidateChannel live_InvalidateClient inv_intros split: option.splits\<close>)
qed

lemma shows_directory_later: "shows_directory now t d \<Longrightarrow> now \<le> now' \<Longrightarrow> shows_directory now' t d"
  by (auto simp: shows_directory_def)

lemma answers_allowed:
  assumes "shows_directory now t d" "sorted (map fst ops)" "\<forall>op\<in>set ops. now \<le> fst op"
  shows "allowed ops d (table_answers ops t)"
  using assms
proof (induction ops arbitrary: now t d)
  case (Cons x ops)
  obtain n op where x: "x = (n, op)" by fastforce
  with Cons.prems have "shows_directory n t d" by (auto intro: shows_directory_later)
  with table_run_refines have r: "dir_answer n op d (fst (table_run n op t))"
    "shows_directory n (snd (table_run n op t)) (dir_next n op d)" by blast+
  with Cons.IH [OF r(2)] Cons.prems x show ?case by (simp add: split_def Let_def)
qed simp

section \<open>Properties\<close>

text \<open>Fact: a notification is an upsert seen through lookup: right after the table has
  handled a batch from a client, looking up a key of that client returns the last usable record
  of the batch for the key, stamped with the current time, or else the entry that was live
  before; no other client's lookups change.\<close>

theorem notify_then_lookup:
  assumes "table_ok t" "c' \<noteq> []" "k \<noteq> []"
  shows "fst (Lookup (HandleNotify t c payload now) c' k now) =
    (if c' = c then case installed now (parse_hot_pairs payload) k of
                      Some e \<Rightarrow> Some e
                    | None \<Rightarrow> fst (Lookup t c k now)
     else fst (Lookup t c' k now))"
  using assms by (auto simp: fst_Lookup live_HandleNotify DecodeHotPairNotify_parse split: option.splits)

theorem notify_then_lookup_witness:
  "fst (Lookup (HandleNotify NewHotPairTable ''c'' (EncodeHotPairNotify
       [\<lparr>hp_Key = ''k'', hp_ChA = 1, hp_ChB = 2\<rparr>]) 5) ''c'' ''k'' 5) =
     Some \<lparr>he_Key = ''k'', he_ChA = 1, he_ChB = 2, he_At = 5\<rparr>"
proof -
  let ?es = "[\<lparr>hp_Key = ''k'', hp_ChA = 1, hp_ChB = 2\<rparr>]"
  have p: "parse_hot_pairs (EncodeHotPairNotify ?es) = ?es"
    using parse_hot_pairs_records [of ?es]
    by (simp add: EncodeHotPairNotify_concat hot_pair_key_ok_def hot_pair_wire_def)
  show ?thesis
    using notify_then_lookup [of NewHotPairTable "''c''" "''k''" "''c''" "EncodeHotPairNotify ?es" 5]
    by (simp add: p usable_def)
qed

text \<open>Fact: the reverse dialler's choice is the freshest pair: \<^verbatim>\<open>Newest\<close> returns nothing only
  if the client has no live entry, and otherwise a live entry at least as recent as every other
  live entry of the client.\<close>

theorem Newest_is_newest_live:
  assumes "table_ok t" "c \<noteq> []"
  shows "case fst (Newest t c now) of
      None \<Rightarrow> (\<forall>k. live t now c k = None)
    | Some e \<Rightarrow> live t now c (he_Key e) = Some e \<and>
        (\<forall>k e'. live t now c k = Some e' \<longrightarrow> he_At e' \<le> he_At e)"
  using assms by (rule Newest_spec)

theorem Newest_is_newest_live_witness:
  "fst (Newest [(''c'', [(''a'', \<lparr>he_Key = ''a'', he_ChA = 1, he_ChB = 2, he_At = 3\<rparr>),
                         (''b'', \<lparr>he_Key = ''b'', he_ChA = 2, he_ChB = 1, he_At = 4\<rparr>)])] ''c'' 5)
     = Some \<lparr>he_Key = ''b'', he_ChA = 2, he_ChB = 1, he_At = 4\<rparr> \<and>
   live [(''c'', [(''a'', \<lparr>he_Key = ''a'', he_ChA = 1, he_ChB = 2, he_At = 3\<rparr>),
                  (''b'', \<lparr>he_Key = ''b'', he_ChA = 2, he_ChB = 1, he_At = 4\<rparr>)])] 5 ''c'' ''b'' \<noteq> None"
proof -
  let ?t = "[(''c'', [(''a'', \<lparr>he_Key = ''a'', he_ChA = 1, he_ChB = 2, he_At = 3\<rparr>),
                      (''b'', \<lparr>he_Key = ''b'', he_ChA = 2, he_ChB = 1, he_At = 4\<rparr>)])]"
  have ok: "table_ok ?t"
    by (simp add: table_ok_def entries_ok_def entry_ok_def dict_ok_def)
  have n: "fst (Newest ?t ''c'' 5) = Some \<lparr>he_Key = ''b'', he_ChA = 2, he_ChB = 1, he_At = 4\<rparr>"
    by (simp add: Newest_def Let_def dict_filter_def expired_def hotPairEntryTTL_def
        time_Second_def newerEntry_def)
  show ?thesis
    using Newest_is_newest_live [OF ok, of "''c''" 5] n by simp
qed

text \<open>Fact: every operation of the table keeps its invariant: one entry per client and
  key, each stored under its own non-empty key with two positive channels.\<close>

theorem hot_pair_table_invariant:
  assumes "table_ok t"
  shows "table_ok (HandleNotify t c payload now) \<and> table_ok (snd (Lookup t c k now)) \<and>
    table_ok (snd (Newest t c now)) \<and> table_ok (InvalidateChannel t ch) \<and>
    table_ok (InvalidateClient t c)"
  using assms by (simp_all add: inv_intros)

theorem hot_pair_table_invariant_witness:
  "table_ok NewHotPairTable \<and> table_ok (InvalidateChannel NewHotPairTable 1)"
  using hot_pair_table_invariant [OF table_ok_New] by simp

text \<open>Fact: a lost channel is never offered again: after any sequence of channel losses
  and a client's departure, a lookup only returns pairs of other clients whose two channels are
  both outside the lost set.\<close>

theorem lost_channels_not_offered:
  assumes "table_ok t"
    and "fst (Lookup (InvalidateClient (foldl InvalidateChannel t chs) d) c k now) = Some e"
  shows "c \<noteq> d \<and> he_ChA e \<notin> set chs \<and> he_ChB e \<notin> set chs"
  using assms by (auto simp: fst_Lookup split: if_splits dest: hot.offered_pairs_avoid_lost_channels)

theorem lost_channels_not_offered_witness:
  "fst (Lookup (InvalidateClient (foldl InvalidateChannel
      [(''c'', [(''a'', \<lparr>he_Key = ''a'', he_ChA = 1, he_ChB = 2, he_At = 3\<rparr>)])] [7]) ''d'') ''c'' ''a'' 5)
     = Some \<lparr>he_Key = ''a'', he_ChA = 1, he_ChB = 2, he_At = 3\<rparr> \<and> (1 :: int) \<notin> set [7]"
proof -
  let ?t = "[(''c'', [(''a'', \<lparr>he_Key = ''a'', he_ChA = 1, he_ChB = 2, he_At = 3\<rparr>)])]"
  have ok: "table_ok ?t"
    by (simp add: table_ok_def entries_ok_def entry_ok_def dict_ok_def)
  have l: "fst (Lookup (InvalidateClient (foldl InvalidateChannel ?t [7]) ''d'') ''c'' ''a'' 5)
     = Some \<lparr>he_Key = ''a'', he_ChA = 1, he_ChB = 2, he_At = 3\<rparr>"
    by (simp add: Lookup_def InvalidateClient_def InvalidateChannel_def dropChannel_def
        dict_filter_def expired_def hotPairEntryTTL_def time_Second_def)
  show ?thesis using l lost_channels_not_offered [OF ok l] by simp
qed

text \<open>Property C7: the table refines a directory with expiry: for every sequence of operations at
  non-decreasing times, starting from the empty table, every answer the code gives is one that the
  directory allows. A search returns the last usable record announced for the client and key,
  provided neither it has expired nor one of its channels nor the client was lost since; the
  sweeps of expired entries and of empty maps are not observable.\<close>

theorem table_refines_directory:
  assumes "sorted (map fst ops)"
  shows "allowed ops (\<lambda>_ _. None) (table_answers ops NewHotPairTable)"
proof (cases ops)
  case (Cons x xs)
  have "shows_directory (fst x) NewHotPairTable (\<lambda>_ _. None)"
    by (simp add: shows_directory_def table_ok_New) (simp add: live_def visible_def NewHotPairTable_def)
  then show ?thesis by (rule answers_allowed) (use assms Cons in auto)
qed simp

theorem table_refines_directory_witness:
  "let ops = [(5, Notify ''c'' (EncodeHotPairNotify [\<lparr>hp_Key = ''k'', hp_ChA = 1, hp_ChB = 2\<rparr>])),
              (7, Find ''c'' ''k''), (8, LoseChannel 2), (9, Find ''c'' ''k'')]
   in table_answers ops NewHotPairTable =
        [None, Some \<lparr>he_Key = ''k'', he_ChA = 1, he_ChB = 2, he_At = 5\<rparr>, None, None] \<and>
      allowed ops (\<lambda>_ _. None) (table_answers ops NewHotPairTable)"
proof -
  let ?es = "[\<lparr>hp_Key = ''k'', hp_ChA = 1, hp_ChB = 2\<rparr>]"
  let ?ops = "[(5, Notify ''c'' (EncodeHotPairNotify ?es)), (7, Find ''c'' ''k''), (8, LoseChannel 2), (9, Find ''c'' ''k'')]"
  have p: "DecodeHotPairNotify (EncodeHotPairNotify ?es) = Some ?es"
    using parse_hot_pairs_records [of ?es]
    by (simp add: DecodeHotPairNotify_parse EncodeHotPairNotify_concat hot_pair_key_ok_def hot_pair_wire_def)
  have "table_answers ?ops NewHotPairTable =
      [None, Some \<lparr>he_Key = ''k'', he_ChA = 1, he_ChB = 2, he_At = 5\<rparr>, None, None]"
    by (simp add: p HandleNotify_def NewHotPairTable_def upsertEntry_def dict_filter_def Lookup_def dropChannel_def
        InvalidateChannel_def expired_def hotPairEntryTTL_def time_Second_def Let_def)
  then show ?thesis using table_refines_directory [of ?ops] by (simp only: Let_def) simp
qed

end
