(* ===== verification/Client_State.thy ===== *)
theory Client_State
  imports Hotpair_Table
begin

text \<open>
  The client's data: its configuration (\<^verbatim>\<open>src/config.go\<close>), the hot channel pairs and their manager
  (\<^verbatim>\<open>src/pair_warmer.go\<close>), forward and reverse connections, and the pool of WebSocket channels that
  owns them (\<^verbatim>\<open>src/pool.go\<close>, \<^verbatim>\<open>src/reverse.go\<close>, \<^verbatim>\<open>src/proxy_dialer.go\<close>).

  A write queue is a Go channel: a \<^typ>\<open>ref\<close> into the pool's heap of queues, because a session's
  writer keeps its queue after the pool has replaced it. Hot pairs, reverse connections and UDP channels are
  heap cells too, since several goroutines hold pointers to them; forward connection states are
  only ever read and written through the pool's table, so the table holds them directly. What the
  client does to local sockets is logged in \<open>cp_effects\<close>, timers and goroutines it starts are
  collected in \<open>cp_tasks\<close>. The pool's pointer to the pair manager is nil unless \<open>cp_hasWarmer\<close>.
\<close>

section \<open>Configuration\<close>

record Config =
  cf_ServerAddr :: string
  cf_Token :: string
  cf_Connections :: int
  cf_ClientID :: string
  cf_DialTimeout :: duration
  cf_HandshakeTimeout :: duration
  cf_ReadTimeout :: duration
  cf_WriteTimeout :: duration
  cf_PingInterval :: duration
  cf_ReconnectDelay :: duration
  cf_ConnectTimeout :: duration
  cf_EnableECH :: bool
  cf_ECHDomain :: string
  cf_DNSServer :: string
  cf_InsecureSkipVerify :: bool
  cf_IPStrategy :: IPStrategy
  cf_RelayNodes :: "string list"
  cf_UDPBlockedPorts :: "int list"
  cf_EnableReverse :: bool
  cf_ReverseListeners :: "string list"
  cf_OnReverseError :: bool
  cf_ReadBufferSize :: int
  cf_WriteBufferSize :: int
  cf_BackpressureLimitBytes :: int
  cf_WriteQueueWaitTimeout :: duration
  cf_MaxSOCKS5Connections :: int
  cf_EnableHotPair :: bool
  cf_HotPairCount :: int
  cf_HotPairRefreshInterval :: duration
  cf_FastRetryAttempts :: int
  cf_FastRetryWindow :: duration
  cf_MaxFastRetryConsecutive :: int

definition DefaultBackpressureLimitBytes :: int where
  "DefaultBackpressureLimitBytes = 8 * 2 ^ 20"

definition DefaultConfig :: Config where
  "DefaultConfig =
     \<lparr>cf_ServerAddr = '''', cf_Token = '''', cf_Connections = 3, cf_ClientID = '''',
      cf_DialTimeout = 3 * time_Second, cf_HandshakeTimeout = 5 * time_Second,
      cf_ReadTimeout = 15 * time_Second, cf_WriteTimeout = 5 * time_Second,
      cf_PingInterval = 5 * time_Second, cf_ReconnectDelay = time_Second,
      cf_ConnectTimeout = 15 * time_Second,
      cf_EnableECH = True, cf_ECHDomain = ''cloudflare-ech.com'',
      cf_DNSServer = ''https://v.recipes/dns-query'', cf_InsecureSkipVerify = False,
      cf_IPStrategy = IPStrategyDefault, cf_RelayNodes = [], cf_UDPBlockedPorts = [443],
      cf_EnableReverse = False, cf_ReverseListeners = [], cf_OnReverseError = False,
      cf_ReadBufferSize = 64 * 1024, cf_WriteBufferSize = 64 * 1024,
      cf_BackpressureLimitBytes = DefaultBackpressureLimitBytes,
      cf_WriteQueueWaitTimeout = 500 * time_Millisecond, cf_MaxSOCKS5Connections = 1024,
      cf_EnableHotPair = False, cf_HotPairCount = 1, cf_HotPairRefreshInterval = 30 * time_Second,
      cf_FastRetryAttempts = 1, cf_FastRetryWindow = time_Second, cf_MaxFastRetryConsecutive = 3\<rparr>"

datatype config_error =
  ErrInvalidServerAddr | ErrServerScheme | ErrInvalidConnections | ErrInvalidTimeout | ErrNegativeSOCKS5

definition HasPrefix :: "string \<Rightarrow> string \<Rightarrow> bool" where
  "HasPrefix s pre = prefix pre s"

definition Config_Validate :: "Config \<Rightarrow> config_error option" where
  "Config_Validate c =
     (if cf_ServerAddr c = '''' then Some ErrInvalidServerAddr
      else if \<not> HasPrefix (cf_ServerAddr c) ''wss://'' \<and> \<not> HasPrefix (cf_ServerAddr c) ''ws://''
      then Some ErrServerScheme
      else if cf_Connections c \<le> 0 then Some ErrInvalidConnections
      else if cf_DialTimeout c \<le> 0 \<or> cf_HandshakeTimeout c \<le> 0 \<or> cf_ReadTimeout c \<le> 0 \<or>
              cf_WriteTimeout c \<le> 0 \<or> cf_PingInterval c \<le> 0 \<or> cf_ReconnectDelay c \<le> 0 \<or>
              cf_ConnectTimeout c \<le> 0 then Some ErrInvalidTimeout
      else if cf_MaxSOCKS5Connections c < 0 then Some ErrNegativeSOCKS5
      else None)"

section \<open>Hot pairs\<close>

datatype PairState = PairStateReady | PairStateDraining | PairStateClosed

text \<open>\<open>pr_refs\<close> is the code's 32-bit counter as an integer: it is raised once per dial that holds the
  pair and lowered once per release, so it stays far from the 32-bit bounds.\<close>

record HotChannelPair =
  pr_ID :: string
  pr_PrebindID :: string
  pr_UplinkChID :: chid
  pr_DownlinkChID :: chid
  pr_state :: PairState
  pr_createdAt :: instant
  pr_refs :: int

text \<open>\<^verbatim>\<open>prebindResult\<close>; \<open>pb_err\<close> says that its error is not nil.\<close>

record prebindResult =
  pb_connID :: string
  pb_uplinkChID :: chid
  pb_downlinkChID :: chid
  pb_err :: bool

record PairWarmer =
  pw_pairs :: "ref list"
  pw_primary :: "ref option"
  pw_heap :: "ref \<Rightarrow> HotChannelPair"
  pw_next :: nat
  pw_PairCount :: int
  pw_RefreshInterval :: duration
  pw_PrebindTimeout :: duration
  pw_prebindResultCh :: "prebindResult list"
  pw_notifyPending :: "(string, HotPairInfo) dict"
  pw_notifyTimer :: bool

definition blank_pair :: HotChannelPair where
  "blank_pair = \<lparr>pr_ID = '''', pr_PrebindID = '''', pr_UplinkChID = 0, pr_DownlinkChID = 0,
     pr_state = PairStateClosed, pr_createdAt = 0, pr_refs = 0\<rparr>"

definition NewPairWarmer :: "Config \<Rightarrow> PairWarmer" where
  "NewPairWarmer cfg =
     \<lparr>pw_pairs = [], pw_primary = None, pw_heap = (\<lambda>_. blank_pair), pw_next = 0,
      pw_PairCount = cf_HotPairCount cfg, pw_RefreshInterval = cf_HotPairRefreshInterval cfg,
      pw_PrebindTimeout = 3 * time_Second, pw_prebindResultCh = [], pw_notifyPending = [],
      pw_notifyTimer = False\<rparr>"

section \<open>Queues and connections\<close>

definition writeQueueSize :: nat where
  "writeQueueSize = 16384"

record writeJob =
  wj_msgType :: int
  wj_data :: bytes
  wj_size :: int

record writeQueue =
  wq_jobs :: "writeJob list"
  wq_closed :: bool

definition newQueue :: writeQueue where
  "newQueue = \<lparr>wq_jobs = [], wq_closed = False\<rparr>"

text \<open>\<open>cc_connected\<close> is a channel of capacity one: \<^term>\<open>None\<close> is nil, else whether it holds a signal.
  The unused fields \<^verbatim>\<open>uplinkChID\<close> and \<^verbatim>\<open>downlinkChID\<close> are left out.\<close>

record clientConnState =
  cc_id :: string
  cc_target :: string
  cc_connected :: "bool option"
  cc_reqType :: string
  cc_tcpConn :: "nat option"
  cc_udpSink :: "ref option"
  cc_uplink :: chid
  cc_downlink :: chid
  cc_lastCh :: chid
  cc_start :: "instant option"
  cc_clientAddr :: string
  cc_closed :: bool
  cc_pair :: "ref option"

definition new_conn_state :: clientConnState where
  "new_conn_state = \<lparr>cc_id = '''', cc_target = '''', cc_connected = None, cc_reqType = '''',
     cc_tcpConn = None, cc_udpSink = None, cc_uplink = 0, cc_downlink = 0, cc_lastCh = 0,
     cc_start = None, cc_clientAddr = '''', cc_closed = False, cc_pair = None\<rparr>"

text \<open>\<open>rv_closed\<close> is the state of the connection's \<^verbatim>\<open>closeOnce\<close>.\<close>

record reverseConn =
  rv_id :: string
  rv_target :: string
  rv_resolved :: string
  rv_recvCh :: chid
  rv_sendCh :: int
  rv_conn :: "nat option"
  rv_closed :: bool

record reverseListenerState =
  ls_spec :: string
  ls_listenerID :: string
  ls_ok :: bool
  ls_reason :: string
  ls_responded :: bool

section \<open>UDP channels\<close>

text \<open>A UDP channel of the proxy (\<^verbatim>\<open>src/proxy_dialer.go\<close>), the sink of a UDP connection's downlink.
  \<open>uc_once\<close> is its \<^verbatim>\<open>sync.Once\<close>: while the guarded function runs, another call of \<^verbatim>\<open>Do\<close> waits for
  its end. \<open>uc_done\<close> says that the channel \<^verbatim>\<open>done\<close> is closed.\<close>

datatype once_state = OnceFresh | OnceRunning | OnceDone

record udpDatagram =
  dg_target :: string
  dg_data :: bytes

record poolUDPChannel =
  uc_connID :: string
  uc_blocked :: "int list"
  uc_down :: "udpDatagram list"
  uc_done :: bool
  uc_once :: once_state
  uc_raceOn :: bool

definition blank_udp :: poolUDPChannel where
  "blank_udp = \<lparr>uc_connID = '''', uc_blocked = [], uc_down = [], uc_done = False, uc_once = OnceFresh,
     uc_raceOn = False\<rparr>"

section \<open>The pool\<close>

datatype client_task =
    DialReverse ref
  | RacerSummary string instant
  | FlushNotify instant
  | CheckReverseReg instant

datatype client_effect =
    ConnWrite nat bytes
  | ConnClose nat
  | SocketClose nat
  | SocketWrite nat int bytes
  | ReverseError string

record clientPool =
  cp_config :: Config
  cp_ctxDone :: bool
  cp_globalQueueBytes :: int
  cp_globalQueueLimit :: int
  cp_bytesSent :: "64 word"
  cp_bytesReceived :: "64 word"
  cp_hasWarmer :: bool
  cp_warmer :: PairWarmer
  cp_wsConns :: "nat option list"
  cp_writeQueues :: "ref option list"
  cp_queueHeap :: "ref \<Rightarrow> writeQueue"
  cp_nextQueue :: nat
  cp_conns :: "(string, clientConnState) dict"
  cp_prebindRacers :: "(string, chid list) dict"
  cp_reverseConns :: "(string, ref) dict"
  cp_revHeap :: "ref \<Rightarrow> reverseConn"
  cp_nextRev :: nat
  cp_udpHeap :: "ref \<Rightarrow> poolUDPChannel"
  cp_nextUdp :: nat
  cp_reverseListenerMap :: "(string, string) dict"
  cp_reverseListenerState :: "(string, reverseListenerState) dict"
  cp_reverseRegOnceDone :: bool
  cp_relayCount :: int
  cp_backpressureState :: BackpressureState
  cp_resumeCh :: bool
  cp_chReadyCh :: "chid list"
  cp_chInvalidCh :: "chid list"
  cp_readyChannels :: int
  cp_reconnectCh :: bool
  cp_tasks :: "client_task list"
  cp_effects :: "client_effect list"

definition blank_rev :: reverseConn where
  "blank_rev = \<lparr>rv_id = '''', rv_target = '''', rv_resolved = '''', rv_recvCh = 0, rv_sendCh = 0,
     rv_conn = None, rv_closed = False\<rparr>"

definition newClientPool :: "Config \<Rightarrow> clientPool" where
  "newClientPool cfg =
     (let limit = cf_BackpressureLimitBytes cfg;
          limit = (if limit \<le> 0 then DefaultBackpressureLimitBytes else limit);
          n = nat (cf_Connections cfg)
      in \<lparr>cp_config = cfg, cp_ctxDone = False, cp_globalQueueBytes = 0, cp_globalQueueLimit = limit,
          cp_bytesSent = 0, cp_bytesReceived = 0,
          cp_hasWarmer = cf_EnableHotPair cfg, cp_warmer = NewPairWarmer cfg,
          cp_wsConns = replicate n None,
          cp_writeQueues = map Some [0..<n], cp_queueHeap = (\<lambda>_. newQueue), cp_nextQueue = n,
          cp_conns = [], cp_prebindRacers = [], cp_reverseConns = [], cp_revHeap = (\<lambda>_. blank_rev),
          cp_nextRev = 0, cp_udpHeap = (\<lambda>_. blank_udp), cp_nextUdp = 0, cp_reverseListenerMap = [], cp_reverseListenerState = [],
          cp_reverseRegOnceDone = False, cp_relayCount = 0,
          cp_backpressureState = BackpressureNormal, cp_resumeCh = False, cp_chReadyCh = [],
          cp_chInvalidCh = [], cp_readyChannels = 0, cp_reconnectCh = False, cp_tasks = [],
          cp_effects = []\<rparr>)"

definition upd_queue :: "ref \<Rightarrow> (writeQueue \<Rightarrow> writeQueue) \<Rightarrow> clientPool \<Rightarrow> clientPool" where
  "upd_queue r f p = p\<lparr>cp_queueHeap := (cp_queueHeap p)(r := f (cp_queueHeap p r))\<rparr>"

definition with_warmer :: "(PairWarmer \<Rightarrow> PairWarmer) \<Rightarrow> clientPool \<Rightarrow> clientPool" where
  "with_warmer f p = p\<lparr>cp_warmer := f (cp_warmer p)\<rparr>"

definition cspawn :: "client_task \<Rightarrow> clientPool \<Rightarrow> clientPool" where
  "cspawn t p = p\<lparr>cp_tasks := cp_tasks p @ [t]\<rparr>"

definition cemit :: "client_effect \<Rightarrow> clientPool \<Rightarrow> clientPool" where
  "cemit e p = p\<lparr>cp_effects := cp_effects p @ [e]\<rparr>"

end
