(* ===== verification/Client_Queue.thy ===== *)
theory Client_Queue
  imports Client_State
begin

text \<open>
  The client's write path (\<^verbatim>\<open>src/pool.go\<close>): the byte budget, back pressure received from the server,
  enqueueing on a channel, broadcast, and the writer goroutine that merges consecutive data frames
  of one connection.

  A call that blocks is given what it waits for as an argument: how a wait for back pressure ended
  and what happened while the queue was full. \<open>waitForBackpressure\<close> itself is modelled round by
  round, with the events that other goroutines produce while it is blocked.
\<close>

section \<open>Counters\<close>

definition chIndex :: "clientPool \<Rightarrow> chid \<Rightarrow> nat option" where
  "chIndex p chID =
     (let idx = chID - 1
      in if idx < 0 \<or> idx \<ge> int (length (cp_writeQueues p)) then None else Some (nat idx))"

definition addSentBytes_client :: "int \<Rightarrow> clientPool \<Rightarrow> clientPool" where
  "addSentBytes_client n p = (if n > 0 then p\<lparr>cp_bytesSent := cp_bytesSent p + word_of_int n\<rparr> else p)"

definition addReceivedBytes_client :: "int \<Rightarrow> clientPool \<Rightarrow> clientPool" where
  "addReceivedBytes_client n p =
     (if n > 0 then p\<lparr>cp_bytesReceived := cp_bytesReceived p + word_of_int n\<rparr> else p)"

definition connectTimeout_client :: "clientPool \<Rightarrow> duration" where
  "connectTimeout_client p =
     (if cf_ConnectTimeout (cp_config p) \<le> 0 then 15 * time_Second else cf_ConnectTimeout (cp_config p))"

definition proxyHandshakeTimeout :: "clientPool \<Rightarrow> duration" where
  "proxyHandshakeTimeout p =
     (if cf_HandshakeTimeout (cp_config p) \<le> 0 then 3 * time_Second else cf_HandshakeTimeout (cp_config p))"

text \<open>The compare-and-swap loops of the two byte operations each take effect at once.\<close>

definition reserveQueueBytes :: "int \<Rightarrow> clientPool \<Rightarrow> bool \<times> clientPool" where
  "reserveQueueBytes sz p =
     (if sz \<le> 0 then (True, p)
      else if cp_globalQueueBytes p + sz > cp_globalQueueLimit p then (False, p)
      else (True, p\<lparr>cp_globalQueueBytes := cp_globalQueueBytes p + sz\<rparr>))"

definition releaseQueueBytes :: "int \<Rightarrow> clientPool \<Rightarrow> clientPool" where
  "releaseQueueBytes sz p =
     (if sz \<le> 0 then p
      else p\<lparr>cp_globalQueueBytes :=
             (if cp_globalQueueBytes p - sz < 0 then 0 else cp_globalQueueBytes p - sz)\<rparr>)"

section \<open>Back pressure\<close>

definition handleBackpressure :: "BackpressureState \<Rightarrow> clientPool \<Rightarrow> clientPool" where
  "handleBackpressure state p =
     (let oldState = cp_backpressureState p;
          p = p\<lparr>cp_backpressureState := state\<rparr>
      in if oldState = state then p
         else if state = BackpressureNormal then p\<lparr>cp_resumeCh := True\<rparr>
         else p)"

definition getBackpressureDelay :: "clientPool \<Rightarrow> duration" where
  "getBackpressureDelay p =
     (if cp_backpressureState p = BackpressureSlowDown then 10 * time_Millisecond
      else if cp_backpressureState p = BackpressurePause then -1
      else 0)"

text \<open>
  The two checks at the head of the loop of \<^verbatim>\<open>waitForBackpressure\<close>: whether the sender returns, with
  the pause turned into a slow-down when its deadline has passed. A sender that does not return
  blocks in the select until it receives the resume signal, of which there is at most one for all
  senders, or the client is cancelled.
\<close>

definition waitTurn :: "instant \<Rightarrow> instant \<Rightarrow> clientPool \<Rightarrow> bool \<times> clientPool" where
  "waitTurn deadline now p =
     (if cp_backpressureState p \<noteq> BackpressurePause then (True, p)
      else if now > deadline then (True, p\<lparr>cp_backpressureState := BackpressureSlowDown\<rparr>)
      else (False, p))"

definition waitForBackpressure :: "instant \<Rightarrow> clientPool \<Rightarrow> bool \<times> clientPool" where
  "waitForBackpressure now p = waitTurn (now + 3 * time_Second) now p"

text \<open>
  All senders together: the state is the pool with the deadlines of the blocked senders. A sender
  calls the function; a notification is handled; blocked sender \<open>i\<close> receives the resume signal and
  goes through the loop again; the client is cancelled; a blocked sender sees that and gives up.
  The first component of the result counts the senders that return from blocking and go on;
  \<^term>\<open>None\<close> says that the event is not possible.
\<close>

datatype pause_event =
    PauseCall instant
  | PauseNotice BackpressureState
  | PauseResume nat instant
  | PauseCancel
  | PauseGiveUp nat

definition removeAt :: "nat \<Rightarrow> 'a list \<Rightarrow> 'a list" where
  "removeAt i xs = take i xs @ drop (Suc i) xs"

fun pauseStep :: "pause_event \<Rightarrow> clientPool \<Rightarrow> instant list \<Rightarrow> (nat \<times> clientPool \<times> instant list) option" where
  "pauseStep (PauseCall now) p ws =
     (let (go, p) = waitForBackpressure now p
      in Some (0, p, if go then ws else ws @ [now + 3 * time_Second]))"
| "pauseStep (PauseNotice state) p ws = Some (0, handleBackpressure state p, ws)"
| "pauseStep (PauseResume i now) p ws =
     (if i < length ws \<and> cp_resumeCh p
      then let (go, p) = waitTurn (ws ! i) now (p\<lparr>cp_resumeCh := False\<rparr>)
           in Some (if go then (1, p, removeAt i ws) else (0, p, ws))
      else None)"
| "pauseStep PauseCancel p ws = Some (0, p\<lparr>cp_ctxDone := True\<rparr>, ws)"
| "pauseStep (PauseGiveUp i) p ws =
     (if i < length ws \<and> cp_ctxDone p then Some (0, p, removeAt i ws) else None)"

fun pauseRun :: "pause_event list \<Rightarrow> clientPool \<Rightarrow> instant list \<Rightarrow> (nat \<times> clientPool \<times> instant list) option" where
  "pauseRun [] p ws = Some (0, p, ws)"
| "pauseRun (e # evs) p ws =
     (case pauseStep e p ws of
        None \<Rightarrow> None
      | Some (k, p, ws) \<Rightarrow> map_option (\<lambda>(n, r). (k + n, r)) (pauseRun evs p ws))"

section \<open>Enqueueing\<close>

text \<open>
  The environment of one \<^verbatim>\<open>asyncWriteDirect\<close> call. \<open>se_wait\<close>: how a wait in the paused state ended
  (lifted to another level by a notification, degraded at the deadline, or given up because the
  client is closing). \<open>se_full\<close>: what happened when the queue was full (the writer took a job in
  time, the timeout passed, or the client is closing).
\<close>

datatype wait_result = WaitLifted BackpressureState | WaitDegraded | WaitAborted

datatype full_result = FullRoom | FullTimeout | FullClosing

record send_env =
  se_wait :: wait_result
  se_full :: full_result

datatype client_send_error =
  ErrBadChannel | ErrClientClosing | ErrQueueLimit | ErrChannelUnavailable | ErrCongested

text \<open>The outcome of a send: accepted, refused, or the run-time panic of sending on a closed
  channel.\<close>

datatype send_outcome = Sent | Failed client_send_error | SendPanic

definition waitOver :: "wait_result \<Rightarrow> clientPool \<Rightarrow> bool \<times> clientPool" where
  "waitOver wr p =
     (case wr of
        WaitLifted s \<Rightarrow> (True, p\<lparr>cp_backpressureState := s\<rparr>)
      | WaitDegraded \<Rightarrow> (True, p\<lparr>cp_backpressureState := BackpressureSlowDown\<rparr>)
      | WaitAborted \<Rightarrow> (False, p))"

text \<open>Up to the read of \<^verbatim>\<open>p.writeQueues[idx]\<close>: the queue to send on and the bytes reserved.\<close>

definition asyncWriteDirect_begin ::
  "send_env \<Rightarrow> chid \<Rightarrow> bytes \<Rightarrow> clientPool \<Rightarrow> (client_send_error + ref) \<times> clientPool" where
  "asyncWriteDirect_begin env chID data p =
     (case chIndex p chID of
        None \<Rightarrow> (Inl ErrBadChannel, p)
      | Some idx \<Rightarrow>
          let (go, p) = (if getBackpressureDelay p < 0 then waitOver (se_wait env) p else (True, p))
          in if \<not> go then (Inl ErrClientClosing, p)
             else
               let sz = int (length data);
                   (reserved, p) = reserveQueueBytes sz p
               in if \<not> reserved then (Inl ErrQueueLimit, p)
                  else case cp_writeQueues p ! idx of
                         None \<Rightarrow> (Inl ErrChannelUnavailable, releaseQueueBytes sz p)
                       | Some q \<Rightarrow> (Inr q, p))"

text \<open>The writer takes the first job of a queue and gives its bytes back.\<close>

definition takeJob :: "ref \<Rightarrow> clientPool \<Rightarrow> clientPool" where
  "takeJob q p =
     (case wq_jobs (cp_queueHeap p q) of
        [] \<Rightarrow> p
      | j # js \<Rightarrow> releaseQueueBytes (wj_size j) (upd_queue q (wq_jobs_update (\<lambda>_. js)) p))"

definition putJob :: "ref \<Rightarrow> writeJob \<Rightarrow> clientPool \<Rightarrow> clientPool" where
  "putJob q j p = upd_queue q (wq_jobs_update (\<lambda>js. js @ [j])) p"

text \<open>The send on the queue that was read.\<close>

definition asyncWriteDirect_send ::
  "send_env \<Rightarrow> int \<Rightarrow> bytes \<Rightarrow> ref \<Rightarrow> clientPool \<Rightarrow> send_outcome \<times> clientPool" where
  "asyncWriteDirect_send env msgType data q p =
     (let sz = int (length data);
          job = \<lparr>wj_msgType = msgType, wj_data = data, wj_size = sz\<rparr>
      in if wq_closed (cp_queueHeap p q) then (SendPanic, p)
         else if length (wq_jobs (cp_queueHeap p q)) < writeQueueSize then (Sent, putJob q job p)
         else case se_full env of
                FullRoom \<Rightarrow> (Sent, putJob q job (takeJob q p))
              | FullTimeout \<Rightarrow> (Failed ErrCongested, releaseQueueBytes sz p)
              | FullClosing \<Rightarrow> (Failed ErrClientClosing, releaseQueueBytes sz p))"

definition asyncWriteDirect ::
  "send_env \<Rightarrow> chid \<Rightarrow> int \<Rightarrow> bytes \<Rightarrow> clientPool \<Rightarrow> send_outcome \<times> clientPool" where
  "asyncWriteDirect env chID msgType data p =
     (case asyncWriteDirect_begin env chID data p of
        (Inl e, p) \<Rightarrow> (Failed e, p)
      | (Inr q, p) \<Rightarrow> asyncWriteDirect_send env msgType data q p)"

text \<open>A broadcast: the live channels are collected first; each send has its own environment.\<close>

definition liveIndices :: "clientPool \<Rightarrow> nat list" where
  "liveIndices p = filter (\<lambda>i. cp_wsConns p ! i \<noteq> None) [0..<length (cp_wsConns p)]"

definition broadcastWrite_client ::
  "(chid \<Rightarrow> send_env) \<Rightarrow> int \<Rightarrow> bytes \<Rightarrow> clientPool \<Rightarrow> int \<times> clientPool" where
  "broadcastWrite_client env msgType data p =
     foldl (\<lambda>(n, p) idx.
         let chID = int idx + 1; (res, p) = asyncWriteDirect (env chID) chID msgType data p
         in (if res = Sent then n + 1 else n, p)) (0, p) (liveIndices p)"

definition availableChannels :: "clientPool \<Rightarrow> chid list" where
  "availableChannels p =
     map (\<lambda>i. int i + 1) (filter (\<lambda>i. cp_wsConns p ! i \<noteq> None \<and>
         i < length (cp_writeQueues p) \<and> cp_writeQueues p ! i \<noteq> None) [0..<length (cp_wsConns p)])"

definition SendDataDirect :: "send_env \<Rightarrow> chid \<Rightarrow> string \<Rightarrow> bytes \<Rightarrow> clientPool \<Rightarrow> send_outcome \<times> clientPool" where
  "SendDataDirect env chID connID b p =
     asyncWriteDirect env chID BinaryMessage (EncodeMessage MsgTCPData connID [] b) p"

definition SendCloseDirect :: "send_env \<Rightarrow> chid \<Rightarrow> string \<Rightarrow> clientPool \<Rightarrow> send_outcome \<times> clientPool" where
  "SendCloseDirect env chID connID p =
     asyncWriteDirect env chID BinaryMessage (EncodeMessage MsgTCPClose connID [] []) p"

definition SendUDPDataDirect :: "send_env \<Rightarrow> chid \<Rightarrow> string \<Rightarrow> bytes \<Rightarrow> clientPool \<Rightarrow> send_outcome \<times> clientPool" where
  "SendUDPDataDirect env chID connID data p =
     asyncWriteDirect env chID BinaryMessage (EncodeMessage MsgUDPData connID [] data) p"

text \<open>Control frames bypass the queue; \<open>ok\<close> is the outcome of the socket write.\<close>

definition writeControlDirect :: "bool \<Rightarrow> chid \<Rightarrow> int \<Rightarrow> bytes \<Rightarrow> clientPool \<Rightarrow> bool \<times> clientPool" where
  "writeControlDirect ok chID msgType data p =
     (case chIndex p chID of
        None \<Rightarrow> (False, p)
      | Some idx \<Rightarrow>
          (case go_index (cp_wsConns p) idx of
             Some (Some sock) \<Rightarrow> if ok then (True, cemit (SocketWrite sock msgType data) p) else (False, p)
           | _ \<Rightarrow> (False, p)))"

section \<open>The writer\<close>

text \<open>The aggregation loop: the jobs it takes, as payload parts, the job that ended it (taken but not
  part of the frame), and the jobs left in the queue.\<close>

fun aggLoop ::
  "int \<Rightarrow> string \<Rightarrow> int \<Rightarrow> bytes list \<Rightarrow> writeJob list \<Rightarrow> bytes list \<times> writeJob option \<times> writeJob list" where
  "aggLoop maxAgg connID tot parts [] = (parts, None, [])"
| "aggLoop maxAgg connID tot parts (j # js) =
     (if wj_msgType j \<noteq> BinaryMessage then (parts, Some j, js)
      else case decode_frame (wj_data j) of
             None \<Rightarrow> (parts, Some j, js)
           | Some f \<Rightarrow>
               if f_type f \<noteq> MsgTCPData \<or> f_connID f \<noteq> connID \<or> f_meta f \<noteq> [] then (parts, Some j, js)
               else if tot + int (length (f_payload f)) > maxAgg then (parts, Some j, js)
               else aggLoop maxAgg connID (tot + int (length (f_payload f))) (parts @ [f_payload f]) js)"

definition maxAggregate :: "clientPool \<Rightarrow> int" where
  "maxAggregate p = cf_ReadBufferSize (cp_config p) * 4"

text \<open>What one job leads to: the frame written, the pending job and the jobs left in the queue.\<close>

definition nextFrame :: "int \<Rightarrow> writeJob \<Rightarrow> writeJob list \<Rightarrow> (int \<times> bytes) \<times> writeJob option \<times> writeJob list" where
  "nextFrame maxAgg j js =
     (if wj_msgType j \<noteq> BinaryMessage then ((wj_msgType j, wj_data j), None, js)
      else case decode_frame (wj_data j) of
             None \<Rightarrow> ((wj_msgType j, wj_data j), None, js)
           | Some f \<Rightarrow>
               if f_type f \<noteq> MsgTCPData then ((wj_msgType j, wj_data j), None, js)
               else let (parts, pending, js) =
                          aggLoop maxAgg (f_connID f) (int (length (f_payload f))) [f_payload f] js
                    in ((BinaryMessage, EncodeMessage MsgTCPData (f_connID f) (f_meta f) (concat parts)),
                        pending, js))"

definition releaseJobs :: "writeJob list \<Rightarrow> clientPool \<Rightarrow> clientPool" where
  "releaseJobs js p = foldl (\<lambda>p j. releaseQueueBytes (wj_size j) p) p js"

text \<open>Writing a job whose bytes have been given back: the jobs merged into its frame and the job that
  ended the merge leave the queue, and their bytes are given back too.\<close>

definition writeWorker_job ::
  "bool \<Rightarrow> nat \<Rightarrow> ref \<Rightarrow> writeJob \<Rightarrow> clientPool \<Rightarrow> (bool \<times> writeJob option) \<times> clientPool" where
  "writeWorker_job ok sock q j p =
     (let js = wq_jobs (cp_queueHeap p q);
          ((mt, data), pending, rest) = nextFrame (maxAggregate p) j js;
          p = releaseJobs (take (length js - length rest) js) (upd_queue q (wq_jobs_update (\<lambda>_. rest)) p)
      in if ok then ((True, pending),
                     addSentBytes_client (int (length data)) (cemit (SocketWrite sock mt data) p))
         else ((False, pending), cemit (SocketClose sock) p))"

text \<open>The deferred drain of a writer that exits.\<close>

definition drainQueue :: "ref \<Rightarrow> clientPool \<Rightarrow> clientPool" where
  "drainQueue q p =
     releaseJobs (wq_jobs (cp_queueHeap p q)) (upd_queue q (wq_jobs_update (\<lambda>_. [])) p)"

text \<open>One round of the writer. Without a pending job the select receives a job, sees the end of the
  client, or sends a ping; on an empty queue receiving a job waits, or ends the writer if the queue
  is closed.\<close>

datatype worker_event = WorkerJob | WorkerDone | WorkerPing

definition writeWorker_step ::
  "bool \<Rightarrow> worker_event \<Rightarrow> nat \<Rightarrow> ref \<Rightarrow> writeJob option \<Rightarrow> clientPool \<Rightarrow> (bool \<times> writeJob option) \<times> clientPool" where
  "writeWorker_step ok ev sock q pending p =
     (let ((alive, pending), p) =
        (case pending of
           Some j \<Rightarrow> writeWorker_job ok sock q j p
         | None \<Rightarrow>
             (case ev of
                WorkerDone \<Rightarrow> ((False, None), p)
              | WorkerPing \<Rightarrow>
                  if ok then ((True, None), cemit (SocketWrite sock PingMessage []) p)
                  else ((False, None), cemit (SocketClose sock) p)
              | WorkerJob \<Rightarrow>
                  (case wq_jobs (cp_queueHeap p q) of
                     [] \<Rightarrow> ((\<not> wq_closed (cp_queueHeap p q), None), p)
                   | j # _ \<Rightarrow> writeWorker_job ok sock q j (takeJob q p))))
      in if alive then ((True, pending), p) else ((False, None), drainQueue q p))"

section \<open>Sessions\<close>

text \<open>Installing a new connection of a channel (\<^verbatim>\<open>dialAndServe\<close> after a successful dial): a fresh queue
  replaces the old one.\<close>

definition installSession :: "nat \<Rightarrow> nat \<Rightarrow> clientPool \<Rightarrow> clientPool" where
  "installSession idx sock p =
     (let q = cp_nextQueue p
      in p\<lparr>cp_nextQueue := q + 1, cp_queueHeap := (cp_queueHeap p)(q := newQueue),
           cp_wsConns := (cp_wsConns p)[idx := Some sock],
           cp_writeQueues := (cp_writeQueues p)[idx := Some q]\<rparr>)"

text \<open>The channel tables are made anew for the chosen relay nodes (\<^verbatim>\<open>Start\<close>).\<close>

definition reallocChannels :: "nat \<Rightarrow> clientPool \<Rightarrow> clientPool" where
  "reallocChannels n p =
     p\<lparr>cp_wsConns := replicate n None, cp_writeQueues := map Some [cp_nextQueue p..<cp_nextQueue p + n],
       cp_queueHeap := (\<lambda>q. if cp_nextQueue p \<le> q \<and> q < cp_nextQueue p + n then newQueue else cp_queueHeap p q),
       cp_nextQueue := cp_nextQueue p + n\<rparr>"

text \<open>Closing and dropping every queue (step 4 of \<^verbatim>\<open>shutdown\<close>).\<close>

definition closeQueues :: "clientPool \<Rightarrow> clientPool" where
  "closeQueues p =
     (foldl (\<lambda>p q. upd_queue q (wq_closed_update (\<lambda>_. True)) p) p (non_nil (cp_writeQueues p)))
       \<lparr>cp_writeQueues := map (\<lambda>_. None) (cp_writeQueues p)\<rparr>"

section \<open>Waiting for the end of a pause\<close>

lemma length_removeAt [simp]: "i < length xs \<Longrightarrow> Suc (length (removeAt i xs)) = length xs"
  by (simp add: removeAt_def)

text \<open>Only a notification of the normal level makes a resume signal, and every sender that goes on
  uses one up.\<close>

lemma pauseStep_bound:
  assumes "pauseStep e p ws = Some (k, p', ws')" "\<not> cp_ctxDone p" "e \<noteq> PauseCancel"
  shows "\<not> cp_ctxDone p'" "length ws \<le> length ws' + k"
    "k + of_bool (cp_resumeCh p') \<le> of_bool (cp_resumeCh p) + (if e = PauseNotice BackpressureNormal then 1 else 0 :: nat)"
  using assms length_removeAt [of _ ws]
  by (cases e; force simp: waitForBackpressure_def waitTurn_def handleBackpressure_def Let_def split: if_splits)+

lemma pauseRun_bound:
  assumes "pauseRun evs p ws = Some (n, p', ws')" "\<not> cp_ctxDone p" "PauseCancel \<notin> set evs"
  shows "n + of_bool (cp_resumeCh p') \<le> of_bool (cp_resumeCh p) + count_list evs (PauseNotice BackpressureNormal) \<and>
    length ws \<le> length ws' + n"
  using assms
proof (induction evs arbitrary: p ws n)
  case (Cons e evs)
  then obtain k p1 ws1 m where s: "pauseStep e p ws = Some (k, p1, ws1)" "pauseRun evs p1 ws1 = Some (m, p', ws')" "n = k + m"
    by (auto split: option.splits)
  have "e \<noteq> PauseCancel" "PauseCancel \<notin> set evs" using Cons.prems(3) by auto
  note b = pauseStep_bound [OF s(1) Cons.prems(2) this(1)]
  have "m + of_bool (cp_resumeCh p') \<le> of_bool (cp_resumeCh p1) + count_list evs (PauseNotice BackpressureNormal) \<and>
      length ws1 \<le> length ws' + m"
    by (rule Cons.IH [OF s(2) b(1)]) fact
  with b(2,3) Cons.prems(3) s(3) show ?case by (auto split: if_splits)
qed simp

section \<open>Merging preserves the stream\<close>

text \<open>What a frame means to the server: a control frame as a whole, or the metadata and the bytes of
  a data frame, each with its connection.\<close>

datatype wire_event = Control int bytes | DataMeta string bytes | DataByte string byte

fun frame_events :: "int \<times> bytes \<Rightarrow> wire_event list" where
  "frame_events (mt, data) =
     (if mt \<noteq> BinaryMessage then [Control mt data]
      else case decode_frame data of
             None \<Rightarrow> [Control mt data]
           | Some f \<Rightarrow>
               if f_type f \<noteq> MsgTCPData then [Control mt data]
               else (if f_meta f = [] then [] else [DataMeta (f_connID f) (f_meta f)])
                    @ map (DataByte (f_connID f)) (f_payload f))"

abbreviation job_frame :: "writeJob \<Rightarrow> int \<times> bytes" where
  "job_frame j \<equiv> (wj_msgType j, wj_data j)"

text \<open>The connection whose data a frame carries.\<close>

definition frame_conn :: "int \<times> bytes \<Rightarrow> string option" where
  "frame_conn fr =
     (if fst fr \<noteq> BinaryMessage then None
      else case decode_frame (snd fr) of
             None \<Rightarrow> None
           | Some f \<Rightarrow> if f_type f \<noteq> MsgTCPData then None else Some (f_connID f))"

abbreviation jobs_events :: "writeJob list \<Rightarrow> wire_event list" where
  "jobs_events js \<equiv> concat (map (\<lambda>j. frame_events (job_frame j)) js)"

fun opt_list :: "'a option \<Rightarrow> 'a list" where
  "opt_list None = []"
| "opt_list (Some x) = [x]"

lemma aggLoop_split:
  assumes "aggLoop maxAgg c tot parts js = (parts', pending, rest)"
  shows "\<exists>more taken. parts' = parts @ more \<and> js = taken @ opt_list pending @ rest \<and>
     jobs_events taken = map (DataByte c) (concat more) \<and>
     tot + int (length (concat more)) \<le> max tot maxAgg"
  using assms
proof (induction maxAgg c tot parts js rule: aggLoop.induct)
  case (2 maxAgg c tot parts j js)
  show ?case
  proof (cases "\<exists>f. wj_msgType j = BinaryMessage \<and> decode_frame (wj_data j) = Some f \<and>
      f_type f = MsgTCPData \<and> f_connID f = c \<and> f_meta f = [] \<and> tot + int (length (f_payload f)) \<le> maxAgg")
    case True
    then obtain f where f: "wj_msgType j = BinaryMessage" "decode_frame (wj_data j) = Some f"
      "f_type f = MsgTCPData" "f_connID f = c" "f_meta f = []" "tot + int (length (f_payload f)) \<le> maxAgg"
      by blast
    with "2.prems" have "aggLoop maxAgg c (tot + int (length (f_payload f))) (parts @ [f_payload f]) js
        = (parts', pending, rest)"
      by simp
    with "2.IH" [of f] f obtain more taken where IH:
      "parts' = (parts @ [f_payload f]) @ more" "js = taken @ opt_list pending @ rest"
      "jobs_events taken = map (DataByte c) (concat more)"
      "tot + int (length (f_payload f)) + int (length (concat more)) \<le> max (tot + int (length (f_payload f))) maxAgg"
      by auto
    show ?thesis
      by (rule exI [of _ "f_payload f # more"], rule exI [of _ "j # taken"]) (use IH f in auto)
  next
    case False
    with "2.prems" have "parts' = parts \<and> pending = Some j \<and> rest = js"
      by (auto split: if_splits option.splits)
    then show ?thesis by auto
  qed
qed auto

lemma decode_encode_data:
  assumes "decode_frame b = Some f" "length payload < 2 ^ 32"
  shows "decode_frame (EncodeMessage t (f_connID f) (f_meta f) payload) =
    Some \<lparr>f_type = t, f_connID = f_connID f, f_meta = f_meta f, f_payload = payload\<rparr>"
proof -
  from assms(1) have "DecodeMessage b = Some (Inr f)"
    by (auto simp: decode_frame_def split: option.splits sum.splits)
  then have "frame_fits (f_connID f) (f_meta f) (f_payload f)"
    by (rule DecodeMessage_parts)
  then show ?thesis
    using DecodeMessage_EncodeMessage [of "f_meta f" payload t "f_connID f" "[]"] assms(2)
    by (simp add: frame_fits_def decode_frame_def)
qed

lemma nextFrame_events:
  assumes "maxAgg < 2 ^ 32" "nextFrame maxAgg j js = (fr, pending, rest)"
  shows "frame_events fr @ jobs_events (opt_list pending @ rest) = jobs_events (j # js)"
    and "length (opt_list pending @ rest) \<le> length js"
    and "\<exists>taken. js = taken @ rest"
    and "frame_conn fr = frame_conn (job_frame j)"
    and "set (opt_list pending @ rest) \<subseteq> set js"
proof -
  have "(frame_events fr @ jobs_events (opt_list pending @ rest) = jobs_events (j # js)) \<and>
     length (opt_list pending @ rest) \<le> length js \<and> (\<exists>taken. js = taken @ rest) \<and>
     frame_conn fr = frame_conn (job_frame j) \<and> set (opt_list pending @ rest) \<subseteq> set js"
  proof (cases "\<exists>f. wj_msgType j = BinaryMessage \<and> decode_frame (wj_data j) = Some f \<and> f_type f = MsgTCPData")
    case True
    then obtain f where f: "wj_msgType j = BinaryMessage" "decode_frame (wj_data j) = Some f" "f_type f = MsgTCPData"
      by blast
    obtain parts where agg: "aggLoop maxAgg (f_connID f) (int (length (f_payload f))) [f_payload f] js
        = (parts, pending, rest)"
      and fr: "fr = (BinaryMessage, EncodeMessage MsgTCPData (f_connID f) (f_meta f) (concat parts))"
      using assms(2) f by (auto simp: nextFrame_def split: prod.splits)
    from aggLoop_split [OF agg] obtain more taken where m: "parts = f_payload f # more"
      "js = taken @ opt_list pending @ rest" "jobs_events taken = map (DataByte (f_connID f)) (concat more)"
      "int (length (f_payload f)) + int (length (concat more)) \<le> max (int (length (f_payload f))) maxAgg"
      by auto
    have "DecodeMessage (wj_data j) = Some (Inr f)"
      using f(2) by (auto simp: decode_frame_def split: option.splits sum.splits)
    then have "length (f_payload f) < 2 ^ 32"
      by (auto dest!: DecodeMessage_parts(1) simp: frame_fits_def)
    with m assms(1) have "length (concat parts) < 2 ^ 32"
      by auto
    from decode_encode_data [OF f(2) this] show ?thesis
      using f m fr by (auto simp: length_concat frame_conn_def)
  next
    case False
    then have "fr = job_frame j \<and> pending = None \<and> rest = js"
      using assms(2) by (auto simp: nextFrame_def split: if_splits option.splits)
    then show ?thesis by auto
  qed
  then show "frame_events fr @ jobs_events (opt_list pending @ rest) = jobs_events (j # js)"
    and "length (opt_list pending @ rest) \<le> length js"
    and "\<exists>taken. js = taken @ rest"
    and "frame_conn fr = frame_conn (job_frame j)"
    and "set (opt_list pending @ rest) \<subseteq> set js"
    by blast+
qed

text \<open>The writer left alone with a working socket: \<open>n\<close> rounds that receive jobs.\<close>

primrec writeWorkerN :: "nat \<Rightarrow> nat \<Rightarrow> ref \<Rightarrow> writeJob option \<Rightarrow> clientPool \<Rightarrow> writeJob option \<times> clientPool" where
  "writeWorkerN 0 sock q pending p = (pending, p)"
| "writeWorkerN (Suc n) sock q pending p =
     (let ((alive, pending), p) = writeWorker_step True WorkerJob sock q pending p
      in if alive then writeWorkerN n sock q pending p else (None, p))"

abbreviation jobs_of :: "clientPool \<Rightarrow> ref \<Rightarrow> writeJob list" where
  "jobs_of p q \<equiv> wq_jobs (cp_queueHeap p q)"

lemma releaseQueueBytes_fields [simp]:
  "cp_queueHeap (releaseQueueBytes n p) = cp_queueHeap p"
  "cp_effects (releaseQueueBytes n p) = cp_effects p"
  "cp_config (releaseQueueBytes n p) = cp_config p"
  "cp_writeQueues (releaseQueueBytes n p) = cp_writeQueues p"
  "cp_wsConns (releaseQueueBytes n p) = cp_wsConns p"
  "cp_nextQueue (releaseQueueBytes n p) = cp_nextQueue p"
  "cp_globalQueueLimit (releaseQueueBytes n p) = cp_globalQueueLimit p"
  by (simp_all add: releaseQueueBytes_def)

lemma releaseJobs_fields [simp]:
  "cp_queueHeap (releaseJobs js p) = cp_queueHeap p"
  "cp_effects (releaseJobs js p) = cp_effects p"
  "cp_config (releaseJobs js p) = cp_config p"
  "cp_writeQueues (releaseJobs js p) = cp_writeQueues p"
  "cp_wsConns (releaseJobs js p) = cp_wsConns p"
  "cp_nextQueue (releaseJobs js p) = cp_nextQueue p"
  "cp_globalQueueLimit (releaseJobs js p) = cp_globalQueueLimit p"
  unfolding releaseJobs_def by (induction js arbitrary: p) simp_all

lemma upd_queue_fields [simp]:
  "cp_queueHeap (upd_queue q f p) = (cp_queueHeap p)(q := f (cp_queueHeap p q))"
  "cp_effects (upd_queue q f p) = cp_effects p"
  "cp_config (upd_queue q f p) = cp_config p"
  "cp_writeQueues (upd_queue q f p) = cp_writeQueues p"
  "cp_wsConns (upd_queue q f p) = cp_wsConns p"
  "cp_nextQueue (upd_queue q f p) = cp_nextQueue p"
  "cp_globalQueueLimit (upd_queue q f p) = cp_globalQueueLimit p"
  "cp_globalQueueBytes (upd_queue q f p) = cp_globalQueueBytes p"
  by (simp_all add: upd_queue_def)

lemma addSentBytes_client_fields [simp]:
  "cp_queueHeap (addSentBytes_client n p) = cp_queueHeap p"
  "cp_effects (addSentBytes_client n p) = cp_effects p"
  "cp_config (addSentBytes_client n p) = cp_config p"
  "cp_writeQueues (addSentBytes_client n p) = cp_writeQueues p"
  "cp_nextQueue (addSentBytes_client n p) = cp_nextQueue p"
  "cp_globalQueueLimit (addSentBytes_client n p) = cp_globalQueueLimit p"
  "cp_globalQueueBytes (addSentBytes_client n p) = cp_globalQueueBytes p"
  by (simp_all add: addSentBytes_client_def)

lemma cemit_fields [simp]:
  "cp_queueHeap (cemit e p) = cp_queueHeap p"
  "cp_effects (cemit e p) = cp_effects p @ [e]"
  "cp_config (cemit e p) = cp_config p"
  "cp_writeQueues (cemit e p) = cp_writeQueues p"
  "cp_nextQueue (cemit e p) = cp_nextQueue p"
  "cp_globalQueueLimit (cemit e p) = cp_globalQueueLimit p"
  "cp_globalQueueBytes (cemit e p) = cp_globalQueueBytes p"
  by (simp_all add: cemit_def)

lemma writeWorker_job_ok:
  assumes "maxAggregate p < 2 ^ 32" "writeWorker_job True sock q j p = ((alive, pending), p')"
  shows "alive" "maxAggregate p' = maxAggregate p"
    and "\<exists>fr. cp_effects p' = cp_effects p @ [SocketWrite sock (fst fr) (snd fr)] \<and>
       frame_events fr @ jobs_events (opt_list pending @ jobs_of p' q) = jobs_events (j # jobs_of p q) \<and>
       frame_conn fr = frame_conn (job_frame j)"
    and "length (opt_list pending @ jobs_of p' q) \<le> length (jobs_of p q)"
    and "set (opt_list pending @ jobs_of p' q) \<subseteq> set (jobs_of p q)"
proof -
  obtain fr pend rest where nf: "nextFrame (maxAggregate p) j (jobs_of p q) = (fr, pend, rest)"
    by (cases "nextFrame (maxAggregate p) j (jobs_of p q)") auto
  note ev = nextFrame_events [OF assms(1) nf]
  from assms(2) nf have p': "alive" "pending = pend" "jobs_of p' q = rest" "maxAggregate p' = maxAggregate p"
    "cp_effects p' = cp_effects p @ [SocketWrite sock (fst fr) (snd fr)]"
    by (auto simp: writeWorker_job_def Let_def maxAggregate_def split: prod.splits)
  then show "alive" "maxAggregate p' = maxAggregate p" by blast+
  show "\<exists>fr. cp_effects p' = cp_effects p @ [SocketWrite sock (fst fr) (snd fr)] \<and>
       frame_events fr @ jobs_events (opt_list pending @ jobs_of p' q) = jobs_events (j # jobs_of p q) \<and>
       frame_conn fr = frame_conn (job_frame j)"
    using ev(1,4) p' by (intro exI [of _ fr]) simp
  show "length (opt_list pending @ jobs_of p' q) \<le> length (jobs_of p q)"
    and "set (opt_list pending @ jobs_of p' q) \<subseteq> set (jobs_of p q)"
    using ev(2,5) p' by simp_all
qed

lemma takeJob_fields [simp]:
  "cp_effects (takeJob q p) = cp_effects p"
  "cp_config (takeJob q p) = cp_config p"
  "cp_writeQueues (takeJob q p) = cp_writeQueues p"
  "cp_wsConns (takeJob q p) = cp_wsConns p"
  "cp_nextQueue (takeJob q p) = cp_nextQueue p"
  "cp_globalQueueLimit (takeJob q p) = cp_globalQueueLimit p"
  "jobs_of (takeJob q p) q = tl (jobs_of p q)"
  by (simp_all add: takeJob_def split: list.split)

lemma drainQueue_fields [simp]:
  "cp_effects (drainQueue q p) = cp_effects p"
  "jobs_of (drainQueue q p) q = []"
  by (simp_all add: drainQueue_def)

lemma writeWorkerN_idle:
  assumes "jobs_of p q = []"
  shows "fst (writeWorkerN n sock q None p) = None"
    and "cp_effects (snd (writeWorkerN n sock q None p)) = cp_effects p"
    and "jobs_of (snd (writeWorkerN n sock q None p)) q = []"
  using assms by (induction n) (auto simp: writeWorker_step_def)

text \<open>A round with something to do writes the first outstanding job.\<close>

lemma writeWorker_step_first:
  assumes "opt_list pending @ jobs_of p q = j # js"
  obtains p1 where "writeWorker_step True WorkerJob sock q pending p = writeWorker_job True sock q j p1"
    "jobs_of p1 q = js" "cp_effects p1 = cp_effects p" "maxAggregate p1 = maxAggregate p"
proof (cases pending)
  case None
  with assms show thesis
    by (intro that [of "takeJob q p"])
      (auto simp: writeWorker_step_def maxAggregate_def writeWorker_job_def Let_def split: prod.splits)
next
  case (Some i)
  with assms show thesis
    by (intro that [of p]) (auto simp: writeWorker_step_def writeWorker_job_def Let_def split: prod.splits)
qed

definition written :: "nat \<Rightarrow> (int \<times> bytes) list \<Rightarrow> client_effect list" where
  "written sock frames = map (\<lambda>fr. SocketWrite sock (fst fr) (snd fr)) frames"

lemma writeWorkerN_stream:
  assumes "maxAggregate p < 2 ^ 32" "length (opt_list pending @ jobs_of p q) \<le> n"
  obtains frames p' where "writeWorkerN n sock q pending p = (None, p')"
    "jobs_of p' q = []" "cp_effects p' = cp_effects p @ written sock frames"
    "concat (map frame_events frames) = jobs_events (opt_list pending @ jobs_of p q)"
    "length frames \<le> length (opt_list pending @ jobs_of p q)"
    "frame_conn ` set frames \<subseteq> (\<lambda>j. frame_conn (job_frame j)) ` set (opt_list pending @ jobs_of p q)"
  using assms
proof (induction n arbitrary: pending p thesis)
  case 0
  then show ?case by (cases pending) (auto simp: written_def)
next
  case (Suc n)
  show ?case
  proof (cases "opt_list pending @ jobs_of p q")
    case Nil
    then have "pending = None" "jobs_of p q = []" by (cases pending; simp)+
    then show ?thesis
      using writeWorkerN_idle [of p q "Suc n" sock]
      by (intro Suc.prems(1) [of "snd (writeWorkerN (Suc n) sock q pending p)" "[]"])
        (simp_all add: prod_eq_iff written_def del: writeWorkerN.simps)
  next
    case (Cons j js)
    then obtain p1 where p1: "writeWorker_step True WorkerJob sock q pending p = writeWorker_job True sock q j p1"
      "jobs_of p1 q = js" "cp_effects p1 = cp_effects p" "maxAggregate p1 = maxAggregate p"
      by (rule writeWorker_step_first)
    obtain alive pend p2 where jb: "writeWorker_job True sock q j p1 = ((alive, pend), p2)"
      by (cases "writeWorker_job True sock q j p1") auto
    from Suc.prems(2) p1(4) have "maxAggregate p1 < 2 ^ 32" by simp
    note J = writeWorker_job_ok [OF this jb]
    from J(3) obtain fr where fr: "cp_effects p2 = cp_effects p1 @ [SocketWrite sock (fst fr) (snd fr)]"
      "frame_events fr @ jobs_events (opt_list pend @ jobs_of p2 q) = jobs_events (j # js)"
      "frame_conn fr = frame_conn (job_frame j)"
      unfolding p1(2) by blast
    have run: "writeWorkerN (Suc n) sock q pending p = writeWorkerN n sock q pend p2"
      using p1(1) jb J(1) by simp
    have lens: "length (opt_list pend @ jobs_of p2 q) \<le> length js" using J(4) unfolding p1(2) .
    have "length (opt_list pend @ jobs_of p2 q) \<le> n" "maxAggregate p2 < 2 ^ 32"
      using lens Suc.prems(2,3) Cons J(2) p1(4) by auto
    then obtain frames p' where IH: "writeWorkerN n sock q pend p2 = (None, p')"
      "jobs_of p' q = []" "cp_effects p' = cp_effects p2 @ written sock frames"
      "concat (map frame_events frames) = jobs_events (opt_list pend @ jobs_of p2 q)"
      "length frames \<le> length (opt_list pend @ jobs_of p2 q)"
      "frame_conn ` set frames \<subseteq> (\<lambda>j. frame_conn (job_frame j)) ` set (opt_list pend @ jobs_of p2 q)"
      using Suc.IH [of pend p2] by blast
    have "frame_conn ` set (fr # frames) \<subseteq> (\<lambda>j. frame_conn (job_frame j)) ` set (j # js)"
      using IH(6) fr(3) J(5) unfolding p1(2) by auto
    then show ?thesis
      using IH fr lens p1(3) unfolding Cons
      by (intro Suc.prems(1) [of p' "fr # frames"]) (simp_all add: run Cons written_def del: writeWorkerN.simps)
  qed
qed

section \<open>The byte counter of the client\<close>

definition job_ok :: "writeJob \<Rightarrow> bool" where
  "job_ok j \<longleftrightarrow> wj_size j = int (length (wj_data j))"

definition job_bytes :: "writeJob list \<Rightarrow> int" where
  "job_bytes js = sum_list (map wj_size js)"

definition queued_client :: "clientPool \<Rightarrow> int" where
  "queued_client p = (\<Sum>q\<in>{..<cp_nextQueue p}. job_bytes (wq_jobs (cp_queueHeap p q)))"

text \<open>The counter equals the bytes of all queues ever made and stays within the limit; queues respect
  their capacity; the queues in the table are allocated, open and different.\<close>

definition cq_ok :: "clientPool \<Rightarrow> bool" where
  "cq_ok p \<longleftrightarrow> cp_globalQueueBytes p = queued_client p \<and> queued_client p \<le> cp_globalQueueLimit p \<and>
     (\<forall>q. length (jobs_of p q) \<le> writeQueueSize \<and> list_all job_ok (jobs_of p q)) \<and>
     (\<forall>q. cp_nextQueue p \<le> q \<longrightarrow> jobs_of p q = []) \<and>
     (\<forall>q. Some q \<in> set (cp_writeQueues p) \<longrightarrow> q < cp_nextQueue p \<and> \<not> wq_closed (cp_queueHeap p q)) \<and>
     distinct (non_nil (cp_writeQueues p))"

lemma job_bytes_simps [simp]:
  "job_bytes [] = 0" "job_bytes (j # js) = wj_size j + job_bytes js"
  "job_bytes (js @ ks) = job_bytes js + job_bytes ks"
  by (simp_all add: job_bytes_def)

lemma job_bytes_nonneg: "list_all job_ok js \<Longrightarrow> 0 \<le> job_bytes js"
  by (induction js) (auto simp: job_ok_def)

lemma cq_okD:
  assumes "cq_ok p"
  shows "cp_globalQueueBytes p = queued_client p" "queued_client p \<le> cp_globalQueueLimit p"
    "length (jobs_of p q) \<le> writeQueueSize" "list_all job_ok (jobs_of p q)"
    "cp_nextQueue p \<le> q \<Longrightarrow> jobs_of p q = []" "distinct (non_nil (cp_writeQueues p))"
    "Some q \<in> set (cp_writeQueues p) \<Longrightarrow> q < cp_nextQueue p"
    "Some q \<in> set (cp_writeQueues p) \<Longrightarrow> \<not> wq_closed (cp_queueHeap p q)"
  using assms unfolding cq_ok_def by blast+

lemma queued_client_nonneg: "cq_ok p \<Longrightarrow> 0 \<le> queued_client p"
  by (auto simp: queued_client_def intro!: sum_nonneg job_bytes_nonneg cq_okD(4))

lemma queued_client_ge: "cq_ok p \<Longrightarrow> job_bytes (jobs_of p q) \<le> queued_client p"
proof (cases "q < cp_nextQueue p")
  case True
  assume ok: "cq_ok p"
  have "(\<Sum>x\<in>{q}. job_bytes (jobs_of p x)) \<le> queued_client p"
    unfolding queued_client_def
    by (rule sum_mono2) (use True in \<open>auto intro!: job_bytes_nonneg cq_okD(4) [OF ok]\<close>)
  then show ?thesis by simp
next
  case False
  assume "cq_ok p"
  with False show ?thesis using cq_okD(5) [of p q] queued_client_nonneg [of p] by simp
qed

lemma queued_client_upd:
  assumes "q < cp_nextQueue p"
  shows "queued_client (upd_queue q f p) =
    queued_client p - job_bytes (jobs_of p q) + job_bytes (wq_jobs (f (cp_queueHeap p q)))"
  unfolding queued_client_def upd_queue_fields
  using sum_fun_upd [OF assms, of "\<lambda>c. job_bytes (wq_jobs c)" "cp_queueHeap p" "f (cp_queueHeap p q)"]
  by simp

lemma queued_client_cong:
  "cp_queueHeap p' = cp_queueHeap p \<Longrightarrow> cp_nextQueue p' = cp_nextQueue p \<Longrightarrow> queued_client p' = queued_client p"
  by (simp add: queued_client_def)

lemma cq_ok_cong:
  assumes "cq_ok p" "cp_queueHeap p' = cp_queueHeap p" "cp_nextQueue p' = cp_nextQueue p"
    "cp_globalQueueBytes p' = cp_globalQueueBytes p" "cp_globalQueueLimit p' = cp_globalQueueLimit p"
    "cp_writeQueues p' = cp_writeQueues p"
  shows "cq_ok p'"
  using assms queued_client_cong [OF assms(2,3)] by (simp add: cq_ok_def)

text \<open>Shrinking one queue together with the counter.\<close>

lemma cq_ok_shrink:
  assumes ok: "cq_ok p" and js: "jobs_of p q = ks @ rest"
  shows "cq_ok (releaseJobs ks (upd_queue q (wq_jobs_update (\<lambda>_. rest)) p))"
proof -
  have counter: "cp_globalQueueBytes (releaseJobs ks r) = cp_globalQueueBytes r - job_bytes ks"
    if "list_all job_ok ks" "job_bytes ks \<le> cp_globalQueueBytes r" for r
    using that
  proof (induction ks arbitrary: r)
    case (Cons k ks)
    then have "list_all job_ok ks" "job_ok k" by simp_all
    then have "0 \<le> wj_size k" "0 \<le> job_bytes ks"
      by (simp add: job_ok_def, intro job_bytes_nonneg)
    with Cons.IH [of "releaseQueueBytes (wj_size k) r"] Cons.prems show ?case
      by (auto simp: releaseJobs_def releaseQueueBytes_def)
  qed (simp add: releaseJobs_def)
  have all: "list_all job_ok ks" "list_all job_ok rest" "length (jobs_of p q) \<le> writeQueueSize"
    using cq_okD(3,4) [OF ok, of q] js by auto
  show ?thesis
  proof (cases "q < cp_nextQueue p")
    case True
    let ?p = "upd_queue q (wq_jobs_update (\<lambda>_. rest)) p"
    have b: "queued_client ?p = queued_client p - job_bytes ks"
      using queued_client_upd [OF True, of "wq_jobs_update (\<lambda>_. rest)"] js by simp
    have "job_bytes ks \<le> cp_globalQueueBytes ?p"
      using queued_client_ge [OF ok, of q] cq_okD(1) [OF ok] job_bytes_nonneg [OF all(2)] js by simp
    note c = counter [OF all(1) this]
    have "queued_client (releaseJobs ks ?p) = queued_client ?p" by (rule queued_client_cong) simp_all
    with b c ok all js True job_bytes_nonneg [OF all(1)] show ?thesis
      by (auto simp: cq_ok_def)
  next
    case False
    then have "ks = [] \<and> rest = []" using cq_okD(5) [OF ok, of q] js by simp
    with ok js show ?thesis
      by (intro cq_ok_cong [OF ok]) (auto simp: releaseJobs_def upd_queue_def fun_upd_idem_iff)
  qed
qed

lemma cq_ok_takeJob [inv_intros]: "cq_ok p \<Longrightarrow> cq_ok (takeJob q p)"
  using cq_ok_shrink [of p q "[hd (jobs_of p q)]" "tl (jobs_of p q)"]
  by (auto simp: takeJob_def releaseJobs_def split: list.split)

lemma cq_ok_drainQueue [inv_intros]: "cq_ok p \<Longrightarrow> cq_ok (drainQueue q p)"
  using cq_ok_shrink [of p q "jobs_of p q" "[]"] by (simp add: drainQueue_def)

section \<open>What sending keeps\<close>

text \<open>
  Everything the client sends goes through \<^const>\<open>asyncWriteDirect\<close>: a property it keeps is kept by
  broadcasts and by every message the pool sends. The properties used are the accounting
  invariant and the part of the pool that sending does not touch.
\<close>

locale client_transport =
  fixes I :: "clientPool \<Rightarrow> bool"
  assumes I_send: "I p \<Longrightarrow> I (snd (asyncWriteDirect env chID mt data p))"
begin

lemma I_broadcast: "I p \<Longrightarrow> I (snd (broadcastWrite_client env mt data p))"
proof -
  have "I (snd (foldl (\<lambda>(n, p) idx.
         let chID = int idx + 1; (res, p) = asyncWriteDirect (env chID) chID mt data p
         in (if res = Sent then n + 1 else n, p)) (n, p) idxs))" if "I p" for n idxs
    using that
  proof (induction idxs arbitrary: n p)
    case (Cons i idxs)
    then show ?case
      using I_send [of p "env (int i + 1)" "int i + 1" mt data]
      by (auto simp: Let_def split_def)
  qed simp
  then show "I p \<Longrightarrow> I (snd (broadcastWrite_client env mt data p))"
    by (simp add: broadcastWrite_client_def)
qed

lemma I_SendDataDirect: "I p \<Longrightarrow> I (snd (SendDataDirect env chID connID b p))"
  by (simp add: SendDataDirect_def I_send)

lemma I_SendCloseDirect: "I p \<Longrightarrow> I (snd (SendCloseDirect env chID connID p))"
  by (simp add: SendCloseDirect_def I_send)

lemma I_SendUDPDataDirect: "I p \<Longrightarrow> I (snd (SendUDPDataDirect env chID connID b p))"
  by (simp add: SendUDPDataDirect_def I_send)

lemma I_send_all: "I p \<Longrightarrow> I (foldl (\<lambda>p c. snd (asyncWriteDirect (env c) c mt data p)) p chs)"
  by (induction chs arbitrary: p) (simp_all add: I_send)

end

definition sent_view :: "clientPool \<Rightarrow> clientPool" where
  "sent_view p = p\<lparr>cp_globalQueueBytes := 0, cp_queueHeap := \<lambda>_. newQueue, cp_backpressureState := 0\<rparr>"

lemma sent_view_simps [simp]:
  "sent_view (p\<lparr>cp_globalQueueBytes := n\<rparr>) = sent_view p"
  "sent_view (p\<lparr>cp_backpressureState := s\<rparr>) = sent_view p"
  "sent_view (upd_queue q f p) = sent_view p"
  "sent_view (releaseQueueBytes n p) = sent_view p"
  "sent_view (snd (reserveQueueBytes n p)) = sent_view p"
  "sent_view (snd (waitOver w p)) = sent_view p"
  "sent_view (takeJob q p) = sent_view p"
  "sent_view (putJob q j p) = sent_view p"
  by (auto simp: sent_view_def upd_queue_def releaseQueueBytes_def reserveQueueBytes_def waitOver_def
      takeJob_def putJob_def split: wait_result.split list.split)

lemma sent_view_begin: "sent_view (snd (asyncWriteDirect_begin env ch data p)) = sent_view p"
  by (simp add: asyncWriteDirect_begin_def Let_def split_def split: option.split)

lemma sent_view_send: "sent_view (snd (asyncWriteDirect_send env mt data q p)) = sent_view p"
  by (simp add: asyncWriteDirect_send_def Let_def split: full_result.split)

lemma sent_view_asyncWriteDirect: "sent_view (snd (asyncWriteDirect env ch mt data p)) = sent_view p"
  using sent_view_begin [of env ch data p]
  by (auto simp: asyncWriteDirect_def sent_view_send split: prod.split sum.split)

interpretation frame: client_transport "\<lambda>p. sent_view p = v" for v
  by unfold_locales (simp add: sent_view_asyncWriteDirect)

lemma sent_view_fields:
  assumes "sent_view p = sent_view p'"
  shows "cp_conns p = cp_conns p'" "cp_warmer p = cp_warmer p'" "cp_wsConns p = cp_wsConns p'"
    "cp_writeQueues p = cp_writeQueues p'" "cp_nextQueue p = cp_nextQueue p'"
    "cp_reverseConns p = cp_reverseConns p'" "cp_revHeap p = cp_revHeap p'" "cp_nextRev p = cp_nextRev p'"
    "cp_effects p = cp_effects p'" "cp_tasks p = cp_tasks p'" "cp_config p = cp_config p'"
    "cp_globalQueueLimit p = cp_globalQueueLimit p'" "cp_ctxDone p = cp_ctxDone p'"
    "cp_prebindRacers p = cp_prebindRacers p'" "cp_reverseListenerMap p = cp_reverseListenerMap p'"
    "cp_reverseListenerState p = cp_reverseListenerState p'" "cp_chInvalidCh p = cp_chInvalidCh p'"
    "cp_chReadyCh p = cp_chReadyCh p'" "cp_readyChannels p = cp_readyChannels p'"
    "cp_hasWarmer p = cp_hasWarmer p'" "cp_reverseRegOnceDone p = cp_reverseRegOnceDone p'"
    "cp_udpHeap p = cp_udpHeap p'" "cp_nextUdp p = cp_nextUdp p'"
    "cp_bytesReceived p = cp_bytesReceived p'" "cp_relayCount p = cp_relayCount p'"
  using assms by (cases p; cases p'; simp add: sent_view_def)+

lemmas asyncWriteDirect_fields [simp] = sent_view_fields [OF sent_view_asyncWriteDirect]
lemmas broadcastWrite_client_fields [simp] = sent_view_fields [OF frame.I_broadcast [OF refl]]

lemma cq_ok_waitOver: "cq_ok p \<Longrightarrow> cq_ok (snd (waitOver w p))"
  by (rule cq_ok_cong [of p]) (auto simp: waitOver_def split: wait_result.split)

text \<open>The state in which a job's bytes are reserved but the job is not yet queued.\<close>

definition cq_reserved :: "int \<Rightarrow> clientPool \<Rightarrow> bool" where
  "cq_reserved sz p \<longleftrightarrow> 0 \<le> sz \<and> cp_globalQueueBytes p \<le> cp_globalQueueLimit p \<and>
     cq_ok (p\<lparr>cp_globalQueueBytes := cp_globalQueueBytes p - sz\<rparr>)"

lemma cq_ok_reserve:
  assumes "cq_ok p" "0 \<le> sz"
  shows "reserveQueueBytes sz p = (True, p') \<Longrightarrow> cq_reserved sz p'"
    and "reserveQueueBytes sz p = (False, p') \<Longrightarrow> cq_ok p'"
  using assms cq_okD(1,2) [OF assms(1)]
  by (auto simp: reserveQueueBytes_def cq_reserved_def split: if_splits elim: cq_ok_cong)

lemma cq_ok_release:
  assumes "cq_reserved sz p"
  shows "cq_ok (releaseQueueBytes sz p)"
proof -
  let ?p = "p\<lparr>cp_globalQueueBytes := cp_globalQueueBytes p - sz\<rparr>"
  have "cq_ok ?p" using assms by (simp add: cq_reserved_def)
  moreover from this have "0 \<le> cp_globalQueueBytes p - sz"
    using cq_okD(1) queued_client_nonneg by fastforce
  ultimately show ?thesis
    using assms by (elim cq_ok_cong) (auto simp: releaseQueueBytes_def cq_reserved_def)
qed

lemma cq_ok_putJob:
  assumes res: "cq_reserved sz p" and "q < cp_nextQueue p" "wj_size j = sz" "job_ok j"
    "length (jobs_of p q) < writeQueueSize"
  shows "cq_ok (putJob q j p)"
proof -
  let ?p = "p\<lparr>cp_globalQueueBytes := cp_globalQueueBytes p - sz\<rparr>"
  have ok: "cq_ok ?p" using res by (simp add: cq_reserved_def)
  have "queued_client ?p = queued_client p" by (rule queued_client_cong) simp_all
  moreover have "queued_client (putJob q j p) = queued_client p + sz"
    using queued_client_upd [OF assms(2), of "wq_jobs_update (\<lambda>js. js @ [j])"] assms(3)
    by (simp add: putJob_def)
  ultimately show ?thesis
    using ok assms by (auto simp: cq_ok_def cq_reserved_def putJob_def)
qed

text \<open>The first half of a send, opened up: the state after the wait and the reservation.\<close>

lemma begin_opened:
  obtains go w b r where
    "(if getBackpressureDelay p < 0 then waitOver (se_wait env) p else (True, p)) = (go, w)"
    "reserveQueueBytes (int (length data)) w = (b, r)"
    "cp_writeQueues w = cp_writeQueues p" "cp_writeQueues r = cp_writeQueues p"
    "cq_ok p \<Longrightarrow> cq_ok w" "cq_ok p \<Longrightarrow> b \<Longrightarrow> cq_reserved (int (length data)) r"
    "cq_ok p \<Longrightarrow> \<not> b \<Longrightarrow> cq_ok r"
proof -
  obtain go w where w: "(if getBackpressureDelay p < 0 then waitOver (se_wait env) p else (True, p)) = (go, w)"
    by fastforce
  obtain b r where r: "reserveQueueBytes (int (length data)) w = (b, r)" by fastforce
  have view: "sent_view w = sent_view p" "sent_view r = sent_view w"
    using arg_cong [OF w, of "\<lambda>x. sent_view (snd x)"] arg_cong [OF r, of "\<lambda>x. sent_view (snd x)"]
    by (simp_all split: if_splits)
  have ok: "cq_ok w" if "cq_ok p"
    using cq_ok_waitOver [OF that, of "se_wait env"] w that by (auto split: if_splits)
  have queues: "cp_writeQueues w = cp_writeQueues p" "cp_writeQueues r = cp_writeQueues p"
    using sent_view_fields(4) [OF view(1)] sent_view_fields(4) [OF view(2)] by simp_all
  show thesis
  proof (rule that [OF w r queues ok])
    show "cq_reserved (int (length data)) r" if "cq_ok p" b
      using cq_ok_reserve(1) [OF ok [OF that(1)], of "int (length data)" r] r that(2) by simp
    show "cq_ok r" if "cq_ok p" "\<not> b"
      using cq_ok_reserve(2) [OF ok [OF that(1)], of "int (length data)" r] r that(2) by simp
  qed
qed

lemma begin_reserved:
  assumes "cq_ok p" "asyncWriteDirect_begin env ch data p = (Inr q, p')"
  shows "cq_reserved (int (length data)) p'" "Some q \<in> set (cp_writeQueues p')"
proof -
  obtain idx where idx: "chIndex p ch = Some idx" "idx < length (cp_writeQueues p)"
    using assms(2) by (auto simp: asyncWriteDirect_begin_def chIndex_def Let_def nat_less_iff split: if_splits)
  obtain go w b r where O:
    "(if getBackpressureDelay p < 0 then waitOver (se_wait env) p else (True, p)) = (go, w)"
    "reserveQueueBytes (int (length data)) w = (b, r)"
    "cp_writeQueues r = cp_writeQueues p" "b \<Longrightarrow> cq_reserved (int (length data)) r"
    using begin_opened [of p env data] assms(1) by metis
  have "b \<and> p' = r \<and> cp_writeQueues r ! idx = Some q"
    using assms(2) idx(1) O(1,2) by (simp add: asyncWriteDirect_begin_def split: if_splits option.splits)
  with O(3,4) idx(2) show "cq_reserved (int (length data)) p'" "Some q \<in> set (cp_writeQueues p')"
    by (auto simp: in_set_conv_nth)
qed

lemma begin_refused:
  assumes "cq_ok p" "asyncWriteDirect_begin env ch data p = (Inl e, p')"
  shows "cq_ok p'"
proof -
  obtain go w b r where O:
    "(if getBackpressureDelay p < 0 then waitOver (se_wait env) p else (True, p)) = (go, w)"
    "reserveQueueBytes (int (length data)) w = (b, r)"
    "cq_ok w" "b \<Longrightarrow> cq_reserved (int (length data)) r" "\<not> b \<Longrightarrow> cq_ok r"
    using begin_opened [of p env data] assms(1) by metis
  show ?thesis
    using assms O(1,2,3,5) cq_ok_release [OF O(4)]
    by (auto simp: asyncWriteDirect_begin_def split: if_splits option.splits)
qed

lemma cq_reserved_takeJob:
  assumes res: "cq_reserved sz p"
  shows "cq_reserved sz (takeJob q p)"
proof -
  let ?p = "p\<lparr>cp_globalQueueBytes := cp_globalQueueBytes p - sz\<rparr>"
  have ok: "cq_ok ?p" and "0 \<le> sz" "cp_globalQueueBytes p \<le> cp_globalQueueLimit p"
    using res by (simp_all add: cq_reserved_def)
  have "job_bytes (jobs_of p q) \<le> cp_globalQueueBytes p - sz" "list_all job_ok (jobs_of p q)"
    using queued_client_ge [OF ok, of q] cq_okD(1) [OF ok] cq_okD(4) [OF ok, of q] by simp_all
  then have eq: "cp_globalQueueBytes (takeJob q ?p) = cp_globalQueueBytes (takeJob q p) - sz"
    and le: "cp_globalQueueBytes (takeJob q p) \<le> cp_globalQueueBytes p"
    using \<open>0 \<le> sz\<close> job_bytes_nonneg [of "tl (jobs_of p q)"]
    by (auto simp: takeJob_def releaseQueueBytes_def job_ok_def split: list.split)
  have "cq_ok ((takeJob q p)\<lparr>cp_globalQueueBytes := cp_globalQueueBytes (takeJob q p) - sz\<rparr>)"
  proof (rule cq_ok_cong [OF cq_ok_takeJob [OF ok, of q]])
    show "cp_queueHeap ((takeJob q p)\<lparr>cp_globalQueueBytes := cp_globalQueueBytes (takeJob q p) - sz\<rparr>) =
        cp_queueHeap (takeJob q ?p)"
      by (simp add: takeJob_def split: list.split)
  qed (simp_all add: eq)
  with le res show ?thesis by (simp add: cq_reserved_def)
qed

lemma send_reserved:
  assumes res: "cq_reserved (int (length data)) p" and q: "Some q \<in> set (cp_writeQueues p)"
  shows "cq_ok (snd (asyncWriteDirect_send env mt data q p))"
    and "fst (asyncWriteDirect_send env mt data q p) \<noteq> SendPanic"
proof -
  let ?sz = "int (length data)" and ?j = "\<lparr>wj_msgType = mt, wj_data = data, wj_size = int (length data)\<rparr>"
  have ok: "cq_ok (p\<lparr>cp_globalQueueBytes := cp_globalQueueBytes p - ?sz\<rparr>)"
    using res by (simp add: cq_reserved_def)
  have open_q: "\<not> wq_closed (cp_queueHeap p q)" and alloc: "q < cp_nextQueue p"
    using cq_okD(7,8) [OF ok, of q] q by simp_all
  have len: "length (jobs_of p q) \<le> writeQueueSize" using cq_okD(3) [OF ok, of q] by simp
  have room: "length (jobs_of (takeJob q p) q) < writeQueueSize" if "\<not> length (jobs_of p q) < writeQueueSize"
    using that len by (simp add: writeQueueSize_def)
  show "fst (asyncWriteDirect_send env mt data q p) \<noteq> SendPanic"
    using open_q by (simp add: asyncWriteDirect_send_def Let_def split: full_result.split)
  show "cq_ok (snd (asyncWriteDirect_send env mt data q p))"
    using open_q cq_ok_release [OF res] cq_ok_putJob [OF res alloc, of ?j] room
      cq_ok_putJob [OF cq_reserved_takeJob [OF res], of q q ?j] alloc
    by (auto simp: asyncWriteDirect_send_def Let_def job_ok_def split: full_result.split)
qed

lemma cq_ok_asyncWriteDirect [inv_intros]: "cq_ok p \<Longrightarrow> cq_ok (snd (asyncWriteDirect env ch mt data p))"
  by (auto simp: asyncWriteDirect_def split: prod.split sum.split
      intro: begin_refused send_reserved(1) begin_reserved)

lemma asyncWriteDirect_no_panic: "cq_ok p \<Longrightarrow> fst (asyncWriteDirect env ch mt data p) \<noteq> SendPanic"
  by (auto simp: asyncWriteDirect_def split: prod.split sum.split
      dest: begin_reserved dest!: send_reserved(2))

interpretation budget: client_transport cq_ok
  by unfold_locales (rule cq_ok_asyncWriteDirect)

lemma cq_ok_writeWorker_job: "cq_ok p \<Longrightarrow> cq_ok (snd (writeWorker_job ok sock q j p))"
proof -
  assume cq: "cq_ok p"
  obtain fr pend rest where nf: "nextFrame (maxAggregate p) j (jobs_of p q) = (fr, pend, rest)"
    by (cases "nextFrame (maxAggregate p) j (jobs_of p q)") auto
  have "\<exists>taken. jobs_of p q = taken @ rest"
    using nf aggLoop_split
    by (fastforce simp: nextFrame_def Let_def split: if_splits option.splits prod.splits)
  then obtain taken where t: "jobs_of p q = taken @ rest" by blast
  have base: "cq_ok (releaseJobs taken (upd_queue q (wq_jobs_update (\<lambda>_. rest)) p))"
    by (rule cq_ok_shrink [OF cq t])
  show ?thesis
    using t nf by (auto simp: writeWorker_job_def Let_def split: prod.split
        intro!: cq_ok_cong [OF base])
qed

lemma cq_ok_writeWorker_step [inv_intros]: "cq_ok p \<Longrightarrow> cq_ok (snd (writeWorker_step ok ev sock q pend p))"
proof -
  assume cq: "cq_ok p"
  have emit: "cq_ok (cemit e p)" for e by (rule cq_ok_cong [OF cq]) simp_all
  note cases = emit cq cq_ok_takeJob [OF cq] cq_ok_writeWorker_job [of p] cq_ok_writeWorker_job [of "takeJob q p"]
  show ?thesis
    unfolding writeWorker_step_def Let_def
    using cases
    by (auto simp: split_def split: option.split worker_event.split list.split intro!: cq_ok_drainQueue)
qed

lemma cq_ok_installSession [inv_intros]:
  assumes ok: "cq_ok p"
  shows "cq_ok (installSession idx sock p)"
proof -
  let ?q = "cp_nextQueue p" and ?p = "installSession idx sock p"
  have sum: "queued_client ?p = queued_client p"
    by (auto simp: queued_client_def installSession_def Let_def newQueue_def intro!: sum.cong)
  have tab: "Some q \<in> set (cp_writeQueues ?p) \<Longrightarrow> q = ?q \<or> Some q \<in> set (cp_writeQueues p)" for q
    using set_update_subset_insert [of "cp_writeQueues p" idx "Some ?q"]
    by (auto simp: installSession_def Let_def)
  have fresh: "Some ?q \<notin> set (cp_writeQueues p)" using cq_okD(7) [OF ok, of ?q] by auto
  have dist: "distinct (non_nil xs) \<Longrightarrow> Some y \<notin> set xs \<Longrightarrow> distinct (non_nil (xs[i := Some y]))" for xs i and y :: ref
  proof (induction xs arbitrary: i rule: non_nil.induct)
    case (3 x xs)
    then show ?case using set_update_subset_insert [of xs _ "Some y"] by (cases i) auto
  qed (auto split: nat.split)
  show ?thesis
    unfolding cq_ok_def sum
  proof (intro conjI allI impI)
    show "distinct (non_nil (cp_writeQueues ?p))"
      using dist [OF cq_okD(6) [OF ok] fresh] by (simp add: installSession_def Let_def)
    fix q assume "Some q \<in> set (cp_writeQueues ?p)"
    from tab [OF this] show "q < cp_nextQueue ?p" "\<not> wq_closed (cp_queueHeap ?p q)"
      using cq_okD(7,8) [OF ok, of q] by (auto simp: installSession_def Let_def newQueue_def)
  qed (use ok cq_okD [OF ok] in \<open>auto simp: installSession_def Let_def newQueue_def\<close>)
qed

lemma closeQueues_simps:
  "cp_writeQueues (closeQueues p) = map (\<lambda>_. None) (cp_writeQueues p)"
  "jobs_of (closeQueues p) q = jobs_of p q"
  "wq_closed (cp_queueHeap (closeQueues p) q) \<longleftrightarrow> wq_closed (cp_queueHeap p q) \<or> Some q \<in> set (cp_writeQueues p)"
  "cp_nextQueue (closeQueues p) = cp_nextQueue p"
  "cp_globalQueueBytes (closeQueues p) = cp_globalQueueBytes p"
  "cp_globalQueueLimit (closeQueues p) = cp_globalQueueLimit p"
proof -
  let ?close = "\<lambda>p q. upd_queue q (wq_closed_update (\<lambda>_. True)) p"
  have fold: "jobs_of (foldl ?close r qs) q = jobs_of r q"
    "wq_closed (cp_queueHeap (foldl ?close r qs) q) \<longleftrightarrow> wq_closed (cp_queueHeap r q) \<or> q \<in> set qs"
    "cp_nextQueue (foldl ?close r qs) = cp_nextQueue r"
    "cp_globalQueueBytes (foldl ?close r qs) = cp_globalQueueBytes r"
    "cp_globalQueueLimit (foldl ?close r qs) = cp_globalQueueLimit r" for r qs
    by (induction qs arbitrary: r) auto
  show "cp_writeQueues (closeQueues p) = map (\<lambda>_. None) (cp_writeQueues p)"
    "jobs_of (closeQueues p) q = jobs_of p q"
    "wq_closed (cp_queueHeap (closeQueues p) q) \<longleftrightarrow> wq_closed (cp_queueHeap p q) \<or> Some q \<in> set (cp_writeQueues p)"
    "cp_nextQueue (closeQueues p) = cp_nextQueue p"
    "cp_globalQueueBytes (closeQueues p) = cp_globalQueueBytes p"
    "cp_globalQueueLimit (closeQueues p) = cp_globalQueueLimit p"
    by (simp_all add: closeQueues_def fold)
qed

lemma cq_ok_closeQueues [inv_intros]: "cq_ok p \<Longrightarrow> cq_ok (closeQueues p)"
proof -
  assume ok: "cq_ok p"
  have "queued_client (closeQueues p) = queued_client p"
    by (simp add: queued_client_def closeQueues_simps)
  moreover have "non_nil (map (\<lambda>_. None :: ref option) xs) = []" for xs :: "ref option list"
    by (induction xs) simp_all
  ultimately show ?thesis using ok by (auto simp: cq_ok_def closeQueues_simps)
qed

lemma cq_ok_newClientPool: "cq_ok (newClientPool cfg)"
proof -
  have "non_nil (map Some xs) = xs" for xs :: "nat list" by (induction xs) simp_all
  then show ?thesis
    by (auto simp: cq_ok_def newClientPool_def Let_def queued_client_def newQueue_def
        DefaultBackpressureLimitBytes_def)
qed

section \<open>Properties\<close>



text \<open>Property C27: the writer of a channel, run until its queue is empty, writes frames that carry
  exactly the queued control frames and data bytes, connection by connection and in the order they
  were queued, however it merged consecutive data frames; it never writes more frames than there
  were jobs, and as many rounds as there are jobs are enough.\<close>

theorem merging_preserves_stream:
  assumes "4 * cf_ReadBufferSize (cp_config p) < 2 ^ 32" "length (wq_jobs (cp_queueHeap p q)) \<le> n"
  shows "\<exists>frames p'. writeWorkerN n sock q None p = (None, p') \<and>
     wq_jobs (cp_queueHeap p' q) = [] \<and>
     cp_effects p' = cp_effects p @ map (\<lambda>(mt, data). SocketWrite sock mt data) frames \<and>
     concat (map frame_events frames) =
       concat (map (\<lambda>j. frame_events (wj_msgType j, wj_data j)) (wq_jobs (cp_queueHeap p q))) \<and>
     length frames \<le> length (wq_jobs (cp_queueHeap p q))"
proof -
  have "maxAggregate p < 2 ^ 32" "length (opt_list None @ jobs_of p q) \<le> n"
    using assms by (simp_all add: maxAggregate_def)
  then obtain frames p' where "writeWorkerN n sock q None p = (None, p')"
    "jobs_of p' q = []" "cp_effects p' = cp_effects p @ written sock frames"
    "concat (map frame_events frames) = jobs_events (opt_list None @ jobs_of p q)"
    "length frames \<le> length (opt_list None @ jobs_of p q)"
    by (rule writeWorkerN_stream)
  then show ?thesis
    by (intro exI [of _ frames] exI [of _ p']) (auto simp: written_def split_def)
qed

definition data_job :: "string \<Rightarrow> bytes \<Rightarrow> writeJob" where
  "data_job c b = \<lparr>wj_msgType = BinaryMessage, wj_data = EncodeMessage MsgTCPData c [] b,
     wj_size = int (length (EncodeMessage MsgTCPData c [] b))\<rparr>"

theorem merging_preserves_stream_witness:
  "let p = putJob 0 (data_job ''a'' [1, 2]) (putJob 0 (data_job ''a'' [3]) (newClientPool DefaultConfig))
   in \<exists>frames p'. writeWorkerN 2 7 0 None p = (None, p') \<and> wq_jobs (cp_queueHeap p' 0) = [] \<and>
     cp_effects p' = cp_effects p @ map (\<lambda>(mt, data). SocketWrite 7 mt data) frames \<and>
     concat (map frame_events frames) =
       concat (map (\<lambda>j. frame_events (wj_msgType j, wj_data j)) (wq_jobs (cp_queueHeap p 0))) \<and>
     length frames \<le> length (wq_jobs (cp_queueHeap p 0))"
  unfolding Let_def
  by (rule merging_preserves_stream)
    (simp_all add: putJob_def newClientPool_def Let_def DefaultConfig_def newQueue_def)

text \<open>The write path while the client runs: sends, writers of the sessions in the table, new sessions
  and back-pressure notifications.\<close>

inductive live_step :: "clientPool \<Rightarrow> clientPool \<Rightarrow> bool" where
  ls_send: "live_step p (snd (asyncWriteDirect env ch mt data p))"
| ls_worker: "Some q \<in> set (cp_writeQueues p) \<Longrightarrow> live_step p (snd (writeWorker_step ok ev sock q pend p))"
| ls_session: "live_step p (installSession idx sock p)"
| ls_notice: "live_step p (handleBackpressure s p)"

text \<open>A queue that is not in the table and still holds jobs.\<close>

definition abandoned :: "ref \<Rightarrow> writeJob list \<Rightarrow> clientPool \<Rightarrow> bool" where
  "abandoned q js p \<longleftrightarrow> cq_ok p \<and> q < cp_nextQueue p \<and> Some q \<notin> set (cp_writeQueues p) \<and> jobs_of p q = js"

lemma begin_heap: "asyncWriteDirect_begin env ch data p = (x, p') \<Longrightarrow> cp_queueHeap p' = cp_queueHeap p"
  by (auto simp: asyncWriteDirect_begin_def Let_def waitOver_def reserveQueueBytes_def releaseQueueBytes_def
      split: option.splits if_splits wait_result.splits)

lemma send_other_queue: "q \<noteq> r \<Longrightarrow> jobs_of (snd (asyncWriteDirect_send env mt data r p)) q = jobs_of p q"
  by (auto simp: asyncWriteDirect_send_def Let_def putJob_def takeJob_def split: full_result.split list.split)

lemma asyncWriteDirect_other_queue:
  assumes "cq_ok p" "Some q \<notin> set (cp_writeQueues p)"
  shows "jobs_of (snd (asyncWriteDirect env ch mt data p)) q = jobs_of p q"
proof (cases "asyncWriteDirect_begin env ch data p")
  case (Pair x p')
  have view: "cp_writeQueues p' = cp_writeQueues p"
    using sent_view_fields(4) [OF sent_view_begin [of env ch data p]] Pair by simp
  show ?thesis
  proof (cases x)
    case (Inr r)
    then have "Some r \<in> set (cp_writeQueues p)"
      using begin_reserved(2) [OF assms(1), of env ch data r p'] Pair view by simp
    with assms(2) have "q \<noteq> r" by auto
    with Inr Pair show ?thesis
      by (simp add: asyncWriteDirect_def send_other_queue begin_heap [OF Pair])
  qed (simp add: asyncWriteDirect_def Pair begin_heap [OF Pair])
qed

lemma worker_other_queue:
  assumes "q \<noteq> r"
  shows "jobs_of (snd (writeWorker_step ok ev sock r pend p)) q = jobs_of p q"
    and "cp_writeQueues (snd (writeWorker_step ok ev sock r pend p)) = cp_writeQueues p"
    and "cp_nextQueue (snd (writeWorker_step ok ev sock r pend p)) = cp_nextQueue p"
proof -
  have job: "jobs_of (snd (writeWorker_job ok sock r j p)) q = jobs_of p q"
    "cp_writeQueues (snd (writeWorker_job ok sock r j p)) = cp_writeQueues p"
    "cp_nextQueue (snd (writeWorker_job ok sock r j p)) = cp_nextQueue p" for ok j p
    using assms by (auto simp: writeWorker_job_def Let_def split: prod.split)
  have take_job: "jobs_of (takeJob r p) q = jobs_of p q"
    using assms by (simp add: takeJob_def split: list.split)
  have drain: "jobs_of (drainQueue r p) q = jobs_of p q" "cp_writeQueues (drainQueue r p) = cp_writeQueues p"
    "cp_nextQueue (drainQueue r p) = cp_nextQueue p" for p
    using assms by (simp_all add: drainQueue_def)
  show "jobs_of (snd (writeWorker_step ok ev sock r pend p)) q = jobs_of p q"
    "cp_writeQueues (snd (writeWorker_step ok ev sock r pend p)) = cp_writeQueues p"
    "cp_nextQueue (snd (writeWorker_step ok ev sock r pend p)) = cp_nextQueue p"
    by (simp_all add: writeWorker_step_def Let_def split_def drain job take_job
        split: option.split worker_event.split list.split)
qed

lemma abandoned_step: "live_step p p' \<Longrightarrow> abandoned q js p \<Longrightarrow> abandoned q js p'"
proof (induction rule: live_step.induct)
  case (ls_send p env ch mt data)
  then show ?case by (auto simp: abandoned_def cq_ok_asyncWriteDirect asyncWriteDirect_other_queue)
next
  case (ls_worker r p ok ev sock pend)
  then have "q \<noteq> r" by (auto simp: abandoned_def)
  with ls_worker show ?case by (simp add: abandoned_def cq_ok_writeWorker_step worker_other_queue)
next
  case (ls_session p idx sock)
  then have "q \<noteq> cp_nextQueue p" by (simp add: abandoned_def)
  with ls_session show ?case
    using set_update_subset_insert [of "cp_writeQueues p" idx "Some (cp_nextQueue p)"]
      cq_ok_installSession [of p idx sock]
    by (auto simp: abandoned_def installSession_def Let_def)
next
  case (ls_notice p s)
  then show ?case
    by (auto simp: abandoned_def handleBackpressure_def Let_def elim!: cq_ok_cong)
qed

interpretation leak: invariant_system "abandoned q js" live_step "abandoned q js" for q js
  by unfold_locales (auto intro: abandoned_step)

lemma distinct_table_update:
  assumes "distinct (non_nil xs)" "i < length xs" "xs ! i = Some q" "Some q \<in> set (xs[i := Some r])"
  shows "q = r"
  using assms
proof (induction xs arbitrary: i rule: non_nil.induct)
  case (2 xs)
  then show ?case by (cases i) auto
next
  case (3 x xs)
  show ?case
  proof (cases i)
    case (Suc j)
    with 3 have "x \<noteq> q" by (auto dest: nth_mem)
    with 3 Suc show ?thesis by auto
  qed (use 3 in auto)
qed simp

text \<open>Fact: a frame accepted for a channel whose session has ended (its writer is gone, but its
  queue is still in the table) is lost when the channel reconnects: the new session gets a new
  queue, no later send, writer, session or notification touches the old one, and the frame's bytes
  count against the client's write budget for good.\<close>

theorem stale_session_leaks_budget:
  assumes ok: "cq_ok p" and idx: "idx < length (cp_writeQueues p)"
    and q: "cp_writeQueues p ! idx = Some q"
    and sent: "asyncWriteDirect env (int idx + 1) mt data p = (Sent, p1)"
    and later: "live_step\<^sup>*\<^sup>* (installSession idx sock p1) p2"
  shows "(\<exists>js. wq_jobs (cp_queueHeap p2 q) = js @ [\<lparr>wj_msgType = mt, wj_data = data, wj_size = int (length data)\<rparr>]) \<and>
     Some q \<notin> set (cp_writeQueues p2) \<and> int (length data) \<le> cp_globalQueueBytes p2"
proof -
  let ?j = "\<lparr>wj_msgType = mt, wj_data = data, wj_size = int (length data)\<rparr>"
  obtain r p' where b: "asyncWriteDirect_begin env (int idx + 1) data p = (Inr r, p')"
    and s: "asyncWriteDirect_send env mt data r p' = (Sent, p1)"
    using sent by (auto simp: asyncWriteDirect_def split: prod.splits sum.splits)
  have "chIndex p (int idx + 1) = Some idx" using idx by (simp add: chIndex_def)
  moreover have tab: "cp_writeQueues p' = cp_writeQueues p"
    using sent_view_fields(4) [OF sent_view_begin [of env "int idx + 1" data p]] b by simp
  ultimately have r: "r = q"
    using b q by (auto simp: asyncWriteDirect_begin_def Let_def split: option.splits if_splits prod.splits)
  obtain js where js: "jobs_of p1 q = js @ [?j]"
    using s r by (auto simp: asyncWriteDirect_send_def Let_def putJob_def split: if_splits full_result.splits)
  have ok1: "cq_ok p1" and tab1: "cp_writeQueues p1 = cp_writeQueues p" "cp_nextQueue p1 = cp_nextQueue p"
    using cq_ok_asyncWriteDirect [OF ok, of env "int idx + 1" mt data]
      asyncWriteDirect_fields(4,5) [of env "int idx + 1" mt data p] sent by simp_all
  have "Some q \<in> set (cp_writeQueues p)" using q idx by (metis nth_mem)
  then have alloc: "q < cp_nextQueue p" by (rule cq_okD(7) [OF ok])
  have out: "Some q \<notin> set ((cp_writeQueues p)[idx := Some (cp_nextQueue p)])"
    using distinct_table_update [OF cq_okD(6) [OF ok] idx q] alloc by auto
  have "abandoned q (js @ [?j]) (installSession idx sock p1)"
    using cq_ok_installSession [OF ok1, of idx sock] alloc out js tab1
    by (auto simp: abandoned_def installSession_def Let_def)
  from leak.run_inv [OF this later] have ab: "abandoned q (js @ [?j]) p2" .
  then have old: "\<exists>js. wq_jobs (cp_queueHeap p2 q) = js @ [?j]" "Some q \<notin> set (cp_writeQueues p2)"
    by (auto simp: abandoned_def)
  have "cq_ok p2" "job_bytes (js @ [?j]) \<le> queued_client p2" "list_all job_ok js"
    using ab queued_client_ge [of p2 q] cq_okD(4) [of p2 q] by (auto simp: abandoned_def)
  then have "int (length data) \<le> cp_globalQueueBytes p2"
    using cq_okD(1) [of p2] job_bytes_nonneg [of js] by simp
  with old show ?thesis by simp
qed

definition plain_env :: send_env where
  "plain_env = \<lparr>se_wait = WaitAborted, se_full = FullTimeout\<rparr>"

lemma plain_send_first_channel:
  "asyncWriteDirect plain_env 1 BinaryMessage [1] (newClientPool DefaultConfig) =
     (Sent, putJob 0 \<lparr>wj_msgType = BinaryMessage, wj_data = [1], wj_size = 1\<rparr>
        ((newClientPool DefaultConfig)\<lparr>cp_globalQueueBytes := 1\<rparr>))"
  by (simp add: asyncWriteDirect_def asyncWriteDirect_begin_def asyncWriteDirect_send_def chIndex_def
      getBackpressureDelay_def reserveQueueBytes_def newClientPool_def DefaultConfig_def
      DefaultBackpressureLimitBytes_def newQueue_def writeQueueSize_def Let_def)

theorem stale_session_leaks_budget_witness:
  "\<exists>p2 js. p2 = installSession 0 7 (snd (asyncWriteDirect plain_env 1 BinaryMessage [1] (newClientPool DefaultConfig))) \<and>
     wq_jobs (cp_queueHeap p2 0) = js @ [\<lparr>wj_msgType = BinaryMessage, wj_data = [1], wj_size = 1\<rparr>] \<and>
     Some 0 \<notin> set (cp_writeQueues p2) \<and> 1 \<le> cp_globalQueueBytes p2"
proof -
  have q: "0 < length (cp_writeQueues (newClientPool DefaultConfig))"
    "cp_writeQueues (newClientPool DefaultConfig) ! 0 = Some 0"
    by (simp_all add: newClientPool_def DefaultConfig_def Let_def)
  show ?thesis
    using stale_session_leaks_budget [OF cq_ok_newClientPool q, of plain_env BinaryMessage "[1]" _ 7,
        simplified, OF plain_send_first_channel rtranclp.rtrancl_refl]
    by (simp add: plain_send_first_channel)
qed

text \<open>Fact: a send on its own never panics, but a send that has read its queue when the client
  shuts down panics: shutdown closes the queue while the sender still holds it.\<close>

theorem shutdown_race_panics:
  assumes "cq_ok p" "asyncWriteDirect_begin env chID data p = (Inr q, p1)"
  shows "fst (asyncWriteDirect env chID mt data p) \<noteq> SendPanic \<and>
    fst (asyncWriteDirect_send env mt data q (closeQueues p1)) = SendPanic"
  using asyncWriteDirect_no_panic [OF assms(1)] begin_reserved(2) [OF assms]
  by (simp add: asyncWriteDirect_send_def Let_def closeQueues_simps)

theorem shutdown_race_panics_witness:
  "\<exists>q p1. asyncWriteDirect_begin plain_env 1 [1] (newClientPool DefaultConfig) = (Inr q, p1) \<and>
     fst (asyncWriteDirect plain_env 1 BinaryMessage [1] (newClientPool DefaultConfig)) \<noteq> SendPanic \<and>
     fst (asyncWriteDirect_send plain_env BinaryMessage [1] q (closeQueues p1)) = SendPanic"
proof -
  obtain q p1 where b: "asyncWriteDirect_begin plain_env 1 [1] (newClientPool DefaultConfig) = (Inr q, p1)"
    by (simp add: asyncWriteDirect_begin_def chIndex_def getBackpressureDelay_def reserveQueueBytes_def
        newClientPool_def DefaultConfig_def DefaultBackpressureLimitBytes_def Let_def)
  with shutdown_race_panics [OF cq_ok_newClientPool b, of BinaryMessage] show ?thesis by blast
qed

end
