(* ===== verification/Pair_Warmer.thy ===== *)
theory Pair_Warmer
  imports Client_Queue
begin

text \<open>
  The client's manager of hot channel pairs (\<^verbatim>\<open>src/pair_warmer.go\<close>): pairs are built by a prebind
  race, handed out to dials with a reference count, drained when a channel fails, refreshed
  periodically and announced to the server.

  Each critical section of the code is one state update on \<^typ>\<open>PairWarmer\<close>; the operations that
  also send or register connections work on the \<^typ>\<open>clientPool\<close>. What arrives while a call waits
  (prebind results, the outcome of sends) is an argument.
\<close>

section \<open>Pairs\<close>

abbreviation pair_state :: "PairWarmer \<Rightarrow> ref \<Rightarrow> PairState" where
  "pair_state w r \<equiv> pr_state (pw_heap w r)"

abbreviation pair_refs :: "PairWarmer \<Rightarrow> ref \<Rightarrow> int" where
  "pair_refs w r \<equiv> pr_refs (pw_heap w r)"

abbreviation ready :: "PairWarmer \<Rightarrow> ref \<Rightarrow> bool" where
  "ready w r \<equiv> pair_state w r = PairStateReady"

definition upd_pair :: "ref \<Rightarrow> (HotChannelPair \<Rightarrow> HotChannelPair) \<Rightarrow> PairWarmer \<Rightarrow> PairWarmer" where
  "upd_pair r f w = w\<lparr>pw_heap := (pw_heap w)(r := f (pw_heap w r))\<rparr>"

definition setState :: "ref \<Rightarrow> PairState \<Rightarrow> PairWarmer \<Rightarrow> PairWarmer" where
  "setState r s w = upd_pair r (pr_state_update (\<lambda>_. s)) w"

definition uses_chan :: "chid \<Rightarrow> HotChannelPair \<Rightarrow> bool" where
  "uses_chan chID pr \<longleftrightarrow> pr_UplinkChID pr = chID \<or> pr_DownlinkChID pr = chID"

fun pairStateString :: "PairState \<Rightarrow> string" where
  "pairStateString PairStateReady = ''Ready''"
| "pairStateString PairStateDraining = ''Draining''"
| "pairStateString PairStateClosed = ''Closed''"

section \<open>Handing out pairs\<close>

text \<open>The second look at the state after the increment sees the same state: every change away from
  the ready state happens under the write lock, and the caller holds the read lock.\<close>

definition tryAcquire :: "ref option \<Rightarrow> PairWarmer \<Rightarrow> bool \<times> PairWarmer" where
  "tryAcquire pair w =
     (case pair of
        None \<Rightarrow> (False, w)
      | Some r \<Rightarrow>
          if \<not> ready w r then (False, w)
          else let w = upd_pair r (pr_refs_update (\<lambda>n. n + 1)) w
               in if ready w r then (True, w) else (False, upd_pair r (pr_refs_update (\<lambda>n. n - 1)) w))"

fun acquireScan :: "ref list \<Rightarrow> PairWarmer \<Rightarrow> ref option \<times> PairWarmer" where
  "acquireScan [] w = (None, w)"
| "acquireScan (r # rs) w =
     (if Some r = pw_primary w then acquireScan rs w
      else let (got, w) = tryAcquire (Some r) w in if got then (Some r, w) else acquireScan rs w)"

definition AcquirePrimary :: "PairWarmer \<Rightarrow> ref option \<times> PairWarmer" where
  "AcquirePrimary w =
     (let (got, w) = tryAcquire (pw_primary w) w
      in if got then (pw_primary w, w) else acquireScan (pw_pairs w) w)"

definition removePair :: "ref \<Rightarrow> PairWarmer \<Rightarrow> PairWarmer" where
  "removePair r w =
     w\<lparr>pw_pairs := removeAll r (pw_pairs w),
       pw_primary := (if pw_primary w = Some r then None else pw_primary w)\<rparr>"

definition ensurePrimaryLocked :: "PairWarmer \<Rightarrow> PairWarmer" where
  "ensurePrimaryLocked w =
     (if (case pw_primary w of None \<Rightarrow> False | Some r \<Rightarrow> ready w r) then w
      else w\<lparr>pw_primary := List.find (ready w) (pw_pairs w)\<rparr>)"

definition ReleasePair :: "ref option \<Rightarrow> PairWarmer \<Rightarrow> PairWarmer" where
  "ReleasePair pair w =
     (case pair of
        None \<Rightarrow> w
      | Some r \<Rightarrow>
          let w = upd_pair r (pr_refs_update (\<lambda>n. n - 1)) w
          in if pair_refs w r \<le> 0 \<and> pair_state w r = PairStateDraining \<and> pair_state w r \<noteq> PairStateClosed
             then ensurePrimaryLocked (removePair r (setState r PairStateClosed w))
             else w)"

section \<open>Invalidation\<close>

text \<open>The loop of \<^verbatim>\<open>InvalidateChannel\<close> over the pairs still to visit; the result is the list of pairs
  kept.\<close>

fun invalidateLoop :: "chid \<Rightarrow> ref list \<Rightarrow> PairWarmer \<Rightarrow> ref list \<times> PairWarmer" where
  "invalidateLoop chID [] w = ([], w)"
| "invalidateLoop chID (r # rs) w =
     (if pair_state w r = PairStateClosed \<or> \<not> uses_chan chID (pw_heap w r)
      then let (ks, w) = invalidateLoop chID rs w in (r # ks, w)
      else
        let w = (if pair_state w r \<noteq> PairStateDraining then setState r PairStateDraining w else w)
        in if pair_refs w r \<le> 0 then
             let w = setState r PairStateClosed w;
                 w = (if pw_primary w = Some r then w\<lparr>pw_primary := None\<rparr> else w)
             in invalidateLoop chID rs w
           else let (ks, w) = invalidateLoop chID rs w in (r # ks, w))"

definition PW_InvalidateChannel :: "chid \<Rightarrow> PairWarmer \<Rightarrow> PairWarmer" where
  "PW_InvalidateChannel chID w =
     (let (ks, w) = invalidateLoop chID (pw_pairs w) w
      in ensurePrimaryLocked (w\<lparr>pw_pairs := ks\<rparr>))"

definition invalidatePair :: "ref option \<Rightarrow> PairWarmer \<Rightarrow> PairWarmer" where
  "invalidatePair pair w =
     (case pair of
        None \<Rightarrow> w
      | Some r \<Rightarrow>
          if \<not> ready w r then w
          else let w = setState r PairStateDraining w
               in if pair_refs w r \<le> 0
                  then ensurePrimaryLocked (removePair r (setState r PairStateClosed w))
                  else w)"

definition discardCandidatePair :: "ref \<Rightarrow> PairWarmer \<Rightarrow> PairWarmer" where
  "discardCandidatePair r w =
     (if pair_refs w r \<le> 0 then ensurePrimaryLocked (removePair r (setState r PairStateClosed w))
      else setState r PairStateDraining w)"

text \<open>
  The loop of \<^verbatim>\<open>pruneIdleDrainingPairs\<close> ranges over the slice header taken before the loop, while
  \<^verbatim>\<open>removePair\<close> shifts the elements of the same backing array to the left. \<open>arr\<close> is that array (of
  the old length) and \<open>m\<close> the current length of the slice \<open>w.pairs\<close>.
\<close>

definition shiftOut :: "nat \<Rightarrow> nat \<Rightarrow> ref list \<Rightarrow> ref list" where
  "shiftOut i m arr = take i arr @ take (m - 1 - i) (drop (i + 1) arr) @ drop (m - 1) arr"

function removeInArray :: "ref \<Rightarrow> nat \<Rightarrow> ref list \<times> nat \<Rightarrow> ref list \<times> nat" where
  "removeInArray r i (arr, m) =
     (if i \<ge> m then (arr, m)
      else if arr ! i = r then removeInArray r i (shiftOut i m arr, m - 1)
      else removeInArray r (i + 1) (arr, m))"
  by pat_completeness auto
termination
  by (relation "measure (\<lambda>(r, i, arr, m). 2 * m - i)") auto

declare removeInArray.simps [simp del]

fun pruneLoop :: "nat list \<Rightarrow> ref list \<times> nat \<Rightarrow> bool \<Rightarrow> PairWarmer \<Rightarrow> (ref list \<times> nat) \<times> bool \<times> PairWarmer" where
  "pruneLoop [] am pruned w = (am, pruned, w)"
| "pruneLoop (k # ks) am pruned w =
     (let r = fst am ! k
      in if pair_state w r = PairStateDraining \<and> pair_refs w r \<le> 0 then
           let w = setState r PairStateClosed w;
               am = removeInArray r 0 am;
               w = w\<lparr>pw_primary := (if pw_primary w = Some r then None else pw_primary w)\<rparr>
           in pruneLoop ks am True w
         else pruneLoop ks am pruned w)"

definition pruneIdleDrainingPairs :: "PairWarmer \<Rightarrow> PairWarmer" where
  "pruneIdleDrainingPairs w =
     (let n = length (pw_pairs w);
          ((arr, m), pruned, w) = pruneLoop [0..<n] (pw_pairs w, n) False w;
          w = w\<lparr>pw_pairs := take m arr\<rparr>
      in if pruned then ensurePrimaryLocked w else w)"

section \<open>Reordering and thinning\<close>

definition pairChannelsEqual :: "HotChannelPair option \<Rightarrow> HotChannelPair option \<Rightarrow> bool" where
  "pairChannelsEqual a b =
     (case (a, b) of
        (Some a, Some b) \<Rightarrow> pr_UplinkChID a = pr_UplinkChID b \<and> pr_DownlinkChID a = pr_DownlinkChID b
      | _ \<Rightarrow> False)"

text \<open>\<^verbatim>\<open>fmt.Sprintf("%02d", i)\<close> for a slot number of one digit.\<close>

definition slotID :: "nat \<Rightarrow> string" where
  "slotID i = [CHR ''0'', char_of (48 + i)]"

definition assignPairSlot :: "ref \<Rightarrow> PairWarmer \<Rightarrow> PairWarmer" where
  "assignPairSlot r w =
     (let used = map (\<lambda>p. pr_ID (pw_heap w p))
                   (filter (\<lambda>p. p \<noteq> r \<and> pr_ID (pw_heap w p) \<noteq> '''') (pw_pairs w));
          slot = (case List.find (\<lambda>i. slotID i \<notin> set used) [1..<9] of None \<Rightarrow> ''ff'' | Some i \<Rightarrow> slotID i)
      in upd_pair r (pr_ID_update (\<lambda>_. slot)) w)"

text \<open>The result is the match with the head, else the first match among the spares.\<close>

fun matchScan :: "PairWarmer \<Rightarrow> ref \<Rightarrow> ref option \<Rightarrow> ref list \<Rightarrow> ref option \<times> ref option" where
  "matchScan w candidate spare [] = (None, spare)"
| "matchScan w candidate spare (r # rs) =
     (if r = candidate \<or> \<not> ready w r then matchScan w candidate spare rs
      else if \<not> pairChannelsEqual (Some (pw_heap w candidate)) (Some (pw_heap w r))
      then matchScan w candidate spare rs
      else if Some r = pw_primary w then (Some r, None)
      else matchScan w candidate (if spare = None then Some r else spare) rs)"

definition findReadyMatchLocked :: "ref option \<Rightarrow> PairWarmer \<Rightarrow> ref option \<times> ref option" where
  "findReadyMatchLocked candidate w =
     (case candidate of None \<Rightarrow> (None, None) | Some c \<Rightarrow> matchScan w c None (pw_pairs w))"

definition promoteToHead :: "ref option \<Rightarrow> PairWarmer \<Rightarrow> PairWarmer" where
  "promoteToHead pair w =
     (case pair of
        None \<Rightarrow> w
      | Some r \<Rightarrow>
          if r \<in> set (pw_pairs w)
          then w\<lparr>pw_pairs := r # remove1 r (pw_pairs w), pw_primary := Some r\<rparr>
          else w)"

definition replaceHeadWithCandidate :: "ref option \<Rightarrow> ref option \<Rightarrow> PairWarmer \<Rightarrow> PairWarmer" where
  "replaceHeadWithCandidate candidate oldHead w =
     (case candidate of
        None \<Rightarrow> w
      | Some c \<Rightarrow>
          if c \<notin> set (pw_pairs w) then w
          else
            let ps = remove1 c (pw_pairs w)
            in (case oldHead of
                  Some h \<Rightarrow>
                    if h \<noteq> c \<and> ready w h
                    then w\<lparr>pw_pairs := c # h # remove1 h ps, pw_primary := Some c\<rparr>
                    else w\<lparr>pw_pairs := c # ps, pw_primary := Some c\<rparr>
                | None \<Rightarrow> w\<lparr>pw_pairs := c # ps, pw_primary := Some c\<rparr>))"

text \<open>The key \<^verbatim>\<open>"%d/%d"\<close> of the deduplication determines the two channels, so the channels themselves
  are the key here.\<close>

definition chan_key :: "HotChannelPair \<Rightarrow> chid \<times> chid" where
  "chan_key pr = (pr_UplinkChID pr, pr_DownlinkChID pr)"

fun dedupLoop :: "(chid \<times> chid) list \<Rightarrow> ref list \<Rightarrow> PairWarmer \<Rightarrow> ref list \<times> PairWarmer" where
  "dedupLoop seen [] w = ([], w)"
| "dedupLoop seen (r # rs) w =
     (if \<not> ready w r then let (ks, w) = dedupLoop seen rs w in (r # ks, w)
      else if chan_key (pw_heap w r) \<in> set seen then
        let w = setState r PairStateDraining w
        in if pair_refs w r > 0 then let (ks, w) = dedupLoop seen rs w in (r # ks, w)
           else let w = setState r PairStateClosed w;
                    w = (if pw_primary w = Some r then w\<lparr>pw_primary := None\<rparr> else w)
                in dedupLoop seen rs w
      else let (ks, w) = dedupLoop (chan_key (pw_heap w r) # seen) rs w in (r # ks, w))"

definition deduplicatePairs :: "PairWarmer \<Rightarrow> PairWarmer" where
  "deduplicatePairs w =
     (let (ks, w) = dedupLoop [] (pw_pairs w) w in ensurePrimaryLocked (w\<lparr>pw_pairs := ks\<rparr>))"

definition readyCount :: "PairWarmer \<Rightarrow> int" where
  "readyCount w = int (length (filter (ready w) (pw_pairs w)))"

lemma readyCount_drop:
  assumes "r \<in> set (pw_pairs w)" "ready w r"
  shows "length (filter (ready (removePair r (setState r PairStateClosed (setState r PairStateDraining w))))
      (pw_pairs (removePair r (setState r PairStateClosed (setState r PairStateDraining w)))))
    < length (filter (ready w) (pw_pairs w))"
proof -
  have "filter (ready (removePair r (setState r PairStateClosed (setState r PairStateDraining w))))
      (removeAll r (pw_pairs w)) = removeAll r (filter (ready w) (pw_pairs w))"
    unfolding removeAll_filter_not_eq filter_filter
    by (rule filter_cong) (auto simp: removePair_def setState_def upd_pair_def)
  moreover have "length (removeAll r (filter (ready w) (pw_pairs w))) < length (filter (ready w) (pw_pairs w))"
    using assms by (intro length_removeAll_less) auto
  ultimately show ?thesis by (simp add: removePair_def setState_def upd_pair_def)
qed

lemma find_rev_ready:
  "List.find P (rev xs) = Some r \<Longrightarrow> r \<in> set xs \<and> P r"
  by (metis find_Some_iff length_rev nth_mem set_rev)

function trimLoop :: "PairWarmer \<Rightarrow> PairWarmer" where
  "trimLoop w =
     (if readyCount w \<le> pw_PairCount w then w
      else case List.find (ready w) (rev (pw_pairs w)) of
             None \<Rightarrow> w
           | Some r \<Rightarrow>
               let w' = setState r PairStateDraining w
               in if pair_refs w' r > 0 then w'
                  else trimLoop (removePair r (setState r PairStateClosed w')))"
  by pat_completeness auto

termination
proof (relation "measure (\<lambda>w. length (filter (ready w) (pw_pairs w)))")
  fix w r w'
  assume "List.find (ready w) (rev (pw_pairs w)) = Some r" "w' = setState r PairStateDraining w"
  then show "(removePair r (setState r PairStateClosed w'), w) \<in> measure (\<lambda>w. length (filter (ready w) (pw_pairs w)))"
    using readyCount_drop [of r w] find_rev_ready [of "ready w" "pw_pairs w" r] by simp
qed simp

declare trimLoop.simps [simp del]

definition trimExcessPairs :: "PairWarmer \<Rightarrow> PairWarmer" where
  "trimExcessPairs w = (if pw_PairCount w \<le> 0 then w else ensurePrimaryLocked (trimLoop w))"

section \<open>Lookup and notification\<close>

definition lookupReady :: "string \<Rightarrow> PairWarmer \<Rightarrow> ref option" where
  "lookupReady prebindKey w =
     List.find (\<lambda>r. pr_PrebindID (pw_heap w r) = prebindKey \<and> ready w r) (pw_pairs w)"

definition LookupReady :: "string \<Rightarrow> PairWarmer \<Rightarrow> ref option" where
  "LookupReady prebindKey w = (if prebindKey = '''' then None else lookupReady prebindKey w)"

definition prebindResultCap :: nat where
  "prebindResultCap = 8"

definition HandlePrebindResult :: "prebindResult \<Rightarrow> PairWarmer \<Rightarrow> PairWarmer" where
  "HandlePrebindResult res w =
     (if length (pw_prebindResultCh w) < prebindResultCap
      then w\<lparr>pw_prebindResultCh := pw_prebindResultCh w @ [res]\<rparr> else w)"

definition pair_info :: "HotChannelPair \<Rightarrow> HotPairInfo" where
  "pair_info pr = \<lparr>hp_Key = pr_PrebindID pr, hp_ChA = pr_UplinkChID pr, hp_ChB = pr_DownlinkChID pr\<rparr>"

definition queueHotPairNotify :: "ref option \<Rightarrow> PairWarmer \<Rightarrow> PairWarmer" where
  "queueHotPairNotify pair w =
     (case pair of
        None \<Rightarrow> w
      | Some r \<Rightarrow>
          let pr = pw_heap w r
          in if pr_PrebindID pr = '''' then w
             else w\<lparr>pw_notifyPending := dict_set (pw_notifyPending w) (pr_PrebindID pr) (pair_info pr),
                    pw_notifyTimer := True\<rparr>)"

definition heartbeatHotPairNotify :: "PairWarmer \<Rightarrow> PairWarmer" where
  "heartbeatHotPairNotify w =
     foldl (\<lambda>w r. queueHotPairNotify (Some r) w) w (filter (ready w) (pw_pairs w))"

text \<open>The send loop of \<^verbatim>\<open>flushHotPairNotify\<close>: the first channel that accepts the frame ends it.\<close>

fun flushSend :: "(chid \<Rightarrow> send_env) \<Rightarrow> bytes \<Rightarrow> chid list \<Rightarrow> clientPool \<Rightarrow> bool \<times> clientPool" where
  "flushSend env msg [] p = (False, p)"
| "flushSend env msg (c # cs) p =
     (let (res, p) = asyncWriteDirect (env c) c BinaryMessage msg p
      in if res = Sent then (True, p) else flushSend env msg cs p)"

definition flushHotPairNotify :: "(chid \<Rightarrow> send_env) \<Rightarrow> clientPool \<Rightarrow> clientPool" where
  "flushHotPairNotify env p =
     (let w = (cp_warmer p)\<lparr>pw_notifyTimer := False\<rparr>;
          live = dict_filter (\<lambda>key _. lookupReady key w \<noteq> None) (pw_notifyPending w);
          pending = map snd live;
          p = p\<lparr>cp_warmer := w\<lparr>pw_notifyPending := live\<rparr>\<rparr>
      in if pending = [] then p
         else
           let msg = EncodeMessage MsgHotPairNotify '''' [] (EncodeHotPairNotify pending);
               (sent, p) = flushSend env msg (availableChannels p) p
           in if sent
              then with_warmer (pw_notifyPending_update (\<lambda>m. foldl (\<lambda>m info. dict_del m (hp_Key info)) m pending)) p
              else p)"

section \<open>Building pairs\<close>

definition deletePrebindState :: "string \<Rightarrow> clientPool \<Rightarrow> clientPool" where
  "deletePrebindState connID p = p\<lparr>cp_conns := dict_del (cp_conns p) connID\<rparr>"

text \<open>
  The environment of one build: the fresh identifier, the outcomes of the two rounds of sends, the
  prebind results that arrive during the wait, and whether the wait is cut short by cancellation
  (else by the timeout) when none of them matches.
\<close>

record build_env =
  be_uuid :: string
  be_begin :: "chid \<Rightarrow> send_env"
  be_request :: "chid \<Rightarrow> send_env"
  be_arrivals :: "prebindResult list"
  be_cancelled :: bool
  be_now :: instant

datatype build_error = WarmerClosed | TooFewChannels | NothingSent | PrebindTimedOut | PrebindFailed

definition sendAll :: "(chid \<Rightarrow> send_env) \<Rightarrow> bytes \<Rightarrow> chid list \<Rightarrow> clientPool \<Rightarrow> nat \<times> clientPool" where
  "sendAll env msg chs p =
     foldl (\<lambda>(n, p) c. let (res, p) = asyncWriteDirect (env c) c BinaryMessage msg p
                       in (if res = Sent then n + 1 else n, p)) (0, p) chs"

definition BuildPair_begin :: "build_env \<Rightarrow> chid list \<Rightarrow> clientPool \<Rightarrow> (build_error + string) \<times> clientPool" where
  "BuildPair_begin env available p =
     (if cp_ctxDone p then (Inl WarmerClosed, p)
      else if length available < 2 then (Inl TooFewChannels, p)
      else
        let connID = ''prebind-'' @ be_uuid env;
            p = p\<lparr>cp_conns := dict_set (cp_conns p) connID
                   (new_conn_state\<lparr>cc_id := connID, cc_target := PrebindTarget,
                     cc_start := Some (be_now env), cc_connected := Some False\<rparr>)\<rparr>;
            meta = cf_IPStrategy (cp_config p) # bytes_of_string PrebindTarget;
            msg = EncodeMessage MsgPrebindRequest connID meta [];
            beginMsg = EncodeMessage MsgHotPairBegin '''' [] [];
            (_, p) = sendAll (be_begin env) beginMsg available p;
            (sent, p) = sendAll (be_request env) msg available p
        in if sent = 0 then (Inl NothingSent, deletePrebindState connID p) else (Inr connID, p))"

text \<open>The wait: results for other identifiers are dropped. The results that come after the matching
  one stay in the channel.\<close>

fun buildWait :: "string \<Rightarrow> prebindResult list \<Rightarrow> prebindResult option \<times> prebindResult list" where
  "buildWait connID [] = (None, [])"
| "buildWait connID (res # rs) = (if pb_connID res = connID then (Some res, rs) else buildWait connID rs)"

definition addPair :: "string \<Rightarrow> chid \<Rightarrow> chid \<Rightarrow> instant \<Rightarrow> PairWarmer \<Rightarrow> ref \<times> PairWarmer" where
  "addPair connID up down now w =
     (let r = pw_next w;
          w = w\<lparr>pw_next := r + 1,
                pw_heap := (pw_heap w)(r := \<lparr>pr_ID = '''', pr_PrebindID = connID, pr_UplinkChID = up,
                  pr_DownlinkChID = down, pr_state = PairStateReady, pr_createdAt = now, pr_refs = 0\<rparr>),
                pw_pairs := pw_pairs w @ [r]\<rparr>
      in (r, if (case pw_primary w of None \<Rightarrow> True | Some q \<Rightarrow> \<not> ready w q)
             then w\<lparr>pw_primary := Some r\<rparr> else w))"

definition BuildPair_finish :: "build_env \<Rightarrow> string \<Rightarrow> clientPool \<Rightarrow> (build_error + ref) \<times> clientPool" where
  "BuildPair_finish env connID p =
     (let w = cp_warmer p;
          (res, rest) = buildWait connID (pw_prebindResultCh w @ be_arrivals env);
          w = w\<lparr>pw_prebindResultCh := take prebindResultCap rest\<rparr>;
          p = p\<lparr>cp_warmer := w\<rparr>
      in case res of
           None \<Rightarrow> (Inl (if be_cancelled env then WarmerClosed else PrebindTimedOut), deletePrebindState connID p)
         | Some res \<Rightarrow>
             if pb_err res then (Inl PrebindFailed, deletePrebindState connID p)
             else if cp_ctxDone p then (Inl WarmerClosed, deletePrebindState connID p)
             else let (r, w) = addPair connID (pb_uplinkChID res) (pb_downlinkChID res) (be_now env) w;
                      w = queueHotPairNotify (Some r) w
                  in (Inr r, deletePrebindState connID (p\<lparr>cp_warmer := w\<rparr>)))"

definition BuildPair :: "build_env \<Rightarrow> chid list \<Rightarrow> clientPool \<Rightarrow> (build_error + ref) \<times> clientPool" where
  "BuildPair env available p =
     (case BuildPair_begin env available p of
        (Inl e, p) \<Rightarrow> (Inl e, p)
      | (Inr connID, p) \<Rightarrow> BuildPair_finish env connID p)"

text \<open>The loop of \<^verbatim>\<open>tryBuildPairs\<close>: one build per missing pair, given up at the first failure.\<close>

primrec buildLoop :: "nat \<Rightarrow> (nat \<Rightarrow> build_env) \<Rightarrow> chid list \<Rightarrow> clientPool \<Rightarrow> clientPool" where
  "buildLoop 0 envs available p = p"
| "buildLoop (Suc n) envs available p =
     (case BuildPair (envs n) available p of
        (Inl _, p) \<Rightarrow> p
      | (Inr r, p) \<Rightarrow> buildLoop n envs available (with_warmer (assignPairSlot r) p))"

definition tryBuildPairs :: "(nat \<Rightarrow> build_env) \<Rightarrow> clientPool \<Rightarrow> clientPool" where
  "tryBuildPairs envs p =
     (let n = readyCount (cp_warmer p)
      in if n \<ge> pw_PairCount (cp_warmer p) then p
         else let available = availableChannels p
              in if length available < 2 then p
                 else buildLoop (nat (pw_PairCount (cp_warmer p) - n)) envs available p)"

section \<open>Refreshing\<close>

text \<open>The channel check shared by \<^verbatim>\<open>validatePrimaryChannels\<close> and \<^verbatim>\<open>tryRefresh\<close>.\<close>

definition validatePrimaryChannels :: "ref option \<Rightarrow> clientPool \<Rightarrow> bool \<times> clientPool" where
  "validatePrimaryChannels primary p =
     (case primary of
        None \<Rightarrow> (True, p)
      | Some r \<Rightarrow>
          if \<not> ready (cp_warmer p) r then (True, p)
          else
            let available = availableChannels p;
                up = pr_UplinkChID (pw_heap (cp_warmer p) r);
                down = pr_DownlinkChID (pw_heap (cp_warmer p) r);
                uplinkValid = (up \<in> set available);
                downlinkValid = (down \<in> set available)
            in if \<not> uplinkValid \<or> \<not> downlinkValid then
                 let p = (if \<not> uplinkValid then with_warmer (PW_InvalidateChannel up) p else p);
                     p = (if \<not> downlinkValid then with_warmer (PW_InvalidateChannel down) p else p)
                 in (False, p)
               else (True, p))"

definition tryRefresh :: "(nat \<Rightarrow> build_env) \<Rightarrow> clientPool \<Rightarrow> clientPool" where
  "tryRefresh envs p =
     (let p = with_warmer ensurePrimaryLocked p;
          (_, p) = validatePrimaryChannels (pw_primary (cp_warmer p)) p
      in tryBuildPairs envs p)"

definition checkSpare :: "chid list \<Rightarrow> PairWarmer \<Rightarrow> ref \<Rightarrow> PairWarmer" where
  "checkSpare available w r =
     (let up = pr_UplinkChID (pw_heap w r); down = pr_DownlinkChID (pw_heap w r)
      in if up \<notin> set available then PW_InvalidateChannel up w
         else if down \<notin> set available then PW_InvalidateChannel down w
         else w)"

definition healthCheckSpares :: "chid list \<Rightarrow> PairWarmer \<Rightarrow> PairWarmer" where
  "healthCheckSpares available w =
     foldl (checkSpare available) w (filter (\<lambda>r. Some r \<noteq> pw_primary w \<and> ready w r) (pw_pairs w))"

text \<open>The decision on a candidate of the periodic race.\<close>

definition placeCandidate :: "ref \<Rightarrow> PairWarmer \<Rightarrow> PairWarmer" where
  "placeCandidate c w =
     (let head = pw_primary w;
          (headMatch, spareMatch) = findReadyMatchLocked (Some c) w
      in if headMatch \<noteq> None then discardCandidatePair c w
         else if spareMatch \<noteq> None then discardCandidatePair c (promoteToHead spareMatch w)
         else if head = Some c then assignPairSlot c w
         else replaceHeadWithCandidate (Some c) head (assignPairSlot c w))"

definition periodicRefresh :: "build_env \<Rightarrow> (nat \<Rightarrow> build_env) \<Rightarrow> clientPool \<Rightarrow> clientPool" where
  "periodicRefresh cenv envs p =
     (let p = with_warmer heartbeatHotPairNotify p;
          p = with_warmer pruneIdleDrainingPairs p;
          available = availableChannels p;
          p = (if length available \<ge> 2 then
                 (case BuildPair cenv available p of
                    (Inl _, p) \<Rightarrow> p
                  | (Inr c, p) \<Rightarrow> with_warmer (placeCandidate c) p)
               else p);
          p = with_warmer deduplicatePairs p;
          p = with_warmer (healthCheckSpares (availableChannels p)) p;
          p = with_warmer trimExcessPairs p;
          p = tryBuildPairs envs p
      in with_warmer deduplicatePairs p)"

text \<open>One round of \<^verbatim>\<open>Run\<close>.\<close>

datatype warmer_event = ChannelReady | ChannelInvalid | RefreshTick build_env

definition Run_event :: "(nat \<Rightarrow> build_env) \<Rightarrow> warmer_event \<Rightarrow> clientPool \<Rightarrow> clientPool" where
  "Run_event envs ev p =
     (case ev of
        ChannelReady \<Rightarrow> tryBuildPairs envs (p\<lparr>cp_chReadyCh := tl (cp_chReadyCh p)\<rparr>)
      | ChannelInvalid \<Rightarrow> tryRefresh envs (p\<lparr>cp_chInvalidCh := tl (cp_chInvalidCh p)\<rparr>)
      | RefreshTick cenv \<Rightarrow>
          if pw_RefreshInterval (cp_warmer p) > 0
          then with_warmer heartbeatHotPairNotify (periodicRefresh cenv envs p) else p)"

section \<open>Invariant\<close>

text \<open>
  The listed pairs are different and are exactly those that are not closed; the primary is listed; a
  closed pair has no holder; cells that are not allocated are closed; the result channel respects
  its capacity.
\<close>

definition warmer_ok :: "PairWarmer \<Rightarrow> bool" where
  "warmer_ok w \<longleftrightarrow> distinct (pw_pairs w) \<and>
     (\<forall>r. r \<in> set (pw_pairs w) \<longleftrightarrow> pair_state w r \<noteq> PairStateClosed) \<and>
     (\<forall>r. pw_primary w = Some r \<longrightarrow> r \<in> set (pw_pairs w)) \<and>
     (\<forall>r. pair_state w r = PairStateClosed \<longrightarrow> pair_refs w r \<le> 0) \<and>
     (\<forall>r. pw_next w \<le> r \<longrightarrow> pair_state w r = PairStateClosed) \<and>
     length (pw_prebindResultCh w) \<le> prebindResultCap"

lemma warmer_okD:
  assumes "warmer_ok w"
  shows "distinct (pw_pairs w)" "r \<in> set (pw_pairs w) \<longleftrightarrow> pair_state w r \<noteq> PairStateClosed"
    "pw_primary w = Some r \<Longrightarrow> r \<in> set (pw_pairs w)"
    "pair_state w r = PairStateClosed \<Longrightarrow> pair_refs w r \<le> 0"
    "pw_next w \<le> r \<Longrightarrow> pair_state w r = PairStateClosed"
    "length (pw_prebindResultCh w) \<le> prebindResultCap"
  using assms unfolding warmer_ok_def by blast+

text \<open>
  How the maintenance operations change the pairs: a pair stays as it is, starts draining, or is
  closed, the latter only without holders; the list holds the pairs that are not closed.
\<close>

definition pair_thinned :: "HotChannelPair \<Rightarrow> HotChannelPair \<Rightarrow> bool" where
  "pair_thinned a b \<longleftrightarrow> b = a \<or> pr_state a \<noteq> PairStateClosed \<and>
     (b = a\<lparr>pr_state := PairStateDraining\<rparr> \<or> pr_refs a \<le> 0 \<and> b = a\<lparr>pr_state := PairStateClosed\<rparr>)"

definition thins :: "PairWarmer \<Rightarrow> PairWarmer \<Rightarrow> bool" where
  "thins w w' \<longleftrightarrow> (\<forall>r. pair_thinned (pw_heap w r) (pw_heap w' r)) \<and>
     distinct (pw_pairs w') \<and>
     set (pw_pairs w') = {r \<in> set (pw_pairs w). pair_state w' r \<noteq> PairStateClosed} \<and>
     (\<forall>r. pw_primary w' = Some r \<longrightarrow> r \<in> set (pw_pairs w')) \<and>
     pw_next w' = pw_next w \<and> pw_PairCount w' = pw_PairCount w \<and>
     pw_RefreshInterval w' = pw_RefreshInterval w \<and>
     pw_prebindResultCh w' = pw_prebindResultCh w \<and> pw_notifyPending w' = pw_notifyPending w"

lemma thinsI:
  assumes "\<And>r. pair_thinned (pw_heap w r) (pw_heap w' r)" "distinct (pw_pairs w')"
    "\<And>r. r \<in> set (pw_pairs w') \<longleftrightarrow> r \<in> set (pw_pairs w) \<and> pair_state w' r \<noteq> PairStateClosed"
    "\<And>r. pw_primary w' = Some r \<Longrightarrow> r \<in> set (pw_pairs w')"
    "pw_next w' = pw_next w" "pw_PairCount w' = pw_PairCount w" "pw_RefreshInterval w' = pw_RefreshInterval w"
    "pw_prebindResultCh w' = pw_prebindResultCh w" "pw_notifyPending w' = pw_notifyPending w"
  shows "thins w w'"
  using assms by (auto simp: thins_def)

lemma thinsD:
  assumes "thins w w'"
  shows "pair_thinned (pw_heap w r) (pw_heap w' r)" "distinct (pw_pairs w')"
    "r \<in> set (pw_pairs w') \<longleftrightarrow> r \<in> set (pw_pairs w) \<and> pair_state w' r \<noteq> PairStateClosed"
    "pw_primary w' = Some r \<Longrightarrow> r \<in> set (pw_pairs w')"
    "pw_next w' = pw_next w" "pw_PairCount w' = pw_PairCount w" "pw_RefreshInterval w' = pw_RefreshInterval w"
    "pw_prebindResultCh w' = pw_prebindResultCh w" "pw_notifyPending w' = pw_notifyPending w"
  using assms unfolding thins_def by blast+

lemma pair_thinnedD:
  assumes "pair_thinned a b"
  shows "pr_refs b = pr_refs a" "chan_key b = chan_key a" "pr_PrebindID b = pr_PrebindID a"
    "pr_state b = PairStateReady \<Longrightarrow> b = a"
    "pr_state a = PairStateClosed \<Longrightarrow> b = a" "0 < pr_refs a \<Longrightarrow> pr_state b = PairStateClosed \<Longrightarrow> b = a"
    "pr_state b = PairStateClosed \<Longrightarrow> b \<noteq> a \<Longrightarrow> pr_refs a \<le> 0"
  using assms by (auto simp: pair_thinned_def chan_key_def)

lemma pair_thinned_refl [simp]: "pair_thinned a a"
  by (simp add: pair_thinned_def)

lemma pair_thinned_trans: "pair_thinned a b \<Longrightarrow> pair_thinned b c \<Longrightarrow> pair_thinned a c"
  by (cases a; cases b; cases c) (auto simp: pair_thinned_def)

lemma thins_refl: "warmer_ok w \<Longrightarrow> thins w w"
  by (rule thinsI) (auto dest: warmer_okD)

lemma thins_trans: "thins u v \<Longrightarrow> thins v w \<Longrightarrow> thins u w"
proof -
  assume a: "thins u v" "thins v w"
  have closed: "pair_state w r \<noteq> PairStateClosed \<Longrightarrow> pair_state v r \<noteq> PairStateClosed" for r
    using pair_thinnedD(5) [OF thinsD(1) [OF a(2)], of r] by metis
  show ?thesis
  proof (rule thinsI)
    show "r \<in> set (pw_pairs w) \<longleftrightarrow> r \<in> set (pw_pairs u) \<and> pair_state w r \<noteq> PairStateClosed" for r
      using thinsD(3) [OF a(1), of r] thinsD(3) [OF a(2), of r] closed [of r] by blast
    show "pw_primary w = Some r \<Longrightarrow> r \<in> set (pw_pairs w)" for r
      by (rule thinsD(4) [OF a(2)])
    show "pair_thinned (pw_heap u r) (pw_heap w r)" for r
      using a by (blast intro: pair_thinned_trans thinsD(1))
  qed (use a in \<open>simp_all add: thinsD(2,5-9)\<close>)
qed

lemma warmer_ok_thins: "warmer_ok w \<Longrightarrow> thins w w' \<Longrightarrow> warmer_ok w'"
proof -
  assume ok: "warmer_ok w" and th: "thins w w'"
  have closed: "pair_state w r = PairStateClosed \<Longrightarrow> pair_state w' r = PairStateClosed" for r
    using pair_thinnedD(5) [OF thinsD(1) [OF th], of r] by simp
  have refs: "pair_state w' r = PairStateClosed \<Longrightarrow> pair_refs w' r \<le> 0" for r
    using pair_thinnedD(1,7) [OF thinsD(1) [OF th, of r]] warmer_okD(4) [OF ok, of r] by metis
  have mem: "r \<in> set (pw_pairs w') \<longleftrightarrow> pair_state w' r \<noteq> PairStateClosed" for r
    using thinsD(3) [OF th, of r] warmer_okD(2) [OF ok, of r] closed [of r] by blast
  show ?thesis
    unfolding warmer_ok_def
    using thinsD(2,4,5,8) [OF th] warmer_okD(5,6) [OF ok] closed refs mem by auto
qed

text \<open>The contract shared by all maintenance operations.\<close>

locale thinning =
  fixes f :: "PairWarmer \<Rightarrow> PairWarmer"
  assumes thins: "warmer_ok w \<Longrightarrow> thins w (f w)"
begin

lemma keeps_ok: "warmer_ok w \<Longrightarrow> warmer_ok (f w)"
  by (rule warmer_ok_thins [OF _ thins])

text \<open>A pair that some connection holds stays listed, with its channels.\<close>

lemma held_stays: "warmer_ok w \<Longrightarrow> r \<in> set (pw_pairs w) \<Longrightarrow> 0 < pair_refs w r \<Longrightarrow>
    r \<in> set (pw_pairs (f w)) \<and> pair_refs (f w) r = pair_refs w r \<and>
    chan_key (pw_heap (f w) r) = chan_key (pw_heap w r)"
  using thinsD(3) [OF thins, of w r] pair_thinnedD(1,2,6) [OF thinsD(1) [OF thins], of w r] warmer_okD(2) [of w r]
  by metis

text \<open>No pair becomes ready.\<close>

lemma no_new_ready: "warmer_ok w \<Longrightarrow> ready (f w) r \<Longrightarrow> ready w r"
  using pair_thinnedD(4) [OF thinsD(1) [OF thins], of w r] by metis

end

lemma pair_heap_simps [simp]:
  "pw_heap (setState r s w) = (pw_heap w)(r := (pw_heap w r)\<lparr>pr_state := s\<rparr>)"
  "pw_pairs (setState r s w) = pw_pairs w" "pw_primary (setState r s w) = pw_primary w"
  "pw_next (setState r s w) = pw_next w" "pw_PairCount (setState r s w) = pw_PairCount w"
  "pw_RefreshInterval (setState r s w) = pw_RefreshInterval w"
  "pw_prebindResultCh (setState r s w) = pw_prebindResultCh w"
  "pw_notifyPending (setState r s w) = pw_notifyPending w"
  by (simp_all add: setState_def upd_pair_def)

lemma removePair_simps [simp]:
  "pw_heap (removePair r w) = pw_heap w" "pw_pairs (removePair r w) = removeAll r (pw_pairs w)"
  "pw_primary (removePair r w) = (if pw_primary w = Some r then None else pw_primary w)"
  "pw_next (removePair r w) = pw_next w" "pw_PairCount (removePair r w) = pw_PairCount w"
  "pw_RefreshInterval (removePair r w) = pw_RefreshInterval w"
  "pw_prebindResultCh (removePair r w) = pw_prebindResultCh w"
  "pw_notifyPending (removePair r w) = pw_notifyPending w"
  by (simp_all add: removePair_def)

lemma thins_close:
  assumes ok: "warmer_ok w" and refs: "pair_refs w r \<le> 0"
  shows "thins w (removePair r (setState r PairStateClosed w))"
  by (rule thinsI)
    (use warmer_okD(1) [OF ok] warmer_okD(2) [OF ok] warmer_okD(3) [OF ok] refs in
      \<open>auto simp: pair_thinned_def distinct_removeAll split: if_splits\<close>)

lemma thins_drain:
  assumes ok: "warmer_ok w" and "pair_state w r \<noteq> PairStateClosed"
  shows "thins w (setState r PairStateDraining w)"
  by (rule thinsI)
    (use warmer_okD(1) [OF ok] warmer_okD(2) [OF ok] warmer_okD(3) [OF ok] assms(2) in
      \<open>auto simp: pair_thinned_def split: if_splits\<close>)

lemma ensurePrimaryLocked_simps [simp]:
  "pw_heap (ensurePrimaryLocked w) = pw_heap w" "pw_pairs (ensurePrimaryLocked w) = pw_pairs w"
  "pw_next (ensurePrimaryLocked w) = pw_next w" "pw_PairCount (ensurePrimaryLocked w) = pw_PairCount w"
  "pw_RefreshInterval (ensurePrimaryLocked w) = pw_RefreshInterval w"
  "pw_prebindResultCh (ensurePrimaryLocked w) = pw_prebindResultCh w"
  "pw_notifyPending (ensurePrimaryLocked w) = pw_notifyPending w"
  by (simp_all add: ensurePrimaryLocked_def)

lemma ensurePrimary_ready:
  "pw_primary (ensurePrimaryLocked w) = Some r \<Longrightarrow> ready w r \<and> (pw_primary w = Some r \<or> r \<in> set (pw_pairs w))"
  "pw_primary (ensurePrimaryLocked w) = None \<Longrightarrow> \<forall>r\<in>set (pw_pairs w). \<not> ready w r"
  by (auto simp: ensurePrimaryLocked_def find_Some_iff find_None_iff split: if_splits option.splits)

lemma thins_ensure: "warmer_ok w \<Longrightarrow> thins w (ensurePrimaryLocked w)"
proof -
  assume ok: "warmer_ok w"
  have "pw_primary (ensurePrimaryLocked w) = Some r \<Longrightarrow> r \<in> set (pw_pairs w)" for r
    using ensurePrimary_ready(1) [of w r] warmer_okD(3) [OF ok] by blast
  then show ?thesis
    by (intro thinsI) (auto simp: warmer_okD(1) [OF ok] warmer_okD(2) [OF ok])
qed

interpretation ensured: thinning ensurePrimaryLocked
  by unfold_locales (rule thins_ensure)

lemma thins_then_ensure: "warmer_ok w \<Longrightarrow> thins w w' \<Longrightarrow> thins w (ensurePrimaryLocked w')"
  by (blast intro: thins_trans thins_ensure warmer_ok_thins)

lemmas thins_close_ensure = thins_then_ensure [OF _ thins_close]

interpretation discard: thinning "discardCandidatePair r" for r
  by unfold_locales (auto simp: discardCandidatePair_def intro: thins_close_ensure thins_drain
      dest: warmer_okD(4))

interpretation invalidation: thinning "invalidatePair x" for x
proof
  fix w assume ok: "warmer_ok w"
  have "thins w (ensurePrimaryLocked (removePair r (setState r PairStateClosed (setState r PairStateDraining w))))"
    if "ready w r" "pair_refs w r \<le> 0" for r
  proof -
    have d: "thins w (setState r PairStateDraining w)" using that by (intro thins_drain ok) simp
    then show ?thesis
      using that by (intro thins_trans [OF d] thins_close_ensure warmer_ok_thins [OF ok d]) simp
  qed
  then show "thins w (invalidatePair x w)"
    using ok by (auto simp: invalidatePair_def Let_def thins_refl intro: thins_drain split: option.split)
qed

subsection \<open>Losing a channel\<close>

definition drained :: "chid \<Rightarrow> HotChannelPair \<Rightarrow> HotChannelPair" where
  "drained chID pr =
     (if pr_state pr = PairStateClosed \<or> \<not> uses_chan chID pr then pr
      else pr\<lparr>pr_state := (if pr_refs pr \<le> 0 then PairStateClosed else PairStateDraining)\<rparr>)"

definition survives :: "chid \<Rightarrow> HotChannelPair \<Rightarrow> bool" where
  "survives chID pr \<longleftrightarrow> pr_state pr = PairStateClosed \<or> \<not> uses_chan chID pr \<or> 0 < pr_refs pr"

text \<open>The fields a thinning operation leaves alone.\<close>

definition same_rest :: "PairWarmer \<Rightarrow> PairWarmer \<Rightarrow> bool" where
  "same_rest w w' \<longleftrightarrow> pw_next w' = pw_next w \<and> pw_PairCount w' = pw_PairCount w \<and>
     pw_RefreshInterval w' = pw_RefreshInterval w \<and> pw_pairs w' = pw_pairs w \<and>
     pw_prebindResultCh w' = pw_prebindResultCh w \<and> pw_notifyPending w' = pw_notifyPending w"

lemma invalidateLoop_effect:
  assumes "distinct rs" "invalidateLoop chID rs w = (ks, w')"
  shows "ks = filter (\<lambda>r. survives chID (pw_heap w r)) rs \<and>
    (\<forall>r. pw_heap w' r = (if r \<in> set rs then drained chID (pw_heap w r) else pw_heap w r)) \<and>
    (\<forall>r. pw_primary w' = Some r \<longleftrightarrow> pw_primary w = Some r \<and> (r \<in> set rs \<longrightarrow> survives chID (pw_heap w r))) \<and>
    same_rest w w'"
  using assms
proof (induction rs arbitrary: w ks)
  case Nil
  then show ?case by (simp add: same_rest_def)
next
  case (Cons r rs)
  let ?pr = "pw_heap w r"
  have d: "distinct rs" "r \<notin> set rs" using Cons.prems(1) by auto
  have other: "filter (\<lambda>x. survives chID (((pw_heap w)(r := a)) x)) rs = filter (\<lambda>x. survives chID (pw_heap w x)) rs" for a
    using d(2) by (intro filter_cong) auto
  consider (keep) "pr_state ?pr = PairStateClosed \<or> \<not> uses_chan chID ?pr"
    | (close) "pr_state ?pr \<noteq> PairStateClosed" "uses_chan chID ?pr" "pr_refs ?pr \<le> 0"
    | (drain) "pr_state ?pr \<noteq> PairStateClosed" "uses_chan chID ?pr" "0 < pr_refs ?pr"
    by fastforce
  then show ?case
  proof cases
    case keep
    then obtain ks0 where l: "invalidateLoop chID rs w = (ks0, w')" "ks = r # ks0"
      using Cons.prems(2) by (auto split: prod.splits)
    from Cons.IH [OF d(1) l(1)] keep d l(2) show ?thesis
      by (auto simp: drained_def survives_def)
  next
    case close
    define w1 where "w1 = (setState r PairStateClosed w)\<lparr>pw_primary := (if pw_primary w = Some r then None else pw_primary w)\<rparr>"
    have "invalidateLoop chID rs w1 = (ks, w')"
      using Cons.prems(2) close
      by (auto simp: w1_def Let_def setState_def upd_pair_def split: if_splits)
    from Cons.IH [OF d(1) this] d(2) show ?thesis
      using close other [of "?pr\<lparr>pr_state := PairStateClosed\<rparr>"]
      by (auto simp: w1_def drained_def survives_def same_rest_def)
  next
    case drain
    define w1 where "w1 = setState r PairStateDraining w"
    have "(if pair_state w r \<noteq> PairStateDraining then setState r PairStateDraining w else w) = w1"
      by (cases "pw_heap w r") (auto simp: w1_def setState_def upd_pair_def fun_upd_idem)
    with Cons.prems(2) drain obtain ks0 where l: "invalidateLoop chID rs w1 = (ks0, w')" "ks = r # ks0"
      by (auto simp: Let_def w1_def split: prod.splits if_splits)
    from Cons.IH [OF d(1) l(1)] d(2) l(2) show ?thesis
      using drain other [of "?pr\<lparr>pr_state := PairStateDraining\<rparr>"]
      by (auto simp: w1_def drained_def survives_def same_rest_def)
  qed
qed

lemma thins_of_effect:
  assumes ok: "warmer_ok w" and heap: "\<And>r. pair_thinned (pw_heap w r) (pw_heap w' r)"
    and pairs: "ks = filter (\<lambda>r. pair_state w' r \<noteq> PairStateClosed) (pw_pairs w)"
    and prim: "\<And>r. pw_primary w' = Some r \<Longrightarrow> r \<in> set ks" and rest: "same_rest w w'"
  shows "thins w (w'\<lparr>pw_pairs := ks\<rparr>)"
  by (rule thinsI)
    (use rest warmer_okD(1) [OF ok] heap prim in \<open>auto simp: pairs same_rest_def\<close>)

interpretation channel_loss: thinning "PW_InvalidateChannel c" for c
proof
  fix w assume ok: "warmer_ok w"
  obtain ks w' where l: "invalidateLoop c (pw_pairs w) w = (ks, w')" by fastforce
  note E = invalidateLoop_effect [OF warmer_okD(1) [OF ok] l]
  have heap: "pair_thinned (pw_heap w r) (pw_heap w' r)" for r
    using E by (auto simp: drained_def pair_thinned_def)
  have surv: "r \<in> set (pw_pairs w) \<Longrightarrow> survives c (pw_heap w r) \<longleftrightarrow> pair_state w' r \<noteq> PairStateClosed" for r
    using E warmer_okD(2) [OF ok, of r] by (auto simp: drained_def survives_def)
  then have "ks = filter (\<lambda>r. pair_state w' r \<noteq> PairStateClosed) (pw_pairs w)"
    using E by (auto intro: filter_cong)
  moreover have "r \<in> set ks" if "pw_primary w' = Some r" for r
    using E that warmer_okD(3) [OF ok, of r] by auto
  ultimately have "thins w (w'\<lparr>pw_pairs := ks\<rparr>)"
    using E heap by (intro thins_of_effect [OF ok]) auto
  then show "thins w (PW_InvalidateChannel c w)"
    using thins_then_ensure [OF ok] l by (simp add: PW_InvalidateChannel_def)
qed

lemma PW_InvalidateChannel_effect:
  assumes ok: "warmer_ok w"
  shows "pw_heap (PW_InvalidateChannel c w) r = drained c (pw_heap w r)"
    and "pw_pairs (PW_InvalidateChannel c w) = filter (\<lambda>r. survives c (pw_heap w r)) (pw_pairs w)"
    and "pw_primary (PW_InvalidateChannel c w) = None \<Longrightarrow>
      \<forall>r\<in>set (pw_pairs (PW_InvalidateChannel c w)). \<not> ready (PW_InvalidateChannel c w) r"
    and "pw_primary (PW_InvalidateChannel c w) = Some q \<Longrightarrow> ready (PW_InvalidateChannel c w) q"
proof -
  obtain ks w' where l: "invalidateLoop c (pw_pairs w) w = (ks, w')" by fastforce
  note E = invalidateLoop_effect [OF warmer_okD(1) [OF ok] l]
  show "pw_heap (PW_InvalidateChannel c w) r = drained c (pw_heap w r)"
    using E l warmer_okD(2) [OF ok, of r] by (auto simp: PW_InvalidateChannel_def drained_def)
  show "pw_pairs (PW_InvalidateChannel c w) = filter (\<lambda>r. survives c (pw_heap w r)) (pw_pairs w)"
    using E l by (simp add: PW_InvalidateChannel_def)
  show "pw_primary (PW_InvalidateChannel c w) = None \<Longrightarrow>
      \<forall>r\<in>set (pw_pairs (PW_InvalidateChannel c w)). \<not> ready (PW_InvalidateChannel c w) r"
    "pw_primary (PW_InvalidateChannel c w) = Some q \<Longrightarrow> ready (PW_InvalidateChannel c w) q"
    using l ensurePrimary_ready [of "w'\<lparr>pw_pairs := ks\<rparr>"]
    by (auto simp: PW_InvalidateChannel_def)
qed

interpretation spares: thinning "healthCheckSpares av" for av
proof
  fix w assume ok: "warmer_ok w"
  have one: "thins v (checkSpare av v r)" if "warmer_ok v" for v r
    using that by (simp add: checkSpare_def Let_def channel_loss.thins thins_refl)
  have "thins w (foldl (checkSpare av) w rs)" for rs
    using ok
  proof (induction rs arbitrary: w)
    case (Cons r rs)
    then show ?case using thins_trans [OF one [of w r]] warmer_ok_thins [OF _ one] by simp
  qed (simp add: thins_refl)
  then show "thins w (healthCheckSpares av w)" by (simp add: healthCheckSpares_def)
qed

subsection \<open>Promotion and replacement\<close>

lemma thins_reorder:
  assumes ok: "warmer_ok w" and "set ps = set (pw_pairs w)" "distinct ps" "q \<in> set ps"
  shows "thins w (w\<lparr>pw_pairs := ps, pw_primary := Some q\<rparr>)"
  by (rule thinsI) (use assms warmer_okD(2) [OF ok] in auto)

interpretation promotion: thinning "promoteToHead x" for x
  by unfold_locales
    (auto simp: promoteToHead_def thins_refl set_remove1_eq warmer_okD(1)
      split: option.split intro!: thins_reorder)

interpretation replacement: thinning "replaceHeadWithCandidate c h" for c h
proof
  fix w assume ok: "warmer_ok w"
  have d: "distinct (pw_pairs w)" by (rule warmer_okD(1) [OF ok])
  have listed: "ready w r \<Longrightarrow> r \<in> set (pw_pairs w)" for r using warmer_okD(2) [OF ok, of r] by simp
  show "thins w (replaceHeadWithCandidate c h w)"
    using thins_refl [OF ok] d
    by (auto simp: replaceHeadWithCandidate_def Let_def set_remove1_eq
        split: option.split intro!: thins_reorder [OF ok] dest: listed)
qed

subsection \<open>Pruning\<close>

lemma take_shiftOut:
  assumes "i < m" "m \<le> length arr"
  shows "take (m - 1) (shiftOut i m arr) = take i arr @ drop (Suc i) (take m arr)"
    "length (shiftOut i m arr) = length arr" "set (shiftOut i m arr) \<subseteq> set arr"
proof -
  have len: "length (take (m - 1 - i) (drop (i + 1) arr)) = m - 1 - i" using assms by simp
  show "take (m - 1) (shiftOut i m arr) = take i arr @ drop (Suc i) (take m arr)"
    using assms len by (simp add: shiftOut_def take_drop)
  show "length (shiftOut i m arr) = length arr" using assms len by (simp add: shiftOut_def)
  show "set (shiftOut i m arr) \<subseteq> set arr"
    by (auto simp: shiftOut_def dest: in_set_takeD in_set_dropD)
qed

lemma removeInArray_effect:
  assumes "i \<le> m" "m \<le> length arr" "removeInArray r i (arr, m) = (arr', m')"
  shows "take m' arr' = take i arr @ removeAll r (drop i (take m arr)) \<and> m' \<le> m \<and>
    length arr' = length arr \<and> set arr' \<subseteq> set arr"
  using assms
proof (induction "m - i" arbitrary: i m arr rule: less_induct)
  case less
  consider (stop) "i = m" | (hit) "i < m" "arr ! i = r" | (miss) "i < m" "arr ! i \<noteq> r"
    using less.prems(1) by fastforce
  then show ?case
  proof cases
    case stop
    with less.prems show ?thesis by (subst (asm) (1) removeInArray.simps) auto
  next
    case hit
    note S = take_shiftOut [OF hit(1) less.prems(2)]
    have "removeInArray r i (shiftOut i m arr, m - 1) = (arr', m')"
      using less.prems(3) hit by (subst (asm) removeInArray.simps) simp
    then have "take m' arr' = take i (shiftOut i m arr) @ removeAll r (drop i (take (m - 1) (shiftOut i m arr))) \<and>
        m' \<le> m - 1 \<and> length arr' = length (shiftOut i m arr) \<and> set arr' \<subseteq> set (shiftOut i m arr)"
      using hit less.prems(2) S(2) by (intro less.hyps) auto
    moreover have "take i (shiftOut i m arr) = take i arr"
      using hit less.prems(2) by (simp add: shiftOut_def)
    moreover have "drop i (take (m - 1) (shiftOut i m arr)) = drop (Suc i) (take m arr)"
      using S(1) hit less.prems(2) by simp
    moreover have "drop i (take m arr) = r # drop (Suc i) (take m arr)"
      using hit less.prems(2) by (subst Cons_nth_drop_Suc [symmetric]) simp_all
    ultimately show ?thesis using S(2,3) by auto
  next
    case miss
    have "removeInArray r (i + 1) (arr, m) = (arr', m')"
      using less.prems(3) miss by (subst (asm) removeInArray.simps) simp
    then have "take m' arr' = take (i + 1) arr @ removeAll r (drop (i + 1) (take m arr)) \<and> m' \<le> m \<and>
        length arr' = length arr \<and> set arr' \<subseteq> set arr"
      using miss less.prems(2) by (intro less.hyps) auto
    moreover have "drop i (take m arr) = arr ! i # drop (Suc i) (take m arr)"
      using miss less.prems(2) by (subst Cons_nth_drop_Suc [symmetric]) simp_all
    ultimately show ?thesis using miss less.prems(2) by (auto simp: take_Suc_conv_app_nth)
  qed
qed

lemma pruneLoop_thins:
  assumes "warmer_ok (w\<lparr>pw_pairs := take m arr\<rparr>)" "m \<le> length arr"
    "pruneLoop ks (arr, m) b w = ((arr', m'), b', w')"
  shows "thins (w\<lparr>pw_pairs := take m arr\<rparr>) (w'\<lparr>pw_pairs := take m' arr'\<rparr>)"
  using assms
proof (induction ks arbitrary: arr m b w)
  case Nil
  then show ?case by (simp add: thins_refl)
next
  case (Cons k ks)
  let ?r = "arr ! k" and ?W = "w\<lparr>pw_pairs := take m arr\<rparr>"
  show ?case
  proof (cases "pair_state w ?r = PairStateDraining \<and> pair_refs w ?r \<le> 0")
    case True
    obtain a1 m1 where a: "removeInArray ?r 0 (arr, m) = (a1, m1)" by fastforce
    have E: "take m1 a1 = removeAll ?r (take m arr)" "m1 \<le> length a1"
      using removeInArray_effect [OF _ Cons.prems(2) a] Cons.prems(2) by auto
    define w1 where "w1 = (setState ?r PairStateClosed w)
      \<lparr>pw_primary := (if pw_primary w = Some ?r then None else pw_primary w)\<rparr>"
    have step: "w1\<lparr>pw_pairs := take m1 a1\<rparr> = removePair ?r (setState ?r PairStateClosed ?W)"
      by (simp add: w1_def E removePair_def setState_def upd_pair_def)
    have t: "thins ?W (w1\<lparr>pw_pairs := take m1 a1\<rparr>)"
      unfolding step using True by (intro thins_close Cons.prems(1)) simp
    have "thins (w1\<lparr>pw_pairs := take m1 a1\<rparr>) (w'\<lparr>pw_pairs := take m' arr'\<rparr>)"
    proof (rule Cons.IH [OF warmer_ok_thins [OF Cons.prems(1) t] E(2)])
      show "pruneLoop ks (a1, m1) True w1 = ((arr', m'), b', w')"
        using Cons.prems(3) True a by (cases "pw_primary w = Some ?r") (simp_all add: Let_def w1_def)
    qed
    with t show ?thesis by (rule thins_trans)
  next
    case False
    with Cons.prems show ?thesis by (intro Cons.IH) (auto simp: Let_def)
  qed
qed

interpretation pruning: thinning pruneIdleDrainingPairs
proof
  fix w assume ok: "warmer_ok w"
  let ?n = "length (pw_pairs w)"
  obtain arr m b w' where l: "pruneLoop [0..<?n] (pw_pairs w, ?n) False w = ((arr, m), b, w')"
    using prod_cases4 by (metis surj_pair)
  have "thins w (w'\<lparr>pw_pairs := take m arr\<rparr>)"
    using pruneLoop_thins [OF _ _ l] ok by simp
  then show "thins w (pruneIdleDrainingPairs w)"
    using l thins_then_ensure [OF ok] by (simp add: pruneIdleDrainingPairs_def Let_def)
qed

subsection \<open>Deduplication\<close>

definition ready_keys :: "PairWarmer \<Rightarrow> ref list \<Rightarrow> (chid \<times> chid) list" where
  "ready_keys w rs = map (\<lambda>r. chan_key (pw_heap w r)) (filter (ready w) rs)"

lemma ready_keys_simps [simp]:
  "ready_keys w [] = []"
  "ready_keys w (r # rs) = (if ready w r then chan_key (pw_heap w r) # ready_keys w rs else ready_keys w rs)"
  by (simp_all add: ready_keys_def)

lemma ready_keys_cong:
  "(\<And>r. r \<in> set rs \<Longrightarrow> pw_heap w' r = pw_heap w r) \<Longrightarrow> ready_keys w' rs = ready_keys w rs"
  unfolding ready_keys_def by (induction rs) auto

lemma dedupLoop_effect:
  assumes "distinct rs" "dedupLoop seen rs w = (ks, w')"
  shows "(\<forall>r. pair_thinned (pw_heap w r) (pw_heap w' r)) \<and> (\<forall>r. r \<notin> set rs \<longrightarrow> pw_heap w' r = pw_heap w r) \<and>
    ks = filter (\<lambda>r. pair_state w' r \<noteq> PairStateClosed \<or> pair_state w r = PairStateClosed) rs \<and>
    (\<forall>r. pw_primary w' = Some r \<longrightarrow> pw_primary w = Some r \<and> (r \<in> set rs \<longrightarrow> r \<in> set ks)) \<and>
    same_rest w w' \<and> distinct (ready_keys w' ks) \<and> set (ready_keys w' ks) \<inter> set seen = {} \<and>
    set (ready_keys w rs) \<subseteq> set seen \<union> set (ready_keys w' ks)"
  using assms
proof (induction rs arbitrary: seen w ks)
  case Nil
  then show ?case by (simp add: same_rest_def)
next
  case (Cons r rs)
  let ?pr = "pw_heap w r"
  have d: "distinct rs" "r \<notin> set rs" using Cons.prems(1) by auto
  have heap_r: "pw_heap w' r = pw_heap u r" if "dedupLoop s rs u = (k, w')" for s u k
    using Cons.IH [OF d(1) that] d(2) by blast
  have keys: "ready_keys (setState r st u) rs = ready_keys u rs" for st u
    using d(2) by (intro ready_keys_cong) auto
  consider (skip) "\<not> ready w r" | (new) "ready w r" "chan_key ?pr \<notin> set seen"
    | (busy) "ready w r" "chan_key ?pr \<in> set seen" "0 < pr_refs ?pr"
    | (idle) "ready w r" "chan_key ?pr \<in> set seen" "pr_refs ?pr \<le> 0"
    by fastforce
  then show ?case
  proof cases
    case skip
    then obtain ks0 where l: "dedupLoop seen rs w = (ks0, w')" "ks = r # ks0"
      using Cons.prems(2) by (auto split: prod.splits)
    from Cons.IH [OF d(1) l(1)] heap_r [OF l(1)] skip l(2) d(2) show ?thesis
      by auto
  next
    case new
    then obtain ks0 where l: "dedupLoop (chan_key ?pr # seen) rs w = (ks0, w')" "ks = r # ks0"
      using Cons.prems(2) by (auto split: prod.splits)
    from Cons.IH [OF d(1) l(1)] heap_r [OF l(1)] new l(2) d(2) show ?thesis
      by auto
  next
    case busy
    define w1 where "w1 = setState r PairStateDraining w"
    obtain ks0 where l: "dedupLoop seen rs w1 = (ks0, w')" "ks = r # ks0"
      using Cons.prems(2) busy by (auto simp: Let_def w1_def split: prod.splits if_splits)
    have f: "filter (\<lambda>x. pair_state w' x \<noteq> PairStateClosed \<or> pair_state w1 x = PairStateClosed) rs =
        filter (\<lambda>x. pair_state w' x \<noteq> PairStateClosed \<or> pair_state w x = PairStateClosed) rs"
      using d(2) by (intro filter_cong) (auto simp: w1_def)
    have h: "pair_thinned (pw_heap w x) (pw_heap w1 x)" for x
      using busy by (auto simp: w1_def pair_thinned_def)
    note IH = Cons.IH [OF d(1) l(1)]
    have "pair_thinned (pw_heap w x) (pw_heap w' x)" for x
      using IH h [of x] by (blast intro: pair_thinned_trans)
    moreover have "pw_heap w' x = pw_heap w x" if "x \<notin> set (r # rs)" for x
      using IH that by (simp add: w1_def)
    moreover have "same_rest w w'" using IH by (simp add: same_rest_def w1_def)
    moreover have "pw_primary w1 = pw_primary w" "ready_keys w1 rs = ready_keys w rs"
      using keys [of PairStateDraining w] by (simp_all add: w1_def)
    moreover have "pair_state w' r = PairStateDraining" using heap_r [OF l(1)] by (simp add: w1_def)
    ultimately show ?thesis
      using IH busy l(2) d(2) f by auto
  next
    case idle
    define w1 where "w1 = (setState r PairStateClosed w)\<lparr>pw_primary := (if pw_primary w = Some r then None else pw_primary w)\<rparr>"
    have l: "dedupLoop seen rs w1 = (ks, w')"
      using Cons.prems(2) idle by (auto simp: Let_def w1_def setState_def upd_pair_def split: if_splits)
    have f: "filter (\<lambda>x. pair_state w' x \<noteq> PairStateClosed \<or> pair_state w1 x = PairStateClosed) rs =
        filter (\<lambda>x. pair_state w' x \<noteq> PairStateClosed \<or> pair_state w x = PairStateClosed) rs"
      using d(2) by (intro filter_cong) (auto simp: w1_def)
    have h: "pair_thinned (pw_heap w x) (pw_heap w1 x)" for x
      using idle by (auto simp: w1_def pair_thinned_def)
    have k: "ready_keys w1 rs = ready_keys w rs" using d(2) by (intro ready_keys_cong) (auto simp: w1_def)
    note IH = Cons.IH [OF d(1) l]
    have "pair_thinned (pw_heap w x) (pw_heap w' x)" for x
      using IH h [of x] by (blast intro: pair_thinned_trans)
    moreover have "pw_heap w' x = pw_heap w x" if "x \<notin> set (r # rs)" for x
      using IH that by (simp add: w1_def)
    moreover have "same_rest w w'" using IH by (simp add: same_rest_def w1_def)
    moreover have "pw_primary w' = Some x \<Longrightarrow> pw_primary w = Some x \<and> x \<noteq> r" for x
      using IH by (auto simp: w1_def split: if_splits)
    moreover have "pair_state w' r = PairStateClosed" using heap_r [OF l] by (simp add: w1_def)
    ultimately show ?thesis
      using IH idle d(2) f k by auto
  qed
qed

interpretation dedup: thinning deduplicatePairs
proof
  fix w assume ok: "warmer_ok w"
  obtain ks w' where l: "dedupLoop [] (pw_pairs w) w = (ks, w')" by fastforce
  note E = dedupLoop_effect [OF warmer_okD(1) [OF ok] l]
  have "ks = filter (\<lambda>r. pair_state w' r \<noteq> PairStateClosed) (pw_pairs w)"
    using E warmer_okD(2) [OF ok] by (auto intro: filter_cong)
  then have "thins w (w'\<lparr>pw_pairs := ks\<rparr>)"
    using E warmer_okD(3) [OF ok] by (intro thins_of_effect [OF ok]) auto
  then show "thins w (deduplicatePairs w)"
    using thins_then_ensure [OF ok] l by (simp add: deduplicatePairs_def)
qed

subsection \<open>Trimming\<close>

lemma thins_drain_close:
  assumes ok: "warmer_ok w" and "ready w r" "pair_refs w r \<le> 0"
  shows "thins w (removePair r (setState r PairStateClosed (setState r PairStateDraining w)))"
proof -
  have d: "thins w (setState r PairStateDraining w)" using assms by (intro thins_drain) auto
  show ?thesis
    by (rule thins_trans [OF d thins_close [OF warmer_ok_thins [OF ok d]]]) (use assms in simp)
qed

lemma trimLoop_thins: "warmer_ok w \<Longrightarrow> thins w (trimLoop w)"
proof (induction w rule: trimLoop.induct)
  case (1 w)
  show ?case
  proof (cases "readyCount w \<le> pw_PairCount w")
    case True
    then show ?thesis using "1.prems" by (simp add: trimLoop.simps [of w] thins_refl)
  next
    case over: False
    show ?thesis
    proof (cases "List.find (ready w) (rev (pw_pairs w))")
      case None
      then show ?thesis using "1.prems" over by (simp add: trimLoop.simps [of w] thins_refl)
    next
      case (Some r)
      then have r: "ready w r" by (auto dest: find_rev_ready)
      let ?v = "removePair r (setState r PairStateClosed (setState r PairStateDraining w))"
      show ?thesis
      proof (cases "0 < pair_refs w r")
        case True
        then show ?thesis
          using "1.prems" over Some r by (simp add: trimLoop.simps [of w] Let_def thins_drain)
      next
        case False
        have t: "thins w ?v" using False "1.prems" r by (intro thins_drain_close) auto
        have "thins ?v (trimLoop ?v)"
          using "1.IH" [OF over Some refl] False warmer_ok_thins [OF "1.prems" t] by simp
        from thins_trans [OF t this] show ?thesis
          using over Some False by (simp add: trimLoop.simps [of w] Let_def)
      qed
    qed
  qed
qed

interpretation trimming: thinning trimExcessPairs
  by unfold_locales (auto simp: trimExcessPairs_def thins_refl intro: thins_then_ensure trimLoop_thins)

section \<open>The running manager\<close>

text \<open>The critical sections of the code other than acquiring and releasing a pair, in any order and
  interleaving; then with those.\<close>

inductive upkeep_step :: "PairWarmer \<Rightarrow> PairWarmer \<Rightarrow> bool" where
  ws_invalidate: "upkeep_step w (PW_InvalidateChannel c w)"
| ws_invalidatePair: "upkeep_step w (invalidatePair x w)"
| ws_discard: "upkeep_step w (discardCandidatePair r w)"
| ws_prune: "upkeep_step w (pruneIdleDrainingPairs w)"
| ws_promote: "upkeep_step w (promoteToHead x w)"
| ws_replace: "upkeep_step w (replaceHeadWithCandidate x y w)"
| ws_dedup: "upkeep_step w (deduplicatePairs w)"
| ws_trim: "upkeep_step w (trimExcessPairs w)"
| ws_ensure: "upkeep_step w (ensurePrimaryLocked w)"
| ws_add: "upkeep_step w (snd (addPair connID up down now w))"
| ws_slot: "upkeep_step w (assignPairSlot r w)"
| ws_result: "upkeep_step w (HandlePrebindResult res w)"
| ws_receive: "length rs \<le> prebindResultCap \<Longrightarrow> upkeep_step w (w\<lparr>pw_prebindResultCh := rs\<rparr>)"
| ws_queue: "upkeep_step w (queueHotPairNotify x w)"
| ws_flush: "upkeep_step w (w\<lparr>pw_notifyPending := m, pw_notifyTimer := b\<rparr>)"

inductive warmer_step :: "PairWarmer \<Rightarrow> PairWarmer \<Rightarrow> bool" where
  ws_upkeep: "upkeep_step w w' \<Longrightarrow> warmer_step w w'"
| ws_acquire: "warmer_step w (snd (AcquirePrimary w))"
| ws_release: "warmer_step w (ReleasePair x w)"

lemma acquire_cases:
  obtains "AcquirePrimary w = (None, w)" "\<forall>r. (pw_primary w = Some r \<or> r \<in> set (pw_pairs w)) \<longrightarrow> \<not> ready w r"
  | r where "AcquirePrimary w = (Some r, upd_pair r (pr_refs_update (\<lambda>n. n + 1)) w)" "ready w r"
      "pw_primary w = Some r \<or> r \<in> set (pw_pairs w) \<and> (\<forall>q. pw_primary w = Some q \<longrightarrow> \<not> ready w q)"
proof -
  have acq: "tryAcquire (Some r) w =
      (if ready w r then (True, upd_pair r (pr_refs_update (\<lambda>n. n + 1)) w) else (False, w))" for r
    by (simp add: tryAcquire_def upd_pair_def)
  have scan: "(\<exists>r\<in>set rs. ready w r \<and> acquireScan rs w = (Some r, upd_pair r (pr_refs_update (\<lambda>n. n + 1)) w)) \<or>
      acquireScan rs w = (None, w) \<and> (\<forall>r\<in>set rs. Some r \<noteq> pw_primary w \<longrightarrow> \<not> ready w r)" for rs
    by (induction rs) (auto simp: acq)
  show thesis
  proof (cases "\<exists>q. pw_primary w = Some q \<and> ready w q")
    case True
    then obtain q where q: "pw_primary w = Some q" "ready w q" by blast
    then have "AcquirePrimary w = (Some q, upd_pair q (pr_refs_update (\<lambda>n. n + 1)) w)"
      by (simp add: AcquirePrimary_def acq upd_pair_def)
    with q show thesis using that(2) by blast
  next
    case False
    then have a: "AcquirePrimary w = acquireScan (pw_pairs w) w"
      by (cases "pw_primary w") (auto simp: AcquirePrimary_def acq, simp add: tryAcquire_def)
    from scan [of "pw_pairs w"] show thesis
    proof
      assume "\<exists>r\<in>set (pw_pairs w). ready w r \<and> acquireScan (pw_pairs w) w =
          (Some r, upd_pair r (pr_refs_update (\<lambda>n. n + 1)) w)"
      with a False show thesis using that(2) by auto
    next
      assume "acquireScan (pw_pairs w) w = (None, w) \<and> (\<forall>r\<in>set (pw_pairs w). Some r \<noteq> pw_primary w \<longrightarrow> \<not> ready w r)"
      with a False show thesis using that(1) by metis
    qed
  qed
qed

lemma warmer_ok_refs:
  assumes "warmer_ok w" "pair_state w r = PairStateClosed \<Longrightarrow> g (pair_refs w r) \<le> 0"
  shows "warmer_ok (upd_pair r (pr_refs_update g) w)"
  using assms unfolding warmer_ok_def by (auto simp: upd_pair_def)

lemma warmer_ok_acquire: "warmer_ok w \<Longrightarrow> warmer_ok (snd (AcquirePrimary w))"
proof (cases rule: acquire_cases [of w])
  case (2 r)
  assume "warmer_ok w"
  with 2 show ?thesis
    using warmer_ok_refs [of w r "\<lambda>n. n + 1"] by simp
qed simp

lemma warmer_ok_release: "warmer_ok w \<Longrightarrow> warmer_ok (ReleasePair x w)"
proof (cases x)
  case (Some r)
  assume ok: "warmer_ok w"
  define w1 where "w1 = upd_pair r (pr_refs_update (\<lambda>n. n - 1)) w"
  have ok1: "warmer_ok w1"
    unfolding w1_def using warmer_okD(4) [OF ok, of r] by (intro warmer_ok_refs [OF ok]) simp
  then show ?thesis
    using warmer_ok_thins [OF ok1 thins_close_ensure [OF ok1]] by (simp add: Some ReleasePair_def Let_def w1_def [symmetric])
qed (simp add: ReleasePair_def)

lemma addPair_simps:
  "fst (addPair connID up down now w) = pw_next w"
  "pw_pairs (snd (addPair connID up down now w)) = pw_pairs w @ [pw_next w]"
  "pw_heap (snd (addPair connID up down now w)) = (pw_heap w)(pw_next w := \<lparr>pr_ID = '''', pr_PrebindID = connID,
      pr_UplinkChID = up, pr_DownlinkChID = down, pr_state = PairStateReady, pr_createdAt = now, pr_refs = 0\<rparr>)"
  "pw_next (snd (addPair connID up down now w)) = Suc (pw_next w)"
  "pw_primary (snd (addPair connID up down now w)) = Some q \<Longrightarrow> q = pw_next w \<or> pw_primary w = Some q"
  "pw_prebindResultCh (snd (addPair connID up down now w)) = pw_prebindResultCh w"
  by (auto simp: addPair_def Let_def split: if_splits)

lemma warmer_ok_add: "warmer_ok w \<Longrightarrow> warmer_ok (snd (addPair connID up down now w))"
proof -
  assume ok: "warmer_ok w"
  have "pw_next w \<notin> set (pw_pairs w)" using warmer_okD(2,5) [OF ok, of "pw_next w"] by simp
  then show ?thesis
    unfolding warmer_ok_def addPair_simps
    using warmer_okD(1) [OF ok] warmer_okD(2) [OF ok] warmer_okD(3) [OF ok] warmer_okD(4) [OF ok]
      warmer_okD(5) [OF ok] warmer_okD(6) [OF ok]
    by (auto dest: addPair_simps(5))
qed

lemma warmer_ok_same:
  assumes "warmer_ok w" "pw_pairs w' = pw_pairs w" "pw_primary w' = pw_primary w" "pw_next w' = pw_next w"
    "\<And>r. pair_state w' r = pair_state w r" "\<And>r. pair_refs w' r = pair_refs w r"
    "length (pw_prebindResultCh w') \<le> prebindResultCap"
  shows "warmer_ok w'"
  using assms unfolding warmer_ok_def by auto

lemma warmer_ok_upkeep: "upkeep_step w w' \<Longrightarrow> warmer_ok w \<Longrightarrow> warmer_ok w'"
proof (induction rule: upkeep_step.induct)
  case (ws_slot w r)
  from warmer_okD(6) [OF this] show ?case
    by (intro warmer_ok_same [OF ws_slot]) (auto simp: assignPairSlot_def Let_def upd_pair_def)
next
  case (ws_result w res)
  from warmer_okD(6) [OF this] show ?case
    by (intro warmer_ok_same [OF ws_result]) (auto simp: HandlePrebindResult_def)
next
  case (ws_queue w x)
  from warmer_okD(6) [OF this] show ?case
    by (intro warmer_ok_same [OF ws_queue]) (auto simp: queueHotPairNotify_def Let_def split: option.split)
next
  case (ws_receive rs w)
  then show ?case by (auto intro: warmer_ok_same)
next
  case (ws_flush w m b)
  from warmer_okD(6) [OF this] show ?case by (intro warmer_ok_same [OF ws_flush]) auto
qed (simp_all add: warmer_ok_add channel_loss.keeps_ok invalidation.keeps_ok
    discard.keeps_ok pruning.keeps_ok promotion.keeps_ok replacement.keeps_ok dedup.keeps_ok
    trimming.keeps_ok ensured.keeps_ok)

lemma warmer_ok_step: "warmer_step w w' \<Longrightarrow> warmer_ok w \<Longrightarrow> warmer_ok w'"
  by (induction rule: warmer_step.induct) (auto intro: warmer_ok_upkeep warmer_ok_acquire warmer_ok_release)

definition warmer_start :: "PairWarmer \<Rightarrow> bool" where
  "warmer_start w \<longleftrightarrow> (\<exists>cfg. w = NewPairWarmer cfg)"

lemma warmer_ok_start: "warmer_start w \<Longrightarrow> warmer_ok w"
  by (auto simp: warmer_start_def NewPairWarmer_def warmer_ok_def blank_pair_def)

interpretation warming: invariant_system warmer_start warmer_step warmer_ok
  by unfold_locales (auto intro: warmer_ok_start warmer_ok_step)

interpretation upkeep: invariant_system warmer_start upkeep_step warmer_ok
  by unfold_locales (auto intro: warmer_ok_start warmer_ok_upkeep)

text \<open>What the maintenance steps keep of the pairs that exist: the holders, the channels and the
  key. A new pair has no holder.\<close>

definition cells_kept :: "PairWarmer \<Rightarrow> PairWarmer \<Rightarrow> bool" where
  "cells_kept w w' \<longleftrightarrow> pw_next w \<le> pw_next w' \<and>
     (\<forall>r. r < pw_next w \<longrightarrow> pair_refs w' r = pair_refs w r \<and> chan_key (pw_heap w' r) = chan_key (pw_heap w r) \<and>
        pr_PrebindID (pw_heap w' r) = pr_PrebindID (pw_heap w r)) \<and>
     (\<forall>r. pw_next w \<le> r \<longrightarrow> pair_refs w' r = (if r < pw_next w' then 0 else pair_refs w r))"

lemma cells_kept_thins: "thins w w' \<Longrightarrow> cells_kept w w'"
  using pair_thinnedD(1-3) [OF thinsD(1)] thinsD(5) [of w w'] by (simp add: cells_kept_def)

lemma cells_kept_upkeep: "upkeep_step w w' \<Longrightarrow> warmer_ok w \<Longrightarrow> cells_kept w w'"
proof (induction rule: upkeep_step.induct)
  case (ws_add w connID up down now)
  then show ?case by (auto simp: cells_kept_def addPair_simps)
next
  case (ws_slot w r)
  then show ?case by (auto simp: cells_kept_def assignPairSlot_def Let_def upd_pair_def chan_key_def)
next
  case (ws_queue w x)
  then show ?case by (auto simp: cells_kept_def queueHotPairNotify_def Let_def split: option.split)
next
  case (ws_result w res)
  then show ?case by (auto simp: cells_kept_def HandlePrebindResult_def)
next
  case (ws_receive rs w)
  then show ?case by (auto simp: cells_kept_def)
next
  case (ws_flush w m b)
  then show ?case by (auto simp: cells_kept_def)
qed (simp_all add: cells_kept_thins channel_loss.thins invalidation.thins discard.thins pruning.thins
    promotion.thins replacement.thins dedup.thins trimming.thins ensured.thins)

lemma cells_kept_trans: "cells_kept u v \<Longrightarrow> cells_kept v w \<Longrightarrow> cells_kept u w"
  unfolding cells_kept_def by (metis (no_types, lifting) dual_order.trans not_le)

lemma cells_kept_run: "upkeep_step\<^sup>*\<^sup>* w w' \<Longrightarrow> warmer_ok w \<Longrightarrow> cells_kept w w' \<and> warmer_ok w'"
proof (induction rule: rtranclp_induct)
  case (step v u)
  then show ?case using cells_kept_upkeep [of v u] warmer_ok_upkeep [of v u] by (auto intro: cells_kept_trans)
qed (simp add: cells_kept_def)

lemma release_refs:
  "pair_refs (ReleasePair x w) r = pair_refs w r - (if x = Some r then 1 else 0)"
proof -
  have [simp]: "pw_heap (ensurePrimaryLocked v) = pw_heap v" for v by (simp add: ensurePrimaryLocked_def)
  show ?thesis
    by (cases x) (auto simp: ReleasePair_def Let_def removePair_def setState_def upd_pair_def)
qed

text \<open>The longer operations of the code are runs of these critical sections, with the pool's part done
  in between.\<close>

abbreviation warmer_run :: "clientPool \<Rightarrow> clientPool \<Rightarrow> bool" where
  "warmer_run p p' \<equiv> upkeep_step\<^sup>*\<^sup>* (cp_warmer p) (cp_warmer p')"

lemma warmer_run_with: "upkeep_step (cp_warmer p) (f (cp_warmer p)) \<Longrightarrow> warmer_run p (with_warmer f p)"
  by (simp add: with_warmer_def r_into_rtranclp)

lemma cp_warmer_with [simp]: "cp_warmer (with_warmer f p) = f (cp_warmer p)"
  by (simp add: with_warmer_def)

lemma cp_warmer_deletePrebind [simp]: "cp_warmer (deletePrebindState c p) = cp_warmer p"
  by (simp add: deletePrebindState_def)

lemma sendAll_fields [simp]: "cp_warmer (snd (sendAll env msg chs p)) = cp_warmer p"
proof -
  have "cp_warmer (snd (foldl (\<lambda>(n, p) c. let (res, p) = asyncWriteDirect (env c) c BinaryMessage msg p
      in (if res = Sent then n + 1 else n, p)) (n, p) chs)) = cp_warmer p" for n
  proof (induction chs arbitrary: n p)
    case (Cons c chs)
    then show ?case using asyncWriteDirect_fields(2) [of "env c" c BinaryMessage msg p]
      by (simp add: Let_def split_def)
  qed simp
  then show ?thesis by (simp add: sendAll_def)
qed

lemma BuildPair_begin_warmer: "cp_warmer (snd (BuildPair_begin env chs p)) = cp_warmer p"
  by (simp add: BuildPair_begin_def Let_def split_def)

lemma BuildPair_finish_run: "warmer_run p (snd (BuildPair_finish env c p))"
proof -
  obtain res rest where b: "buildWait c (pw_prebindResultCh (cp_warmer p) @ be_arrivals env) = (res, rest)"
    by fastforce
  define w1 where "w1 = (cp_warmer p)\<lparr>pw_prebindResultCh := take prebindResultCap rest\<rparr>"
  have 1: "upkeep_step (cp_warmer p) w1" unfolding w1_def by (rule ws_receive) simp
  obtain r w2 where a: "addPair c (pb_uplinkChID (the res)) (pb_downlinkChID (the res)) (be_now env) w1 = (r, w2)"
    by fastforce
  have 2: "upkeep_step w1 w2" using ws_add [of w1] a by (metis snd_conv)
  have 3: "upkeep_step w2 (queueHotPairNotify (Some r) w2)" by (rule ws_queue)
  have "cp_warmer (snd (BuildPair_finish env c p)) \<in> {w1, queueHotPairNotify (Some r) w2}"
    using b a by (auto simp: BuildPair_finish_def Let_def w1_def split: option.split)
  then show ?thesis
    using 1 2 3 by (auto intro: rtranclp.rtrancl_into_rtrancl)
qed

lemma BuildPair_run: "warmer_run p (snd (BuildPair env chs p))"
proof -
  obtain x p1 where b: "BuildPair_begin env chs p = (x, p1)" by fastforce
  then have "cp_warmer p1 = cp_warmer p" using BuildPair_begin_warmer [of env chs p] by simp
  with b show ?thesis
    using BuildPair_finish_run [of p1 env] by (cases x) (simp_all add: BuildPair_def)
qed

lemma buildLoop_run: "warmer_run p (buildLoop n envs chs p)"
proof (induction n arbitrary: p)
  case (Suc n)
  obtain x p1 where b: "BuildPair (envs n) chs p = (x, p1)" by fastforce
  then have 1: "warmer_run p p1" using BuildPair_run [of p "envs n" chs] by simp
  show ?case
  proof (cases x)
    case (Inr r)
    have "warmer_run p1 (with_warmer (assignPairSlot r) p1)" by (rule warmer_run_with) (rule ws_slot)
    with 1 have "warmer_run p (with_warmer (assignPairSlot r) p1)" by (rule rtranclp_trans)
    from rtranclp_trans [OF this Suc.IH] show ?thesis using b Inr by simp
  qed (use 1 b in simp)
qed simp

lemma tryBuildPairs_run: "warmer_run p (tryBuildPairs envs p)"
  by (simp add: tryBuildPairs_def Let_def buildLoop_run)

lemma heartbeat_run: "upkeep_step\<^sup>*\<^sup>* w (heartbeatHotPairNotify w)"
proof -
  have "upkeep_step\<^sup>*\<^sup>* w (foldl (\<lambda>w r. queueHotPairNotify (Some r) w) w rs)" for rs
    by (induction rs arbitrary: w) (auto intro: converse_rtranclp_into_rtranclp ws_queue)
  then show ?thesis by (simp add: heartbeatHotPairNotify_def)
qed

lemma healthCheck_run: "upkeep_step\<^sup>*\<^sup>* w (healthCheckSpares av w)"
proof -
  have one: "upkeep_step\<^sup>*\<^sup>* w (checkSpare av w r)" for w r
    by (auto simp: checkSpare_def Let_def intro: ws_invalidate)
  have "upkeep_step\<^sup>*\<^sup>* w (foldl (checkSpare av) w rs)" for rs
    by (induction rs arbitrary: w) (auto intro: rtranclp_trans [OF one])
  then show ?thesis by (simp add: healthCheckSpares_def)
qed

lemma upkeep_step2: "upkeep_step u v \<Longrightarrow> upkeep_step v w \<Longrightarrow> upkeep_step\<^sup>*\<^sup>* u w"
  by (meson r_into_rtranclp rtranclp.rtrancl_into_rtrancl)

lemma placeCandidate_run: "upkeep_step\<^sup>*\<^sup>* w (placeCandidate c w)"
proof -
  have 1: "upkeep_step\<^sup>*\<^sup>* w (discardCandidatePair c (promoteToHead x w))" for x
    by (rule upkeep_step2 [OF ws_promote ws_discard])
  have 2: "upkeep_step\<^sup>*\<^sup>* w (replaceHeadWithCandidate (Some c) x (assignPairSlot c w))" for x
    by (rule upkeep_step2 [OF ws_slot ws_replace])
  show ?thesis
    using 1 2 ws_discard [of w c] ws_slot [of w c]
    by (auto simp: placeCandidate_def Let_def split: prod.split)
qed

text \<open>A refresh ends with a deduplication.\<close>

lemma periodicRefresh_last:
  "\<exists>q. warmer_run p q \<and> cp_warmer (periodicRefresh cenv envs p) = deduplicatePairs (cp_warmer q)"
proof -
  define p1 where "p1 = with_warmer pruneIdleDrainingPairs (with_warmer heartbeatHotPairNotify p)"
  define p2 where "p2 = (if length (availableChannels p1) \<ge> 2 then
       (case BuildPair cenv (availableChannels p1) p1 of (Inl _, p) \<Rightarrow> p | (Inr c, p) \<Rightarrow> with_warmer (placeCandidate c) p)
       else p1)"
  define p3 where "p3 = with_warmer deduplicatePairs p2"
  define p4 where "p4 = with_warmer trimExcessPairs (with_warmer (healthCheckSpares (availableChannels p3)) p3)"
  have 1: "warmer_run p p1"
    unfolding p1_def by (auto intro: rtranclp.rtrancl_into_rtrancl [OF heartbeat_run ws_prune])
  have 2: "warmer_run p1 p2"
    using BuildPair_run [of p1 cenv "availableChannels p1"]
    by (auto simp: p2_def split: prod.split sum.split intro: rtranclp_trans placeCandidate_run)
  have 3: "warmer_run p2 p3" unfolding p3_def by (rule warmer_run_with) (rule ws_dedup)
  have 4: "warmer_run p3 p4"
    unfolding p4_def by (auto intro: rtranclp.rtrancl_into_rtrancl [OF healthCheck_run ws_trim])
  have "periodicRefresh cenv envs p = with_warmer deduplicatePairs (tryBuildPairs envs p4)"
    by (simp add: periodicRefresh_def p1_def p2_def p3_def p4_def Let_def)
  with rtranclp_trans [OF rtranclp_trans [OF rtranclp_trans [OF rtranclp_trans [OF 1 2] 3] 4] tryBuildPairs_run]
  show ?thesis by auto
qed

lemma periodicRefresh_run: "warmer_run p (periodicRefresh cenv envs p)"
  using periodicRefresh_last [of p cenv envs] ws_dedup
  by (auto intro: rtranclp.rtrancl_into_rtrancl)

lemma tryRefresh_run: "warmer_run p (tryRefresh envs p)"
proof -
  define p1 where "p1 = with_warmer ensurePrimaryLocked p"
  have 1: "warmer_run p p1" unfolding p1_def by (rule warmer_run_with) (rule ws_ensure)
  have 2: "warmer_run q (snd (validatePrimaryChannels x q))" for x q
    by (auto simp: validatePrimaryChannels_def Let_def split: option.split
        intro: ws_invalidate upkeep_step2 [OF ws_invalidate ws_invalidate])
  have "tryRefresh envs p = tryBuildPairs envs (snd (validatePrimaryChannels (pw_primary (cp_warmer p1)) p1))"
    by (simp add: tryRefresh_def Let_def p1_def split_def)
  with rtranclp_trans [OF rtranclp_trans [OF 1 2] tryBuildPairs_run] show ?thesis by simp
qed

lemma ready_in_pairs: "warmer_ok w \<Longrightarrow> ready w r \<Longrightarrow> r \<in> set (pw_pairs w)"
  using warmer_okD(2) [of w r] by simp

text \<open>A pair that some connection holds.\<close>

definition held :: "ref \<Rightarrow> chid \<times> chid \<Rightarrow> PairWarmer \<Rightarrow> bool" where
  "held r k w \<longleftrightarrow> warmer_ok w \<and> r \<in> set (pw_pairs w) \<and> 0 < pair_refs w r \<and> chan_key (pw_heap w r) = k"

lemma held_same:
  assumes "held r k w" "warmer_ok w'" "pw_pairs w' = pw_pairs w" "pair_refs w r \<le> pair_refs w' r"
    "chan_key (pw_heap w' r) = chan_key (pw_heap w r)"
  shows "held r k w'"
  using assms by (simp add: held_def)

lemma held_upkeep: "upkeep_step w w' \<Longrightarrow> held r k w \<Longrightarrow> held r k w'"
proof -
  assume s: "upkeep_step w w'" and h: "held r k w"
  then have ok: "warmer_ok w" and ok': "warmer_ok w'" by (auto simp: held_def intro: warmer_ok_upkeep)
  from h have hd: "r \<in> set (pw_pairs w)" "0 < pair_refs w r" by (auto simp: held_def)
  note stays = channel_loss.held_stays invalidation.held_stays discard.held_stays pruning.held_stays
    promotion.held_stays replacement.held_stays dedup.held_stays trimming.held_stays ensured.held_stays
  from s h ok' show ?thesis
  proof (cases rule: upkeep_step.cases)
    case (ws_add connID up down now)
    have "r \<noteq> pw_next w" using warmer_okD(2) [OF ok, of r] warmer_okD(5) [OF ok, of "pw_next w"] hd(1) by auto
    then show ?thesis using h ok' ws_add by (simp add: held_def addPair_simps)
  next
    case (ws_slot s)
    then show ?thesis
      using ok' by (intro held_same [OF h]) (auto simp: assignPairSlot_def Let_def upd_pair_def chan_key_def)
  next
    case (ws_queue x)
    then show ?thesis
      using ok' by (intro held_same [OF h]) (auto simp: queueHotPairNotify_def Let_def split: option.split)
  qed (use h ok ok' hd stays in \<open>auto simp: held_def HandlePrebindResult_def\<close>)
qed

interpretation holding: invariant_system "held r k" upkeep_step "held r k" for r k
  by unfold_locales (auto intro: held_upkeep)

lemma dedup_unique:
  assumes ok: "warmer_ok w"
  shows "distinct (ready_keys (deduplicatePairs w) (pw_pairs (deduplicatePairs w)))"
    and "set (ready_keys (deduplicatePairs w) (pw_pairs (deduplicatePairs w))) = set (ready_keys w (pw_pairs w))"
proof -
  obtain ks w' where l: "dedupLoop [] (pw_pairs w) w = (ks, w')" by fastforce
  note E = dedupLoop_effect [OF warmer_okD(1) [OF ok] l]
  have eq: "ready_keys (deduplicatePairs w) (pw_pairs (deduplicatePairs w)) = ready_keys w' ks"
    using l by (auto simp: deduplicatePairs_def ready_keys_def)
  show "distinct (ready_keys (deduplicatePairs w) (pw_pairs (deduplicatePairs w)))"
    unfolding eq using E by blast
  have "set (ready_keys w' ks) \<subseteq> set (ready_keys w (pw_pairs w))"
  proof
    fix k assume "k \<in> set (ready_keys w' ks)"
    then obtain r where r: "r \<in> set ks" "ready w' r" "k = chan_key (pw_heap w' r)"
      by (auto simp: ready_keys_def)
    have th: "pair_thinned (pw_heap w r) (pw_heap w' r)" using E by blast
    have "pw_heap w' r = pw_heap w r" by (rule pair_thinnedD(4) [OF th r(2)])
    moreover have "r \<in> set (pw_pairs w)" using E r(1) by simp
    ultimately have "r \<in> set (filter (ready w) (pw_pairs w))" "k = chan_key (pw_heap w r)"
      using r(2,3) by simp_all
    then show "k \<in> set (ready_keys w (pw_pairs w))" unfolding ready_keys_def by (metis image_eqI list.set_map)
  qed
  moreover have "set (ready_keys w (pw_pairs w)) \<subseteq> set [] \<union> set (ready_keys w' ks)" using E by blast
  ultimately show "set (ready_keys (deduplicatePairs w) (pw_pairs (deduplicatePairs w))) = set (ready_keys w (pw_pairs w))"
    unfolding eq by simp
qed

section \<open>Properties\<close>

text \<open>Property C29: in every state the pair manager can reach, the listed pairs are different and are
  exactly the pairs that are not closed, the primary is one of them, closed pairs have no holder and
  the result channel holds at most eight results.\<close>

theorem reachable_pairs_sound:
  assumes "warmer_start w" "warmer_step\<^sup>*\<^sup>* w w'"
  shows "distinct (pw_pairs w') \<and>
    (\<forall>r. r \<in> set (pw_pairs w') \<longleftrightarrow> pr_state (pw_heap w' r) \<noteq> PairStateClosed) \<and>
    (\<forall>r. pw_primary w' = Some r \<longrightarrow> r \<in> set (pw_pairs w')) \<and>
    (\<forall>r. pr_state (pw_heap w' r) = PairStateClosed \<longrightarrow> pr_refs (pw_heap w' r) \<le> 0) \<and>
    length (pw_prebindResultCh w') \<le> 8"
  using warming.reachable_inv [OF assms] unfolding warmer_ok_def prebindResultCap_def by blast

definition sample_warmer :: PairWarmer where
  "sample_warmer = snd (addPair ''prebind-a'' 1 2 0 (NewPairWarmer DefaultConfig))"

lemma sample_warmer_run: "warmer_step\<^sup>*\<^sup>* (NewPairWarmer DefaultConfig) sample_warmer"
  unfolding sample_warmer_def by (rule r_into_rtranclp, rule ws_upkeep, rule ws_add)

lemma sample_warmer_simps:
  "pw_pairs sample_warmer = [0]" "pw_primary sample_warmer = Some 0"
  "pw_heap sample_warmer 0 = \<lparr>pr_ID = '''', pr_PrebindID = ''prebind-a'', pr_UplinkChID = 1, pr_DownlinkChID = 2,
     pr_state = PairStateReady, pr_createdAt = 0, pr_refs = 0\<rparr>"
  by (simp_all add: sample_warmer_def addPair_def NewPairWarmer_def Let_def)

lemma sample_warmer_ok: "warmer_ok sample_warmer"
  using warming.reachable_inv [OF _ sample_warmer_run] by (auto simp: warmer_start_def)

theorem reachable_pairs_sound_witness:
  "distinct (pw_pairs sample_warmer) \<and>
    (\<forall>r. r \<in> set (pw_pairs sample_warmer) \<longleftrightarrow> pr_state (pw_heap sample_warmer r) \<noteq> PairStateClosed) \<and>
    length (pw_prebindResultCh sample_warmer) \<le> 8"
  using reachable_pairs_sound [OF _ sample_warmer_run] by (auto simp: warmer_start_def)

text \<open>Property C30: acquiring a pair returns nothing exactly if no listed pair is ready; otherwise it
  returns a listed ready pair, the primary if that is ready, and the only change is that the
  pair has one more holder.\<close>

theorem acquire_returns_ready:
  assumes "warmer_ok w"
  shows "case AcquirePrimary w of
      (None, w') \<Rightarrow> w' = w \<and> (\<forall>r\<in>set (pw_pairs w). pr_state (pw_heap w r) \<noteq> PairStateReady)
    | (Some r, w') \<Rightarrow> r \<in> set (pw_pairs w) \<and> pr_state (pw_heap w r) = PairStateReady \<and>
        (\<forall>q. pw_primary w = Some q \<and> pr_state (pw_heap w q) = PairStateReady \<longrightarrow> r = q) \<and>
        w' = w\<lparr>pw_heap := (pw_heap w)(r := (pw_heap w r)\<lparr>pr_refs := pr_refs (pw_heap w r) + 1\<rparr>)\<rparr>"
proof (cases rule: acquire_cases [of w])
  case (2 r)
  have "pr_refs_update (\<lambda>n. n + 1) pr = pr\<lparr>pr_refs := pr_refs pr + 1\<rparr>" for pr :: HotChannelPair by simp
  with 2 show ?thesis
    using ready_in_pairs [OF assms, of r] by (auto simp: upd_pair_def)
qed auto

theorem acquire_returns_ready_witness:
  "\<exists>w'. AcquirePrimary sample_warmer = (Some 0, w') \<and> pr_refs (pw_heap w' 0) = 1"
proof -
  have "(\<forall>r\<in>set (pw_pairs sample_warmer). pr_state (pw_heap sample_warmer r) \<noteq> PairStateReady) = False"
    by (simp add: sample_warmer_simps)
  with acquire_returns_ready [OF sample_warmer_ok] show ?thesis
    by (auto simp: sample_warmer_simps split: prod.splits option.splits)
qed

text \<open>Property C31: when a channel is lost no ready pair uses it any more; the pairs that used it are
  removed if nobody holds them and otherwise drain; all other pairs stay listed, unchanged and in
  order; and a ready primary is elected whenever a ready pair is left.\<close>

theorem invalidate_channel_complete:
  assumes "warmer_ok w"
  shows "let w' = PW_InvalidateChannel c w in
    (\<forall>r\<in>set (pw_pairs w'). pr_state (pw_heap w' r) = PairStateReady \<longrightarrow>
        pr_UplinkChID (pw_heap w' r) \<noteq> c \<and> pr_DownlinkChID (pw_heap w' r) \<noteq> c) \<and>
    pw_pairs w' = filter (\<lambda>r. \<not> uses_chan c (pw_heap w r) \<or> 0 < pr_refs (pw_heap w r)) (pw_pairs w) \<and>
    (\<forall>r. \<not> uses_chan c (pw_heap w r) \<longrightarrow> pw_heap w' r = pw_heap w r) \<and>
    (\<forall>r\<in>set (pw_pairs w'). uses_chan c (pw_heap w r) \<longrightarrow> pr_state (pw_heap w' r) = PairStateDraining) \<and>
    ((\<exists>r\<in>set (pw_pairs w'). pr_state (pw_heap w' r) = PairStateReady) \<longleftrightarrow>
       (\<exists>r\<in>set (pw_pairs w'). pw_primary w' = Some r \<and> pr_state (pw_heap w' r) = PairStateReady))"
proof -
  define w' where "w' = PW_InvalidateChannel c w"
  note E = PW_InvalidateChannel_effect [OF assms(1), of c, folded w'_def]
  have listed: "\<forall>r\<in>set (pw_pairs w). pair_state w r \<noteq> PairStateClosed" using warmer_okD(2) [OF assms(1)] by blast
  have pairs: "pw_pairs w' = filter (\<lambda>r. \<not> uses_chan c (pw_heap w r) \<or> 0 < pair_refs w r) (pw_pairs w)"
    unfolding E(2) using listed by (intro filter_cong) (auto simp: survives_def)
  have ok': "warmer_ok w'" unfolding w'_def by (rule channel_loss.keeps_ok [OF assms(1)])
  have prim: "(\<exists>r\<in>set (pw_pairs w'). ready w' r) \<longleftrightarrow> (\<exists>r\<in>set (pw_pairs w'). pw_primary w' = Some r \<and> ready w' r)"
    using E(3,4) warmer_okD(3) [OF ok'] by (cases "pw_primary w'") auto
  show ?thesis
    unfolding w'_def [symmetric] Let_def
    using listed by (intro conjI pairs prim) (auto simp: E(1) drained_def uses_chan_def pairs split: if_splits)
qed

theorem invalidate_channel_complete_witness:
  "pw_pairs (PW_InvalidateChannel 2 sample_warmer) = [] \<and> pw_pairs (PW_InvalidateChannel 3 sample_warmer) = [0]"
  using invalidate_channel_complete [OF sample_warmer_ok, of 2] invalidate_channel_complete [OF sample_warmer_ok, of 3]
  by (simp add: sample_warmer_simps uses_chan_def Let_def)

text \<open>Property C32: a periodic refresh keeps the manager's invariant, leaves the ready pairs on
  different channels, has a ready primary whenever a ready pair is left, and does not remove any
  pair that a connection holds, nor change that pair's channels; this holds for every outcome of the
  prebind races and sends inside it.\<close>

theorem periodic_refresh_sound:
  assumes "warmer_ok (cp_warmer p)"
  shows "let w = cp_warmer p; w' = cp_warmer (periodicRefresh cenv envs p) in
    warmer_ok w' \<and> distinct (ready_keys w' (pw_pairs w')) \<and>
    ((\<exists>r\<in>set (pw_pairs w'). pr_state (pw_heap w' r) = PairStateReady) \<longleftrightarrow>
       (\<exists>r\<in>set (pw_pairs w'). pw_primary w' = Some r \<and> pr_state (pw_heap w' r) = PairStateReady)) \<and>
    (\<forall>r\<in>set (pw_pairs w). 0 < pr_refs (pw_heap w r) \<longrightarrow>
       r \<in> set (pw_pairs w') \<and> chan_key (pw_heap w' r) = chan_key (pw_heap w r))"
proof -
  define w' where "w' = cp_warmer (periodicRefresh cenv envs p)"
  have run: "upkeep_step\<^sup>*\<^sup>* (cp_warmer p) w'" unfolding w'_def by (rule periodicRefresh_run)
  have "\<exists>q :: clientPool. upkeep_step\<^sup>*\<^sup>* (cp_warmer p) (cp_warmer q) \<and> w' = deduplicatePairs (cp_warmer q)"
    unfolding w'_def by (rule periodicRefresh_last)
  then obtain q :: clientPool
    where q: "upkeep_step\<^sup>*\<^sup>* (cp_warmer p) (cp_warmer q)" "w' = deduplicatePairs (cp_warmer q)" by blast
  have okq: "warmer_ok (cp_warmer q)" by (rule upkeep.run_inv [OF assms q(1)])
  have ok': "warmer_ok w'" by (rule upkeep.run_inv [OF assms run])
  have uniq: "distinct (ready_keys w' (pw_pairs w'))" unfolding q(2) by (rule dedup_unique(1) [OF okq])
  obtain ks u where l: "dedupLoop [] (pw_pairs (cp_warmer q)) (cp_warmer q) = (ks, u)" by fastforce
  then have e: "w' = ensurePrimaryLocked (u\<lparr>pw_pairs := ks\<rparr>)" unfolding q(2) by (simp add: deduplicatePairs_def)
  have prim: "(\<exists>r\<in>set (pw_pairs w'). ready w' r) \<longleftrightarrow> (\<exists>r\<in>set (pw_pairs w'). pw_primary w' = Some r \<and> ready w' r)"
    using ensurePrimary_ready [of "u\<lparr>pw_pairs := ks\<rparr>"] warmer_okD(3) [OF ok']
    unfolding e by (cases "pw_primary (ensurePrimaryLocked (u\<lparr>pw_pairs := ks\<rparr>))") auto
  have hold: "r \<in> set (pw_pairs w') \<and> chan_key (pw_heap w' r) = chan_key (pw_heap (cp_warmer p) r)"
    if "r \<in> set (pw_pairs (cp_warmer p))" "0 < pair_refs (cp_warmer p) r" for r
    using holding.run_inv [OF _ run, of r "chan_key (pw_heap (cp_warmer p) r)"] that assms
    by (simp add: held_def)
  show ?thesis
    unfolding Let_def w'_def [symmetric] using ok' uniq prim hold by blast
qed

definition no_send :: send_env where
  "no_send = \<lparr>se_wait = WaitAborted, se_full = FullTimeout\<rparr>"

definition sample_env :: build_env where
  "sample_env = \<lparr>be_uuid = ''b'', be_begin = (\<lambda>_. no_send), be_request = (\<lambda>_. no_send),
     be_arrivals = [\<lparr>pb_connID = ''prebind-b'', pb_uplinkChID = 2, pb_downlinkChID = 1, pb_err = False\<rparr>],
     be_cancelled = False, be_now = 1\<rparr>"

definition sample_pool :: clientPool where
  "sample_pool = (installSession 1 8 (installSession 0 7 (newClientPool DefaultConfig)))\<lparr>cp_warmer := sample_warmer\<rparr>"

theorem periodic_refresh_sound_witness:
  "let w' = cp_warmer (periodicRefresh sample_env (\<lambda>_. sample_env) sample_pool)
   in warmer_ok w' \<and> distinct (ready_keys w' (pw_pairs w'))"
proof -
  have "warmer_ok (cp_warmer sample_pool)" by (simp add: sample_pool_def sample_warmer_ok)
  from periodic_refresh_sound [OF this, of sample_env "\<lambda>_. sample_env"] show ?thesis
    unfolding Let_def by blast
qed

lemma filter_ready_removeAll:
  assumes "distinct xs" "r \<in> set xs" "ready w r"
  shows "length (filter (ready (removePair r (setState r PairStateClosed (setState r PairStateDraining w)))) (removeAll r xs))
     = length (filter (ready w) xs) - 1"
proof -
  have "filter (ready (removePair r (setState r PairStateClosed (setState r PairStateDraining w)))) (removeAll r xs)
      = remove1 r (filter (ready w) xs)"
    using assms(1) by (simp add: distinct_remove1_removeAll removeAll_filter_not_eq)
      (auto intro!: filter_cong)
  with assms(2,3) show ?thesis by (simp add: length_remove1)
qed

lemma readyCount_drained:
  assumes "distinct (pw_pairs w)" "r \<in> set (pw_pairs w)" "ready w r"
  shows "readyCount (setState r PairStateDraining w) = readyCount w - 1"
proof -
  have "filter (ready (setState r PairStateDraining w)) (pw_pairs w) = remove1 r (filter (ready w) (pw_pairs w))"
    using assms(1) by (simp add: distinct_remove1_removeAll removeAll_filter_not_eq) (auto intro!: filter_cong)
  moreover have "0 < length (filter (ready w) (pw_pairs w))" using assms(2,3) by (auto simp: filter_empty_conv)
  ultimately show ?thesis
    using assms(2,3) by (simp add: readyCount_def length_remove1 of_nat_diff Suc_le_eq del: length_greater_0_conv)
qed

lemma trimLoop_count:
  assumes "warmer_ok w" "0 < pw_PairCount w"
  shows "(readyCount (trimLoop w) \<le> pw_PairCount w \<or>
      (\<exists>r\<in>set (pw_pairs (trimLoop w)). ready w r \<and> pair_state (trimLoop w) r = PairStateDraining \<and> 0 < pair_refs w r)) \<and>
    min (readyCount w) (pw_PairCount w) \<le> readyCount (trimLoop w)"
  using assms
proof (induction w rule: trimLoop.induct)
  case (1 w)
  show ?case
  proof (cases "readyCount w \<le> pw_PairCount w")
    case True
    then show ?thesis by (simp add: trimLoop.simps [of w])
  next
    case over: False
    then have "filter (ready w) (pw_pairs w) \<noteq> []" using "1.prems"(2) by (auto simp: readyCount_def)
    then obtain r where r: "List.find (ready w) (rev (pw_pairs w)) = Some r"
      by (cases "List.find (ready w) (rev (pw_pairs w))") (auto simp: find_None_iff filter_empty_conv)
    then have rr: "r \<in> set (pw_pairs w)" "ready w r" by (auto dest: find_rev_ready)
    have d: "distinct (pw_pairs w)" by (rule warmer_okD(1) [OF "1.prems"(1)])
    let ?v = "removePair r (setState r PairStateClosed (setState r PairStateDraining w))"
    show ?thesis
    proof (cases "0 < pair_refs w r")
      case True
      then have "trimLoop w = setState r PairStateDraining w"
        using over r by (simp add: trimLoop.simps [of w] Let_def)
      then show ?thesis using True rr over readyCount_drained [OF d rr] by auto
    next
      case False
      have t: "thins w ?v" using False "1.prems"(1) rr by (intro thins_drain_close) auto
      have eq: "trimLoop w = trimLoop ?v" using over r False by (simp add: trimLoop.simps [of w] Let_def)
      have cnt: "readyCount ?v = readyCount w - 1"
        using filter_ready_removeAll [OF d rr] rr over "1.prems"(2)
        by (auto simp: readyCount_def of_nat_diff)
      have IH: "(readyCount (trimLoop ?v) \<le> pw_PairCount ?v \<or>
          (\<exists>r\<in>set (pw_pairs (trimLoop ?v)). ready ?v r \<and> pair_state (trimLoop ?v) r = PairStateDraining \<and> 0 < pair_refs ?v r)) \<and>
          min (readyCount ?v) (pw_PairCount ?v) \<le> readyCount (trimLoop ?v)"
        using False "1.prems"(2) warmer_ok_thins [OF "1.prems"(1) t] by (intro "1.IH" [OF over r refl]) auto
      have orig: "ready ?v x \<and> 0 < pair_refs ?v x \<Longrightarrow> ready w x \<and> 0 < pair_refs w x" for x
        by (auto split: if_splits)
      have "min (readyCount w) (pw_PairCount w) \<le> readyCount (trimLoop ?v)" using IH cnt over by simp
      moreover have "readyCount (trimLoop ?v) \<le> pw_PairCount w \<or>
          (\<exists>r\<in>set (pw_pairs (trimLoop ?v)). ready w r \<and> pair_state (trimLoop ?v) r = PairStateDraining \<and> 0 < pair_refs w r)"
        using IH [THEN conjunct1]
      proof
        assume "\<exists>r\<in>set (pw_pairs (trimLoop ?v)). ready ?v r \<and> pair_state (trimLoop ?v) r = PairStateDraining \<and> 0 < pair_refs ?v r"
        then show ?thesis using orig by blast
      qed simp
      ultimately show ?thesis unfolding eq by blast
    qed
  qed
qed

text \<open>Fact: aligning the number of pairs never goes below the wanted number, and ends with at
  most that many ready pairs unless it met a held pair at the tail, which then drains.\<close>

theorem trim_to_pair_count:
  assumes "warmer_ok w" "0 < pw_PairCount w"
  shows "let w' = trimExcessPairs w in
    min (readyCount w) (pw_PairCount w) \<le> readyCount w' \<and>
    (readyCount w' \<le> pw_PairCount w \<or>
     (\<exists>r\<in>set (pw_pairs w'). pr_state (pw_heap w r) = PairStateReady \<and>
        pr_state (pw_heap w' r) = PairStateDraining \<and> 0 < pr_refs (pw_heap w r)))"
  using trimLoop_count [OF assms] assms(2)
  by (auto simp: trimExcessPairs_def readyCount_def Let_def)

theorem trim_to_pair_count_witness:
  "let w = snd (addPair ''prebind-b'' 2 3 0 sample_warmer); w' = trimExcessPairs w in
    readyCount w = 2 \<and> 1 \<le> readyCount w'"
proof -
  have ok: "warmer_ok (snd (addPair ''prebind-b'' 2 3 0 sample_warmer))" by (rule warmer_ok_add [OF sample_warmer_ok])
  have "pw_PairCount (snd (addPair ''prebind-b'' 2 3 0 sample_warmer)) = 1"
    "readyCount (snd (addPair ''prebind-b'' 2 3 0 sample_warmer)) = 2"
    by (simp_all add: addPair_def sample_warmer_def NewPairWarmer_def DefaultConfig_def Let_def readyCount_def)
  with trim_to_pair_count [OF ok] show ?thesis by (simp add: Let_def)
qed

text \<open>Fact: pruning idle draining pairs can leave one behind: the loop ranges over the array
  that the removals shift, so of three idle draining pairs in a row the middle one survives.\<close>

theorem prune_skips_neighbour:
  assumes "pw_pairs w = [a, b, c]" "distinct [a, b, c]"
    "\<forall>r\<in>{a, b, c}. pr_state (pw_heap w r) = PairStateDraining \<and> pr_refs (pw_heap w r) \<le> 0"
  shows "pw_pairs (pruneIdleDrainingPairs w) = [b]"
proof -
  have 1: "removeInArray a 0 ([a, b, c], Suc (Suc (Suc 0))) = ([b, c, c], Suc (Suc 0))"
    using assms(2) by (simp add: removeInArray.simps [of a] shiftOut_def)
  have 2: "removeInArray c 0 ([b, c, c], Suc (Suc 0)) = ([b, c, c], Suc 0)"
    using assms(2) by (simp add: removeInArray.simps [of c] shiftOut_def)
  show ?thesis
    using assms by (simp add: pruneIdleDrainingPairs_def Let_def 1 2 upt_rec)
qed

definition sample_idle :: PairWarmer where
  "sample_idle = (NewPairWarmer DefaultConfig)\<lparr>pw_pairs := [0, 1, 2],
     pw_heap := (\<lambda>_. blank_pair\<lparr>pr_state := PairStateDraining\<rparr>)\<rparr>"

theorem prune_skips_neighbour_witness: "pw_pairs (pruneIdleDrainingPairs sample_idle) = [1]"
  by (rule prune_skips_neighbour) (auto simp: sample_idle_def blank_pair_def)

text \<open>Fact: the slot given to a pair is not used by any other listed pair, or it is the overflow
  label, which happens exactly if all eight slots are taken by other pairs.\<close>

theorem slot_assignment:
  "let i = pr_ID (pw_heap (assignPairSlot r w) r);
       others = {pr_ID (pw_heap w p) | p. p \<in> set (pw_pairs w) \<and> p \<noteq> r}
   in if \<forall>k\<in>{1..<9}. slotID k \<in> others then i = ''ff'' else i \<notin> others"
proof -
  let ?used = "map (\<lambda>p. pr_ID (pw_heap w p)) (filter (\<lambda>p. p \<noteq> r \<and> pr_ID (pw_heap w p) \<noteq> []) (pw_pairs w))"
  let ?others = "{pr_ID (pw_heap w p) | p. p \<in> set (pw_pairs w) \<and> p \<noteq> r}"
  have mem: "slotID k \<in> set ?used \<longleftrightarrow> slotID k \<in> ?others" for k
    by (auto simp: slotID_def)
  show ?thesis
  proof (cases "List.find (\<lambda>k. slotID k \<notin> set ?used) [1..<9]")
    case None
    then have "\<forall>k\<in>{1..<9}. slotID k \<in> ?others" unfolding find_None_iff using mem by auto
    with None show ?thesis by (simp add: assignPairSlot_def upd_pair_def Let_def)
  next
    case (Some k)
    then have "slotID k \<notin> ?others" "k \<in> {1..<9}" unfolding find_Some_iff mem by (auto simp: less_Suc_eq_0_disj)
    with Some show ?thesis by (auto simp: assignPairSlot_def upd_pair_def Let_def)
  qed
qed

end
