(* ===== verification/Client_Reverse.thy ===== *)
theory Client_Reverse
  imports Pair_Warmer
begin

text \<open>
  The client's reverse mode (\<^verbatim>\<open>src/reverse.go\<close>): connections that the server asks the client to
  dial, and the listeners the client asks the server to open.

  The dial of a target blocks, so \<^verbatim>\<open>dialReverseTarget\<close> is split at the points where it waits: the
  dial that \<open>handleReverseTCPConnect\<close> starts, its outcome (\<open>dialReverseTarget\<close>) and one round of
  its read loop (\<open>reverseReadPump\<close>). The resolver, the outcomes of socket operations and fresh
  identifiers are arguments; \<open>env\<close> gives the environment of a send on each channel.
\<close>

section \<open>The table of reverse connections\<close>

definition upd_rvc :: "ref \<Rightarrow> (reverseConn \<Rightarrow> reverseConn) \<Rightarrow> clientPool \<Rightarrow> clientPool" where
  "upd_rvc r f p = p\<lparr>cp_revHeap := (cp_revHeap p)(r := f (cp_revHeap p r))\<rparr>"

definition setConn :: "ref \<Rightarrow> nat \<Rightarrow> clientPool \<Rightarrow> clientPool" where
  "setConn r c p = upd_rvc r (rv_conn_update (\<lambda>_. Some c)) p"

definition getConn :: "clientPool \<Rightarrow> ref \<Rightarrow> nat option" where
  "getConn p r = rv_conn (cp_revHeap p r)"

definition hasReverseConn :: "clientPool \<Rightarrow> string \<Rightarrow> bool" where
  "hasReverseConn p connID \<longleftrightarrow> dict_get (cp_reverseConns p) connID \<noteq> None"

definition getReverseConn_client :: "clientPool \<Rightarrow> string \<Rightarrow> ref option" where
  "getReverseConn_client p connID = dict_get (cp_reverseConns p) connID"

definition addReverseConn_client ::
  "string \<Rightarrow> string \<Rightarrow> string \<Rightarrow> chid \<Rightarrow> clientPool \<Rightarrow> ref option \<times> clientPool" where
  "addReverseConn_client connID target resolved recvCh p =
     (if dict_get (cp_reverseConns p) connID \<noteq> None then (None, p)
      else let r = cp_nextRev p;
               rc = blank_rev\<lparr>rv_id := connID, rv_target := target, rv_resolved := resolved,
                      rv_recvCh := recvCh\<rparr>
           in (Some r, p\<lparr>cp_nextRev := r + 1, cp_revHeap := (cp_revHeap p)(r := rc),
                         cp_reverseConns := dict_set (cp_reverseConns p) connID r\<rparr>))"

definition removeReverseConn_client :: "string \<Rightarrow> clientPool \<Rightarrow> clientPool" where
  "removeReverseConn_client connID p = p\<lparr>cp_reverseConns := dict_del (cp_reverseConns p) connID\<rparr>"

text \<open>The body that \<^verbatim>\<open>closeOnce\<close> guards.\<close>

definition closeOnce_do :: "ref \<Rightarrow> clientPool \<Rightarrow> clientPool" where
  "closeOnce_do r p =
     (if rv_closed (cp_revHeap p r) then p
      else let p = upd_rvc r (rv_closed_update (\<lambda>_. True)) p
           in case getConn p r of None \<Rightarrow> p | Some c \<Rightarrow> cemit (ConnClose c) p)"

definition reverseCleanup_entry :: "chid \<Rightarrow> clientPool \<Rightarrow> string \<times> ref \<Rightarrow> clientPool" where
  "reverseCleanup_entry chID p e =
     (case e of (cid, r) \<Rightarrow>
        if rv_recvCh (cp_revHeap p r) = chID \<or> rv_sendCh (cp_revHeap p r) = chID
        then removeReverseConn_client cid (closeOnce_do r p) else p)"

definition reverseCleanupChannel :: "chid \<Rightarrow> clientPool \<Rightarrow> clientPool" where
  "reverseCleanupChannel chID p = foldl (reverseCleanup_entry chID) p (cp_reverseConns p)"

section \<open>Dialling for the server\<close>

definition select_uplink_frame :: "string \<Rightarrow> chid \<Rightarrow> bytes" where
  "select_uplink_frame connID chID = EncodeMessage MsgSelectUplink connID (PutUint32 (word_of_int chID)) []"

text \<open>The lookup of the hot path: the ready pair that the connection ID names, if the request came on
  the pair's downlink.\<close>

definition hotReversePair :: "chid \<Rightarrow> string \<Rightarrow> clientPool \<Rightarrow> ref option" where
  "hotReversePair chID connID p =
     (if \<not> cp_hasWarmer p then None
      else case SplitHotPairConnID connID of
             None \<Rightarrow> None
           | Some (key, _) \<Rightarrow>
               (case LookupReady key (cp_warmer p) of
                  None \<Rightarrow> None
                | Some h \<Rightarrow> if chID = pr_DownlinkChID (pw_heap (cp_warmer p) h) then Some h else None))"

definition handleReverseTCPConnect ::
  "(string \<Rightarrow> IPStrategy \<Rightarrow> string) \<Rightarrow> (chid \<Rightarrow> send_env) \<Rightarrow> chid \<Rightarrow> string \<Rightarrow> bytes \<Rightarrow> clientPool \<Rightarrow> clientPool" where
  "handleReverseTCPConnect resolve env chID connID meta p =
     (if \<not> cf_EnableReverse (cp_config p) then p
      else if length meta < 1 then p
      else
        let target = string_of_bytes (drop 1 meta);
            strategy = cf_IPStrategy (cp_config p);
            resolved = (if strategy \<noteq> IPStrategyDefault then resolve target strategy else target);
            hot = hotReversePair chID connID p;
            (added, p) = (case hot of None \<Rightarrow> (None, p)
                                    | Some _ \<Rightarrow> addReverseConn_client connID target resolved chID p)
        in case (hot, added) of
             (Some h, Some r) \<Rightarrow>
               cspawn (DialReverse r)
                 (upd_rvc r (rv_sendCh_update (\<lambda>_. wrap32 (pr_UplinkChID (pw_heap (cp_warmer p) h)))) p)
           | _ \<Rightarrow>
               (case addReverseConn_client connID target resolved chID p of
                  (None, p) \<Rightarrow> p
                | (Some r, p) \<Rightarrow>
                    cspawn (DialReverse r)
                      (snd (broadcastWrite_client env BinaryMessage (select_uplink_frame connID chID) p))))"

text \<open>A message of a reverse connection: on its send channel once that is known, else on every
  channel.\<close>

definition reverseSend :: "(chid \<Rightarrow> send_env) \<Rightarrow> ref \<Rightarrow> bytes \<Rightarrow> clientPool \<Rightarrow> clientPool" where
  "reverseSend env r msg p =
     (let sendCh = rv_sendCh (cp_revHeap p r)
      in if sendCh > 0 then snd (asyncWriteDirect (env sendCh) sendCh BinaryMessage msg p)
         else snd (broadcastWrite_client env BinaryMessage msg p))"

definition sendReverseClose :: "(chid \<Rightarrow> send_env) \<Rightarrow> ref \<Rightarrow> string \<Rightarrow> clientPool \<Rightarrow> clientPool" where
  "sendReverseClose env r connID p =
     removeReverseConn_client connID
       (reverseSend env r (EncodeMessage MsgTCPClose connID [] []) (closeOnce_do r p))"

definition status_frame :: "string \<Rightarrow> ConnStatus \<Rightarrow> bytes" where
  "status_frame connID st = EncodeMessage MsgConnStatus connID [st] []"

text \<open>The end of the dial; \<open>result\<close> is the connection, or \<^term>\<open>None\<close> when the dial failed.\<close>

definition dialReverseTarget ::
  "(chid \<Rightarrow> send_env) \<Rightarrow> nat option \<Rightarrow> ref \<Rightarrow> string \<Rightarrow> clientPool \<Rightarrow> clientPool" where
  "dialReverseTarget env result r connID p =
     (case result of
        None \<Rightarrow>
          removeReverseConn_client connID
            (snd (broadcastWrite_client env BinaryMessage (status_frame connID StatusERR) p))
      | Some c \<Rightarrow>
          snd (broadcastWrite_client env BinaryMessage (status_frame connID StatusOK) (setConn r c p)))"

text \<open>One round of the read loop: the bytes read, or \<^term>\<open>None\<close> for an error, which ends the loop.\<close>

definition reverseReadPump ::
  "(chid \<Rightarrow> send_env) \<Rightarrow> bytes option \<Rightarrow> ref \<Rightarrow> string \<Rightarrow> clientPool \<Rightarrow> clientPool" where
  "reverseReadPump env read r connID p =
     (case read of
        None \<Rightarrow> sendReverseClose env r connID p
      | Some data \<Rightarrow> reverseSend env r (EncodeMessage MsgTCPData connID [] data) p)"

section \<open>Messages for a reverse connection\<close>

definition handleReverseServerMsg ::
  "bool \<Rightarrow> (chid \<Rightarrow> send_env) \<Rightarrow> chid \<Rightarrow> MessageType \<Rightarrow> string \<Rightarrow> bytes \<Rightarrow> bytes \<Rightarrow> clientPool \<Rightarrow> clientPool" where
  "handleReverseServerMsg write_ok env chID mtype connID meta payload p =
     (case getReverseConn_client p connID of
        None \<Rightarrow> p
      | Some r \<Rightarrow>
          if mtype = MsgSelectDownlink then
            (if rv_recvCh (cp_revHeap p r) \<noteq> chID then p
             else if length meta \<ge> 4 then
               let newSend = uint (Uint32 (take 4 meta))
               in if rv_sendCh (cp_revHeap p r) \<noteq> 0 then p
                  else upd_rvc r (rv_sendCh_update (\<lambda>_. wrap32 newSend)) p
             else p)
          else if mtype = MsgTCPData then
            (if rv_recvCh (cp_revHeap p r) \<noteq> chID then p
             else case getConn p r of
                    None \<Rightarrow> p
                  | Some c \<Rightarrow>
                      if write_ok then cemit (ConnWrite c payload) p
                      else sendReverseClose env r connID p)
          else if mtype = MsgTCPClose then sendReverseClose env r connID p
          else p)"

section \<open>Listener registration\<close>

definition getOrCreateListenerID :: "string \<Rightarrow> string \<Rightarrow> clientPool \<Rightarrow> string \<times> clientPool" where
  "getOrCreateListenerID uuid spec p =
     (case dict_get (cp_reverseListenerMap p) spec of
        Some lid \<Rightarrow> (lid, p)
      | None \<Rightarrow>
          let lid = uuid;
              p = p\<lparr>cp_reverseListenerMap := dict_set (cp_reverseListenerMap p) spec lid\<rparr>
          in (lid, if dict_get (cp_reverseListenerState p) lid \<noteq> None then p
                  else p\<lparr>cp_reverseListenerState := dict_set (cp_reverseListenerState p) lid
                           \<lparr>ls_spec = spec, ls_listenerID = lid, ls_ok = False, ls_reason = '''',
                            ls_responded = False\<rparr>\<rparr>))"

definition dedupSpecs :: "string list \<Rightarrow> string list" where
  "dedupSpecs ss = foldl (\<lambda>specs s. if s \<in> set specs then specs else specs @ [s]) [] ss"

definition registerSpec ::
  "(string \<Rightarrow> string) \<Rightarrow> (string \<Rightarrow> send_env) \<Rightarrow> chid \<Rightarrow> clientPool \<Rightarrow> string \<Rightarrow> clientPool" where
  "registerSpec uuid env chID p spec =
     (let (listenerID, p) = getOrCreateListenerID (uuid spec) spec p
      in snd (asyncWriteDirect (env spec) chID BinaryMessage
                (EncodeMessage MsgReverseListen listenerID (bytes_of_string spec) []) p))"

definition reverseOnChannelReady ::
  "instant \<Rightarrow> (string \<Rightarrow> string) \<Rightarrow> (string \<Rightarrow> send_env) \<Rightarrow> chid \<Rightarrow> clientPool \<Rightarrow> clientPool" where
  "reverseOnChannelReady now uuid env chID p =
     (if \<not> cf_EnableReverse (cp_config p) then p
      else if cf_ReverseListeners (cp_config p) = [] then p
      else
        let p = (if cp_reverseRegOnceDone p then p
                 else let timeout = 2 * cf_ConnectTimeout (cp_config p);
                          timeout = (if timeout < 10 * time_Second then 10 * time_Second else timeout)
                      in cspawn (CheckReverseReg (now + timeout)) (p\<lparr>cp_reverseRegOnceDone := True\<rparr>))
        in foldl (registerSpec uuid env chID) p (dedupSpecs (cf_ReverseListeners (cp_config p))))"

definition handleReverseListenResult :: "string \<Rightarrow> bytes \<Rightarrow> clientPool \<Rightarrow> clientPool" where
  "handleReverseListenResult connID meta p =
     (case meta of
        [] \<Rightarrow> p
      | status # rest \<Rightarrow>
          (case dict_get (cp_reverseListenerState p) connID of
             None \<Rightarrow> p
           | Some st \<Rightarrow>
               p\<lparr>cp_reverseListenerState := dict_set (cp_reverseListenerState p) connID
                   (st\<lparr>ls_ok := (status = StatusOK), ls_reason := string_of_bytes rest,
                       ls_responded := True\<rparr>)\<rparr>))"

text \<open>The UTF-8 bytes of the messages of the registration check.\<close>

definition msgNoAnswer :: string where
  "msgNoAnswer = string_of_bytes
     [0xE5, 0x8F, 0x8D, 0xE5, 0x90, 0x91, 0xE7, 0x9B, 0x91, 0xE5, 0x90, 0xAC, 0xE5, 0x85, 0xA8, 0xE9, 0x83, 0xA8,
      0xE6, 0x9C, 0xAA, 0xE5, 0x93, 0x8D, 0xE5, 0xBA, 0x94]"

definition msgAllFailed :: string where
  "msgAllFailed = string_of_bytes
     [0xE5, 0x8F, 0x8D, 0xE5, 0x90, 0x91, 0xE7, 0x9B, 0x91, 0xE5, 0x90, 0xAC, 0xE5, 0x85, 0xA8, 0xE9, 0x83, 0xA8,
      0xE6, 0xB3, 0xA8, 0xE5, 0x86, 0x8C, 0xE5, 0xA4, 0xB1, 0xE8, 0xB4, 0xA5]"

definition msgSilent :: string where
  "msgSilent = string_of_bytes
     [0x3A, 0x20, 0xE6, 0x97, 0xA0, 0xE5, 0x93, 0x8D, 0xE5, 0xBA, 0x94, 0xEF, 0xBC, 0x88, 0xE6, 0x9C,
      0x8D, 0xE5, 0x8A, 0xA1, 0xE7, 0xAB, 0xAF, 0xE5, 0x8F, 0xAF, 0xE8, 0x83, 0xBD, 0xE4, 0xB8, 0x8D,
      0xE6, 0x94, 0xAF, 0xE6, 0x8C, 0x81, 0xE5, 0x8F, 0x8D, 0xE5, 0x90, 0x91, 0xE6, 0xA8, 0xA1, 0xE5,
      0xBC, 0x8F, 0xE6, 0x88, 0x96, 0xE7, 0x89, 0x88, 0xE6, 0x9C, 0xAC, 0xE8, 0xBF, 0x87, 0xE6, 0x97,
      0xA7, 0xEF, 0xBC, 0x89]"

definition msgNoReason :: string where
  "msgNoReason = string_of_bytes
     [0x3A, 0x20, 0xE6, 0x9C, 0x8D, 0xE5, 0x8A, 0xA1, 0xE7, 0xAB, 0xAF, 0xE6, 0x9C, 0xAA, 0xE7, 0xBB,
      0x99, 0xE5, 0x87, 0xBA, 0xE5, 0xA4, 0xB1, 0xE8, 0xB4, 0xA5, 0xE5, 0x8E, 0x9F, 0xE5, 0x9B, 0xA0]"

definition listenerFailure :: "reverseListenerState \<Rightarrow> string" where
  "listenerFailure st =
     (if ls_reason st \<noteq> '''' then ls_spec st @ '': '' @ ls_reason st
      else if \<not> ls_responded st then ls_spec st @ msgSilent
      else ls_spec st @ msgNoReason)"

fun joinStrings :: "string \<Rightarrow> string list \<Rightarrow> string" where
  "joinStrings sep [] = ''''"
| "joinStrings sep [s] = s"
| "joinStrings sep (s # t # ss) = s @ sep @ joinStrings sep (t # ss)"

text \<open>Without a callback the message is only logged.\<close>

definition checkReverseRegFatal :: "clientPool \<Rightarrow> clientPool" where
  "checkReverseRegFatal p =
     (let states = map snd (cp_reverseListenerState p);
          report = (\<lambda>msg. if cf_OnReverseError (cp_config p) then cemit (ReverseError msg) p else p)
      in if \<exists>st\<in>set states. ls_ok st then p
         else if states = [] then report msgNoAnswer
         else let failures = map listenerFailure states
              in report (if failures \<noteq> [] then msgAllFailed @ '': '' @ joinStrings ''; '' failures
                         else msgAllFailed))"

section \<open>What the reverse operations leave alone\<close>

lemma upd_rvc_fields [simp]:
  "cp_revHeap (upd_rvc r f p) = (cp_revHeap p)(r := f (cp_revHeap p r))"
  "cp_reverseConns (upd_rvc r f p) = cp_reverseConns p" "cp_nextRev (upd_rvc r f p) = cp_nextRev p"
  "cp_effects (upd_rvc r f p) = cp_effects p" "cp_conns (upd_rvc r f p) = cp_conns p"
  "cp_warmer (upd_rvc r f p) = cp_warmer p" "cp_tasks (upd_rvc r f p) = cp_tasks p"
  "cp_config (upd_rvc r f p) = cp_config p" "cp_wsConns (upd_rvc r f p) = cp_wsConns p"
  by (simp_all add: upd_rvc_def)

lemma removeReverseConn_client_fields [simp]:
  "cp_reverseConns (removeReverseConn_client c p) = dict_del (cp_reverseConns p) c"
  "cp_revHeap (removeReverseConn_client c p) = cp_revHeap p"
  "cp_nextRev (removeReverseConn_client c p) = cp_nextRev p"
  "cp_effects (removeReverseConn_client c p) = cp_effects p"
  "cp_conns (removeReverseConn_client c p) = cp_conns p"
  "cp_warmer (removeReverseConn_client c p) = cp_warmer p"
  "cp_config (removeReverseConn_client c p) = cp_config p"
  "cp_wsConns (removeReverseConn_client c p) = cp_wsConns p"
  by (simp_all add: removeReverseConn_client_def)

lemma cspawn_fields [simp]:
  "cp_reverseConns (cspawn t p) = cp_reverseConns p" "cp_revHeap (cspawn t p) = cp_revHeap p"
  "cp_nextRev (cspawn t p) = cp_nextRev p" "cp_effects (cspawn t p) = cp_effects p"
  "cp_conns (cspawn t p) = cp_conns p" "cp_warmer (cspawn t p) = cp_warmer p"
  "cp_config (cspawn t p) = cp_config p" "cp_wsConns (cspawn t p) = cp_wsConns p"
  "cp_reverseListenerMap (cspawn t p) = cp_reverseListenerMap p"
  "cp_reverseListenerState (cspawn t p) = cp_reverseListenerState p"
  by (simp_all add: cspawn_def)

lemma cemit_rev_fields [simp]:
  "cp_reverseConns (cemit e p) = cp_reverseConns p" "cp_revHeap (cemit e p) = cp_revHeap p"
  "cp_nextRev (cemit e p) = cp_nextRev p" "cp_effects (cemit e p) = cp_effects p @ [e]"
  by (simp_all add: cemit_def)

lemma closeOnce_do_fields [simp]:
  "cp_reverseConns (closeOnce_do r p) = cp_reverseConns p" "cp_nextRev (closeOnce_do r p) = cp_nextRev p"
  "cp_conns (closeOnce_do r p) = cp_conns p" "cp_warmer (closeOnce_do r p) = cp_warmer p"
  "cp_config (closeOnce_do r p) = cp_config p" "cp_wsConns (closeOnce_do r p) = cp_wsConns p"
  "cp_revHeap (closeOnce_do r p) = (cp_revHeap p)(r := (cp_revHeap p r)\<lparr>rv_closed := True\<rparr>)"
  by (auto simp: closeOnce_do_def cemit_def Let_def fun_upd_idem_iff split: option.split)

lemma closeOnce_do_effects:
  "cp_effects (closeOnce_do r p) = cp_effects p @
     (if rv_closed (cp_revHeap p r) then []
      else case rv_conn (cp_revHeap p r) of None \<Rightarrow> [] | Some c \<Rightarrow> [ConnClose c])"
  by (auto simp: closeOnce_do_def getConn_def cemit_def Let_def split: option.split)

lemma sent_view_reverseSend: "sent_view (reverseSend env r msg p) = sent_view p"
  by (simp add: reverseSend_def sent_view_asyncWriteDirect frame.I_broadcast Let_def)

lemmas reverseSend_fields [simp] = sent_view_fields [OF sent_view_reverseSend]

text \<open>
  The part of the pool that belongs to the forward direction. A property that depends on this part
  only, and that sending keeps, is kept by every operation of the reverse mode.
\<close>

definition fwd_view :: "clientPool \<Rightarrow> clientPool" where
  "fwd_view p = p\<lparr>cp_reverseConns := [], cp_revHeap := (\<lambda>_. blank_rev), cp_nextRev := 0, cp_reverseListenerMap := [],
     cp_reverseListenerState := [], cp_reverseRegOnceDone := False, cp_tasks := [], cp_effects := []\<rparr>"

lemma fwd_view_simps [simp]:
  "fwd_view (upd_rvc r f p) = fwd_view p" "fwd_view (removeReverseConn_client c p) = fwd_view p"
  "fwd_view (cspawn t p) = fwd_view p" "fwd_view (cemit e p) = fwd_view p" "fwd_view (setConn r n p) = fwd_view p"
  "fwd_view (snd (addReverseConn_client a b d ch p)) = fwd_view p"
  "fwd_view (p\<lparr>cp_reverseRegOnceDone := x\<rparr>) = fwd_view p"
  "fwd_view (snd (getOrCreateListenerID uuid spec p)) = fwd_view p"
  by (simp_all add: fwd_view_def upd_rvc_def removeReverseConn_client_def cspawn_def cemit_def setConn_def
      addReverseConn_client_def getOrCreateListenerID_def Let_def split: option.split)

lemma fwd_view_closeOnce [simp]: "fwd_view (closeOnce_do r p) = fwd_view p"
  by (simp add: closeOnce_do_def Let_def split: option.split)

lemma fwd_view_cleanup [simp]: "fwd_view (reverseCleanupChannel chID p) = fwd_view p"
proof -
  have "fwd_view (foldl (reverseCleanup_entry chID) p es) = fwd_view p" for es
    by (induction es arbitrary: p) (auto simp: reverseCleanup_entry_def split: prod.split)
  then show ?thesis by (simp add: reverseCleanupChannel_def)
qed

lemma fwd_view_listen [simp]:
  "fwd_view (handleReverseListenResult c meta p) = fwd_view p" "fwd_view (checkReverseRegFatal p) = fwd_view p"
  by (simp_all add: handleReverseListenResult_def checkReverseRegFatal_def Let_def fwd_view_def cemit_def
      split: list.split option.split)

lemma fwd_view_fields:
  assumes "fwd_view q = fwd_view p"
  shows "cp_conns q = cp_conns p" "cp_warmer q = cp_warmer p" "cp_hasWarmer q = cp_hasWarmer p"
    "cp_queueHeap q = cp_queueHeap p" "cp_nextQueue q = cp_nextQueue p" "cp_writeQueues q = cp_writeQueues p"
    "cp_globalQueueBytes q = cp_globalQueueBytes p" "cp_globalQueueLimit q = cp_globalQueueLimit p"
    "cp_wsConns q = cp_wsConns p" "cp_udpHeap q = cp_udpHeap p" "cp_config q = cp_config p"
  using assms by (cases p; cases q; simp add: fwd_view_def)+

locale reverse_frame = client_transport +
  assumes I_view: "I p \<Longrightarrow> fwd_view q = fwd_view p \<Longrightarrow> I q"
begin

lemma I_reverseSend: "I p \<Longrightarrow> I (reverseSend env r msg p)"
  by (simp add: reverseSend_def Let_def I_send I_broadcast)

lemma I_sendReverseClose: "I p \<Longrightarrow> I (sendReverseClose env r c p)"
  unfolding sendReverseClose_def
  by (rule I_view [OF I_reverseSend [OF I_view]]) simp_all

lemma I_connect: "I p \<Longrightarrow> I (handleReverseTCPConnect resolve env chID connID meta p)"
proof -
  assume p: "I p"
  have add: "I (snd (addReverseConn_client a b d ch q))" if "I q" for a b d ch q using I_view [OF that] by simp
  have plain: "I (cspawn t q)" "I (upd_rvc r f q)" if "I q" for t r f q using I_view [OF that] by simp_all
  have fst_add: "I q'" if "I q" "addReverseConn_client a b d ch q = (x, q')" for a b d ch q q' x
    using add [OF that(1), of a b d ch] that(2) by simp
  show ?thesis
    using p by (auto simp: handleReverseTCPConnect_def Let_def intro!: plain I_broadcast
        dest: fst_add split: option.split prod.split)
qed

lemma I_dial: "I p \<Longrightarrow> I (dialReverseTarget env result r c p)"
proof -
  assume p: "I p"
  have "I (setConn r n p)" for n using I_view [OF p] by simp
  moreover have "I q \<Longrightarrow> I (removeReverseConn_client c q)" for q using I_view [of q] by simp
  ultimately show ?thesis using p by (simp add: dialReverseTarget_def I_broadcast split: option.split)
qed

lemma I_pump: "I p \<Longrightarrow> I (reverseReadPump env read r c p)"
  by (simp add: reverseReadPump_def I_sendReverseClose I_reverseSend split: option.split)

lemma I_message: "I p \<Longrightarrow> I (handleReverseServerMsg ok env chID mt c meta payload p)"
proof -
  assume p: "I p"
  then have "I (upd_rvc r f p)" "I (cemit e p)" for r f e using I_view [OF p] by simp_all
  with p show ?thesis
    by (simp add: handleReverseServerMsg_def Let_def I_sendReverseClose split: option.split)
qed

lemma I_cleanup: "I p \<Longrightarrow> I (reverseCleanupChannel chID p)"
  by (erule I_view) simp

lemma I_listen_result: "I p \<Longrightarrow> I (handleReverseListenResult c meta p)"
  by (erule I_view) simp

lemma I_check: "I p \<Longrightarrow> I (checkReverseRegFatal p)"
  by (erule I_view) simp

lemma I_registerSpec: "I p \<Longrightarrow> I (registerSpec uuid env chID p spec)"
proof -
  assume p: "I p"
  have "I (snd (getOrCreateListenerID (uuid spec) spec p))" using I_view [OF p] by simp
  then show ?thesis by (simp add: registerSpec_def split_def Let_def I_send)
qed

lemma I_register: "I p \<Longrightarrow> I (foldl (registerSpec uuid env chID) p ss)"
  by (induction ss arbitrary: p) (simp_all add: I_registerSpec)

lemma I_channel_ready: "I p \<Longrightarrow> I (reverseOnChannelReady now uuid env chID p)"
proof -
  assume p: "I p"
  have "I (cspawn t (p\<lparr>cp_reverseRegOnceDone := True\<rparr>))" for t using I_view [OF p] by simp
  with p show ?thesis by (simp add: reverseOnChannelReady_def Let_def I_register)
qed

end

lemma cq_ok_fwd_view: "cq_ok p \<Longrightarrow> fwd_view q = fwd_view p \<Longrightarrow> cq_ok q"
  by (erule cq_ok_cong) (erule fwd_view_fields)+

interpretation rev_budget: reverse_frame cq_ok
  by unfold_locales (rule cq_ok_fwd_view)

lemma cq_ok_log [inv_intros]: "cq_ok p \<Longrightarrow> cq_ok (cspawn t p)" "cq_ok p \<Longrightarrow> cq_ok (cemit e p)"
  by (erule cq_ok_fwd_view, simp)+

section \<open>Invariant of the table\<close>

definition rv_ok :: "clientPool \<Rightarrow> bool" where
  "rv_ok p \<longleftrightarrow> dict_ok (cp_reverseConns p) \<and>
     (\<forall>c r. dict_get (cp_reverseConns p) c = Some r \<longrightarrow> r < cp_nextRev p \<and> rv_id (cp_revHeap p r) = c)"

lemma rv_okD:
  "rv_ok p \<Longrightarrow> dict_ok (cp_reverseConns p)"
  "rv_ok p \<Longrightarrow> dict_get (cp_reverseConns p) c = Some r \<Longrightarrow> r < cp_nextRev p"
  "rv_ok p \<Longrightarrow> dict_get (cp_reverseConns p) c = Some r \<Longrightarrow> rv_id (cp_revHeap p r) = c"
  by (simp_all add: rv_ok_def)

text \<open>
  How the operations may change what is known of existing connections: identity and receive channel
  stay, the send channel is chosen at most once, the close is not undone.
\<close>

definition rev_kept :: "reverseConn \<Rightarrow> reverseConn \<Rightarrow> bool" where
  "rev_kept a b \<longleftrightarrow> rv_id b = rv_id a \<and> rv_recvCh b = rv_recvCh a \<and> rv_target b = rv_target a \<and>
     (rv_sendCh a \<noteq> 0 \<longrightarrow> rv_sendCh b = rv_sendCh a) \<and> (rv_closed a \<longrightarrow> rv_closed b)"

definition rev_evolves :: "clientPool \<Rightarrow> clientPool \<Rightarrow> bool" where
  "rev_evolves p q \<longleftrightarrow> cp_nextRev p \<le> cp_nextRev q \<and>
     (\<forall>r<cp_nextRev p. rev_kept (cp_revHeap p r) (cp_revHeap q r)) \<and>
     (\<forall>c r. dict_get (cp_reverseConns q) c = Some r \<longrightarrow>
        dict_get (cp_reverseConns p) c = Some r \<or>
        cp_nextRev p \<le> r \<and> r < cp_nextRev q \<and> rv_id (cp_revHeap q r) = c) \<and>
     (dict_ok (cp_reverseConns p) \<longrightarrow> dict_ok (cp_reverseConns q))"

lemma rev_kept_refl [simp]: "rev_kept a a"
  by (simp add: rev_kept_def)

lemma rev_evolves_refl [simp]: "rev_evolves p p"
  by (simp add: rev_evolves_def)

lemma rev_kept_trans: "rev_kept a b \<Longrightarrow> rev_kept b c \<Longrightarrow> rev_kept a c"
  by (auto simp: rev_kept_def)

lemma rev_evolvesD:
  assumes "rev_evolves p q"
  shows "cp_nextRev p \<le> cp_nextRev q" "r < cp_nextRev p \<Longrightarrow> rev_kept (cp_revHeap p r) (cp_revHeap q r)"
    "dict_get (cp_reverseConns q) c = Some r \<Longrightarrow> dict_get (cp_reverseConns p) c = Some r \<or>
        cp_nextRev p \<le> r \<and> r < cp_nextRev q \<and> rv_id (cp_revHeap q r) = c"
    "dict_ok (cp_reverseConns p) \<Longrightarrow> dict_ok (cp_reverseConns q)"
  using assms unfolding rev_evolves_def by blast+

lemma rev_evolves_trans:
  assumes pq: "rev_evolves p q" and qs: "rev_evolves q s"
  shows "rev_evolves p s"
  unfolding rev_evolves_def
proof (intro conjI allI impI)
  show le: "cp_nextRev p \<le> cp_nextRev s" using rev_evolvesD(1) [OF pq] rev_evolvesD(1) [OF qs] by simp
  show "rev_kept (cp_revHeap p r) (cp_revHeap s r)" if "r < cp_nextRev p" for r
    using rev_evolvesD(2) [OF pq that] rev_evolvesD(2) [OF qs, of r] rev_evolvesD(1) [OF pq] that
    by (auto intro: rev_kept_trans)
  show "dict_ok (cp_reverseConns p) \<Longrightarrow> dict_ok (cp_reverseConns s)"
    using rev_evolvesD(4) [OF pq] rev_evolvesD(4) [OF qs] by blast
  fix c r assume s: "dict_get (cp_reverseConns s) c = Some r"
  from rev_evolvesD(3) [OF qs s]
  show "dict_get (cp_reverseConns p) c = Some r \<or> cp_nextRev p \<le> r \<and> r < cp_nextRev s \<and> rv_id (cp_revHeap s r) = c"
  proof
    assume "dict_get (cp_reverseConns q) c = Some r"
    from rev_evolvesD(3) [OF pq this] show ?thesis
      using rev_evolvesD(2) [OF qs, of r] rev_evolvesD(1) [OF qs] by (auto simp: rev_kept_def)
  qed (use rev_evolvesD(1) [OF pq] in auto)
qed

lemma rev_evolves_rv_ok:
  assumes "rev_evolves p q" "rv_ok p"
  shows "rv_ok q"
  unfolding rv_ok_def
proof (intro conjI allI impI)
  show "dict_ok (cp_reverseConns q)" using rev_evolvesD(4) [OF assms(1)] rv_okD(1) [OF assms(2)] by blast
  fix c r assume "dict_get (cp_reverseConns q) c = Some r"
  from rev_evolvesD(3) [OF assms(1) this]
  show "r < cp_nextRev q" "rv_id (cp_revHeap q r) = c"
    using rv_okD(2,3) [OF assms(2), of c r] rev_evolvesD(1) [OF assms(1)] rev_evolvesD(2) [OF assms(1), of r]
    by (auto simp: rev_kept_def)
qed

text \<open>An operation that leaves the three fields alone, updates one connection, or drops an entry.\<close>

lemma rev_evolves_same:
  "cp_nextRev q = cp_nextRev p \<Longrightarrow> cp_revHeap q = cp_revHeap p \<Longrightarrow> cp_reverseConns q = cp_reverseConns p \<Longrightarrow>
   rev_evolves p q"
  by (simp add: rev_evolves_def)

lemma rev_evolves_upd: "rev_kept (cp_revHeap p r) (f (cp_revHeap p r)) \<Longrightarrow> rev_evolves p (upd_rvc r f p)"
  by (simp add: rev_evolves_def)

lemma rev_evolves_remove: "rev_evolves p (removeReverseConn_client c p)"
  by (simp add: rev_evolves_def)

lemma rev_evolves_closeOnce: "rev_evolves p (closeOnce_do r p)"
  by (simp add: rev_evolves_def rev_kept_def)

lemma rev_evolves_add: "rev_evolves p (snd (addReverseConn_client c t rs ch p))"
  by (simp add: addReverseConn_client_def Let_def rev_evolves_def)

lemma rev_evolves_reverseSend: "rev_evolves p (reverseSend env r msg p)"
  by (rule rev_evolves_same) simp_all

lemma rev_evolves_sendReverseClose: "rev_evolves p (sendReverseClose env r c p)"
  unfolding sendReverseClose_def
  by (rule rev_evolves_trans [OF rev_evolves_trans [OF rev_evolves_closeOnce rev_evolves_reverseSend] rev_evolves_remove])

lemma rev_evolves_cleanup: "rev_evolves p (reverseCleanupChannel chID p)"
proof -
  have "rev_evolves p (foldl (reverseCleanup_entry chID) p es)" for es
  proof (induction es arbitrary: p)
    case (Cons e es)
    have "rev_evolves p (reverseCleanup_entry chID p e)"
      by (cases e) (auto simp: reverseCleanup_entry_def intro: rev_evolves_trans [OF rev_evolves_closeOnce rev_evolves_remove])
    with Cons [of "reverseCleanup_entry chID p e"] show ?case by (auto intro: rev_evolves_trans)
  qed simp
  then show ?thesis by (simp add: reverseCleanupChannel_def)
qed

lemma rev_evolves_dial:
  "rev_evolves p (dialReverseTarget env result r c p)"
proof (cases result)
  case None
  have "rev_evolves p (snd (broadcastWrite_client env mt m p))" for mt m by (rule rev_evolves_same) simp_all
  with None show ?thesis
    by (simp add: dialReverseTarget_def rev_evolves_trans [OF _ rev_evolves_remove])
next
  case (Some s)
  have "rev_evolves (setConn r s p) (snd (broadcastWrite_client env mt m (setConn r s p)))" for mt m
    by (rule rev_evolves_same) simp_all
  moreover have "rev_evolves p (setConn r s p)"
    unfolding setConn_def by (rule rev_evolves_upd) (simp add: rev_kept_def)
  ultimately show ?thesis using Some by (auto simp: dialReverseTarget_def intro: rev_evolves_trans)
qed

lemma rev_evolves_pump: "rev_evolves p (reverseReadPump env read r c p)"
  by (simp add: reverseReadPump_def rev_evolves_sendReverseClose rev_evolves_reverseSend split: option.split)

lemma rev_evolves_msg: "rev_evolves p (handleReverseServerMsg ok env chID mt c meta payload p)"
proof -
  have upd: "rev_evolves p (upd_rvc r (rv_sendCh_update (\<lambda>_. x)) p)" if "rv_sendCh (cp_revHeap p r) = 0" for r x
    by (rule rev_evolves_upd) (simp add: rev_kept_def that)
  have "rev_evolves p (cemit e p)" for e by (rule rev_evolves_same) simp_all
  with upd show ?thesis
    by (auto simp: handleReverseServerMsg_def Let_def rev_evolves_sendReverseClose split: option.split)
qed

text \<open>The two paths of a dial request: the hot one, which fixes both channels at once, and the classic
  one, which asks the server to choose.\<close>

lemma handleReverseTCPConnect_cases:
  assumes "handleReverseTCPConnect resolve env chID connID meta p = q"
  obtains "q = p"
  | resolved h where "cf_EnableReverse (cp_config p)" "dict_get (cp_reverseConns p) connID = None"
      "hotReversePair chID connID p = Some h"
      "q = cspawn (DialReverse (cp_nextRev p)) (upd_rvc (cp_nextRev p)
         (rv_sendCh_update (\<lambda>_. wrap32 (pr_UplinkChID (pw_heap (cp_warmer p) h))))
         (snd (addReverseConn_client connID (string_of_bytes (drop 1 meta)) resolved chID p)))"
  | resolved where "cf_EnableReverse (cp_config p)" "dict_get (cp_reverseConns p) connID = None"
      "hotReversePair chID connID p = None"
      "q = cspawn (DialReverse (cp_nextRev p)) (snd (broadcastWrite_client env BinaryMessage
         (select_uplink_frame connID chID)
         (snd (addReverseConn_client connID (string_of_bytes (drop 1 meta)) resolved chID p))))"
proof (cases "cf_EnableReverse (cp_config p) \<and> \<not> length meta < 1 \<and> dict_get (cp_reverseConns p) connID = None")
  case True
  then show ?thesis
    using assms that(2,3) by (cases "hotReversePair chID connID p")
      (auto simp: handleReverseTCPConnect_def addReverseConn_client_def Let_def)
next
  case False
  then have "q = p"
    using assms by (auto simp: handleReverseTCPConnect_def addReverseConn_client_def Let_def split: option.split)
  then show ?thesis by (rule that(1))
qed

lemma rev_evolves_connect: "rev_evolves p (handleReverseTCPConnect resolve env chID connID meta p)"
  by (rule handleReverseTCPConnect_cases [OF refl, of resolve env chID connID meta p])
    (auto simp: addReverseConn_client_def Let_def rev_evolves_def split: if_splits)

inductive reverse_step :: "clientPool \<Rightarrow> clientPool \<Rightarrow> bool" where
  rs_connect: "reverse_step p (handleReverseTCPConnect resolve env chID connID meta p)"
| rs_dialled: "r < cp_nextRev p \<Longrightarrow> rv_conn (cp_revHeap p r) = None \<Longrightarrow> \<forall>s. rv_conn (cp_revHeap p s) \<noteq> Some c \<Longrightarrow> connID = rv_id (cp_revHeap p r) \<Longrightarrow>
    reverse_step p (dialReverseTarget env (Some c) r connID p)"
| rs_dial_failed: "connID = rv_id (cp_revHeap p r) \<Longrightarrow> reverse_step p (dialReverseTarget env None r connID p)"
| rs_pump: "connID = rv_id (cp_revHeap p r) \<Longrightarrow> reverse_step p (reverseReadPump env read r connID p)"
| rs_message: "reverse_step p (handleReverseServerMsg ok env chID mt connID meta payload p)"
| rs_cleanup: "reverse_step p (reverseCleanupChannel chID p)"

lemma reverse_step_evolves: "reverse_step p q \<Longrightarrow> rev_evolves p q"
  by (induction rule: reverse_step.induct)
    (simp_all add: rev_evolves_connect rev_evolves_dial rev_evolves_pump rev_evolves_msg rev_evolves_cleanup)

lemma reverse_steps_evolve: "reverse_step\<^sup>*\<^sup>* p q \<Longrightarrow> rev_evolves p q"
  by (induction rule: rtranclp_induct) (auto intro: rev_evolves_trans reverse_step_evolves)

interpretation reverse: invariant_system rv_ok reverse_step rv_ok
  by unfold_locales (auto intro: rev_evolves_rv_ok reverse_step_evolves)

section \<open>A close that overtakes the dial\<close>

text \<open>A connection whose \<^verbatim>\<open>closeOnce\<close> was used before the dial returned: nothing closes it.\<close>

definition unclosable :: "ref \<Rightarrow> nat \<Rightarrow> clientPool \<Rightarrow> bool" where
  "unclosable r c p \<longleftrightarrow> r < cp_nextRev p \<and> rv_closed (cp_revHeap p r) \<and> rv_conn (cp_revHeap p r) = Some c \<and>
     (\<forall>s. rv_conn (cp_revHeap p s) = Some c \<longrightarrow> s = r) \<and> ConnClose c \<notin> set (cp_effects p)"

lemma unclosableD:
  assumes "unclosable r c p"
  shows "r < cp_nextRev p" "rv_closed (cp_revHeap p r)" "rv_conn (cp_revHeap p r) = Some c"
    "rv_conn (cp_revHeap p s) = Some c \<Longrightarrow> s = r" "ConnClose c \<notin> set (cp_effects p)"
  using assms unfolding unclosable_def by blast+

lemma unclosable_closeOnce: "unclosable r c p \<Longrightarrow> unclosable r c (closeOnce_do s p)"
  by (auto simp: unclosable_def closeOnce_do_effects split: if_splits option.splits)

lemma unclosable_same:
  "unclosable r c p \<Longrightarrow> cp_nextRev q = cp_nextRev p \<Longrightarrow> cp_revHeap q = cp_revHeap p \<Longrightarrow>
   cp_effects q = cp_effects p \<Longrightarrow> unclosable r c q"
  by (simp add: unclosable_def)

lemma unclosable_send: "unclosable r c p \<Longrightarrow> unclosable r c (reverseSend env s m p)"
  by (rule unclosable_same) simp_all

lemma unclosable_remove: "unclosable r c p \<Longrightarrow> unclosable r c (removeReverseConn_client d p)"
  by (rule unclosable_same) simp_all

lemma unclosable_sendReverseClose: "unclosable r c p \<Longrightarrow> unclosable r c (sendReverseClose env s d p)"
  by (simp add: sendReverseClose_def unclosable_remove unclosable_send unclosable_closeOnce)

lemma unclosable_cleanup: "unclosable r c p \<Longrightarrow> unclosable r c (reverseCleanupChannel chID p)"
proof -
  have "unclosable r c p \<Longrightarrow> unclosable r c (foldl (reverseCleanup_entry chID) p es)" for es
    by (induction es arbitrary: p)
      (auto simp: reverseCleanup_entry_def unclosable_remove unclosable_closeOnce split: prod.split)
  then show "unclosable r c p \<Longrightarrow> unclosable r c (reverseCleanupChannel chID p)"
    by (simp add: reverseCleanupChannel_def)
qed

lemma unclosable_connect:
  assumes "unclosable r c p"
  shows "unclosable r c (handleReverseTCPConnect resolve env chID connID meta p)"
  using assms
  by (cases rule: handleReverseTCPConnect_cases [OF refl, of resolve env chID connID meta p])
    (auto simp: unclosable_def addReverseConn_client_def Let_def blank_rev_def)

lemma unclosable_message:
  assumes "unclosable r c p"
  shows "unclosable r c (handleReverseServerMsg ok env chID mt connID meta payload p)"
proof -
  have "unclosable r c (upd_rvc s (rv_sendCh_update (\<lambda>_. x)) p)" for s x
    using assms by (auto simp: unclosable_def)
  moreover have "unclosable r c (cemit (ConnWrite d b) p)" for d b
    using assms by (simp add: unclosable_def)
  ultimately show ?thesis
    using assms unclosable_sendReverseClose [OF assms]
    by (auto simp: handleReverseServerMsg_def Let_def split: option.split)
qed

lemma unclosable_dial:
  assumes "unclosable r c p" "result \<noteq> Some c" "result \<noteq> None \<longrightarrow> s \<noteq> r"
  shows "unclosable r c (dialReverseTarget env result s d p)"
proof (cases result)
  case None
  have "unclosable r c (snd (broadcastWrite_client env mt m p))" for mt m
    by (rule unclosable_same [OF assms(1)]) simp_all
  with None show ?thesis by (simp add: dialReverseTarget_def unclosable_remove)
next
  case (Some x)
  have "unclosable r c (setConn s x p)"
    using assms Some by (auto simp: unclosable_def setConn_def)
  then have "unclosable r c (snd (broadcastWrite_client env mt m (setConn s x p)))" for mt m
    by (rule unclosable_same) simp_all
  with Some show ?thesis by (simp add: dialReverseTarget_def)
qed

lemma unclosable_step: "reverse_step p q \<Longrightarrow> unclosable r c p \<Longrightarrow> unclosable r c q"
proof (induction rule: reverse_step.induct)
  case (rs_dialled s p d connID env)
  then show ?case
    using unclosableD(3) [OF rs_dialled(5)] by (intro unclosable_dial) auto
next
  case (rs_pump connID p s env read)
  then show ?case
    by (simp add: reverseReadPump_def unclosable_sendReverseClose unclosable_send split: option.split)
qed (simp_all add: unclosable_connect unclosable_dial unclosable_message unclosable_cleanup)

interpretation unclosed: invariant_system "unclosable r c" reverse_step "unclosable r c" for r c
  by unfold_locales (auto intro: unclosable_step)

section \<open>Delivery\<close>

text \<open>The data frames of one connection as they arrive on the channels, handled one after the other.\<close>

definition deliver :: "(chid \<Rightarrow> send_env) \<Rightarrow> string \<Rightarrow> (chid \<times> bytes) list \<Rightarrow> clientPool \<Rightarrow> clientPool" where
  "deliver env connID fs p =
     foldl (\<lambda>p (ch, b). handleReverseServerMsg True env ch MsgTCPData connID [] b p) p fs"

lemma deliver_writes:
  assumes "dict_get (cp_reverseConns p) connID = Some r" "rv_conn (cp_revHeap p r) = Some c"
  shows "cp_effects (deliver env connID fs p) = cp_effects p @
      map (\<lambda>(ch, b). ConnWrite c b) (filter (\<lambda>(ch, b). ch = rv_recvCh (cp_revHeap p r)) fs)"
  using assms
proof (induction fs arbitrary: p)
  case (Cons f fs)
  obtain ch b where f: "f = (ch, b)" by fastforce
  let ?q = "handleReverseServerMsg True env ch MsgTCPData connID [] b p"
  have q: "?q = (if rv_recvCh (cp_revHeap p r) = ch then cemit (ConnWrite c b) p else p)"
    using Cons.prems by (simp add: handleReverseServerMsg_def getReverseConn_client_def getConn_def)
  then show ?case
    using Cons.IH [of ?q] Cons.prems by (auto simp: deliver_def f)
qed (simp add: deliver_def)

section \<open>Listener registration\<close>

definition lm_ok :: "clientPool \<Rightarrow> bool" where
  "lm_ok p \<longleftrightarrow> dict_ok (cp_reverseListenerState p) \<and>
     (\<forall>spec lid. dict_get (cp_reverseListenerMap p) spec = Some lid \<longleftrightarrow>
        (\<exists>st. dict_get (cp_reverseListenerState p) lid = Some st \<and> ls_spec st = spec \<and> ls_listenerID st = lid))"

lemma lm_ok_create:
  assumes "lm_ok p" "dict_get (cp_reverseListenerMap p) spec = None \<longrightarrow>
      dict_get (cp_reverseListenerState p) uuid = None"
  shows "lm_ok (snd (getOrCreateListenerID uuid spec p))"
proof (cases "dict_get (cp_reverseListenerMap p) spec")
  case None
  with assms have new: "dict_get (cp_reverseListenerState p) uuid = None" by simp
  have "\<not> (\<exists>lid st. dict_get (cp_reverseListenerState p) lid = Some st \<and> ls_spec st = spec \<and> ls_listenerID st = lid)"
    using assms(1) None unfolding lm_ok_def by (metis option.distinct(1))
  with assms(1) None new show ?thesis
    by (simp add: lm_ok_def getOrCreateListenerID_def Let_def) (metis option.distinct(1))
qed (use assms in \<open>simp add: getOrCreateListenerID_def\<close>)

lemma create_map:
  "dict_get (cp_reverseListenerMap (snd (getOrCreateListenerID uuid spec p))) x =
     (if dict_get (cp_reverseListenerMap p) spec = None \<and> x = spec then Some uuid
      else dict_get (cp_reverseListenerMap p) x)"
  by (auto simp: getOrCreateListenerID_def Let_def split: option.split)

lemma registerSpec_map [simp]:
  "cp_reverseListenerMap (registerSpec uuid env chID p spec) =
     cp_reverseListenerMap (snd (getOrCreateListenerID (uuid spec) spec p))"
  "cp_reverseListenerState (registerSpec uuid env chID p spec) =
     cp_reverseListenerState (snd (getOrCreateListenerID (uuid spec) spec p))"
  by (simp_all add: registerSpec_def split_def Let_def)

lemma lm_ok_cong:
  "cp_reverseListenerMap q = cp_reverseListenerMap p \<Longrightarrow> cp_reverseListenerState q = cp_reverseListenerState p \<Longrightarrow>
   lm_ok q = lm_ok p"
  by (simp add: lm_ok_def)

text \<open>Identifiers are fresh: never in use before, and different for different specifications.\<close>

definition fresh_ids :: "(string \<Rightarrow> string) \<Rightarrow> clientPool \<Rightarrow> bool" where
  "fresh_ids uuid p \<longleftrightarrow> (\<forall>s. dict_get (cp_reverseListenerMap p) s = None \<longrightarrow>
     dict_get (cp_reverseListenerState p) (uuid s) = None) \<and> inj uuid"

lemma fresh_ids_create: "fresh_ids uuid p \<Longrightarrow> fresh_ids uuid (snd (getOrCreateListenerID (uuid spec) spec p))"
  by (auto simp: fresh_ids_def getOrCreateListenerID_def Let_def dest: injD split: option.split)

lemma register_all:
  assumes "lm_ok p" "fresh_ids uuid p"
  shows "lm_ok (foldl (registerSpec uuid env chID) p ss) \<and>
    dict_get (cp_reverseListenerMap (foldl (registerSpec uuid env chID) p ss)) x =
     (case dict_get (cp_reverseListenerMap p) x of Some lid \<Rightarrow> Some lid
      | None \<Rightarrow> if x \<in> set ss then Some (uuid x) else None)"
  using assms
proof (induction ss arbitrary: p)
  case (Cons s ss)
  let ?q = "registerSpec uuid env chID p s"
  have "lm_ok (snd (getOrCreateListenerID (uuid s) s p))"
    using Cons.prems by (intro lm_ok_create) (auto simp: fresh_ids_def)
  then have ok: "lm_ok ?q" using lm_ok_cong [of ?q "snd (getOrCreateListenerID (uuid s) s p)"] by simp
  have fr: "fresh_ids uuid ?q"
    using fresh_ids_create [OF Cons.prems(2), of s] by (simp add: fresh_ids_def)
  show ?case
    using Cons.IH [OF ok fr] create_map [of "uuid s" s p x] by (auto split: option.splits)
qed (simp split: option.splits)

text \<open>Announcing the listeners on a channel, after the check has been scheduled.\<close>

lemma announce_shape:
  assumes "cf_EnableReverse (cp_config p)" "cf_ReverseListeners (cp_config p) \<noteq> []"
  shows "\<exists>p1. reverseOnChannelReady now uuid env chID p =
      foldl (registerSpec uuid env chID) p1 (dedupSpecs (cf_ReverseListeners (cp_config p))) \<and>
    cp_reverseListenerMap p1 = cp_reverseListenerMap p \<and>
    cp_reverseListenerState p1 = cp_reverseListenerState p \<and> cp_config p1 = cp_config p"
  using assms by (auto simp: reverseOnChannelReady_def Let_def)

lemma registerSpec_config [simp]: "cp_config (registerSpec uuid env chID p spec) = cp_config p"
  by (simp add: registerSpec_def getOrCreateListenerID_def Let_def split: option.split prod.split)

lemma register_config [simp]: "cp_config (foldl (registerSpec uuid env chID) p ss) = cp_config p"
  by (induction ss arbitrary: p) simp_all

lemma register_known:
  "\<forall>s\<in>set ss. dict_get (cp_reverseListenerMap p) s \<noteq> None \<Longrightarrow>
   cp_reverseListenerMap (foldl (registerSpec uuid env chID) p ss) = cp_reverseListenerMap p"
proof (induction ss arbitrary: p)
  case (Cons s ss)
  then have "cp_reverseListenerMap (registerSpec uuid env chID p s) = cp_reverseListenerMap p"
    by (auto simp: getOrCreateListenerID_def)
  with Cons show ?case by simp
qed simp

lemma set_dedupSpecs: "set (dedupSpecs ss) = set ss"
proof -
  have "set (foldl (\<lambda>specs s. if s \<in> set specs then specs else specs @ [s]) xs ss) = set xs \<union> set ss" for xs
    by (induction ss arbitrary: xs) auto
  then show ?thesis by (simp add: dedupSpecs_def)
qed

lemma handleReverseListenResult_state:
  "dict_get (cp_reverseListenerState (handleReverseListenResult c meta p)) lid =
     (case dict_get (cp_reverseListenerState p) lid of
        None \<Rightarrow> None
      | Some st \<Rightarrow> Some (if lid = c \<and> meta \<noteq> []
          then st\<lparr>ls_ok := (hd meta = StatusOK), ls_reason := string_of_bytes (tl meta), ls_responded := True\<rparr>
          else st))"
  by (auto simp: handleReverseListenResult_def split: list.split option.split)

text \<open>The last answer for a listener decides whether it counts as registered.\<close>

definition answers :: "(string \<times> bytes) list \<Rightarrow> clientPool \<Rightarrow> clientPool" where
  "answers rs p = foldl (\<lambda>p (c, meta). handleReverseListenResult c meta p) p rs"

definition last_answer :: "string \<Rightarrow> (string \<times> bytes) list \<Rightarrow> bytes option" where
  "last_answer lid rs = map_of (rev (filter (\<lambda>(c, meta). meta \<noteq> []) rs)) lid"

lemma answers_state:
  "dict_get (cp_reverseListenerState (answers rs p)) lid =
     (case dict_get (cp_reverseListenerState p) lid of
        None \<Rightarrow> None
      | Some st \<Rightarrow> Some (case last_answer lid rs of
          None \<Rightarrow> st
        | Some meta \<Rightarrow> st\<lparr>ls_ok := (hd meta = StatusOK), ls_reason := string_of_bytes (tl meta), ls_responded := True\<rparr>))"
proof (induction rs rule: rev_induct)
  case (snoc a rs)
  obtain c meta where a: "a = (c, meta)" by fastforce
  have "answers (rs @ [a]) p = handleReverseListenResult c meta (answers rs p)" by (simp add: answers_def a)
  then show ?case
    using snoc by (auto simp: handleReverseListenResult_state last_answer_def a split: option.splits)
qed (auto simp: answers_def last_answer_def split: option.split)

lemma answers_fields [simp]:
  "cp_config (answers rs p) = cp_config p" "cp_effects (answers rs p) = cp_effects p"
proof -
  have "cp_config (handleReverseListenResult c m p) = cp_config p \<and> cp_effects (handleReverseListenResult c m p) = cp_effects p"
    for c m p by (simp add: handleReverseListenResult_def split: list.split option.split)
  then show "cp_config (answers rs p) = cp_config p" "cp_effects (answers rs p) = cp_effects p"
    unfolding answers_def by (induction rs arbitrary: p) (auto split: prod.split)
qed

lemma dict_ok_answers: "dict_ok (cp_reverseListenerState p) \<Longrightarrow> dict_ok (cp_reverseListenerState (answers rs p))"
proof (induction rs arbitrary: p)
  case (Cons a rs)
  have "dict_ok (cp_reverseListenerState (handleReverseListenResult (fst a) (snd a) p))"
    using Cons.prems by (auto simp: handleReverseListenResult_def split: list.split option.split)
  with Cons.IH show ?case by (simp add: answers_def split_def)
qed (simp add: answers_def)

section \<open>Properties\<close>

text \<open>Fact: the channels of a reverse connection are fixed. Through any sequence of dial
  requests, dial results, reads, messages from the server and lost channels, the table stays well
  formed, every connection keeps its identity and the channel it receives on, and once it has a
  channel to send on it keeps that too.\<close>

theorem reverse_channels_fixed:
  assumes "rv_ok p" "reverse_step\<^sup>*\<^sup>* p q" "r < cp_nextRev p"
  shows "rv_ok q \<and> rv_id (cp_revHeap q r) = rv_id (cp_revHeap p r) \<and>
    rv_recvCh (cp_revHeap q r) = rv_recvCh (cp_revHeap p r) \<and>
    (rv_sendCh (cp_revHeap p r) \<noteq> 0 \<longrightarrow> rv_sendCh (cp_revHeap q r) = rv_sendCh (cp_revHeap p r))"
  using reverse.run_inv [OF assms(1,2)] rev_evolvesD(2) [OF reverse_steps_evolve [OF assms(2)] assms(3)]
  by (simp add: rev_kept_def)

definition reverse_config :: Config where
  "reverse_config = DefaultConfig\<lparr>cf_EnableReverse := True\<rparr>"

definition sample_request :: "chid \<Rightarrow> clientPool \<Rightarrow> clientPool" where
  "sample_request ch p = handleReverseTCPConnect (\<lambda>t s. t) (\<lambda>_. no_send) ch ''c1'' (0 # bytes_of_string ''h:80'') p"

definition sample_reverse :: clientPool where
  "sample_reverse = sample_request 2 (newClientPool reverse_config)"

lemma sample_reverse_fields:
  "cp_nextRev sample_reverse = 1" "cp_reverseConns sample_reverse = [(''c1'', 0)]"
  "cp_revHeap sample_reverse 0 = blank_rev\<lparr>rv_id := ''c1'', rv_target := ''h:80'', rv_resolved := ''h:80'', rv_recvCh := 2\<rparr>"
  "\<forall>s. rv_conn (cp_revHeap sample_reverse s) = None" "cp_effects sample_reverse = []"
  by (simp_all add: sample_reverse_def sample_request_def handleReverseTCPConnect_def reverse_config_def
      hotReversePair_def addReverseConn_client_def newClientPool_def DefaultConfig_def Let_def blank_rev_def)

theorem reverse_channels_fixed_witness:
  "rv_ok sample_reverse \<and> rv_recvCh (cp_revHeap (reverseCleanupChannel 1 sample_reverse) 0) = 2"
proof -
  have ok: "rv_ok sample_reverse"
    by (auto simp: rv_ok_def sample_reverse_fields blank_rev_def dict_ok_def split: if_splits)
  have "reverse_step\<^sup>*\<^sup>* sample_reverse (reverseCleanupChannel 1 sample_reverse)"
    by (rule r_into_rtranclp) (rule rs_cleanup)
  from reverse_channels_fixed [OF ok this, of 0] ok show ?thesis
    by (simp add: sample_reverse_fields)
qed

text \<open>Fact: the data of a reverse connection reaches the target in order and from one channel
  only. Of the data frames that arrive for a dialled connection on any channels, exactly those of
  its receive channel are written, in the order of arrival.\<close>

theorem reverse_delivery_in_order:
  assumes "dict_get (cp_reverseConns p) connID = Some r" "rv_conn (cp_revHeap p r) = Some c"
  shows "cp_effects (deliver env connID fs p) = cp_effects p @
      map (\<lambda>(ch, b). ConnWrite c b) (filter (\<lambda>(ch, b). ch = rv_recvCh (cp_revHeap p r)) fs)"
  using assms by (rule deliver_writes)

theorem reverse_delivery_in_order_witness:
  "cp_effects (deliver (\<lambda>_. no_send) ''c1'' [(2, [7]), (1, [8]), (2, [9])] (setConn 0 5 sample_reverse)) =
     [ConnWrite 5 [7], ConnWrite 5 [9]]"
  using reverse_delivery_in_order [of "setConn 0 5 sample_reverse" "''c1''" 0 5 "\<lambda>_. no_send" "[(2, [7]), (1, [8]), (2, [9])]"]
  by (simp add: setConn_def sample_reverse_fields)

text \<open>Property C37: a repeated dial request is ignored. The server broadcasts its request when it has no
  pair; whichever copy arrives first registers the connection and starts one dial, and every further
  copy, on any channel, changes nothing while the connection is registered. A request on the hot
  path sends nothing and has both channels from the pair.\<close>

theorem reverse_request_once:
  assumes "cf_EnableReverse (cp_config p)" "meta \<noteq> []" "dict_get (cp_reverseConns p) connID = None"
  shows "let q = handleReverseTCPConnect resolve env chID connID meta p; r = cp_nextRev p
    in dict_get (cp_reverseConns q) connID = Some r \<and> rv_recvCh (cp_revHeap q r) = chID \<and>
       cp_tasks q = cp_tasks p @ [DialReverse r] \<and>
       handleReverseTCPConnect resolve' env' chID' connID meta' q = q \<and>
       (\<forall>h. hotReversePair chID connID p = Some h \<longrightarrow> cp_queueHeap q = cp_queueHeap p \<and>
          rv_sendCh (cp_revHeap q r) = wrap32 (pr_UplinkChID (pw_heap (cp_warmer p) h)))"
proof -
  let ?q = "handleReverseTCPConnect resolve env chID connID meta p"
  have new: "dict_get (cp_reverseConns ?q) connID = Some (cp_nextRev p) \<and>
      rv_recvCh (cp_revHeap ?q (cp_nextRev p)) = chID \<and> cp_tasks ?q = cp_tasks p @ [DialReverse (cp_nextRev p)] \<and>
      (\<forall>h. hotReversePair chID connID p = Some h \<longrightarrow> cp_queueHeap ?q = cp_queueHeap p \<and>
          rv_sendCh (cp_revHeap ?q (cp_nextRev p)) = wrap32 (pr_UplinkChID (pw_heap (cp_warmer p) h)))"
    using assms by (cases meta; cases "hotReversePair chID connID p")
      (auto simp: handleReverseTCPConnect_def addReverseConn_client_def cspawn_def upd_rvc_def Let_def)
  have "handleReverseTCPConnect resolve' env' chID' connID meta' ?q = ?q"
    by (rule handleReverseTCPConnect_cases [OF refl, of resolve' env' chID' connID meta' ?q]) (use new in auto)
  with new show ?thesis by (simp add: Let_def)
qed

theorem reverse_request_once_witness:
  "sample_request 1 sample_reverse = sample_reverse \<and> cp_tasks sample_reverse = [DialReverse 0]"
  using reverse_request_once [of "newClientPool reverse_config" "0 # bytes_of_string ''h:80''" "''c1''" "\<lambda>t s. t" "\<lambda>_. no_send" 2
      "\<lambda>t s. t" "\<lambda>_. no_send" 1 "0 # bytes_of_string ''h:80''"]
  unfolding sample_request_def sample_reverse_def Let_def
  by (simp add: newClientPool_def reverse_config_def DefaultConfig_def Let_def)

text \<open>Fact: a close that arrives during the dial leaks the dialled connection. The close uses up
  \<^verbatim>\<open>closeOnce\<close> while there is no connection to close; when the dial then succeeds, no later
  operation of the reverse mode closes the connection.\<close>

theorem close_during_dial_leaks:
  assumes "dict_get (cp_reverseConns p) connID = Some r" "r < cp_nextRev p"
    and "rv_conn (cp_revHeap p r) = None" "\<forall>s. rv_conn (cp_revHeap p s) \<noteq> Some c" "ConnClose c \<notin> set (cp_effects p)"
    and "reverse_step\<^sup>*\<^sup>* (dialReverseTarget env (Some c) r connID
           (handleReverseServerMsg ok env' chID MsgTCPClose connID meta payload p)) q"
  shows "rv_conn (cp_revHeap q r) = Some c \<and> ConnClose c \<notin> set (cp_effects q)"
proof -
  let ?p1 = "handleReverseServerMsg ok env' chID MsgTCPClose connID meta payload p"
  have p1: "?p1 = sendReverseClose env' r connID p"
    using assms(1) by (simp add: handleReverseServerMsg_def getReverseConn_client_def)
  have "unclosable r c (setConn r c ?p1)"
    using assms(2-5) unfolding p1 by (auto simp: unclosable_def setConn_def sendReverseClose_def closeOnce_do_effects)
  then have "unclosable r c (dialReverseTarget env (Some c) r connID ?p1)"
    by (auto simp: dialReverseTarget_def intro: unclosable_same)
  from unclosed.run_inv [OF this assms(6)] show ?thesis by (simp add: unclosable_def)
qed

theorem close_during_dial_leaks_witness:
  "\<exists>q. ConnClose 5 \<notin> set (cp_effects q) \<and> rv_conn (cp_revHeap q 0) = Some 5 \<and>
     q = reverseReadPump (\<lambda>_. no_send) None 0 ''c1'' (dialReverseTarget (\<lambda>_. no_send) (Some 5) 0 ''c1''
           (handleReverseServerMsg True (\<lambda>_. no_send) 2 MsgTCPClose ''c1'' [] [] sample_reverse))"
proof -
  let ?d = "dialReverseTarget (\<lambda>_. no_send) (Some 5) 0 ''c1''
      (handleReverseServerMsg True (\<lambda>_. no_send) 2 MsgTCPClose ''c1'' [] [] sample_reverse)"
  have "rv_id (cp_revHeap ?d 0) = ''c1''"
    by (simp add: dialReverseTarget_def handleReverseServerMsg_def getReverseConn_client_def sendReverseClose_def
        setConn_def sample_reverse_fields)
  then have "reverse_step\<^sup>*\<^sup>* ?d (reverseReadPump (\<lambda>_. no_send) None 0 ''c1'' ?d)"
    by (intro r_into_rtranclp rs_pump) simp
  from close_during_dial_leaks [OF _ _ _ _ _ this] show ?thesis
    by (auto simp: sample_reverse_fields blank_rev_def)
qed

text \<open>Fact: every configured listener is registered under one stable identifier. Announcing the
  listeners on a channel keeps the identifiers already given out and gives each remaining
  specification a fresh one with a status entry of its own, so a second channel announces the same
  identifiers.\<close>

theorem listener_ids_stable:
  assumes "lm_ok p" "fresh_ids uuid p" "cf_EnableReverse (cp_config p)" "cf_ReverseListeners (cp_config p) \<noteq> []"
  shows "let q = reverseOnChannelReady now uuid env chID p
    in lm_ok q \<and>
       (\<forall>spec\<in>set (cf_ReverseListeners (cp_config p)). \<exists>lid st. dict_get (cp_reverseListenerMap q) spec = Some lid \<and>
          dict_get (cp_reverseListenerState q) lid = Some st \<and> ls_spec st = spec) \<and>
       (\<forall>spec lid. dict_get (cp_reverseListenerMap p) spec = Some lid \<longrightarrow>
          dict_get (cp_reverseListenerMap q) spec = Some lid) \<and>
       cp_reverseListenerMap (reverseOnChannelReady now' uuid' env' chID' q) = cp_reverseListenerMap q"
proof -
  let ?specs = "dedupSpecs (cf_ReverseListeners (cp_config p))"
  obtain p1 where p1: "reverseOnChannelReady now uuid env chID p = foldl (registerSpec uuid env chID) p1 ?specs"
    "cp_reverseListenerMap p1 = cp_reverseListenerMap p" "cp_reverseListenerState p1 = cp_reverseListenerState p"
    "cp_config p1 = cp_config p"
    using announce_shape [OF assms(3,4)] by blast
  have ok: "lm_ok p1" "fresh_ids uuid p1"
    using assms(1,2) p1(2,3) by (simp_all add: lm_ok_def fresh_ids_def)
  let ?q = "foldl (registerSpec uuid env chID) p1 ?specs"
  note reg = register_all [OF ok, of env chID ?specs]
  have mem: "dict_get (cp_reverseListenerMap ?q) spec \<noteq> None" if "spec \<in> set (cf_ReverseListeners (cp_config p))" for spec
    using reg [of spec] that by (auto simp: set_dedupSpecs split: option.splits)
  have cfg: "cp_config ?q = cp_config p" using p1(4) by simp
  obtain p2 where p2: "reverseOnChannelReady now' uuid' env' chID' ?q = foldl (registerSpec uuid' env' chID') p2 ?specs"
    "cp_reverseListenerMap p2 = cp_reverseListenerMap ?q"
    using announce_shape [of ?q now' uuid' env' chID'] assms(3,4) unfolding cfg by blast
  have again: "cp_reverseListenerMap (foldl (registerSpec uuid' env' chID') p2 ?specs) = cp_reverseListenerMap ?q"
    using register_known [of ?specs p2 uuid' env' chID'] mem p2(2) by (simp add: set_dedupSpecs)
  have "lm_ok ?q" using reg by blast
  then have "\<exists>lid st. dict_get (cp_reverseListenerMap ?q) spec = Some lid \<and>
      dict_get (cp_reverseListenerState ?q) lid = Some st \<and> ls_spec st = spec"
    if "spec \<in> set (cf_ReverseListeners (cp_config p))" for spec
    using mem [OF that] unfolding lm_ok_def by (metis not_None_eq)
  moreover have "dict_get (cp_reverseListenerMap p) spec = Some lid \<Longrightarrow> dict_get (cp_reverseListenerMap ?q) spec = Some lid"
    for spec lid using reg [of spec] p1(2) by simp
  ultimately show ?thesis
    using \<open>lm_ok ?q\<close> again p2(1) unfolding p1(1) Let_def by simp
qed

theorem listener_ids_stable_witness:
  "let cfg = reverse_config\<lparr>cf_ReverseListeners := [''s1'', ''s2'', ''s1'']\<rparr>;
       q = reverseOnChannelReady 0 (\<lambda>s. ''id-'' @ s) (\<lambda>_. no_send) 1 (newClientPool cfg)
   in cp_reverseListenerMap (reverseOnChannelReady 5 (\<lambda>s. ''new-'' @ s) (\<lambda>_. no_send) 2 q) = cp_reverseListenerMap q"
proof -
  let ?p = "newClientPool (reverse_config\<lparr>cf_ReverseListeners := [''s1'', ''s2'', ''s1'']\<rparr>)"
  have "lm_ok ?p" "fresh_ids (\<lambda>s. ''id-'' @ s) ?p" "cf_EnableReverse (cp_config ?p)"
    "cf_ReverseListeners (cp_config ?p) \<noteq> []"
    by (simp_all add: lm_ok_def fresh_ids_def newClientPool_def reverse_config_def inj_def Let_def)
  from listener_ids_stable [OF this, of 0 "\<lambda>_. no_send" 1 5 "\<lambda>s. ''new-'' @ s" "\<lambda>_. no_send" 2] show ?thesis
    by (simp add: Let_def)
qed

text \<open>Fact: the registration check complains exactly when every listener's last answer was a
  refusal or is missing. After any answers from the server the check calls the error callback
  unless some listener is registered: one whose last answer was positive, or that was already
  registered and had no further answer.\<close>

theorem registration_verdict:
  assumes "lm_ok p" "cf_OnReverseError (cp_config p)"
  shows "(\<exists>msg. cp_effects (checkReverseRegFatal (answers rs p)) = cp_effects p @ [ReverseError msg]) \<longleftrightarrow>
    (\<forall>lid st. dict_get (cp_reverseListenerState p) lid = Some st \<longrightarrow>
       (case last_answer lid rs of None \<Rightarrow> \<not> ls_ok st | Some meta \<Rightarrow> hd meta \<noteq> StatusOK))"
proof -
  let ?q = "answers rs p"
  have ok: "dict_ok (cp_reverseListenerState ?q)"
    using assms(1) by (intro dict_ok_answers) (simp add: lm_ok_def)
  have "(\<exists>st\<in>set (map snd (cp_reverseListenerState ?q)). ls_ok st) \<longleftrightarrow>
      (\<exists>lid st. dict_get (cp_reverseListenerState ?q) lid = Some st \<and> ls_ok st)"
    using dict_get_in_set [OF ok] by force
  also have "\<dots> \<longleftrightarrow> (\<exists>lid st. dict_get (cp_reverseListenerState p) lid = Some st \<and>
       (case last_answer lid rs of None \<Rightarrow> ls_ok st | Some meta \<Rightarrow> hd meta = StatusOK))"
    by (fastforce simp: answers_state split: option.splits)
  finally have any: "(\<exists>st\<in>set (map snd (cp_reverseListenerState ?q)). ls_ok st) \<longleftrightarrow>
      \<not> (\<forall>lid st. dict_get (cp_reverseListenerState p) lid = Some st \<longrightarrow>
       (case last_answer lid rs of None \<Rightarrow> \<not> ls_ok st | Some meta \<Rightarrow> hd meta \<noteq> StatusOK))"
    by (fastforce split: option.splits)
  have "(\<exists>msg. cp_effects (checkReverseRegFatal ?q) = cp_effects p @ [ReverseError msg]) \<longleftrightarrow>
      \<not> (\<exists>st\<in>set (map snd (cp_reverseListenerState ?q)). ls_ok st)"
    using assms(2) unfolding checkReverseRegFatal_def Let_def by (simp del: set_map bex_simps)
  then show ?thesis unfolding any by simp
qed

definition sample_listeners :: clientPool where
  "sample_listeners = reverseOnChannelReady 0 (\<lambda>s. ''id-'' @ s) (\<lambda>_. no_send) 1
     (newClientPool (reverse_config\<lparr>cf_ReverseListeners := [''s1''], cf_OnReverseError := True\<rparr>))"

theorem registration_verdict_witness:
  "\<exists>msg. cp_effects (checkReverseRegFatal (answers [(''id-s1'', [0]), (''id-s1'', [1, 65])] sample_listeners)) =
     cp_effects sample_listeners @ [ReverseError msg]"
proof -
  have 1: "lm_ok sample_listeners" "cf_OnReverseError (cp_config sample_listeners)"
    "cp_reverseListenerState sample_listeners = [(''id-s1'',
       \<lparr>ls_spec = ''s1'', ls_listenerID = ''id-s1'', ls_ok = False, ls_reason = '''', ls_responded = False\<rparr>)]"
    by (simp_all add: lm_ok_def dict_ok_def sample_listeners_def reverseOnChannelReady_def registerSpec_def getOrCreateListenerID_def
        dedupSpecs_def newClientPool_def reverse_config_def Let_def)
  show ?thesis
    by (rule registration_verdict [OF 1(1,2), THEN iffD2]) (simp add: 1(3) last_answer_def split: if_splits)
qed

end
