(* ===== verification/Client_Conn.thy ===== *)
theory Client_Conn
  imports Client_Reverse
begin

text \<open>
  The client's forward connections (\<^verbatim>\<open>src/pool.go\<close>): registration and the connection request, the
  choice of the uplink and downlink channels, unregistration, and the UDP channels that receive
  downlink datagrams (\<^verbatim>\<open>poolUDPChannel\<close> of \<^verbatim>\<open>src/proxy_dialer.go\<close>).

  Unregistering a UDP connection stops its channel, and stopping a channel unregisters its
  connection, both under a \<^verbatim>\<open>sync.Once\<close>. A call of \<^verbatim>\<open>Do\<close> from within the guarded function never
  returns, so the operations that can get there return a pair: whether the calling goroutine
  returns, and the pool as it is then, or as the blocked goroutine left it.
\<close>

section \<open>Goroutines that may block\<close>

type_synonym call = "bool \<times> clientPool"

definition andThen :: "call \<Rightarrow> (clientPool \<Rightarrow> call) \<Rightarrow> call" where
  "andThen r f = (if fst r then f (snd r) else r)"

definition returns :: "clientPool \<Rightarrow> call" where
  "returns p = (True, p)"

fun each :: "('a \<Rightarrow> clientPool \<Rightarrow> call) \<Rightarrow> 'a list \<Rightarrow> clientPool \<Rightarrow> call" where
  "each f [] p = returns p"
| "each f (x # xs) p = andThen (f x p) (each f xs)"

section \<open>The table of connections\<close>

definition upd_cconn :: "string \<Rightarrow> (clientConnState \<Rightarrow> clientConnState) \<Rightarrow> clientPool \<Rightarrow> clientPool" where
  "upd_cconn connID f p =
     (case dict_get (cp_conns p) connID of
        None \<Rightarrow> p
      | Some st \<Rightarrow> p\<lparr>cp_conns := dict_set (cp_conns p) connID (f st)\<rparr>)"

definition noteUplink :: "string \<Rightarrow> chid \<Rightarrow> clientPool \<Rightarrow> clientPool" where
  "noteUplink connID chID p =
     upd_cconn connID (\<lambda>st. if cc_uplink st = 0 then st\<lparr>cc_uplink := chID\<rparr> else st) p"

definition noteLastChannel :: "string \<Rightarrow> chid \<Rightarrow> clientPool \<Rightarrow> clientPool" where
  "noteLastChannel connID chID p = upd_cconn connID (cc_lastCh_update (\<lambda>_. chID)) p"

definition GetUplinkChannel :: "clientPool \<Rightarrow> string \<Rightarrow> chid option" where
  "GetUplinkChannel p connID =
     (case dict_get (cp_conns p) connID of
        None \<Rightarrow> None
      | Some st \<Rightarrow> if cc_uplink st = 0 then None else Some (cc_uplink st))"

definition getDownlink :: "clientPool \<Rightarrow> string \<Rightarrow> chid option" where
  "getDownlink p connID =
     (case dict_get (cp_conns p) connID of
        None \<Rightarrow> None
      | Some st \<Rightarrow> if cc_downlink st > 0 then Some (cc_downlink st) else None)"

definition signalConnected :: "string \<Rightarrow> clientPool \<Rightarrow> clientPool" where
  "signalConnected connID p =
     upd_cconn connID (\<lambda>st. if cc_connected st = None then st else st\<lparr>cc_connected := Some True\<rparr>) p"

text \<open>The six results of \<^verbatim>\<open>selectDownlink\<close>.\<close>

record downlink_choice =
  ds_selected :: bool
  ds_chosen :: chid
  ds_start :: "instant option"
  ds_target :: string
  ds_uplink :: chid
  ds_typ :: string

definition no_choice :: downlink_choice where
  "no_choice = \<lparr>ds_selected = False, ds_chosen = 0, ds_start = None, ds_target = '''', ds_uplink = 0, ds_typ = ''''\<rparr>"

text \<open>The pool lock is held throughout, so the compare-and-swap on the downlink succeeds exactly when
  the downlink is zero.\<close>

definition selectDownlink :: "string \<Rightarrow> chid \<Rightarrow> clientPool \<Rightarrow> downlink_choice \<times> clientPool" where
  "selectDownlink connID chID p =
     (case dict_get (cp_conns p) connID of
        None \<Rightarrow> (no_choice, p)
      | Some st \<Rightarrow>
          let store = (\<lambda>ch. p\<lparr>cp_conns := dict_set (cp_conns p) connID (st\<lparr>cc_downlink := wrap32 ch\<rparr>)\<rparr>);
              pairDownlink = (case cc_pair st of None \<Rightarrow> 0 | Some h \<Rightarrow> pr_DownlinkChID (pw_heap (cp_warmer p) h));
              pairUplink = (case cc_pair st of None \<Rightarrow> 0 | Some h \<Rightarrow> pr_UplinkChID (pw_heap (cp_warmer p) h))
          in if cc_target st = '''' then (no_choice, p)
             else if cc_pair st \<noteq> None \<and> pairDownlink > 0 then
               let res = \<lparr>ds_selected = (cc_downlink st = 0),
                          ds_chosen = (if cc_downlink st = 0 then pairDownlink else cc_downlink st),
                          ds_start = (if cc_downlink st = 0 then cc_start st else None),
                          ds_target = cc_target st,
                          ds_uplink = (if pairUplink \<le> 0 \<and> cc_uplink st > 0 then cc_uplink st else pairUplink),
                          ds_typ = cc_reqType st\<rparr>
               in (res, if cc_downlink st = 0 then store pairDownlink else p)
             else
               let yield_ch = (cc_target st = PrebindTarget \<and> cc_uplink st > 0 \<and> chID = cc_uplink st);
                   take_ch = (\<not> cc_downlink st > 0 \<and> \<not> yield_ch \<and> cc_downlink st = 0);
                   res = \<lparr>ds_selected = take_ch,
                          ds_chosen = (if take_ch then chID else cc_downlink st),
                          ds_start = (if take_ch then cc_start st else None),
                          ds_target = cc_target st,
                          ds_uplink = (if cc_uplink st > 0 then cc_uplink st else -1),
                          ds_typ = cc_reqType st\<rparr>
               in (res, if take_ch then store chID else p))"

section \<open>UDP channels and unregistration\<close>

definition upd_udp :: "ref \<Rightarrow> (poolUDPChannel \<Rightarrow> poolUDPChannel) \<Rightarrow> clientPool \<Rightarrow> clientPool" where
  "upd_udp c f p = p\<lparr>cp_udpHeap := (cp_udpHeap p)(c := f (cp_udpHeap p c))\<rparr>"

definition udpDownCap :: nat where
  "udpDownCap = 256"

text \<open>The select has a default branch: a full queue or a closed channel drops the datagram. With both
  the queue and \<^verbatim>\<open>done\<close> ready Go picks either; \<open>pick\<close> says whether it picks the queue.\<close>

definition handleUDPResponse :: "bool \<Rightarrow> string \<Rightarrow> bytes \<Rightarrow> ref \<Rightarrow> clientPool \<Rightarrow> clientPool" where
  "handleUDPResponse pick addrStr data c p =
     (let ch = cp_udpHeap p c
      in if length (uc_down ch) < udpDownCap \<and> (\<not> uc_done ch \<or> pick)
         then upd_udp c (uc_down_update (\<lambda>q. q @ [\<lparr>dg_target = addrStr, dg_data = data\<rparr>])) p
         else p)"

definition udp_close_frame :: "string \<Rightarrow> bytes" where
  "udp_close_frame connID = EncodeMessage MsgUDPClose connID [] []"

text \<open>\<^verbatim>\<open>stop\<close> and \<^verbatim>\<open>SendUDPCloseDirect\<close> over a given \<^verbatim>\<open>Unregister\<close>.\<close>

definition SendUDPCloseDirect_with ::
  "(string \<Rightarrow> clientPool \<Rightarrow> call) \<Rightarrow> (chid \<Rightarrow> send_env) \<Rightarrow> chid \<Rightarrow> string \<Rightarrow> clientPool \<Rightarrow> call" where
  "SendUDPCloseDirect_with unreg env chID connID p =
     unreg connID (snd (asyncWriteDirect (env chID) chID BinaryMessage (udp_close_frame connID) p))"

definition stop_with ::
  "(string \<Rightarrow> clientPool \<Rightarrow> call) \<Rightarrow> (chid \<Rightarrow> send_env) \<Rightarrow> ref \<Rightarrow> clientPool \<Rightarrow> call" where
  "stop_with unreg env c p =
     (case uc_once (cp_udpHeap p c) of
        OnceDone \<Rightarrow> returns p
      | OnceRunning \<Rightarrow> (False, p)
      | OnceFresh \<Rightarrow>
          let p = upd_udp c (\<lambda>ch. ch\<lparr>uc_once := OnceRunning, uc_done := True\<rparr>) p;
              connID = uc_connID (cp_udpHeap p c);
              sent = (case GetUplinkChannel p connID of
                        None \<Rightarrow> returns p
                      | Some chID \<Rightarrow> SendUDPCloseDirect_with unreg env chID connID p)
          in andThen (andThen sent (unreg connID))
               (\<lambda>p. returns (upd_udp c (uc_once_update (\<lambda>_. OnceDone)) p)))"

definition Unregister_with ::
  "(string \<Rightarrow> clientPool \<Rightarrow> call) \<Rightarrow> (chid \<Rightarrow> send_env) \<Rightarrow> string \<Rightarrow> clientPool \<Rightarrow> call" where
  "Unregister_with unreg env connID p =
     (case dict_get (cp_conns p) connID of
        None \<Rightarrow> returns p
      | Some st \<Rightarrow>
          if cc_closed st then returns p
          else
            let p = p\<lparr>cp_conns := dict_del (cp_conns p) connID\<rparr>
            in if cc_target st = PrebindTarget then returns p
               else
                 let p = (case cc_tcpConn st of None \<Rightarrow> p | Some c \<Rightarrow> cemit (ConnClose c) p);
                     stopped = (case cc_udpSink st of None \<Rightarrow> returns p | Some s \<Rightarrow> stop_with unreg env s p)
                 in andThen stopped
                      (\<lambda>p. returns (if cp_hasWarmer p then with_warmer (ReleasePair (cc_pair st)) p else p)))"

text \<open>
  The recursion of \<^verbatim>\<open>Unregister\<close> through the channels it stops. Every level that goes on deletes one
  connection, so a depth above the number of connections is never used up: \<open>Unregister_unfold\<close>
  below shows that \<open>Unregister\<close> satisfies the equation of the code.
\<close>

primrec Unregister_depth :: "nat \<Rightarrow> (chid \<Rightarrow> send_env) \<Rightarrow> string \<Rightarrow> clientPool \<Rightarrow> call" where
  "Unregister_depth 0 env connID p = (False, p)"
| "Unregister_depth (Suc n) env connID p = Unregister_with (Unregister_depth n env) env connID p"

definition Unregister :: "(chid \<Rightarrow> send_env) \<Rightarrow> string \<Rightarrow> clientPool \<Rightarrow> call" where
  "Unregister env connID p = Unregister_depth (Suc (length (cp_conns p))) env connID p"

definition stop :: "(chid \<Rightarrow> send_env) \<Rightarrow> ref \<Rightarrow> clientPool \<Rightarrow> call" where
  "stop env c p = stop_with (Unregister env) env c p"

definition SendUDPCloseDirect :: "(chid \<Rightarrow> send_env) \<Rightarrow> chid \<Rightarrow> string \<Rightarrow> clientPool \<Rightarrow> call" where
  "SendUDPCloseDirect env chID connID p = SendUDPCloseDirect_with (Unregister env) env chID connID p"

section \<open>Registration\<close>

definition connect_meta :: "clientPool \<Rightarrow> string \<Rightarrow> bytes" where
  "connect_meta p target = cf_IPStrategy (cp_config p) # bytes_of_string target"

definition connState :: "clientPool \<Rightarrow> string \<Rightarrow> clientConnState" where
  "connState p connID = (case dict_get (cp_conns p) connID of None \<Rightarrow> new_conn_state | Some st \<Rightarrow> st)"

text \<open>The outcomes of the sends of one registration: the unicast on the pair's uplink, the broadcast
  and the sends of a clean-up. \<open>raddr\<close> is the remote address of the local connection.\<close>

record register_env =
  re_direct :: send_env
  re_broadcast :: "chid \<Rightarrow> send_env"
  re_close :: "chid \<Rightarrow> send_env"
  re_now :: instant
  re_raddr :: "string option"

definition registerTCP ::
  "register_env \<Rightarrow> string \<Rightarrow> string \<Rightarrow> nat option \<Rightarrow> string \<Rightarrow> clientPool \<Rightarrow> clientPool" where
  "registerTCP env connID target tcpConn reqType p =
     (let st = connState p connID;
          st = st\<lparr>cc_tcpConn := tcpConn, cc_target := target, cc_connected := Some False,
                  cc_start := Some (re_now env)\<rparr>;
          st = (if reqType \<noteq> '''' then st\<lparr>cc_reqType := reqType\<rparr> else st);
          st = (case (tcpConn, re_raddr env) of
                  (Some _, Some a) \<Rightarrow> st\<lparr>cc_clientAddr := a\<rparr>
                | _ \<Rightarrow> st);
          st = st\<lparr>cc_uplink := 0, cc_downlink := 0, cc_lastCh := 0, cc_closed := False\<rparr>
      in p\<lparr>cp_conns := dict_set (cp_conns p) connID st\<rparr>)"

definition broadcastConnect :: "register_env \<Rightarrow> string \<Rightarrow> bytes \<Rightarrow> clientPool \<Rightarrow> call" where
  "broadcastConnect env connID msg p =
     (let (sent, p) = broadcastWrite_client (re_broadcast env) BinaryMessage msg p
      in if sent = 0 then Unregister (re_close env) connID p else returns p)"

text \<open>The pieces of a dial over a hot pair: the pair is noted on the connection, the request is sent on
  its uplink without any lock, and only then, if the send failed, the note is taken back and the pair
  released. Another goroutine may run between them.\<close>

definition presetPair :: "string \<Rightarrow> ref \<Rightarrow> clientPool \<Rightarrow> clientPool" where
  "presetPair connID h p =
     upd_cconn connID (\<lambda>st. st\<lparr>cc_pair := Some h, cc_uplink := pr_UplinkChID (pw_heap (cp_warmer p) h)\<rparr>) p"

definition hotFallback :: "string \<Rightarrow> ref \<Rightarrow> clientPool \<Rightarrow> clientPool" where
  "hotFallback connID h p =
     (let p = upd_cconn connID (\<lambda>st. st\<lparr>cc_pair := None, cc_uplink := 0\<rparr>) p;
          p = with_warmer (ReleasePair (Some h)) p
      in with_warmer (PW_InvalidateChannel (pr_UplinkChID (pw_heap (cp_warmer p) h))) p)"

definition registerAndBroadcastTCPWithPair ::
  "register_env \<Rightarrow> string \<Rightarrow> string \<Rightarrow> bytes \<Rightarrow> nat option \<Rightarrow> string \<Rightarrow> ref option \<Rightarrow> clientPool \<Rightarrow> call" where
  "registerAndBroadcastTCPWithPair env connID target first tcpConn reqType pair p =
     (let p = registerTCP env connID target tcpConn reqType p;
          msg = EncodeMessage MsgTCPConnect connID (connect_meta p target) first
      in case pair of
           None \<Rightarrow> broadcastConnect env connID msg p
         | Some h \<Rightarrow>
             let up = pr_UplinkChID (pw_heap (cp_warmer p) h);
                 p = presetPair connID h p;
                 (res, p) = asyncWriteDirect (re_direct env) up BinaryMessage msg p
             in if res = Sent then returns p else broadcastConnect env connID msg (hotFallback connID h p))"

definition RegisterAndBroadcastTCP ::
  "register_env \<Rightarrow> string \<Rightarrow> string \<Rightarrow> bytes \<Rightarrow> nat option \<Rightarrow> string \<Rightarrow> clientPool \<Rightarrow> call" where
  "RegisterAndBroadcastTCP env connID target first tcpConn reqType p =
     registerAndBroadcastTCPWithPair env connID target first tcpConn reqType None p"

definition RegisterUDP :: "string \<Rightarrow> ref \<Rightarrow> clientPool \<Rightarrow> clientPool" where
  "RegisterUDP connID sink p =
     (let st = (connState p connID)\<lparr>cc_udpSink := Some sink\<rparr>;
          st = (if cc_connected st = None then st\<lparr>cc_connected := Some False\<rparr> else st);
          st = (if cc_reqType st = '''' then st\<lparr>cc_reqType := ''SOCKS5 UDP''\<rparr> else st)
      in p\<lparr>cp_conns := dict_set (cp_conns p) connID st\<rparr>)"

definition StartUDPRace :: "register_env \<Rightarrow> string \<Rightarrow> string \<Rightarrow> clientPool \<Rightarrow> call" where
  "StartUDPRace env connID target p =
     (let st = (connState p connID)\<lparr>cc_target := target, cc_start := Some (re_now env),
                  cc_reqType := ''SOCKS5 UDP'', cc_uplink := 0, cc_downlink := 0, cc_lastCh := 0\<rparr>;
          p = p\<lparr>cp_conns := dict_set (cp_conns p) connID st\<rparr>
      in broadcastConnect env connID (EncodeMessage MsgUDPConnect connID (connect_meta p target) []) p)"

section \<open>The recursion of unregistration\<close>

lemma andThen_simps [simp]:
  "andThen (returns p) f = f p" "andThen (False, p) f = (False, p)" "andThen (True, p) f = f p"
  "fst (returns p)" "snd (returns p) = p"
  by (simp_all add: andThen_def returns_def)

lemma cp_conns_upd_udp [simp]: "cp_conns (upd_udp c f p) = cp_conns p"
  by (simp add: upd_udp_def)

lemma cp_conns_plain [simp]:
  "cp_conns (cemit e p) = cp_conns p" "cp_conns (with_warmer g p) = cp_conns p"
  by (simp_all add: cemit_def with_warmer_def)

lemma with_warmer_cemit: "with_warmer g (cemit e p) = cemit e (with_warmer g p)"
  by (cases p) (simp add: with_warmer_def cemit_def)

text \<open>A function on the pool that never adds connections.\<close>

definition shrinking :: "(string \<Rightarrow> clientPool \<Rightarrow> call) \<Rightarrow> bool" where
  "shrinking u \<longleftrightarrow> (\<forall>c p. length (cp_conns (snd (u c p))) \<le> length (cp_conns p))"

lemma shrinkingD: "shrinking u \<Longrightarrow> length (cp_conns (snd (u c p))) \<le> length (cp_conns p)"
  by (simp add: shrinking_def)

lemma length_conns_andThen:
  "length (cp_conns (snd r)) \<le> n \<Longrightarrow> (\<And>p. length (cp_conns p) \<le> n \<Longrightarrow> length (cp_conns (snd (f p))) \<le> n) \<Longrightarrow>
   length (cp_conns (snd (andThen r f))) \<le> n"
  by (simp add: andThen_def)

lemma stop_with_shrinks:
  assumes "shrinking u"
  shows "length (cp_conns (snd (stop_with u env s p))) \<le> length (cp_conns p)"
proof -
  let ?p = "upd_udp s (\<lambda>ch. ch\<lparr>uc_once := OnceRunning, uc_done := True\<rparr>) p"
  have u: "length (cp_conns q) \<le> length (cp_conns p) \<Longrightarrow> length (cp_conns (snd (u c q))) \<le> length (cp_conns p)" for c q
    using shrinkingD [OF assms, of c q] by simp
  have sent: "length (cp_conns (snd (case GetUplinkChannel ?p c of None \<Rightarrow> returns ?p
      | Some ch \<Rightarrow> SendUDPCloseDirect_with u env ch c ?p))) \<le> length (cp_conns p)" for c
    by (auto simp: SendUDPCloseDirect_with_def intro!: u split: option.split)
  show ?thesis
    unfolding stop_with_def Let_def
    by (auto intro!: length_conns_andThen sent u split: once_state.split)
qed

lemma length_dict_del: "dict_get m k \<noteq> None \<Longrightarrow> length (dict_del m k) < length m"
proof -
  assume "dict_get m k \<noteq> None"
  then obtain v where "(k, v) \<in> set m" by (auto dest: map_of_SomeD)
  then show ?thesis unfolding AList.delete_eq by (rule length_filter_less) simp
qed

lemma Unregister_with_shrinks:
  assumes "shrinking u"
  shows "length (cp_conns (snd (Unregister_with u env c p))) \<le> length (cp_conns p)"
proof (cases "dict_get (cp_conns p) c")
  case (Some st)
  let ?p = "p\<lparr>cp_conns := dict_del (cp_conns p) c\<rparr>"
  let ?q = "case cc_tcpConn st of None \<Rightarrow> ?p | Some d \<Rightarrow> cemit (ConnClose d) ?p"
  have d: "length (dict_del (cp_conns p) c) \<le> length (cp_conns p)" by (rule length_delete_le)
  have "cp_conns ?q = dict_del (cp_conns p) c" by (simp split: option.split)
  then have S: "length (cp_conns (snd (stop_with u env s ?q))) \<le> length (cp_conns p)" for s
    using d by (intro order_trans [OF stop_with_shrinks [OF assms]]) simp
  have "length (cp_conns (snd (case cc_udpSink st of None \<Rightarrow> returns ?q | Some s \<Rightarrow> stop_with u env s ?q)))
      \<le> length (cp_conns p)"
    using S d \<open>cp_conns ?q = dict_del (cp_conns p) c\<close> by (cases "cc_udpSink st") auto
  with Some d show ?thesis
    by (auto simp: Unregister_with_def Let_def intro!: length_conns_andThen)
qed (simp add: Unregister_with_def)

lemma shrinking_depth: "shrinking (Unregister_depth n env)"
proof (induction n)
  case (Suc n)
  show ?case unfolding shrinking_def using Unregister_with_shrinks [OF Suc] by simp
qed (simp add: shrinking_def)

lemma stop_with_cong:
  assumes "\<And>c q. length (cp_conns q) \<le> length (cp_conns p) \<Longrightarrow> u c q = v c q" "shrinking u"
  shows "stop_with u env s p = stop_with v env s p"
proof -
  let ?p = "upd_udp s (\<lambda>ch. ch\<lparr>uc_once := OnceRunning, uc_done := True\<rparr>) p"
  have send: "SendUDPCloseDirect_with u env ch c ?p = SendUDPCloseDirect_with v env ch c ?p" for ch c
    by (simp add: SendUDPCloseDirect_with_def assms(1))
  define x where "x = (case GetUplinkChannel ?p (uc_connID (cp_udpHeap ?p s)) of None \<Rightarrow> returns ?p
      | Some ch \<Rightarrow> SendUDPCloseDirect_with v env ch (uc_connID (cp_udpHeap ?p s)) ?p)"
  have "length (cp_conns (snd (SendUDPCloseDirect_with v env ch c ?p))) \<le> length (cp_conns p)" for ch c
    unfolding send [symmetric] unfolding SendUDPCloseDirect_with_def
    by (rule order_trans [OF shrinkingD [OF assms(2)]]) simp
  then have "length (cp_conns (snd x)) \<le> length (cp_conns p)"
    unfolding x_def by (simp split: option.split)
  then have "andThen x (u c) = andThen x (v c)" for c by (simp add: andThen_def assms(1))
  then show ?thesis
    unfolding stop_with_def Let_def send x_def by (simp split: once_state.split)
qed

lemma Unregister_with_cong:
  assumes "\<And>c q. length (cp_conns q) < length (cp_conns p) \<Longrightarrow> u c q = v c q" "shrinking u"
  shows "Unregister_with u env c p = Unregister_with v env c p"
proof (cases "dict_get (cp_conns p) c")
  case (Some st)
  let ?q = "case cc_tcpConn st of None \<Rightarrow> p\<lparr>cp_conns := dict_del (cp_conns p) c\<rparr>
     | Some d \<Rightarrow> cemit (ConnClose d) (p\<lparr>cp_conns := dict_del (cp_conns p) c\<rparr>)"
  have "length (cp_conns ?q) < length (cp_conns p)"
    using length_dict_del [of "cp_conns p" c] Some by (simp split: option.split)
  then have "stop_with u env s ?q = stop_with v env s ?q" for s
    by (intro stop_with_cong assms) auto
  with Some show ?thesis
    by (cases "cc_tcpConn st"; cases "cc_udpSink st") (simp_all add: Unregister_with_def Let_def)
qed (simp add: Unregister_with_def)

lemma Unregister_depth_enough:
  "length (cp_conns p) < n \<Longrightarrow> length (cp_conns p) < m \<Longrightarrow> Unregister_depth n env c p = Unregister_depth m env c p"
proof (induction n arbitrary: m c p)
  case (Suc n)
  then obtain k where m: "m = Suc k" by (cases m) auto
  have "Unregister_depth n env c' q = Unregister_depth k env c' q" if "length (cp_conns q) < length (cp_conns p)" for c' q
    using Suc.IH [of q k c'] Suc.prems that m by simp
  then show ?case
    unfolding m Unregister_depth.simps by (intro Unregister_with_cong shrinking_depth)
qed simp

text \<open>\<^const>\<open>Unregister\<close> satisfies the recursive equation of the code: it calls itself through the
  channels it stops.\<close>

lemma Unregister_unfold: "Unregister env c p = Unregister_with (Unregister env) env c p"
proof -
  have "Unregister_depth (length (cp_conns p)) env c' q = Unregister env c' q" if "length (cp_conns q) < length (cp_conns p)"
    for c' q unfolding Unregister_def by (rule Unregister_depth_enough) (use that in auto)
  then show ?thesis
    unfolding Unregister_def [of env c p] Unregister_depth.simps
    by (intro Unregister_with_cong shrinking_depth)
qed

lemma shrinking_Unregister: "shrinking (Unregister env)"
  using shrinking_depth unfolding shrinking_def Unregister_def by blast

section \<open>What unregistration keeps\<close>

text \<open>
  Unregistering a connection sends close frames, closes the local connection, stops its UDP channel
  and gives its hot pair back. A property of the pool that these pieces keep is kept by
  \<^const>\<open>Unregister\<close>, by \<^const>\<open>stop\<close> and by what is built from them. Connections with a pair have
  no UDP channel and are not prebind entries, and there are pairs only with a pair manager.
\<close>

definition keeps :: "(clientPool \<Rightarrow> bool) \<Rightarrow> (string \<Rightarrow> clientPool \<Rightarrow> call) \<Rightarrow> bool" where
  "keeps I u \<longleftrightarrow> (\<forall>c p. I p \<longrightarrow> I (snd (u c p)))"

locale unregistering = client_transport +
  assumes I_emit: "I p \<Longrightarrow> I (cemit e p)"
    and I_udp: "I p \<Longrightarrow> I (upd_udp s f p)"
    and I_pair: "I p \<Longrightarrow> dict_get (cp_conns p) c = Some st \<Longrightarrow> cc_pair st \<noteq> None \<Longrightarrow>
      cp_hasWarmer p \<and> cc_udpSink st = None \<and> cc_target st \<noteq> PrebindTarget"
    and I_delete: "I p \<Longrightarrow> dict_get (cp_conns p) c = Some st \<Longrightarrow>
      I (with_warmer (ReleasePair (cc_pair st)) (p\<lparr>cp_conns := dict_del (cp_conns p) c\<rparr>))"
begin

lemma I_andThen: "I (snd r) \<Longrightarrow> (\<And>p. I p \<Longrightarrow> I (snd (f p))) \<Longrightarrow> I (snd (andThen r f))"
  by (simp add: andThen_def)

lemma I_each: "(\<And>x p. I p \<Longrightarrow> I (snd (f x p))) \<Longrightarrow> I p \<Longrightarrow> I (snd (each f xs p))"
  by (induction xs arbitrary: p) (auto intro: I_andThen)

lemma I_stop_with:
  assumes u: "keeps I u" and p: "I p"
  shows "I (snd (stop_with u env s p))"
proof -
  let ?p = "upd_udp s (\<lambda>ch. ch\<lparr>uc_once := OnceRunning, uc_done := True\<rparr>) p"
  have p': "I ?p" by (rule I_udp [OF p])
  have uI: "I q \<Longrightarrow> I (snd (u c q))" for c q using u by (simp add: keeps_def)
  have "I (snd (case GetUplinkChannel ?p c of None \<Rightarrow> returns ?p
      | Some ch \<Rightarrow> SendUDPCloseDirect_with u env ch c ?p))" for c
    using p' by (auto simp: SendUDPCloseDirect_with_def intro!: uI I_send split: option.split)
  with p show ?thesis
    unfolding stop_with_def Let_def
    by (auto intro!: I_andThen uI I_udp split: once_state.split)
qed

lemma release_none: "with_warmer (ReleasePair None) p = p"
  by (simp add: with_warmer_def ReleasePair_def)

lemma I_Unregister_with:
  assumes u: "keeps I u" and p: "I p"
  shows "I (snd (Unregister_with u env c p))"
proof (cases "dict_get (cp_conns p) c")
  case (Some st)
  let ?p = "p\<lparr>cp_conns := dict_del (cp_conns p) c\<rparr>"
  let ?q = "case cc_tcpConn st of None \<Rightarrow> ?p | Some d \<Rightarrow> cemit (ConnClose d) ?p"
  note del = I_delete [OF p Some]
  show ?thesis
  proof (cases "cc_pair st")
    case None
    then have "I ?p" using del by (simp add: release_none)
    then have q: "I ?q" by (auto intro: I_emit split: option.split)
    have "I (snd (case cc_udpSink st of None \<Rightarrow> returns ?q | Some s \<Rightarrow> stop_with u env s ?q))"
      using q by (auto intro: I_stop_with [OF u] split: option.split)
    then have "I (snd (andThen (case cc_udpSink st of None \<Rightarrow> returns ?q | Some s \<Rightarrow> stop_with u env s ?q)
        (\<lambda>p. returns (if cp_hasWarmer p then with_warmer (ReleasePair (cc_pair st)) p else p))))"
      by (rule I_andThen) (simp add: None release_none)
    with Some \<open>I ?p\<close> p show ?thesis by (simp add: Unregister_with_def Let_def)
  next
    case (Some h)
    have h: "cp_hasWarmer p" "cc_udpSink st = None" "cc_target st \<noteq> PrebindTarget"
      using I_pair [OF p \<open>dict_get (cp_conns p) c = Some st\<close>] Some by auto
    have "I (with_warmer (ReleasePair (cc_pair st)) ?q)"
      using del I_emit [OF del]
      by (cases "cc_tcpConn st") (simp_all add: with_warmer_cemit)
    moreover have "cp_hasWarmer ?q" using h(1) by (simp add: cemit_def split: option.split)
    ultimately show ?thesis
      using \<open>dict_get (cp_conns p) c = Some st\<close> h p by (simp add: Unregister_with_def Let_def)
  qed
qed (simp add: Unregister_with_def p)

lemma keeps_depth: "keeps I (Unregister_depth n env)"
proof (induction n)
  case (Suc n)
  show ?case unfolding keeps_def using I_Unregister_with [OF Suc] by simp
qed (simp add: keeps_def)

lemma I_Unregister: "I p \<Longrightarrow> I (snd (Unregister env c p))"
  using keeps_depth unfolding keeps_def Unregister_def by blast

lemma I_stop: "I p \<Longrightarrow> I (snd (stop env s p))"
  unfolding stop_def by (rule I_stop_with) (simp_all add: keeps_def I_Unregister)

lemma I_SendUDPCloseDirect: "I p \<Longrightarrow> I (snd (SendUDPCloseDirect env ch c p))"
  by (simp add: SendUDPCloseDirect_def SendUDPCloseDirect_with_def I_Unregister I_send)

lemma I_broadcastConnect: "I p \<Longrightarrow> I (snd (broadcastConnect env c msg p))"
  using I_broadcast [of p "re_broadcast env" BinaryMessage msg]
  by (auto simp: broadcastConnect_def intro!: I_Unregister split: prod.split)

end

section \<open>Holders of hot pairs\<close>

definition holders :: "(string, clientConnState) dict \<Rightarrow> ref \<Rightarrow> int" where
  "holders m r = int (length (filter (\<lambda>(c, st). cc_pair st = Some r) m))"

text \<open>
  The invariant of the connection table: one entry per identifier, none of them closed, hot
  connections as described above, and the reference count of every pair is the number of
  connections that hold it.
\<close>

definition conns_ok :: "clientPool \<Rightarrow> bool" where
  "conns_ok p \<longleftrightarrow> dict_ok (cp_conns p) \<and> warmer_ok (cp_warmer p) \<and>
     (\<forall>c st. dict_get (cp_conns p) c = Some st \<longrightarrow> \<not> cc_closed st) \<and>
     (\<forall>c st. dict_get (cp_conns p) c = Some st \<longrightarrow> cc_pair st \<noteq> None \<longrightarrow>
        cp_hasWarmer p \<and> cc_udpSink st = None \<and> cc_target st \<noteq> PrebindTarget) \<and>
     (\<forall>r. pair_refs (cp_warmer p) r = holders (cp_conns p) r)"

lemma conns_okD:
  assumes "conns_ok p"
  shows "dict_ok (cp_conns p)" "warmer_ok (cp_warmer p)"
    "dict_get (cp_conns p) c = Some st \<Longrightarrow> \<not> cc_closed st"
    "dict_get (cp_conns p) c = Some st \<Longrightarrow> cc_pair st \<noteq> None \<Longrightarrow>
        cp_hasWarmer p \<and> cc_udpSink st = None \<and> cc_target st \<noteq> PrebindTarget"
    "pair_refs (cp_warmer p) r = holders (cp_conns p) r"
  using assms unfolding conns_ok_def by blast+

lemma holders_nonneg: "0 \<le> holders m r"
  by (simp add: holders_def)

lemma holders_del:
  assumes "dict_ok m" "dict_get m c = Some st"
  shows "holders (dict_del m c) r = holders m r - (if cc_pair st = Some r then 1 else 0)"
  using assms
proof (induction m)
  case (Cons e m)
  obtain d s where e: "e = (d, s)" by fastforce
  show ?case
  proof (cases "d = c")
    case True
    then have "c \<notin> fst ` set m" using Cons.prems e by (auto simp: dict_ok_def)
    then have "dict_del m c = m" by (simp add: delete_id)
    with True Cons.prems e show ?thesis by (simp add: holders_def)
  next
    case False
    with Cons e show ?thesis by (auto simp: holders_def dict_ok_def)
  qed
qed simp

lemma holders_set:
  assumes "dict_ok m"
  shows "holders (dict_set m c st) r = holders m r + (if cc_pair st = Some r then 1 else 0) -
    (case dict_get m c of None \<Rightarrow> 0 | Some old \<Rightarrow> if cc_pair old = Some r then 1 else 0)"
  using assms
proof (induction m)
  case (Cons e m)
  obtain d s where e: "e = (d, s)" by fastforce
  with Cons show ?case by (auto simp: holders_def dict_ok_def split: option.splits)
qed (simp add: holders_def)

lemma conns_ok_cong:
  assumes "conns_ok p" "cp_conns q = cp_conns p" "cp_warmer q = cp_warmer p" "cp_hasWarmer q = cp_hasWarmer p"
  shows "conns_ok q"
  using assms by (simp add: conns_ok_def)

text \<open>Changing a connection without touching its pair.\<close>

lemma conns_ok_set:
  assumes ok: "conns_ok p" and st: "cc_pair st = (case dict_get (cp_conns p) c of None \<Rightarrow> None | Some old \<Rightarrow> cc_pair old)"
    and "\<not> cc_closed st" "cc_pair st \<noteq> None \<Longrightarrow> cc_udpSink st = None \<and> cc_target st \<noteq> PrebindTarget"
  shows "conns_ok (p\<lparr>cp_conns := dict_set (cp_conns p) c st\<rparr>)"
  unfolding conns_ok_def
proof (intro conjI allI impI)
  show "dict_ok (cp_conns (p\<lparr>cp_conns := dict_set (cp_conns p) c st\<rparr>))"
    "warmer_ok (cp_warmer (p\<lparr>cp_conns := dict_set (cp_conns p) c st\<rparr>))"
    using conns_okD(1,2) [OF ok] by simp_all
  fix r show "pair_refs (cp_warmer (p\<lparr>cp_conns := dict_set (cp_conns p) c st\<rparr>)) r =
      holders (cp_conns (p\<lparr>cp_conns := dict_set (cp_conns p) c st\<rparr>)) r"
    using conns_okD(5) [OF ok, of r] holders_set [OF conns_okD(1) [OF ok], of c st r] st
    by (simp split: option.splits)
next
  fix d s assume s: "dict_get (cp_conns (p\<lparr>cp_conns := dict_set (cp_conns p) c st\<rparr>)) d = Some s"
  then show "\<not> cc_closed s" using conns_okD(3) [OF ok] assms(3) by (auto split: if_splits)
  assume "cc_pair s \<noteq> None"
  then have "cp_hasWarmer p \<and> cc_udpSink s = None \<and> cc_target s \<noteq> PrebindTarget"
  proof (cases "d = c")
    case True
    with s have "s = st" by simp
    with \<open>cc_pair s \<noteq> None\<close> st obtain old where old: "dict_get (cp_conns p) c = Some old" "cc_pair old \<noteq> None"
      by (auto split: option.splits)
    from conns_okD(4) [OF ok old] assms(4) \<open>s = st\<close> \<open>cc_pair s \<noteq> None\<close> show ?thesis by blast
  qed (use s conns_okD(4) [OF ok, of d s] in auto)
  then show "cp_hasWarmer (p\<lparr>cp_conns := dict_set (cp_conns p) c st\<rparr>)" "cc_udpSink s = None" "cc_target s \<noteq> PrebindTarget"
    by simp_all
qed

text \<open>Maintenance of the pairs.\<close>

lemma conns_ok_upkeep:
  assumes ok: "conns_ok p" and run: "upkeep_step\<^sup>*\<^sup>* (cp_warmer p) (cp_warmer q)"
    and "cp_conns q = cp_conns p" "cp_hasWarmer q = cp_hasWarmer p"
  shows "conns_ok q"
proof -
  have w: "cells_kept (cp_warmer p) (cp_warmer q)" "warmer_ok (cp_warmer q)"
    using cells_kept_run [OF run conns_okD(2) [OF ok]] by auto
  have "pair_refs (cp_warmer q) r = pair_refs (cp_warmer p) r" for r
  proof (cases "r < pw_next (cp_warmer p)")
    case False
    then have "pair_refs (cp_warmer p) r = 0"
      using warmer_okD(4,5) [OF conns_okD(2) [OF ok], of r] conns_okD(5) [OF ok, of r] holders_nonneg [of "cp_conns p" r]
      by simp
    with False w(1) show ?thesis by (simp add: cells_kept_def)
  qed (use w(1) in \<open>simp add: cells_kept_def\<close>)
  with ok w(2) assms(3,4) show ?thesis by (simp add: conns_ok_def)
qed

text \<open>Deleting a connection and giving its pair back.\<close>

lemma conns_ok_delete:
  assumes ok: "conns_ok p" and st: "dict_get (cp_conns p) c = Some st"
  shows "conns_ok (with_warmer (ReleasePair (cc_pair st)) (p\<lparr>cp_conns := dict_del (cp_conns p) c\<rparr>))"
proof -
  have "pair_refs (ReleasePair (cc_pair st) (cp_warmer p)) r = holders (dict_del (cp_conns p) c) r" for r
    using release_refs [of "cc_pair st" "cp_warmer p" r] holders_del [OF conns_okD(1) [OF ok] st, of r]
      conns_okD(5) [OF ok, of r] by simp
  then show ?thesis
    using conns_okD(1) [OF ok] warmer_ok_release [OF conns_okD(2) [OF ok]] conns_okD(3,4) [OF ok]
    by (auto simp: conns_ok_def with_warmer_def split: if_splits)
qed

interpretation conns: unregistering conns_ok
proof
  show "conns_ok p \<Longrightarrow> conns_ok (snd (asyncWriteDirect env chID mt data p))" for p env chID mt data
    by (rule conns_ok_cong) simp_all
qed (auto intro: conns_ok_cong conns_ok_delete simp: cemit_def upd_udp_def dest: conns_okD(4))

interpretation accounts: unregistering "\<lambda>p. cq_ok p \<and> conns_ok p"
proof
  show "cq_ok p \<and> conns_ok p \<Longrightarrow> cq_ok (snd (asyncWriteDirect env ch mt data p)) \<and> conns_ok (snd (asyncWriteDirect env ch mt data p))"
    for p env ch mt data by (simp add: conns.I_send budget.I_send)
  show "cq_ok p \<and> conns_ok p \<Longrightarrow> cq_ok (upd_udp c f p) \<and> conns_ok (upd_udp c f p)" for p c f
    using conns.I_udp [of p c f] cq_ok_cong [of p "upd_udp c f p"] by (simp add: upd_udp_def)
  show "cq_ok p \<and> conns_ok p \<Longrightarrow> dict_get (cp_conns p) c = Some st \<Longrightarrow>
      cq_ok (with_warmer (ReleasePair (cc_pair st)) (p\<lparr>cp_conns := dict_del (cp_conns p) c\<rparr>)) \<and>
      conns_ok (with_warmer (ReleasePair (cc_pair st)) (p\<lparr>cp_conns := dict_del (cp_conns p) c\<rparr>))" for p c st
    using conns_ok_delete [of p c st]
      cq_ok_cong [of p "with_warmer (ReleasePair (cc_pair st)) (p\<lparr>cp_conns := dict_del (cp_conns p) c\<rparr>)"]
    by (simp add: with_warmer_def)
qed (auto intro: conns.I_emit inv_intros dest: conns.I_pair)

end
