(* ===== verification/IP_Strategy.thy ===== *)
theory IP_Strategy
  imports Protocol
begin

text \<open>
  Address resolution by IP strategy (\<^verbatim>\<open>src/protocol/ip_strategy.go\<close>): the strategy parser, the DNS
  cache and the choice of an address. What the code uses of Go's \<^verbatim>\<open>net\<close> package (splitting
  host and port, parsing and printing IP addresses) is written out here; the DNS lookup itself is a
  parameter that returns \<^term>\<open>None\<close> for an error.
\<close>

section \<open>Host and port\<close>

text \<open>\<^verbatim>\<open>net.SplitHostPort\<close>: \<^term>\<open>None\<close> is an error.\<close>

definition splitLast :: "char \<Rightarrow> string \<Rightarrow> (string \<times> string) option" where
  "splitLast c s =
     (if c \<in> set s then Some (rev (tl (dropWhile (\<lambda>x. x \<noteq> c) (rev s))), rev (takeWhile (\<lambda>x. x \<noteq> c) (rev s)))
      else None)"

definition SplitHostPort :: "string \<Rightarrow> (string \<times> string) option" where
  "SplitHostPort hostport =
     (case splitLast (CHR '':'') hostport of
        None \<Rightarrow> None
      | Some (hostPart, port) \<Rightarrow>
          if hd hostport = CHR ''['' then
            let close = length (takeWhile (\<lambda>x. x \<noteq> CHR '']'') hostport)
            in if CHR '']'' \<notin> set hostport then None
               else if close + 1 = length hostport then None
               else if close + 1 \<noteq> length hostPart then None
               else if CHR ''['' \<in> set (drop 1 hostport) then None
               else if CHR '']'' \<in> set (drop (close + 1) hostport) then None
               else Some (take (close - 1) (drop 1 hostport), port)
          else if CHR '':'' \<in> set hostPart then None
          else if CHR ''['' \<in> set hostport then None
          else if CHR '']'' \<in> set hostport then None
          else Some (hostPart, port))"

section \<open>IP addresses\<close>

text \<open>A \<^verbatim>\<open>net.IP\<close> is a byte slice; the addresses of the code have 4 or 16 bytes.\<close>

type_synonym IP = bytes

definition v4InV6Prefix :: bytes where
  "v4InV6Prefix = replicate 10 0 @ [0xff, 0xff]"

definition To4 :: "IP \<Rightarrow> IP option" where
  "To4 ip =
     (if length ip = 4 then Some ip
      else if length ip = 16 \<and> take 12 ip = v4InV6Prefix then Some (drop 12 ip)
      else None)"

definition digit :: "char \<Rightarrow> nat option" where
  "digit c = (let n = of_char c :: nat in if 48 \<le> n \<and> n \<le> 57 then Some (n - 48) else None)"

definition hexDigit :: "char \<Rightarrow> nat option" where
  "hexDigit c =
     (let n = of_char c :: nat
      in if 48 \<le> n \<and> n \<le> 57 then Some (n - 48)
         else if 97 \<le> n \<and> n \<le> 102 then Some (n - 87)
         else if 65 \<le> n \<and> n \<le> 70 then Some (n - 55)
         else None)"

text \<open>\<^verbatim>\<open>netip.parseIPv4Fields\<close>: \<open>val\<close> and \<open>digLen\<close> describe the current field, \<open>fds\<close> the
  finished ones and \<open>prev\<close> says that the last character was a digit.\<close>

fun parseIPv4Fields :: "nat \<Rightarrow> nat \<Rightarrow> bytes \<Rightarrow> bool \<Rightarrow> string \<Rightarrow> bytes option" where
  "parseIPv4Fields val digLen fds prev [] =
     (if length fds < 3 then None else Some (fds @ [word_of_nat val]))"
| "parseIPv4Fields val digLen fds prev (c # cs) =
     (case digit c of
        Some d \<Rightarrow>
          if digLen = 1 \<and> val = 0 then None
          else if val * 10 + d > 255 then None
          else parseIPv4Fields (val * 10 + d) (digLen + 1) fds True cs
      | None \<Rightarrow>
          if c \<noteq> CHR ''.'' then None
          else if \<not> prev \<or> cs = [] then None
          else if length fds = 3 then None
          else parseIPv4Fields 0 0 (fds @ [word_of_nat val]) False cs)"

definition parseIPv4 :: "string \<Rightarrow> bytes option" where
  "parseIPv4 s = parseIPv4Fields 0 0 [] False s"

text \<open>The hex digits at the start of a group; \<^term>\<open>None\<close> when there are more than four.\<close>

fun hexRun :: "nat \<Rightarrow> nat \<Rightarrow> string \<Rightarrow> (nat \<times> nat \<times> string) option" where
  "hexRun off acc [] = Some (off, acc, [])"
| "hexRun off acc (c # cs) =
     (case hexDigit c of
        None \<Rightarrow> Some (off, acc, c # cs)
      | Some d \<Rightarrow> if off > 3 \<or> acc * 16 + d > 65535 then None else hexRun (off + 1) (acc * 16 + d) cs)"

text \<open>The loop of \<^verbatim>\<open>netip.parseIPv6\<close>: \<open>ip\<close> holds the bytes so far and \<open>n\<close> the groups that fit; the
  result also says where the ellipsis was and what of the text is left.\<close>

primrec parseIPv6Loop :: "nat \<Rightarrow> bytes \<Rightarrow> nat option \<Rightarrow> string \<Rightarrow> (bytes \<times> nat option \<times> string) option" where
  "parseIPv6Loop 0 ip ellipsis s = Some (ip, ellipsis, s)"
| "parseIPv6Loop (Suc n) ip ellipsis s =
     (case hexRun 0 0 s of
        None \<Rightarrow> None
      | Some (off, acc, rest) \<Rightarrow>
          if off = 0 then None
          else if rest \<noteq> [] \<and> hd rest = CHR ''.'' then
            (if ellipsis = None \<and> length ip \<noteq> 12 then None
             else if length ip + 4 > 16 then None
             else case parseIPv4 s of None \<Rightarrow> None | Some fs \<Rightarrow> Some (ip @ fs, ellipsis, []))
          else
            let ip = ip @ [word_of_nat (acc div 256), word_of_nat acc]
            in if rest = [] then Some (ip, ellipsis, [])
               else if hd rest \<noteq> CHR '':'' then None
               else if length rest = 1 then None
               else let s = tl rest
                    in if hd s = CHR '':'' then
                         (if ellipsis \<noteq> None then None
                          else if tl s = [] then Some (ip, Some (length ip), [])
                          else parseIPv6Loop n ip (Some (length ip)) (tl s))
                       else parseIPv6Loop n ip ellipsis s)"

definition parseIPv6_end :: "bytes \<Rightarrow> nat option \<Rightarrow> string \<Rightarrow> bytes option" where
  "parseIPv6_end ip ellipsis rest =
     (if rest \<noteq> [] then None
      else if length ip < 16 then
        (case ellipsis of
           None \<Rightarrow> None
         | Some e \<Rightarrow> Some (take e ip @ replicate (16 - length ip) 0 @ drop e ip))
      else if ellipsis \<noteq> None then None
      else Some ip)"

text \<open>Addresses with a zone are not IP addresses for \<^verbatim>\<open>net.ParseIP\<close>.\<close>

definition parseIPv6 :: "string \<Rightarrow> bytes option" where
  "parseIPv6 s =
     (if CHR ''%'' \<in> set s then None
      else
        let lead = (length s \<ge> 2 \<and> take 2 s = ''::'')
        in if lead \<and> length s = 2 then Some (replicate 16 0)
           else case parseIPv6Loop 8 [] (if lead then Some 0 else None) (if lead then drop 2 s else s) of
                  None \<Rightarrow> None
                | Some (ip, ellipsis, rest) \<Rightarrow> parseIPv6_end ip ellipsis rest)"

text \<open>\<^verbatim>\<open>net.ParseIP\<close>: the first of \<^verbatim>\<open>.\<close>, \<^verbatim>\<open>:\<close> and \<^verbatim>\<open>%\<close> decides; IPv4 addresses come back in 16 bytes.\<close>

definition ParseIP :: "string \<Rightarrow> IP option" where
  "ParseIP s =
     (case List.find (\<lambda>c. c \<in> {CHR ''.'', CHR '':'', CHR ''%''}) s of
        None \<Rightarrow> None
      | Some c \<Rightarrow>
          if c = CHR ''.'' then map_option (\<lambda>fs. v4InV6Prefix @ fs) (parseIPv4 s)
          else if c = CHR '':'' then parseIPv6 s
          else None)"

text \<open>Decimal and hexadecimal numbers without leading zeros.\<close>

fun showBase :: "nat \<Rightarrow> nat \<Rightarrow> string" where
  "showBase b n =
     (let c = (if n mod b < 10 then char_of (48 + n mod b) else char_of (87 + n mod b))
      in if n < b \<or> b < 2 then [c] else showBase b (n div b) @ [c])"

definition showIPv4 :: "bytes \<Rightarrow> string" where
  "showIPv4 b = showBase 10 (unat (b ! 0)) @ ''.'' @ showBase 10 (unat (b ! 1)) @ ''.'' @
     showBase 10 (unat (b ! 2)) @ ''.'' @ showBase 10 (unat (b ! 3))"

definition v6group :: "bytes \<Rightarrow> nat \<Rightarrow> nat" where
  "v6group ip i = unat (ip ! (2 * i)) * 256 + unat (ip ! (2 * i + 1))"

definition zeroRunEnd :: "bytes \<Rightarrow> nat \<Rightarrow> nat" where
  "zeroRunEnd ip i = i + length (takeWhile (\<lambda>j. v6group ip j = 0) [i..<8])"

text \<open>The first longest run of at least two zero groups.\<close>

definition zeroRun :: "bytes \<Rightarrow> (nat \<times> nat) option" where
  "zeroRun ip =
     foldl (\<lambda>best i.
         let j = zeroRunEnd ip i; l = j - i
         in if l \<ge> 2 \<and> l > (case best of None \<Rightarrow> 0 | Some (a, b) \<Rightarrow> b - a) then Some (i, j) else best)
       None [0..<8]"

fun showGroups :: "bytes \<Rightarrow> nat list \<Rightarrow> string" where
  "showGroups ip [] = ''''"
| "showGroups ip [i] = showBase 16 (v6group ip i)"
| "showGroups ip (i # j # is) = showBase 16 (v6group ip i) @ '':'' @ showGroups ip (j # is)"

definition showIPv6 :: "bytes \<Rightarrow> string" where
  "showIPv6 ip =
     (case zeroRun ip of
        None \<Rightarrow> showGroups ip [0..<8]
      | Some (a, b) \<Rightarrow> showGroups ip [0..<a] @ ''::'' @ showGroups ip [b..<8])"

text \<open>\<^verbatim>\<open>IP.String\<close>; a slice of another length is not an address and prints as its bytes in hex.\<close>

definition hexByte :: "byte \<Rightarrow> string" where
  "hexByte b = showBase 16 (unat b div 16) @ showBase 16 (unat b mod 16)"

definition IP_String :: "IP \<Rightarrow> string" where
  "IP_String ip =
     (if ip = [] then ''<nil>''
      else case To4 ip of
             Some b \<Rightarrow> showIPv4 b
           | None \<Rightarrow> if length ip = 16 then showIPv6 ip else ''?'' @ concat (map hexByte ip))"

section \<open>The DNS cache\<close>

record dnsCacheEntry =
  dc_addrs :: "IP list"
  dc_expiresAt :: instant

type_synonym dnsCache = "(string, dnsCacheEntry) dict"

definition dnsCacheTTL :: duration where
  "dnsCacheTTL = 60 * time_Second"

definition resetDNSCache :: dnsCache where
  "resetDNSCache = []"

text \<open>The clock is read twice: before the lookup, to see whether the entry has expired, and after it, for
  the new entry.\<close>

definition lookupIPCached ::
  "(string \<Rightarrow> IP list option) \<Rightarrow> instant \<times> instant \<Rightarrow> string \<Rightarrow> dnsCache \<Rightarrow> IP list option \<times> dnsCache" where
  "lookupIPCached lookupIP now host cache =
     (case dict_get cache host of
        Some entry \<Rightarrow>
          if fst now < dc_expiresAt entry then (Some (dc_addrs entry), cache)
          else let cache = dict_del cache host
               in (case lookupIP host of
                     None \<Rightarrow> (None, cache)
                   | Some addrs \<Rightarrow>
                       (Some addrs, dict_set cache host \<lparr>dc_addrs = addrs, dc_expiresAt = snd now + dnsCacheTTL\<rparr>))
      | None \<Rightarrow>
          (case lookupIP host of
             None \<Rightarrow> (None, cache)
           | Some addrs \<Rightarrow>
               (Some addrs, dict_set cache host \<lparr>dc_addrs = addrs, dc_expiresAt = snd now + dnsCacheTTL\<rparr>)))"

section \<open>Strategies\<close>

definition isSpace :: "char \<Rightarrow> bool" where
  "isSpace c \<longleftrightarrow> of_char c \<in> {9 :: nat, 10, 11, 12, 13, 32}"

text \<open>\<^verbatim>\<open>strings.TrimSpace\<close> on the ASCII strings of a command line.\<close>

definition TrimSpace :: "string \<Rightarrow> string" where
  "TrimSpace s = rev (dropWhile isSpace (rev (dropWhile isSpace s)))"

definition ParseIPStrategy :: "string \<Rightarrow> IPStrategy" where
  "ParseIPStrategy s =
     (let s = filter (\<lambda>c. c \<noteq> CHR '' '') (TrimSpace s)
      in if s = ''4'' then IPStrategyIPv4Only
         else if s = ''6'' then IPStrategyIPv6Only
         else if s = ''4,6'' then IPStrategyPv4Pv6
         else if s = ''6,4'' then IPStrategyPv6Pv4
         else IPStrategyDefault)"

definition isV4 :: "IP \<Rightarrow> bool" where
  "isV4 ip \<longleftrightarrow> To4 ip \<noteq> None"

definition addr4 :: "IP \<Rightarrow> string \<Rightarrow> string" where
  "addr4 ip port = IP_String ip @ '':'' @ port"

definition addr6 :: "IP \<Rightarrow> string \<Rightarrow> string" where
  "addr6 ip port = ''['' @ IP_String ip @ '']:'' @ port"

definition resolveIPv4Only :: "IP list option \<Rightarrow> string \<Rightarrow> string \<Rightarrow> string" where
  "resolveIPv4Only res host port =
     (case res of
        None \<Rightarrow> host @ '':'' @ port
      | Some addrs \<Rightarrow>
          (case List.find isV4 addrs of Some a \<Rightarrow> addr4 a port | None \<Rightarrow> host @ '':'' @ port))"

definition resolveIPv6Only :: "IP list option \<Rightarrow> string \<Rightarrow> string \<Rightarrow> string" where
  "resolveIPv6Only res host port =
     (case res of
        None \<Rightarrow> ''['' @ host @ '']:'' @ port
      | Some addrs \<Rightarrow>
          (case List.find (\<lambda>a. \<not> isV4 a) addrs of
             Some a \<Rightarrow> addr6 a port | None \<Rightarrow> ''['' @ host @ '']:'' @ port))"

definition resolveIPv4First :: "IP list option \<Rightarrow> string \<Rightarrow> string \<Rightarrow> string" where
  "resolveIPv4First res host port =
     (case res of
        None \<Rightarrow> host @ '':'' @ port
      | Some addrs \<Rightarrow>
          (case List.find isV4 addrs of
             Some a \<Rightarrow> addr4 a port
           | None \<Rightarrow>
               (case List.find (\<lambda>a. \<not> isV4 a) addrs of
                  Some a \<Rightarrow> addr6 a port | None \<Rightarrow> host @ '':'' @ port)))"

definition resolveIPv6First :: "IP list option \<Rightarrow> string \<Rightarrow> string \<Rightarrow> string" where
  "resolveIPv6First res host port =
     (case res of
        None \<Rightarrow> ''['' @ host @ '']:'' @ port
      | Some addrs \<Rightarrow>
          (case List.find (\<lambda>a. \<not> isV4 a) addrs of
             Some a \<Rightarrow> addr6 a port
           | None \<Rightarrow>
               (case List.find isV4 addrs of
                  Some a \<Rightarrow> addr4 a port | None \<Rightarrow> ''['' @ host @ '']:'' @ port)))"

text \<open>The four strategies share one cached lookup.\<close>

definition ResolveWithStrategy ::
  "(string \<Rightarrow> IP list option) \<Rightarrow> instant \<times> instant \<Rightarrow> string \<Rightarrow> IPStrategy \<Rightarrow> dnsCache \<Rightarrow> string \<times> dnsCache" where
  "ResolveWithStrategy lookupIP now target strategy cache =
     (case SplitHostPort target of
        None \<Rightarrow> (target, cache)
      | Some (host, port) \<Rightarrow>
          (case ParseIP host of
             Some ip \<Rightarrow>
               if To4 ip = None \<and> \<not> prefix ''['' host then (''['' @ host @ '']:'' @ port, cache)
               else (target, cache)
           | None \<Rightarrow>
               let (res, cache') = lookupIPCached lookupIP now host cache
               in if strategy = IPStrategyIPv4Only then (resolveIPv4Only res host port, cache')
                  else if strategy = IPStrategyIPv6Only then (resolveIPv6Only res host port, cache')
                  else if strategy = IPStrategyPv4Pv6 then (resolveIPv4First res host port, cache')
                  else if strategy = IPStrategyPv6Pv4 then (resolveIPv6First res host port, cache')
                  else (target, cache)))"

section \<open>Splitting and joining\<close>

lemma splitLast_append: "c \<notin> set b \<Longrightarrow> splitLast c (a @ c # b) = Some (a, b)"
proof -
  assume c: "c \<notin> set b"
  then have "takeWhile (\<lambda>x. x \<noteq> c) (rev b @ c # rev a) = rev b"
    "dropWhile (\<lambda>x. x \<noteq> c) (rev b @ c # rev a) = c # rev a"
    by (simp_all add: takeWhile_sep dropWhile_sep)
  then show ?thesis by (simp add: splitLast_def)
qed

lemma splitLast_SomeD:
  assumes "splitLast c s = Some (a, b)"
  shows "s = a @ c # b" "c \<notin> set b"
proof -
  from assms have "c \<in> set s" by (simp add: splitLast_def split: if_splits)
  then obtain x y where s: "s = x @ c # y" "c \<notin> set y" by (metis split_list_last)
  with assms show "s = a @ c # b" "c \<notin> set b" using splitLast_append [of c y x] by simp_all
qed

definition plain :: "string \<Rightarrow> bool" where
  "plain s \<longleftrightarrow> CHR '':'' \<notin> set s \<and> CHR ''['' \<notin> set s \<and> CHR '']'' \<notin> set s"

definition bracketless :: "string \<Rightarrow> bool" where
  "bracketless s \<longleftrightarrow> CHR ''['' \<notin> set s \<and> CHR '']'' \<notin> set s"

lemma SplitHostPort_plain:
  assumes "plain host" "plain port"
  shows "SplitHostPort (host @ '':'' @ port) = Some (host, port)"
proof -
  have "splitLast (CHR '':'') (host @ CHR '':'' # port) = Some (host, port)"
    using assms(2) by (intro splitLast_append) (simp add: plain_def)
  moreover have "hd (host @ CHR '':'' # port) \<noteq> CHR ''[''"
    using assms(1) by (cases host) (auto simp: plain_def)
  ultimately show ?thesis
    using assms by (simp add: SplitHostPort_def plain_def)
qed

lemma SplitHostPort_bracket:
  assumes "bracketless host" "plain port"
  shows "SplitHostPort (''['' @ host @ '']:'' @ port) = Some (host, port)"
proof -
  let ?s = "CHR ''['' # host @ CHR '']'' # CHR '':'' # port"
  have "splitLast (CHR '':'') ((CHR ''['' # host @ '']'') @ CHR '':'' # port) = Some (CHR ''['' # host @ '']'', port)"
    using assms(2) by (intro splitLast_append) (simp add: plain_def)
  then have sp: "splitLast (CHR '':'') ?s = Some (CHR ''['' # host @ '']'', port)" by simp
  have "takeWhile (\<lambda>x. x \<noteq> CHR '']'') (CHR ''['' # host @ CHR '']'' # CHR '':'' # port) = CHR ''['' # host"
    using assms(1) takeWhile_sep [of "CHR '']''" host "CHR '':'' # port"] by (simp add: bracketless_def)
  then show ?thesis
    using assms sp by (simp add: SplitHostPort_def bracketless_def plain_def)
qed

lemma SplitHostPort_SomeD:
  assumes "SplitHostPort s = Some (host, port)"
  shows "plain port" "bracketless host"
    and "s = host @ '':'' @ port \<and> plain host \<or> s = ''['' @ host @ '']:'' @ port"
proof -
  from assms obtain hp where sp: "splitLast (CHR '':'') s = Some (hp, port)"
    by (auto simp: SplitHostPort_def Let_def split: option.splits if_splits)
  note s = splitLast_SomeD [OF sp]
  have "plain port \<and> bracketless host \<and>
    (s = host @ '':'' @ port \<and> plain host \<or> s = ''['' @ host @ '']:'' @ port)"
  proof (cases "hd s = CHR ''[''")
    case False
    with assms sp s show ?thesis
      by (auto simp: SplitHostPort_def plain_def bracketless_def split: if_splits)
  next
    case True
    define n where "n = length (takeWhile (\<lambda>x. x \<noteq> CHR '']'') s)"
    from True assms sp have n: "CHR '']'' \<in> set s" "n + 1 = length hp" "CHR ''['' \<notin> set (drop 1 s)"
      "CHR '']'' \<notin> set (drop (n + 1) s)" "host = take (n - 1) (drop 1 s)"
      by (auto simp: SplitHostPort_def n_def Let_def split: if_splits)
    then obtain x y where xy: "s = x @ CHR '']'' # y" "CHR '']'' \<notin> set x" by (metis split_list_first)
    then have x: "takeWhile (\<lambda>x. x \<noteq> CHR '']'') s = x" "n = length x" by (simp_all add: n_def takeWhile_sep)
    have y: "y = CHR '':'' # port" using s(1) n(2) xy(1) x(2) append_eq_append_conv [of "x @ '']''" hp y "CHR '':'' # port"] by simp
    from True xy(1) obtain t where t: "x = CHR ''['' # t" by (cases x) auto
    then have h: "host = t" using n(5) xy(1) x(2) by simp
    have "bracketless host" using n(3) xy t h by (simp add: bracketless_def)
    moreover have "plain port" using n(3,4) s(2) xy(1) x(2) y t by (simp add: plain_def)
    moreover have "s = ''['' @ host @ '']:'' @ port" using xy(1) y t h by simp
    ultimately show ?thesis by simp
  qed
  then show "plain port" "bracketless host" "s = host @ '':'' @ port \<and> plain host \<or> s = ''['' @ host @ '']:'' @ port"
    by auto
qed

text \<open>Printed addresses.\<close>

declare showBase.simps [simp del]

lemma showBase_chars:
  assumes "c \<in> set (showBase b n)" "2 \<le> b" "b \<le> 16"
  shows "of_char c \<in> {48..57 :: nat} \<union> {97..102}"
  using assms
proof (induction b n rule: showBase.induct)
  case (1 b n)
  have "n mod b < b" using 1(3) by simp
  then have m: "n mod b < 16" using 1(4) by linarith
  let ?d = "if n mod b < 10 then char_of (48 + n mod b) else char_of (87 + n mod b)"
  have d: "of_char ?d \<in> {48..57 :: nat} \<union> {97..102}" using m by auto
  show ?case
  proof (cases "n < b \<or> b < 2")
    case True
    then have "c = ?d" using 1(2) by (simp add: showBase.simps [of b n] Let_def)
    with d show ?thesis by simp
  next
    case False
    then have "showBase b n = showBase b (n div b) @ [?d]" by (simp add: showBase.simps [of b n] Let_def)
    then have "c \<in> set (showBase b (n div b)) \<or> c = ?d" using 1(2) by auto
    with 1(1) [OF refl False _ 1(3,4)] d show ?thesis by blast
  qed
qed

lemma showBase_plain: "2 \<le> b \<Longrightarrow> b \<le> 16 \<Longrightarrow> plain (showBase b n)"
  using showBase_chars [of "CHR '':''" b n] showBase_chars [of "CHR ''[''" b n] showBase_chars [of "CHR '']''" b n]
  by (auto simp: plain_def)

lemma plain_append [simp]: "plain (a @ b) \<longleftrightarrow> plain a \<and> plain b"
  by (auto simp: plain_def)

lemma bracketless_append [simp]: "bracketless (a @ b) \<longleftrightarrow> bracketless a \<and> bracketless b"
  by (auto simp: bracketless_def)

lemma plain_bracketless: "plain s \<Longrightarrow> bracketless s"
  by (simp add: plain_def bracketless_def)

lemma showIPv4_plain: "plain (showIPv4 b)"
proof -
  have "plain ''.''" by (simp add: plain_def)
  then show ?thesis unfolding showIPv4_def plain_append by (simp add: showBase_plain)
qed

lemma showGroups_bracketless: "bracketless (showGroups ip is)"
proof (induction ip "is" rule: showGroups.induct)
  case (3 ip i j "is")
  have "bracketless '':''" by (simp add: bracketless_def)
  with 3 show ?case unfolding showGroups.simps bracketless_append by (simp add: plain_bracketless showBase_plain)
qed (simp_all add: bracketless_def [of "[]"] plain_bracketless showBase_plain)

lemma showIPv6_bracketless: "bracketless (showIPv6 ip)"
proof -
  have "bracketless ''::''" by (simp add: bracketless_def)
  then show ?thesis
    unfolding showIPv6_def by (simp only: bracketless_append showGroups_bracketless split: option.split prod.split) simp
qed

text \<open>The addresses a lookup returns have 4 or 16 bytes.\<close>

definition ip_ok :: "IP \<Rightarrow> bool" where
  "ip_ok ip \<longleftrightarrow> length ip = 4 \<or> length ip = 16"

lemma IP_String_v4: "ip_ok ip \<Longrightarrow> isV4 ip \<Longrightarrow> plain (IP_String ip)"
  by (auto simp: IP_String_def isV4_def ip_ok_def showIPv4_plain)

lemma IP_String_v6: "ip_ok ip \<Longrightarrow> bracketless (IP_String ip)"
  by (auto simp: IP_String_def To4_def ip_ok_def showIPv6_bracketless plain_bracketless showIPv4_plain)

lemma split_addr4: "ip_ok ip \<Longrightarrow> isV4 ip \<Longrightarrow> plain port \<Longrightarrow> SplitHostPort (addr4 ip port) = Some (IP_String ip, port)"
  unfolding addr4_def by (intro SplitHostPort_plain IP_String_v4)

lemma split_addr6: "ip_ok ip \<Longrightarrow> plain port \<Longrightarrow> SplitHostPort (addr6 ip port) = Some (IP_String ip, port)"
  unfolding addr6_def by (intro SplitHostPort_bracket IP_String_v6)

section \<open>Properties\<close>

text \<open>The address that a strategy asks for: the first of the wanted family; the two preference strategies
  take the first address of all when there is none.\<close>

definition wanted :: "IPStrategy \<Rightarrow> IP \<Rightarrow> bool" where
  "wanted strategy ip = (if strategy = IPStrategyIPv4Only \<or> strategy = IPStrategyPv4Pv6 then isV4 ip else \<not> isV4 ip)"

definition preferred :: "IPStrategy \<Rightarrow> IP list \<Rightarrow> IP option" where
  "preferred strategy addrs =
     (if strategy \<notin> {IPStrategyIPv4Only, IPStrategyIPv6Only, IPStrategyPv4Pv6, IPStrategyPv6Pv4} then None
      else case filter (wanted strategy) addrs of
             a # _ \<Rightarrow> Some a
           | [] \<Rightarrow> if strategy \<in> {IPStrategyPv4Pv6, IPStrategyPv6Pv4} \<and> addrs \<noteq> [] then Some (hd addrs) else None)"

lemma find_filter: "List.find P xs = (case filter P xs of [] \<Rightarrow> None | x # _ \<Rightarrow> Some x)"
  by (induction xs) auto

lemma hd_of_family: "filter P xs = [] \<Longrightarrow> filter (\<lambda>x. \<not> P x) xs = xs"
  by (simp add: filter_empty_conv filter_id_conv)

lemma resolve_choice:
  assumes "plain host" "plain port" "\<forall>a\<in>set (case res of None \<Rightarrow> [] | Some addrs \<Rightarrow> addrs). ip_ok a"
  defines "pick s \<equiv> (case res of None \<Rightarrow> host
      | Some addrs \<Rightarrow> (case preferred s addrs of Some a \<Rightarrow> IP_String a | None \<Rightarrow> host))"
  shows "SplitHostPort (resolveIPv4Only res host port) = Some (pick IPStrategyIPv4Only, port)"
    and "SplitHostPort (resolveIPv6Only res host port) = Some (pick IPStrategyIPv6Only, port)"
    and "SplitHostPort (resolveIPv4First res host port) = Some (pick IPStrategyPv4Pv6, port)"
    and "SplitHostPort (resolveIPv6First res host port) = Some (pick IPStrategyPv6Pv4, port)"
proof -
  have p: "SplitHostPort (host @ '':'' @ port) = Some (host, port)" by (rule SplitHostPort_plain [OF assms(1,2)])
  have b: "SplitHostPort (''['' @ host @ '']:'' @ port) = Some (host, port)"
    by (rule SplitHostPort_bracket [OF plain_bracketless [OF assms(1)] assms(2)])
  have mem: "a \<in> set addrs \<and> P a" if "filter P addrs = a # as" for P a as addrs
    using that by (metis filter_eq_ConsD in_set_conv_decomp)
  have a4: "SplitHostPort (addr4 a port) = Some (IP_String a, port)" if "res = Some addrs" "filter isV4 addrs = a # as" for a as addrs
    using assms(2,3) mem [OF that(2)] that(1) by (intro split_addr4) auto
  have a6: "SplitHostPort (addr6 a port) = Some (IP_String a, port)" if "res = Some addrs" "filter (\<lambda>a. \<not> isV4 a) addrs = a # as" for a as addrs
    using assms(2,3) mem [OF that(2)] that(1) by (intro split_addr6) auto
  note defs = pick_def preferred_def wanted_def find_filter
  show "SplitHostPort (resolveIPv4Only res host port) = Some (pick IPStrategyIPv4Only, port)"
    using p a4 unfolding resolveIPv4Only_def defs by (auto split: option.split list.split)
  show "SplitHostPort (resolveIPv6Only res host port) = Some (pick IPStrategyIPv6Only, port)"
    using b a6 unfolding resolveIPv6Only_def defs by (auto split: option.split list.split)
  show "SplitHostPort (resolveIPv4First res host port) = Some (pick IPStrategyPv4Pv6, port)"
    using p a4 a6 hd_of_family [of isV4] unfolding resolveIPv4First_def defs
    by (auto split: option.split list.split)
  show "SplitHostPort (resolveIPv6First res host port) = Some (pick IPStrategyPv6Pv4, port)"
    using b a4 a6 hd_of_family [of "\<lambda>a. \<not> isV4 a"] unfolding resolveIPv6First_def defs
    by (auto split: option.split list.split)
qed

text \<open>Property C38: resolving an address keeps it dialable and follows the strategy. For a target with
  host and port, where the host is a name or an IP address, the resolved address splits again into
  a host and the same port. The host of an IP address is kept; for a name it is the text of the first
  address of the wanted family in the DNS answer, under a preference strategy else of the first
  address at all, and without such an address or without a strategy the name itself.\<close>

theorem resolved_address_dialable:
  assumes "SplitHostPort target = Some (host, port)" "plain host \<or> ParseIP host \<noteq> None"
    and "\<forall>addrs. fst (lookupIPCached lookupIP now host cache) = Some addrs \<longrightarrow> (\<forall>a\<in>set addrs. ip_ok a)"
  shows "SplitHostPort (fst (ResolveWithStrategy lookupIP now target strategy cache)) = Some
    (if ParseIP host \<noteq> None then host
     else case fst (lookupIPCached lookupIP now host cache) of
            None \<Rightarrow> host
          | Some addrs \<Rightarrow> (case preferred strategy addrs of Some a \<Rightarrow> IP_String a | None \<Rightarrow> host), port)"
proof (cases "ParseIP host")
  case (Some ip)
  have "SplitHostPort (''['' @ host @ '']:'' @ port) = Some (host, port)"
    by (rule SplitHostPort_bracket) (use SplitHostPort_SomeD [OF assms(1)] in simp_all)
  with Some assms(1) show ?thesis by (simp add: ResolveWithStrategy_def)
next
  case None
  then have host: "plain host" using assms(2) by simp
  note port = SplitHostPort_SomeD(1) [OF assms(1)]
  obtain res cache' where l: "lookupIPCached lookupIP now host cache = (res, cache')" by fastforce
  have ok: "\<forall>a\<in>set (case res of None \<Rightarrow> [] | Some addrs \<Rightarrow> addrs). ip_ok a" using assms(3) l by (cases res) simp_all
  have r: "fst (ResolveWithStrategy lookupIP now target strategy cache) =
     (if strategy = IPStrategyIPv4Only then resolveIPv4Only res host port
      else if strategy = IPStrategyIPv6Only then resolveIPv6Only res host port
      else if strategy = IPStrategyPv4Pv6 then resolveIPv4First res host port
      else if strategy = IPStrategyPv6Pv4 then resolveIPv6First res host port
      else target)"
    using None assms(1) l by (simp add: ResolveWithStrategy_def)
  have other: "preferred strategy addrs = None"
    if "strategy \<notin> {IPStrategyIPv4Only, IPStrategyIPv6Only, IPStrategyPv4Pv6, IPStrategyPv6Pv4}" for addrs
    using that by (simp add: preferred_def)
  show ?thesis
    using resolve_choice [OF host port ok] assms(1) None l other unfolding r by (auto split: option.split)
qed

theorem resolved_address_dialable_witness:
  "SplitHostPort (fst (ResolveWithStrategy (\<lambda>_. Some [[192, 0, 2, 7]]) (0, 0) ''host:443'' IPStrategyPv6Pv4 [])) =
     Some (''192.0.2.7'', ''443'')"
proof -
  have s: "SplitHostPort ''host:443'' = Some (''host'', ''443'')"
    using SplitHostPort_plain [of "''host''" "''443''"] by (simp add: plain_def)
  have p: "plain ''host''" by (simp add: plain_def)
  have l: "fst (lookupIPCached (\<lambda>_. Some [[192, 0, 2, 7]]) (0, 0) ''host'' []) = Some [[192, 0, 2, 7]]"
    by (simp add: lookupIPCached_def)
  have ok: "\<forall>addrs. fst (lookupIPCached (\<lambda>_. Some [[192, 0, 2, 7]]) (0, 0) ''host'' []) = Some addrs \<longrightarrow> (\<forall>a\<in>set addrs. ip_ok a)"
    unfolding l by (simp add: ip_ok_def)
  have t: "IP_String [192, 0, 2, 7] = ''192.0.2.7''" by code_simp
  have n: "ParseIP ''host'' = None" by (simp add: ParseIP_def)
  have v: "preferred IPStrategyPv6Pv4 [[192, 0, 2, 7]] = Some [192, 0, 2, 7]"
    by (simp add: preferred_def wanted_def isV4_def To4_def)
  show ?thesis
    using resolved_address_dialable [OF s disjI1 [OF p] ok, of IPStrategyPv6Pv4] by (simp add: l n v t)
qed

text \<open>Fact: a host with a colon that is not an IP address, such as an IPv6 address with a zone,
  loses its brackets. Under the IPv4 strategies, when the lookup fails, the result is an address
  that no longer splits into host and port.\<close>

theorem zone_address_loses_brackets:
  assumes "SplitHostPort target = Some (host, port)" "CHR '':'' \<in> set host" "ParseIP host = None"
    and "fst (lookupIPCached lookupIP now host cache) = None"
    and "strategy = IPStrategyIPv4Only \<or> strategy = IPStrategyPv4Pv6"
  shows "SplitHostPort (fst (ResolveWithStrategy lookupIP now target strategy cache)) = None"
proof -
  have r: "fst (ResolveWithStrategy lookupIP now target strategy cache) = host @ '':'' @ port"
    using assms by (auto simp: ResolveWithStrategy_def resolveIPv4Only_def resolveIPv4First_def split: prod.split)
  have "splitLast (CHR '':'') (host @ CHR '':'' # port) = Some (host, port)"
    using SplitHostPort_SomeD(1) [OF assms(1)] by (intro splitLast_append) (simp add: plain_def)
  moreover have "hd (host @ CHR '':'' # port) \<noteq> CHR ''[''"
    using SplitHostPort_SomeD(2) [OF assms(1)] assms(2) by (cases host) (auto simp: bracketless_def)
  ultimately show ?thesis unfolding r using assms(2) by (simp add: SplitHostPort_def)
qed

theorem zone_address_loses_brackets_witness:
  "SplitHostPort (fst (ResolveWithStrategy (\<lambda>_. None) (0, 0) ''[fe80::1%eth0]:80'' IPStrategyIPv4Only [])) = None"
proof -
  have s: "SplitHostPort ''[fe80::1%eth0]:80'' = Some (''fe80::1%eth0'', ''80'')"
    using SplitHostPort_bracket [of "''fe80::1%eth0''" "''80''"] by (simp add: plain_def bracketless_def)
  show ?thesis
    by (rule zone_address_loses_brackets [OF s]) (simp_all add: ParseIP_def parseIPv6_def lookupIPCached_def)
qed

text \<open>Property C39: the DNS cache answers for one minute. After a lookup that went out and succeeded, the
  next lookups of the same host within a minute return the same addresses without going out and
  leave the cache alone; later ones go out again, and so does the one after a failed lookup.\<close>

theorem dns_cache_contract:
  assumes "\<forall>e. dict_get cache host = Some e \<longrightarrow> dc_expiresAt e \<le> fst now"
    and "lookupIPCached lookupIP now host cache = (res, cache1)"
  shows "res = lookupIP host \<and>
    (\<forall>addrs lookupIP' now'. res = Some addrs \<longrightarrow> fst now' < snd now + dnsCacheTTL \<longrightarrow>
       lookupIPCached lookupIP' now' host cache1 = (Some addrs, cache1)) \<and>
    (\<forall>lookupIP' now'. res = None \<or> snd now + dnsCacheTTL \<le> fst now' \<longrightarrow>
       fst (lookupIPCached lookupIP' now' host cache1) = lookupIP' host)"
proof -
  have 1: "res = lookupIP host \<and> dict_get cache1 host =
      map_option (\<lambda>addrs. \<lparr>dc_addrs = addrs, dc_expiresAt = snd now + dnsCacheTTL\<rparr>) (lookupIP host)"
    using assms by (cases "lookupIP host") (auto simp: lookupIPCached_def Let_def split: option.splits if_splits)
  then show ?thesis by (cases "lookupIP host") (auto simp: lookupIPCached_def Let_def split: option.split)
qed

theorem dns_cache_contract_witness:
  "lookupIPCached (\<lambda>_. None) (30 * time_Second, 30 * time_Second) ''h''
     (snd (lookupIPCached (\<lambda>_. Some [[192, 0, 2, 7]]) (0, 0) ''h'' [])) =
   (Some [[192, 0, 2, 7]], snd (lookupIPCached (\<lambda>_. Some [[192, 0, 2, 7]]) (0, 0) ''h'' []))"
  using dns_cache_contract [of "[]" "''h''" "(0, 0)" "\<lambda>_. Some [[192, 0, 2, 7]]" "Some [[192, 0, 2, 7]]"
      "snd (lookupIPCached (\<lambda>_. Some [[192, 0, 2, 7]]) (0, 0) ''h'' [])"]
  by (simp add: lookupIPCached_def dnsCacheTTL_def time_Second_def)

end
