(* ===== verification/Proxy_Dialer.thy ===== *)
theory Proxy_Dialer
  imports Client_Conn IP_Strategy
begin

text \<open>
  The dialers that the SOCKS5 and HTTP proxies use (\<^verbatim>\<open>src/proxy_dialer.go\<close>): TCP streams over the
  pool and UDP channels. \<^verbatim>\<open>DialStream\<close> waits for the connection status, so it has a first part,
  a test whether it waits, and an end for each way the wait can end. The in-memory pipe comes from
  another module: its two ends are connection numbers, and what is read from it is not modelled.
\<close>

section \<open>TCP streams\<close>

definition DialStream_begin_client ::
  "register_env \<Rightarrow> string \<Rightarrow> nat \<Rightarrow> string \<Rightarrow> clientPool \<Rightarrow> string \<times> call" where
  "DialStream_begin_client env uuid sink target p =
     (let (pair, p) =
        (if cf_EnableHotPair (cp_config p) \<and> cp_hasWarmer p
         then let (pair, w) = AcquirePrimary (cp_warmer p) in (pair, p\<lparr>cp_warmer := w\<rparr>)
         else (None, p));
          connID = (case pair of
                      None \<Rightarrow> uuid
                    | Some h \<Rightarrow> HotPairConnID (pr_PrebindID (pw_heap (cp_warmer p) h)) uuid)
      in (connID, registerAndBroadcastTCPWithPair env connID target [] (Some sink) ''SOCKS5'' pair p))"

text \<open>Whether the dial has a connection signal to wait for; without one it returns a stream at once.\<close>

definition dialWaits :: "clientPool \<Rightarrow> string \<Rightarrow> bool" where
  "dialWaits p connID =
     (case dict_get (cp_conns p) connID of None \<Rightarrow> False | Some st \<Rightarrow> cc_connected st \<noteq> None)"

datatype stream_event = StreamConnected | StreamTimedOut | StreamCancelled

definition DialStream_end :: "(chid \<Rightarrow> send_env) \<Rightarrow> stream_event \<Rightarrow> string \<Rightarrow> clientPool \<Rightarrow> bool \<times> call" where
  "DialStream_end env ev connID p =
     (if ev = StreamConnected
      then (True, returns (upd_cconn connID (cc_connected_update (map_option (\<lambda>_. False))) p))
      else (False, Unregister env connID p))"

record pipeStream =
  ps_connID :: string
  ps_source :: nat
  ps_closed :: bool

definition pipeWrite ::
  "(chid \<Rightarrow> send_env) \<Rightarrow> pipeStream \<Rightarrow> bytes \<Rightarrow> clientPool \<Rightarrow> (send_outcome + nat) \<times> clientPool" where
  "pipeWrite env s data p =
     (case GetUplinkChannel p (ps_connID s) of
        Some chID \<Rightarrow>
          let (res, p) = SendDataDirect (env chID) chID (ps_connID s) data p
          in (if res = Sent then Inr (length data) else Inl res, p)
      | None \<Rightarrow>
          (Inr (length data),
           snd (broadcastWrite_client env BinaryMessage (EncodeMessage MsgTCPData (ps_connID s) [] data) p)))"

definition CloseWrite :: "(chid \<Rightarrow> send_env) \<Rightarrow> pipeStream \<Rightarrow> clientPool \<Rightarrow> clientPool" where
  "CloseWrite env s p =
     (case GetUplinkChannel p (ps_connID s) of
        Some chID \<Rightarrow> snd (SendCloseDirect (env chID) chID (ps_connID s) p)
      | None \<Rightarrow>
          snd (broadcastWrite_client env BinaryMessage (EncodeMessage MsgTCPClose (ps_connID s) [] []) p))"

text \<open>The guarded function of \<^verbatim>\<open>Close\<close> does not reach the stream's own \<^verbatim>\<open>once\<close> again, so its state is
  one bit.\<close>

definition pipeClose :: "(chid \<Rightarrow> send_env) \<Rightarrow> pipeStream \<Rightarrow> clientPool \<Rightarrow> pipeStream \<times> call" where
  "pipeClose env s p =
     (if ps_closed s then (s, returns p)
      else (s\<lparr>ps_closed := True\<rparr>,
            Unregister env (ps_connID s) (cemit (ConnClose (ps_source s)) (CloseWrite env s p))))"

section \<open>UDP channels\<close>

definition DialUDP :: "string \<Rightarrow> int list \<Rightarrow> clientPool \<Rightarrow> ref \<times> clientPool" where
  "DialUDP uuid blockedPorts p =
     (let c = cp_nextUdp p;
          p = p\<lparr>cp_nextUdp := c + 1,
                cp_udpHeap := (cp_udpHeap p)(c := blank_udp\<lparr>uc_connID := uuid, uc_blocked := blockedPorts\<rparr>)\<rparr>
      in (c, RegisterUDP uuid c p))"

text \<open>\<^verbatim>\<open>strconv.Atoi\<close>: an optional sign and decimal digits within the range of a 64-bit integer.\<close>

definition natOfDigits :: "string \<Rightarrow> nat option" where
  "natOfDigits s =
     (if s = [] \<or> (\<exists>c\<in>set s. digit c = None) then None
      else Some (foldl (\<lambda>n c. n * 10 + the (digit c)) 0 s))"

definition Atoi :: "string \<Rightarrow> int option" where
  "Atoi s =
     (let neg = (s \<noteq> [] \<and> hd s = CHR ''-'');
          body = (if s \<noteq> [] \<and> (hd s = CHR ''-'' \<or> hd s = CHR ''+'') then tl s else s)
      in case natOfDigits body of
           None \<Rightarrow> None
         | Some n \<Rightarrow>
             let v = (if neg then - int n else int n)
             in if - (2 ^ 63) \<le> v \<and> v < 2 ^ 63 then Some v else None)"

datatype udp_error = UDPClosed | UDPBadTarget | UDPSendFailed send_outcome

definition portBlocked :: "string \<Rightarrow> int list \<Rightarrow> bool" where
  "portBlocked ps blocked = (case Atoi ps of None \<Rightarrow> False | Some port \<Rightarrow> port \<in> set blocked)"

definition strategyBlocks :: "IPStrategy \<Rightarrow> string \<Rightarrow> bool" where
  "strategyBlocks strategy host =
     (case ParseIP host of
        None \<Rightarrow> False
      | Some ip \<Rightarrow>
          strategy = IPStrategyIPv4Only \<and> To4 ip = None \<or>
          strategy = IPStrategyIPv6Only \<and> To4 ip \<noteq> None)"

definition startRace :: "register_env \<Rightarrow> string \<Rightarrow> ref \<Rightarrow> clientPool \<Rightarrow> call" where
  "startRace env target c p =
     (if uc_raceOn (cp_udpHeap p c) then returns p
      else StartUDPRace env (uc_connID (cp_udpHeap p c)) target (upd_udp c (uc_raceOn_update (\<lambda>_. True)) p))"

definition UDP_Send ::
  "register_env \<Rightarrow> (chid \<Rightarrow> send_env) \<Rightarrow> string \<Rightarrow> bytes \<Rightarrow> ref \<Rightarrow> clientPool \<Rightarrow> udp_error option \<times> call" where
  "UDP_Send renv env target data c p =
     (let ch = cp_udpHeap p c
      in if uc_done ch then (Some UDPClosed, returns p)
         else case SplitHostPort target of
           None \<Rightarrow> (Some UDPBadTarget, returns p)
         | Some (host, ps) \<Rightarrow>
             if portBlocked ps (uc_blocked ch) then (None, returns p)
             else if strategyBlocks (cf_IPStrategy (cp_config p)) host then (None, returns p)
             else
               let (ok, p) = startRace renv target c p
               in if \<not> ok then (None, (False, p))
                  else case GetUplinkChannel p (uc_connID ch) of
                         Some chID \<Rightarrow>
                           let (res, p) = SendUDPDataDirect (env chID) chID (uc_connID ch) data p
                           in (if res = Sent then None else Some (UDPSendFailed res), returns p)
                       | None \<Rightarrow>
                           (None, returns (snd (broadcastWrite_client env BinaryMessage
                              (EncodeMessage MsgUDPData (uc_connID ch) [] data) p))))"

text \<open>\<^verbatim>\<open>ReadFrom\<close>: \<^term>\<open>None\<close> while it blocks, else a datagram or the end. With both ready Go picks
  either; \<open>pick\<close> says whether it picks the datagram.\<close>

definition ReadFrom :: "bool \<Rightarrow> ref \<Rightarrow> clientPool \<Rightarrow> udpDatagram option option \<times> clientPool" where
  "ReadFrom pick c p =
     (case uc_down (cp_udpHeap p c) of
        dg # dgs \<Rightarrow>
          if \<not> uc_done (cp_udpHeap p c) \<or> pick
          then (Some (Some dg), upd_udp c (uc_down_update (\<lambda>_. dgs)) p)
          else (Some None, p)
      | [] \<Rightarrow> if uc_done (cp_udpHeap p c) then (Some None, p) else (None, p))"

definition UDP_Close :: "(chid \<Rightarrow> send_env) \<Rightarrow> ref \<Rightarrow> clientPool \<Rightarrow> call" where
  "UDP_Close env c p = stop env c p"

section \<open>Registration keeps the invariants\<close>

lemma cq_ok_conns [inv_intros]:
  "cq_ok p \<Longrightarrow> cq_ok (p\<lparr>cp_conns := m\<rparr>)" "cq_ok p \<Longrightarrow> cq_ok (with_warmer f p)" "cq_ok p \<Longrightarrow> cq_ok (p\<lparr>cp_warmer := w\<rparr>)"
  "cq_ok p \<Longrightarrow> cq_ok (upd_cconn c g p)" "cq_ok p \<Longrightarrow> cq_ok (registerTCP env c t tc rt p)"
  "cq_ok p \<Longrightarrow> cq_ok (upd_udp s h p)" "cq_ok p \<Longrightarrow> cq_ok (RegisterUDP c s p)"
  by (rule cq_ok_cong, assumption; simp add: with_warmer_def upd_cconn_def registerTCP_def upd_udp_def RegisterUDP_def
      Let_def split: option.split)+

text \<open>A pair that has been acquired for a connection that does not hold it yet.\<close>

definition owed :: "ref \<Rightarrow> clientPool \<Rightarrow> bool" where
  "owed h p \<longleftrightarrow> warmer_ok (cp_warmer p) \<and> conns_ok (with_warmer (upd_pair h (pr_refs_update (\<lambda>n. n - 1))) p)"

lemma owedD:
  assumes "owed h p"
  shows "dict_ok (cp_conns p)" "warmer_ok (cp_warmer p)" "dict_get (cp_conns p) c = Some st \<Longrightarrow> \<not> cc_closed st"
    "dict_get (cp_conns p) c = Some st \<Longrightarrow> cc_pair st \<noteq> None \<Longrightarrow>
       cp_hasWarmer p \<and> cc_udpSink st = None \<and> cc_target st \<noteq> PrebindTarget"
    "pair_refs (cp_warmer p) r = holders (cp_conns p) r + (if r = h then 1 else 0)"
proof -
  have ok: "conns_ok (with_warmer (upd_pair h (pr_refs_update (\<lambda>n. n - 1))) p)" and w: "warmer_ok (cp_warmer p)"
    using assms by (simp_all add: owed_def)
  show "warmer_ok (cp_warmer p)" by (rule w)
  show "dict_ok (cp_conns p)" using conns_okD(1) [OF ok] by simp
  show "dict_get (cp_conns p) c = Some st \<Longrightarrow> \<not> cc_closed st" using conns_okD(3) [OF ok, of c st] by simp
  show "dict_get (cp_conns p) c = Some st \<Longrightarrow> cc_pair st \<noteq> None \<Longrightarrow>
       cp_hasWarmer p \<and> cc_udpSink st = None \<and> cc_target st \<noteq> PrebindTarget"
    using conns_okD(4) [OF ok, of c st] by (simp add: with_warmer_def)
  show "pair_refs (cp_warmer p) r = holders (cp_conns p) r + (if r = h then 1 else 0)"
    using conns_okD(5) [OF ok, of r] by (auto simp: upd_pair_def split: if_splits)
qed

lemma owedI:
  assumes "dict_ok (cp_conns p)" "warmer_ok (cp_warmer p)" "\<And>c st. dict_get (cp_conns p) c = Some st \<Longrightarrow> \<not> cc_closed st"
    "\<And>c st. dict_get (cp_conns p) c = Some st \<Longrightarrow> cc_pair st \<noteq> None \<Longrightarrow>
       cp_hasWarmer p \<and> cc_udpSink st = None \<and> cc_target st \<noteq> PrebindTarget"
    "\<And>r. pair_refs (cp_warmer p) r = holders (cp_conns p) r + (if r = h then 1 else 0)"
  shows "owed h p"
proof -
  have "warmer_ok (upd_pair h (pr_refs_update (\<lambda>n. n - 1)) (cp_warmer p))"
    using warmer_okD(4) [OF assms(2), of h] by (intro warmer_ok_refs [OF assms(2)]) simp
  moreover have "pair_refs (upd_pair h (pr_refs_update (\<lambda>n. n - 1)) (cp_warmer p)) r = holders (cp_conns p) r" for r
    using assms(5) [of r] by (auto simp: upd_pair_def)
  ultimately show ?thesis
    using assms(1-4) by (simp add: owed_def conns_ok_def) (simp add: with_warmer_def)
qed

lemma acquire_owed:
  assumes ok: "conns_ok p" and a: "AcquirePrimary (cp_warmer p) = (pair, w)"
  shows "case pair of None \<Rightarrow> w = cp_warmer p | Some h \<Rightarrow> owed h (p\<lparr>cp_warmer := w\<rparr>)"
  using a
proof (cases rule: acquire_cases [of "cp_warmer p"])
  case (2 r)
  with a have w: "pair = Some r" "w = upd_pair r (pr_refs_update (\<lambda>n. n + 1)) (cp_warmer p)" by simp_all
  have "warmer_ok w" using warmer_ok_acquire [OF conns_okD(2) [OF ok]] a by simp
  then have "owed r (p\<lparr>cp_warmer := w\<rparr>)"
    using conns_okD(1) [OF ok] conns_okD(3) [OF ok] conns_okD(4) [OF ok] conns_okD(5) [OF ok]
    by (intro owedI) (auto simp: w(2) upd_pair_def)
  with w(1) show ?thesis by simp
qed simp

lemma owed_set:
  assumes ow: "owed h p" and new: "dict_get (cp_conns p) c = None" and st: "cc_pair st = None" "\<not> cc_closed st"
  shows "owed h (p\<lparr>cp_conns := dict_set (cp_conns p) c st\<rparr>)"
proof (rule owedI)
  show "dict_ok (cp_conns (p\<lparr>cp_conns := dict_set (cp_conns p) c st\<rparr>))" using owedD(1) [OF ow] by simp
  show "warmer_ok (cp_warmer (p\<lparr>cp_conns := dict_set (cp_conns p) c st\<rparr>))" using owedD(2) [OF ow] by simp
  show "pair_refs (cp_warmer (p\<lparr>cp_conns := dict_set (cp_conns p) c st\<rparr>)) r =
      holders (cp_conns (p\<lparr>cp_conns := dict_set (cp_conns p) c st\<rparr>)) r + (if r = h then 1 else 0)" for r
    using owedD(5) [OF ow, of r] holders_set [OF owedD(1) [OF ow], of c st r] new st by simp
  fix d s assume "dict_get (cp_conns (p\<lparr>cp_conns := dict_set (cp_conns p) c st\<rparr>)) d = Some s"
  then have d: "d = c \<and> s = st \<or> dict_get (cp_conns p) d = Some s" by (auto split: if_splits)
  then show "\<not> cc_closed s" using owedD(3) [OF ow] st(2) by blast
  assume "cc_pair s \<noteq> None"
  with d st(1) have "dict_get (cp_conns p) d = Some s" by auto
  from owedD(4) [OF ow this \<open>cc_pair s \<noteq> None\<close>]
  show "cp_hasWarmer (p\<lparr>cp_conns := dict_set (cp_conns p) c st\<rparr>) \<and> cc_udpSink s = None \<and> cc_target s \<noteq> PrebindTarget"
    by simp
qed

lemma conns_okI:
  assumes "dict_ok (cp_conns p)" "warmer_ok (cp_warmer p)" "\<And>c st. dict_get (cp_conns p) c = Some st \<Longrightarrow> \<not> cc_closed st"
    "\<And>c st. dict_get (cp_conns p) c = Some st \<Longrightarrow> cc_pair st \<noteq> None \<Longrightarrow>
       cp_hasWarmer p \<and> cc_udpSink st = None \<and> cc_target st \<noteq> PrebindTarget"
    "\<And>r. pair_refs (cp_warmer p) r = holders (cp_conns p) r"
  shows "conns_ok p"
  using assms by (simp add: conns_ok_def)

text \<open>The connection takes the pair, and gives it up again when the unicast fails.\<close>

lemma take_pair:
  assumes ow: "owed h p" and st: "dict_get (cp_conns p) c = Some st" "cc_pair st = None" "cc_udpSink st = None"
    "cc_target st \<noteq> PrebindTarget" and w: "cp_hasWarmer p"
  shows "conns_ok (upd_cconn c (\<lambda>st. st\<lparr>cc_pair := Some h, cc_uplink := up\<rparr>) p)"
proof -
  have u: "upd_cconn c (\<lambda>st. st\<lparr>cc_pair := Some h, cc_uplink := up\<rparr>) p =
      p\<lparr>cp_conns := dict_set (cp_conns p) c (st\<lparr>cc_pair := Some h, cc_uplink := up\<rparr>)\<rparr>"
    using st(1) by (simp add: upd_cconn_def)
  have "\<not> cc_closed st" by (rule owedD(3) [OF ow st(1)])
  then show ?thesis
    unfolding u using owedD(1,2) [OF ow] owedD(5) [OF ow] owedD(3) [OF ow] owedD(4) [OF ow] w st(2-4)
      holders_set [OF owedD(1) [OF ow], of c "st\<lparr>cc_pair := Some h, cc_uplink := up\<rparr>"] st(1)
    by (intro conns_okI) (auto split: if_splits)
qed

lemma drop_pair:
  assumes ok: "conns_ok p" and st: "dict_get (cp_conns p) c = Some st" "cc_pair st = Some h"
  shows "conns_ok (with_warmer (ReleasePair (Some h)) (upd_cconn c (\<lambda>st. st\<lparr>cc_pair := None, cc_uplink := 0\<rparr>) p))"
proof -
  have u: "upd_cconn c (\<lambda>st. st\<lparr>cc_pair := None, cc_uplink := 0\<rparr>) p =
      p\<lparr>cp_conns := dict_set (cp_conns p) c (st\<lparr>cc_pair := None, cc_uplink := 0\<rparr>)\<rparr>"
    using st(1) by (simp add: upd_cconn_def)
  show ?thesis
    unfolding u using conns_okD(1) [OF ok] warmer_ok_release [OF conns_okD(2) [OF ok]] conns_okD(3) [OF ok] conns_okD(4) [OF ok]
      conns_okD(5) [OF ok] holders_set [OF conns_okD(1) [OF ok], of c "st\<lparr>cc_pair := None, cc_uplink := 0\<rparr>"] st
      release_refs [of "Some h" "cp_warmer p"]
    by (intro conns_okI) (auto simp: with_warmer_def split: if_splits)
qed

lemma conns_ok_invalidate: "conns_ok p \<Longrightarrow> conns_ok (with_warmer (PW_InvalidateChannel ch) p)"
  by (rule conns_ok_upkeep) (auto simp: with_warmer_def intro: ws_invalidate)

text \<open>The connection as it is registered under a fresh identifier.\<close>

definition fresh_state :: "register_env \<Rightarrow> string \<Rightarrow> nat option \<Rightarrow> string \<Rightarrow> clientConnState" where
  "fresh_state env target tc reqType =
     new_conn_state\<lparr>cc_tcpConn := tc, cc_target := target, cc_connected := Some False, cc_start := Some (re_now env),
       cc_reqType := reqType, cc_clientAddr := (case (tc, re_raddr env) of (Some _, Some a) \<Rightarrow> a | _ \<Rightarrow> '''')\<rparr>"

lemma registerTCP_fresh:
  assumes "dict_get (cp_conns p) c = None"
  shows "registerTCP env c target tc reqType p =
    p\<lparr>cp_conns := dict_set (cp_conns p) c (fresh_state env target tc reqType)\<rparr>"
  using assms
  by (cases tc; cases "re_raddr env") (auto simp: registerTCP_def fresh_state_def connState_def new_conn_state_def Let_def)

lemma fresh_state_simps [simp]:
  "cc_pair (fresh_state env t tc rt) = None" "cc_udpSink (fresh_state env t tc rt) = None"
  "\<not> cc_closed (fresh_state env t tc rt)" "cc_target (fresh_state env t tc rt) = t"
  "cc_tcpConn (fresh_state env t tc rt) = tc" "cc_connected (fresh_state env t tc rt) = Some False"
  "cc_downlink (fresh_state env t tc rt) = 0" "cc_uplink (fresh_state env t tc rt) = 0"
  by (simp_all add: fresh_state_def new_conn_state_def)

abbreviation pool_ok :: "clientPool \<Rightarrow> bool" where
  "pool_ok p \<equiv> cq_ok p \<and> conns_ok p"

lemma register_cold:
  assumes "pool_ok p" "dict_get (cp_conns p) c = None"
  shows "pool_ok (snd (registerAndBroadcastTCPWithPair env c target first tc rt None p))"
proof -
  have "pool_ok (registerTCP env c target tc rt p)"
    using assms by (auto simp: registerTCP_fresh intro: conns_ok_set inv_intros)
  then show ?thesis
    using accounts.I_broadcastConnect by (simp add: registerAndBroadcastTCPWithPair_def Let_def)
qed

text \<open>A pair never changes its channels.\<close>

lemma uplink_ReleasePair [simp]: "pr_UplinkChID (pw_heap (ReleasePair x w) r) = pr_UplinkChID (pw_heap w r)"
  by (cases x) (simp_all add: ReleasePair_def ensurePrimaryLocked_def removePair_def setState_def upd_pair_def Let_def)

lemma hotFallback_eq:
  "hotFallback c h p = with_warmer (PW_InvalidateChannel (pr_UplinkChID (pw_heap (cp_warmer p) h))) (with_warmer (ReleasePair (Some h))
     (upd_cconn c (\<lambda>st. st\<lparr>cc_pair := None, cc_uplink := 0\<rparr>) p))"
  by (simp add: hotFallback_def Let_def) (simp add: with_warmer_def upd_cconn_def split: option.split)

lemma register_hot:
  assumes ow: "owed h p" and cq: "cq_ok p" and new: "dict_get (cp_conns p) c = None"
    and w: "cp_hasWarmer p" and t: "target \<noteq> PrebindTarget"
  shows "pool_ok (snd (registerAndBroadcastTCPWithPair env c target first tc rt (Some h) p))"
proof -
  define p1 where "p1 = registerTCP env c target tc rt p"
  define msg where "msg = EncodeMessage MsgTCPConnect c (connect_meta p1 target) first"
  define up where "up = pr_UplinkChID (pw_heap (cp_warmer p1) h)"
  define p2 where "p2 = presetPair c h p1"
  obtain res p3 where a: "asyncWriteDirect (re_direct env) up BinaryMessage msg p2 = (res, p3)" by fastforce
  have p1: "p1 = p\<lparr>cp_conns := dict_set (cp_conns p) c (fresh_state env target tc rt)\<rparr>"
    unfolding p1_def by (rule registerTCP_fresh [OF new])
  have "owed h p1" unfolding p1 by (rule owed_set [OF ow new]) simp_all
  moreover have st1: "dict_get (cp_conns p1) c = Some (fresh_state env target tc rt)" by (simp add: p1)
  ultimately have ok2: "pool_ok p2"
    unfolding p2_def presetPair_def using w t cq by (auto intro!: take_pair inv_intros simp: p1)
  then have ok3: "pool_ok p3"
    using conns.I_send [of p2 "re_direct env" up BinaryMessage msg] budget.I_send [of p2 "re_direct env" up BinaryMessage msg] a
    by simp
  have "cp_conns p3 = cp_conns p2" using asyncWriteDirect_fields(1) [of "re_direct env" up BinaryMessage msg p2] a by simp
  then have st3: "dict_get (cp_conns p3) c = Some ((fresh_state env target tc rt)\<lparr>cc_pair := Some h, cc_uplink := up\<rparr>)"
    using st1 by (simp add: p2_def presetPair_def upd_cconn_def up_def)
  define p4 where "p4 = hotFallback c h p3"
  have ok4: "pool_ok p4"
    unfolding p4_def hotFallback_eq using ok3 drop_pair [OF _ st3] by (auto intro!: conns_ok_invalidate inv_intros)
  have "registerAndBroadcastTCPWithPair env c target first tc rt (Some h) p =
      (if res = Sent then returns p3 else broadcastConnect env c msg p4)"
    using a by (simp add: registerAndBroadcastTCPWithPair_def p1_def msg_def up_def p2_def p4_def Let_def)
  then show ?thesis using ok3 ok4 accounts.I_broadcastConnect by simp
qed

text \<open>The identifier a dial registers under.\<close>

definition dial_id :: "string \<Rightarrow> clientPool \<Rightarrow> string" where
  "dial_id uuid p =
     (case (if cf_EnableHotPair (cp_config p) \<and> cp_hasWarmer p then fst (AcquirePrimary (cp_warmer p)) else None) of
        None \<Rightarrow> uuid
      | Some h \<Rightarrow> HotPairConnID (pr_PrebindID (pw_heap (cp_warmer p) h)) uuid)"

lemma acquire_key: "AcquirePrimary w = (Some h, w') \<Longrightarrow> pr_PrebindID (pw_heap w' h) = pr_PrebindID (pw_heap w h)"
  by (cases rule: acquire_cases [of w]) (auto simp: upd_pair_def)

lemma DialStream_begin_id: "fst (DialStream_begin_client env uuid sink target p) = dial_id uuid p"
  by (cases "AcquirePrimary (cp_warmer p)")
    (auto simp: DialStream_begin_client_def dial_id_def acquire_key Let_def split: option.split)

lemma pool_ok_dial:
  assumes ok: "pool_ok p" and new: "dict_get (cp_conns p) (dial_id uuid p) = None" and t: "target \<noteq> PrebindTarget"
  shows "pool_ok (snd (snd (DialStream_begin_client env uuid sink target p)))"
proof (cases "cf_EnableHotPair (cp_config p) \<and> cp_hasWarmer p")
  case True
  obtain pair w where a: "AcquirePrimary (cp_warmer p) = (pair, w)" by fastforce
  show ?thesis
  proof (cases pair)
    case None
    then have "w = cp_warmer p" using acquire_owed [of p pair w] ok a by simp
    with True a None ok new show ?thesis
      by (simp add: DialStream_begin_client_def dial_id_def register_cold)
  next
    case (Some h)
    have "owed h (p\<lparr>cp_warmer := w\<rparr>)" using acquire_owed [of p pair w] ok a Some by simp
    with True a Some ok new t show ?thesis
      by (simp add: DialStream_begin_client_def dial_id_def acquire_key register_hot Let_def inv_intros)
  qed
qed (use ok new in \<open>auto simp: DialStream_begin_client_def dial_id_def register_cold\<close>)

lemma pool_ok_upd:
  assumes "pool_ok p" "\<And>st. cc_pair (g st) = cc_pair st" "\<And>st. cc_closed (g st) = cc_closed st"
    "\<And>st. cc_udpSink (g st) = cc_udpSink st" "\<And>st. cc_target (g st) = cc_target st"
  shows "pool_ok (upd_cconn c g p)"
proof (cases "dict_get (cp_conns p) c")
  case (Some st)
  then have "conns_ok (p\<lparr>cp_conns := dict_set (cp_conns p) c (g st)\<rparr>)"
    using assms(1) conns_okD(3,4) [of p c st] by (intro conns_ok_set) (auto simp: assms(2-5))
  with Some assms(1) show ?thesis by (auto simp: upd_cconn_def inv_intros)
qed (use assms(1) in \<open>simp add: upd_cconn_def\<close>)

lemma pool_ok_stream [inv_intros]:
  "pool_ok p \<Longrightarrow> pool_ok (snd (snd (DialStream_end env ev c p)))"
  "pool_ok p \<Longrightarrow> pool_ok (snd (pipeWrite env s data p))"
  "pool_ok p \<Longrightarrow> pool_ok (CloseWrite env s p)"
  "pool_ok p \<Longrightarrow> pool_ok (snd (snd (pipeClose env s p)))"
proof -
  assume ok: "pool_ok p"
  show "pool_ok (snd (snd (DialStream_end env ev c p)))"
    using ok by (simp add: DialStream_end_def accounts.I_Unregister pool_ok_upd)
  show "pool_ok (snd (pipeWrite env s data p))"
    using ok by (simp add: pipeWrite_def accounts.I_broadcast accounts.I_SendDataDirect Let_def split_def split: option.split)
  show cw: "pool_ok (CloseWrite env s p)"
    using ok by (simp add: CloseWrite_def accounts.I_SendCloseDirect accounts.I_broadcast split: option.split)
  show "pool_ok (snd (snd (pipeClose env s p)))"
    using ok cw by (simp add: pipeClose_def accounts.I_Unregister accounts.I_emit)
qed

lemma split_not_prebind: "SplitHostPort t = Some hp \<Longrightarrow> t \<noteq> PrebindTarget"
proof
  assume s: "SplitHostPort t = Some hp" and t: "t = PrebindTarget"
  obtain h q where hp: "hp = (h, q)" by fastforce
  then have "CHR '':'' \<in> set t" using SplitHostPort_SomeD(3) [of t h q] s by auto
  with t show False by (simp add: PrebindTarget_def)
qed

lemma pool_ok_RegisterUDP:
  assumes "pool_ok p" "dict_get (cp_conns p) c = None"
  shows "pool_ok (RegisterUDP c s p)"
  using assms by (auto simp: RegisterUDP_def connState_def new_conn_state_def Let_def intro!: conns_ok_set inv_intros)

lemma pool_ok_DialUDP:
  assumes "pool_ok p" "dict_get (cp_conns p) uuid = None"
  shows "pool_ok (snd (DialUDP uuid blockedPorts p))"
proof -
  have "cq_ok (p\<lparr>cp_nextUdp := n, cp_udpHeap := h\<rparr>)" "conns_ok (p\<lparr>cp_nextUdp := n, cp_udpHeap := h\<rparr>)" for n h
    using assms(1) by (auto intro: cq_ok_cong conns_ok_cong)
  with assms(2) show ?thesis by (simp add: DialUDP_def Let_def pool_ok_RegisterUDP)
qed

lemma pool_ok_StartUDPRace:
  assumes "pool_ok p" "t \<noteq> PrebindTarget"
  shows "pool_ok (snd (StartUDPRace env c t p))"
proof -
  let ?st = "(connState p c)\<lparr>cc_target := t, cc_start := Some (re_now env), cc_reqType := ''SOCKS5 UDP'',
      cc_uplink := 0, cc_downlink := 0, cc_lastCh := 0\<rparr>"
  have "conns_ok (p\<lparr>cp_conns := dict_set (cp_conns p) c ?st\<rparr>)"
    using assms conns_okD(3,4) [of p c]
    by (intro conns_ok_set) (auto simp: connState_def new_conn_state_def split: option.split)
  then have "pool_ok (p\<lparr>cp_conns := dict_set (cp_conns p) c ?st\<rparr>)" using assms(1) by (simp add: inv_intros)
  then show ?thesis by (simp add: StartUDPRace_def accounts.I_broadcastConnect Let_def)
qed

lemma pool_ok_startRace: "pool_ok p \<Longrightarrow> t \<noteq> PrebindTarget \<Longrightarrow> pool_ok (snd (startRace env t c p))"
  by (simp add: startRace_def pool_ok_StartUDPRace accounts.I_udp)

lemma pool_ok_udp [inv_intros]:
  "pool_ok p \<Longrightarrow> pool_ok (snd (snd (UDP_Send renv env t data c p)))"
  "pool_ok p \<Longrightarrow> pool_ok (snd (ReadFrom pick c p))" "pool_ok p \<Longrightarrow> pool_ok (snd (UDP_Close env c p))"
  "pool_ok p \<Longrightarrow> pool_ok (handleUDPResponse pick a data c p)"
proof -
  assume ok: "pool_ok p"
  show "pool_ok (snd (ReadFrom pick c p))"
    using ok accounts.I_udp by (simp add: ReadFrom_def split: list.split)
  show "pool_ok (snd (UDP_Close env c p))" unfolding UDP_Close_def by (rule accounts.I_stop [OF ok])
  show "pool_ok (handleUDPResponse pick a data c p)"
    using ok accounts.I_udp by (simp add: handleUDPResponse_def Let_def)
  show "pool_ok (snd (snd (UDP_Send renv env t data c p)))"
  proof (cases "SplitHostPort t")
    case (Some hp)
    have "pool_ok (snd (startRace renv t c p))" by (rule pool_ok_startRace [OF ok split_not_prebind [OF Some]])
    with ok Some show ?thesis
      by (simp add: UDP_Send_def Let_def split_def accounts.I_SendUDPDataDirect accounts.I_broadcast split: option.split)
  qed (use ok in \<open>simp add: UDP_Send_def Let_def\<close>)
qed

text \<open>Unregistering a TCP connection returns, and drops exactly its entry.\<close>

lemma Unregister_tcp:
  assumes "dict_get (cp_conns p) c = Some st" "\<not> cc_closed st" "cc_target st \<noteq> PrebindTarget" "cc_udpSink st = None"
  shows "fst (Unregister env c p)" "cp_conns (snd (Unregister env c p)) = dict_del (cp_conns p) c"
  using assms by (subst Unregister_unfold, simp add: Unregister_with_def Let_def split: option.split)+

text \<open>The request of a hot dial, and the outcome of sending it on the uplink of the pair.\<close>

definition hot_unicast :: "register_env \<Rightarrow> string \<Rightarrow> string \<Rightarrow> nat option \<Rightarrow> string \<Rightarrow> ref \<Rightarrow> clientPool \<Rightarrow> send_outcome" where
  "hot_unicast env c target tc rt h p =
     (let p = registerTCP env c target tc rt p;
          msg = EncodeMessage MsgTCPConnect c (connect_meta p target) []
      in fst (asyncWriteDirect (re_direct env) (pr_UplinkChID (pw_heap (cp_warmer p) h)) BinaryMessage msg (presetPair c h p)))"

text \<open>The table after a hot dial: with the connection on the pair exactly if the unicast was accepted;
  otherwise with the connection on no pair, or unchanged when the broadcast failed too.\<close>

lemma register_hot_conns:
  assumes new: "dict_get (cp_conns p) c = None" and t: "target \<noteq> PrebindTarget"
  shows "let st = fresh_state env target tc rt; up = pr_UplinkChID (pw_heap (cp_warmer p) h);
      r = registerAndBroadcastTCPWithPair env c target [] tc rt (Some h) p
    in fst r \<and> (if hot_unicast env c target tc rt h p = Sent
       then cp_conns (snd r) = dict_set (cp_conns p) c (st\<lparr>cc_pair := Some h, cc_uplink := up\<rparr>)
       else cp_conns (snd r) = dict_set (cp_conns p) c st \<or>
            cp_conns (snd r) = dict_del (dict_set (cp_conns p) c st) c)"
proof -
  let ?st = "fresh_state env target tc rt" and ?up = "pr_UplinkChID (pw_heap (cp_warmer p) h)"
  define p1 where "p1 = p\<lparr>cp_conns := dict_set (cp_conns p) c ?st\<rparr>"
  define msg where "msg = EncodeMessage MsgTCPConnect c (connect_meta p1 target) []"
  define p2 where "p2 = presetPair c h p1"
  obtain res p3 where a: "asyncWriteDirect (re_direct env) ?up BinaryMessage msg p2 = (res, p3)" by fastforce
  have w1: "cp_warmer p1 = cp_warmer p" by (simp add: p1_def)
  have c2: "cp_conns p2 = dict_set (cp_conns p) c (?st\<lparr>cc_pair := Some h, cc_uplink := ?up\<rparr>)"
    by (simp add: p2_def p1_def presetPair_def upd_cconn_def)
  have c3: "cp_conns p3 = cp_conns p2" using asyncWriteDirect_fields(1) [of "re_direct env" ?up BinaryMessage msg p2] a by simp
  define p4 where "p4 = hotFallback c h p3"
  have e: "?st\<lparr>cc_pair := None, cc_uplink := 0\<rparr> = ?st" by (simp add: fresh_state_def new_conn_state_def)
  have c4: "cp_conns p4 = dict_set (cp_conns p) c ?st" by (simp add: p4_def hotFallback_eq upd_cconn_def c3 c2 e)
  obtain n p5 where b: "broadcastWrite_client (re_broadcast env) BinaryMessage msg p4 = (n, p5)" by fastforce
  then have c5: "cp_conns p5 = dict_set (cp_conns p) c ?st"
    using broadcastWrite_client_fields(1) [of "re_broadcast env" BinaryMessage msg p4] c4 by simp
  then have g5: "dict_get (cp_conns p5) c = Some ?st" by simp
  have u: "hot_unicast env c target tc rt h p = res"
    using a by (simp add: hot_unicast_def registerTCP_fresh [OF new] p1_def [symmetric] msg_def [symmetric] p2_def [symmetric] w1)
  have "registerAndBroadcastTCPWithPair env c target [] tc rt (Some h) p =
      (if res = Sent then returns p3 else if n = 0 then Unregister (re_close env) c p5 else returns p5)"
    using a b by (simp add: registerAndBroadcastTCPWithPair_def registerTCP_fresh [OF new] broadcastConnect_def w1
        p1_def [symmetric] msg_def [symmetric] p2_def [symmetric] p4_def [symmetric] Let_def)
  then show ?thesis
    using c2 c3 c5 Unregister_tcp [OF g5, of "re_close env"] t by (simp add: Let_def u)
qed

lemma holders_new:
  assumes "dict_ok m" "dict_get m c = None"
  shows "holders (dict_set m c st) r = holders m r + (if cc_pair st = Some r then 1 else 0)"
    "holders (dict_del (dict_set m c st) c) r = holders m r"
  using holders_set [OF assms(1), of c st r] holders_del [of "dict_set m c st" c st r] assms by simp_all

text \<open>The table after a dial for which a pair was ready.\<close>

lemma hot_dial_table:
  assumes "cf_EnableHotPair (cp_config p)" "cp_hasWarmer p" "AcquirePrimary (cp_warmer p) = (Some h, w)"
    and "dict_get (cp_conns p) (dial_id uuid p) = None" "target \<noteq> PrebindTarget"
  shows "let c = dial_id uuid p; st = fresh_state env target (Some sink) ''SOCKS5'';
      q = snd (snd (DialStream_begin_client env uuid sink target p))
    in if hot_unicast env c target (Some sink) ''SOCKS5'' h (p\<lparr>cp_warmer := w\<rparr>) = Sent
       then cp_conns q = dict_set (cp_conns p) c (st\<lparr>cc_pair := Some h, cc_uplink := pr_UplinkChID (pw_heap (cp_warmer p) h)\<rparr>)
       else cp_conns q = dict_set (cp_conns p) c st \<or> cp_conns q = dict_del (dict_set (cp_conns p) c st) c"
proof -
  let ?c = "dial_id uuid p"
  have id: "?c = HotPairConnID (pr_PrebindID (pw_heap (cp_warmer p) h)) uuid"
    using assms(1-3) by (simp add: dial_id_def)
  have up: "pr_UplinkChID (pw_heap w h) = pr_UplinkChID (pw_heap (cp_warmer p) h)"
    using assms(3) by (cases rule: acquire_cases [of "cp_warmer p"]) (auto simp: upd_pair_def)
  have q: "snd (snd (DialStream_begin_client env uuid sink target p)) =
      snd (registerAndBroadcastTCPWithPair env ?c target [] (Some sink) ''SOCKS5'' (Some h) (p\<lparr>cp_warmer := w\<rparr>))"
    using assms(1-3) by (simp add: DialStream_begin_client_def acquire_key id Let_def)
  show ?thesis
    using register_hot_conns [of "p\<lparr>cp_warmer := w\<rparr>" ?c target env "Some sink" "''SOCKS5''" h] assms(4,5) up
    by (auto simp: q Let_def split: if_splits)
qed

section \<open>Properties\<close>

text \<open>Property C40: a dial over a hot pair holds the pair until the connection is unregistered. When a
  pair is ready, the dial registers under an identifier with the pair's key. If the unicast on the
  uplink is accepted, the connection is on the pair, which has exactly one holder more, and no other
  pair changes its holders. If it is not accepted, the connection is on no pair, or gone, and every
  pair has the holders it had. Unregistering afterwards returns, removes the connection and restores
  the holders of every pair.\<close>

theorem hot_dial_holds_pair:
  assumes "pool_ok p" "cf_EnableHotPair (cp_config p)" "cp_hasWarmer p"
    and "AcquirePrimary (cp_warmer p) = (Some h, w)"
    and "dict_get (cp_conns p) (dial_id uuid p) = None" "target \<noteq> PrebindTarget"
  shows "let c = dial_id uuid p; up = pr_UplinkChID (pw_heap (cp_warmer p) h);
      sent = (hot_unicast env c target (Some sink) ''SOCKS5'' h (p\<lparr>cp_warmer := w\<rparr>) = Sent);
      q = snd (snd (DialStream_begin_client env uuid sink target p)); s = Unregister env' c q
    in c = HotPairConnID (pr_PrebindID (pw_heap (cp_warmer p) h)) uuid \<and> pool_ok q \<and>
       (\<forall>r. pair_refs (cp_warmer q) r = pair_refs (cp_warmer p) r + (if sent \<and> r = h then 1 else 0)) \<and>
       (if sent then \<exists>st. dict_get (cp_conns q) c = Some st \<and> cc_pair st = Some h \<and> cc_uplink st = up
        else \<forall>st. dict_get (cp_conns q) c = Some st \<longrightarrow> cc_pair st = None \<and> cc_uplink st = 0) \<and>
       fst s \<and> dict_get (cp_conns (snd s)) c = None \<and>
       (\<forall>r. pair_refs (cp_warmer (snd s)) r = pair_refs (cp_warmer p) r)"
proof -
  let ?c = "dial_id uuid p" and ?up = "pr_UplinkChID (pw_heap (cp_warmer p) h)"
  let ?q = "snd (snd (DialStream_begin_client env uuid sink target p))" and ?st = "fresh_state env target (Some sink) ''SOCKS5''"
  let ?m = "cp_conns p" and ?s = "Unregister env' ?c (snd (snd (DialStream_begin_client env uuid sink target p)))"
  let ?sent = "hot_unicast env ?c target (Some sink) ''SOCKS5'' h (p\<lparr>cp_warmer := w\<rparr>) = Sent"
  have id: "?c = HotPairConnID (pr_PrebindID (pw_heap (cp_warmer p) h)) uuid"
    using assms(2-4) by (simp add: dial_id_def)
  have ok: "pool_ok ?q" by (rule pool_ok_dial [OF assms(1,5,6)])
  have oks: "pool_ok (snd ?s)" by (rule accounts.I_Unregister [OF ok])
  have m: "dict_ok ?m" "\<And>r. pair_refs (cp_warmer p) r = holders ?m r" using assms(1) conns_okD(1,5) [of p] by auto
  have rq: "pair_refs (cp_warmer ?q) r = holders (cp_conns ?q) r"
    "pair_refs (cp_warmer (snd ?s)) r = holders (cp_conns (snd ?s)) r" for r using ok oks conns_okD(5) by blast+
  note H = holders_new [OF m(1) assms(5)]
  consider (hot) "?sent" "cp_conns ?q = dict_set ?m ?c (?st\<lparr>cc_pair := Some h, cc_uplink := ?up\<rparr>)"
    | (cold) "\<not> ?sent" "cp_conns ?q = dict_set ?m ?c ?st" | (gone) "\<not> ?sent" "cp_conns ?q = dict_del (dict_set ?m ?c ?st) ?c"
    using hot_dial_table [OF assms(2-6), of env sink] by (auto simp: Let_def split: if_splits)
  then show ?thesis
  proof cases
    case hot
    have g: "dict_get (cp_conns ?q) ?c = Some (?st\<lparr>cc_pair := Some h, cc_uplink := ?up\<rparr>)" by (simp add: hot)
    note u = Unregister_tcp [OF g, of env']
    have refs: "pair_refs (cp_warmer ?q) r = pair_refs (cp_warmer p) r + (if r = h then 1 else 0)"
      "pair_refs (cp_warmer (snd ?s)) r = pair_refs (cp_warmer p) r" for r using u assms(6) by (simp_all add: rq m(2) hot H)
    from g id ok u assms(6) hot(1) refs show ?thesis by (simp add: Let_def)
  next
    case cold
    have g: "dict_get (cp_conns ?q) ?c = Some ?st" by (simp add: cold)
    note u = Unregister_tcp [OF g, of env']
    have refs: "pair_refs (cp_warmer ?q) r = pair_refs (cp_warmer p) r"
      "pair_refs (cp_warmer (snd ?s)) r = pair_refs (cp_warmer p) r" for r using u assms(6) by (simp_all add: rq m(2) cold H)
    from g id ok u assms(6) cold(1) refs show ?thesis by (simp add: Let_def)
  next
    case gone
    then have n: "dict_get (cp_conns ?q) ?c = None" by simp
    then have u: "Unregister env' ?c ?q = returns ?q" by (subst Unregister_unfold) (simp add: Unregister_with_def)
    have "pair_refs (cp_warmer ?q) r = pair_refs (cp_warmer p) r" for r by (simp add: rq m(2) gone H)
    with u id ok n gone(1) show ?thesis by (simp add: Let_def)
  qed
qed

definition hot_pool :: clientPool where
  "hot_pool = (installSession 1 8 (installSession 0 7 (newClientPool (DefaultConfig\<lparr>cf_EnableHotPair := True\<rparr>))))
     \<lparr>cp_warmer := sample_warmer\<rparr>"

lemma hot_pool_fields:
  "cp_conns hot_pool = []" "cp_hasWarmer hot_pool" "cf_EnableHotPair (cp_config hot_pool)" "cp_warmer hot_pool = sample_warmer"
  by (simp_all add: hot_pool_def installSession_def newClientPool_def DefaultConfig_def Let_def)

lemma hot_pool_ok: "pool_ok hot_pool"
proof -
  have "cq_ok (installSession 1 8 (installSession 0 7 (newClientPool (DefaultConfig\<lparr>cf_EnableHotPair := True\<rparr>))))"
    by (intro cq_ok_installSession cq_ok_newClientPool)
  then have "cq_ok hot_pool" unfolding hot_pool_def by (rule cq_ok_conns(3))
  moreover have "pair_refs sample_warmer r = 0" for r
    by (simp add: sample_warmer_def addPair_simps NewPairWarmer_def blank_pair_def)
  ultimately show ?thesis
    by (auto simp: hot_pool_fields holders_def sample_warmer_ok intro!: conns_okI)
qed

definition sample_renv :: register_env where
  "sample_renv = \<lparr>re_direct = no_send, re_broadcast = (\<lambda>_. no_send), re_close = (\<lambda>_. no_send), re_now = 0, re_raddr = None\<rparr>"

text \<open>A send that is accepted: the level is not a pause, the budget and the open queue have room.\<close>

lemma send_accepted:
  assumes "chIndex p ch = Some idx" "cp_backpressureState p = 0"
    and "cp_globalQueueBytes p + int (length data) \<le> cp_globalQueueLimit p"
    and "cp_writeQueues p ! idx = Some q" "\<not> wq_closed (cp_queueHeap p q)" "length (jobs_of p q) < writeQueueSize"
  shows "fst (asyncWriteDirect env ch mt data p) = Sent"
  using assms
  by (auto simp: asyncWriteDirect_def asyncWriteDirect_begin_def asyncWriteDirect_send_def getBackpressureDelay_def
      reserveQueueBytes_def Let_def)

lemma hot_dial_sent:
  "hot_unicast sample_renv (dial_id ''u'' hot_pool) ''h:80'' (Some 9) ''SOCKS5'' 0
     (hot_pool\<lparr>cp_warmer := upd_pair 0 (pr_refs_update (\<lambda>n. n + 1)) sample_warmer\<rparr>) = Sent"
proof -
  let ?h = "hot_pool\<lparr>cp_warmer := upd_pair 0 (pr_refs_update (\<lambda>n. n + 1)) sample_warmer\<rparr>"
  let ?p1 = "registerTCP sample_renv (dial_id ''u'' hot_pool) ''h:80'' (Some 9) ''SOCKS5'' ?h"
  let ?p = "presetPair (dial_id ''u'' hot_pool) 0 ?p1"
  have same: "cp_writeQueues ?p = cp_writeQueues hot_pool" "cp_queueHeap ?p = cp_queueHeap hot_pool"
    "cp_globalQueueBytes ?p = cp_globalQueueBytes hot_pool" "cp_globalQueueLimit ?p = cp_globalQueueLimit hot_pool"
    "cp_backpressureState ?p = cp_backpressureState hot_pool" "cp_config ?p1 = cp_config hot_pool"
    "pr_UplinkChID (pw_heap (cp_warmer ?p1) 0) = 1"
    by (simp_all add: presetPair_def upd_cconn_def registerTCP_def Let_def upd_pair_def sample_warmer_simps split: option.split)
  have hot: "cp_writeQueues hot_pool ! 0 = Some 3" "length (cp_writeQueues hot_pool) = 3" "cp_backpressureState hot_pool = 0"
    "cp_globalQueueBytes hot_pool = 0" "cp_globalQueueLimit hot_pool = 8388608" "cp_queueHeap hot_pool 3 = newQueue"
    by (simp_all add: hot_pool_def installSession_def newClientPool_def DefaultConfig_def DefaultBackpressureLimitBytes_def Let_def)
  have "fst (asyncWriteDirect (re_direct sample_renv) 1 BinaryMessage
      (EncodeMessage MsgTCPConnect (dial_id ''u'' hot_pool) (connect_meta ?p1 ''h:80'') []) ?p) = Sent"
    by (rule send_accepted [where idx = 0 and q = 3])
       (simp_all add: same hot chIndex_def newQueue_def writeQueueSize_def connect_meta_def headerLen_def length_EncodeMessage)
  then show ?thesis by (simp add: hot_unicast_def Let_def same(7))
qed

theorem hot_dial_holds_pair_witness:
  "\<exists>st. dict_get (cp_conns (snd (snd (DialStream_begin_client sample_renv ''u'' 9 ''h:80'' hot_pool)))) (dial_id ''u'' hot_pool) = Some st \<and>
     cc_pair st = Some 0 \<and> pair_refs (cp_warmer (snd (snd (DialStream_begin_client sample_renv ''u'' 9 ''h:80'' hot_pool)))) 0 = 1"
proof -
  let ?w = "upd_pair 0 (pr_refs_update (\<lambda>n. n + 1)) sample_warmer"
  have a: "AcquirePrimary (cp_warmer hot_pool) = (Some 0, ?w)"
    by (simp add: hot_pool_fields AcquirePrimary_def tryAcquire_def sample_warmer_simps upd_pair_def)
  have t: "''h:80'' \<noteq> PrebindTarget" by (simp add: PrebindTarget_def)
  have n: "dict_get (cp_conns hot_pool) (dial_id ''u'' hot_pool) = None" by (simp add: hot_pool_fields)
  have z: "pair_refs (cp_warmer hot_pool) 0 = 0"
    by (simp add: hot_pool_fields sample_warmer_def addPair_simps NewPairWarmer_def blank_pair_def)
  have s: "hot_unicast sample_renv (dial_id ''u'' hot_pool) ''h:80'' (Some 9) ''SOCKS5'' 0 (hot_pool\<lparr>cp_warmer := ?w\<rparr>) = Sent"
    by (rule hot_dial_sent)
  show ?thesis
    using hot_dial_holds_pair [OF hot_pool_ok hot_pool_fields(3,2) a n t, of sample_renv 9 "\<lambda>_. no_send"] z
    unfolding Let_def s by auto
qed

lemma invalidate_refs [simp]: "pair_refs (PW_InvalidateChannel ch w) r = pair_refs w r"
proof -
  have "pair_refs (snd (invalidateLoop ch rs v)) r = pair_refs v r" for rs v
    by (induction ch rs v rule: invalidateLoop.induct) (simp_all add: setState_def upd_pair_def split_def Let_def)
  then show ?thesis by (simp add: PW_InvalidateChannel_def ensurePrimaryLocked_def split_def Let_def)
qed

text \<open>Property C23: a hot dial that is cleaned up while its request is being sent releases the pair twice.
  If the connection is unregistered after the pair was noted on it and before the failed send is
  handled, as the clean-up of the lost uplink does, the pair's count drops by two for one
  connection, so the pair counts one holder fewer than it has.\<close>

theorem fallback_after_cleanup_releases_twice:
  assumes "pool_ok p" "dict_get (cp_conns p) c = Some st" "cc_pair st = Some h"
  shows "let q = hotFallback c h (snd (Unregister env c p))
    in dict_get (cp_conns q) c = None \<and> pair_refs (cp_warmer q) h = pair_refs (cp_warmer p) h - 2 \<and>
       pair_refs (cp_warmer q) h = int (length (filter (\<lambda>(d, st). cc_pair st = Some h) (cp_conns q))) - 1"
proof -
  let ?u = "snd (Unregister env c p)"
  have cl: "\<not> cc_closed st" "cc_target st \<noteq> PrebindTarget" "cc_udpSink st = None"
    using assms conns_okD(3,4) [of p c st] by auto
  note u = Unregister_tcp [OF assms(2) cl, of env]
  have ok: "pool_ok ?u" by (rule accounts.I_Unregister [OF assms(1)])
  have r: "pair_refs (cp_warmer ?u) h = holders (cp_conns ?u) h" "pair_refs (cp_warmer p) h = holders (cp_conns p) h"
    using ok assms(1) conns_okD(5) by blast+
  have d: "holders (cp_conns ?u) h = holders (cp_conns p) h - 1"
    using holders_del [OF conns_okD(1), of p c st h] assms u(2) by simp
  have "cp_conns (hotFallback c h ?u) = cp_conns ?u"
    by (simp add: hotFallback_eq upd_cconn_def u(2))
  moreover have "pair_refs (cp_warmer (hotFallback c h ?u)) h = pair_refs (cp_warmer ?u) h - 1"
    by (simp add: hotFallback_eq with_warmer_def upd_cconn_def u(2) release_refs)
  ultimately show ?thesis using r d u(2) by (simp add: holders_def Let_def)
qed

theorem fallback_after_cleanup_releases_twice_witness:
  "let p = hot_pool\<lparr>cp_conns := [(''c'', new_conn_state\<lparr>cc_id := ''c'', cc_target := ''h:80'', cc_pair := Some 0, cc_uplink := 1\<rparr>)],
        cp_warmer := upd_pair 0 (pr_refs_update (\<lambda>n. n + 1)) sample_warmer\<rparr>
   in pair_refs (cp_warmer (hotFallback ''c'' 0 (snd (Unregister (\<lambda>_. no_send) ''c'' p)))) 0 = - 1"
proof -
  let ?st = "new_conn_state\<lparr>cc_id := ''c'', cc_target := ''h:80'', cc_pair := Some 0, cc_uplink := 1\<rparr>"
  let ?w = "upd_pair 0 (pr_refs_update (\<lambda>n. n + 1)) sample_warmer"
  let ?p = "hot_pool\<lparr>cp_conns := [(''c'', ?st)], cp_warmer := ?w\<rparr>"
  have "AcquirePrimary sample_warmer = (Some 0, ?w)"
    by (simp add: AcquirePrimary_def tryAcquire_def sample_warmer_simps upd_pair_def)
  then have w: "warmer_ok ?w" using warmer_ok_acquire [OF sample_warmer_ok] by simp
  have "pair_refs ?w r = (if r = 0 then 1 else 0)" for r
    by (simp add: upd_pair_def sample_warmer_def addPair_simps NewPairWarmer_def blank_pair_def)
  then have co: "conns_ok ?p"
    using w hot_pool_fields by (intro conns_okI) (auto simp: dict_ok_def holders_def new_conn_state_def PrebindTarget_def split: if_splits)
  moreover have "cq_ok ?p" using hot_pool_ok cq_ok_cong [of hot_pool ?p] by simp
  ultimately have ok: "pool_ok ?p" by simp
  have g: "dict_get (cp_conns ?p) ''c'' = Some ?st" "cc_pair ?st = Some 0" by simp_all
  have "pair_refs (cp_warmer ?p) 0 = 1" by (simp add: upd_pair_def sample_warmer_simps)
  with fallback_after_cleanup_releases_twice [OF ok g, of "\<lambda>_. no_send"] show ?thesis by (simp add: Let_def)
qed

lemma stop_running: "uc_once (cp_udpHeap s c) = OnceRunning \<Longrightarrow> stop_with u e c s = (False, s)"
  by (simp add: stop_with_def)

lemma stop_blocks:
  assumes "uc_once (cp_udpHeap p c) = OnceFresh" "dict_get (cp_conns p) (uc_connID (cp_udpHeap p c)) = Some st"
    and "\<not> cc_closed st" "cc_target st \<noteq> PrebindTarget" "cc_udpSink st = Some c"
  shows "\<exists>q. stop env c p = (False, q) \<and> uc_once (cp_udpHeap q c) = OnceRunning \<and>
    dict_get (cp_conns q) (uc_connID (cp_udpHeap p c)) = None"
proof -
  let ?k = "uc_connID (cp_udpHeap p c)"
  have un: "\<exists>q. Unregister e ?k s = (False, q) \<and> uc_once (cp_udpHeap q c) = OnceRunning \<and> dict_get (cp_conns q) ?k = None"
    if "dict_get (cp_conns s) ?k = Some st" "uc_once (cp_udpHeap s c) = OnceRunning" for e s
  proof -
    let ?s = "case cc_tcpConn st of None \<Rightarrow> s\<lparr>cp_conns := dict_del (cp_conns s) ?k\<rparr>
      | Some d \<Rightarrow> cemit (ConnClose d) (s\<lparr>cp_conns := dict_del (cp_conns s) ?k\<rparr>)"
    have f: "uc_once (cp_udpHeap ?s c) = OnceRunning" "dict_get (cp_conns ?s) ?k = None"
      using that(2) by (auto simp: cemit_def split: option.split)
    have "Unregister e ?k s = (False, ?s)"
      using that(1) assms(3-5) stop_running [OF f(1)] by (subst Unregister_unfold) (simp add: Unregister_with_def Let_def)
    with f show ?thesis by blast
  qed
  let ?p = "upd_udp c (\<lambda>ch. ch\<lparr>uc_once := OnceRunning, uc_done := True\<rparr>) p"
  have p1: "dict_get (cp_conns ?p) ?k = Some st" "uc_once (cp_udpHeap ?p c) = OnceRunning" "uc_connID (cp_udpHeap ?p c) = ?k"
    using assms(2) by (simp_all add: upd_udp_def)
  show "\<exists>q. stop env c p = (False, q) \<and> uc_once (cp_udpHeap q c) = OnceRunning \<and> dict_get (cp_conns q) ?k = None"
  proof (cases "GetUplinkChannel ?p ?k")
    case None
    from un [OF p1(1,2), of env] None show ?thesis
      using assms(1) p1(3) by (auto simp: stop_def stop_with_def Let_def)
  next
    case (Some ch)
    let ?s = "snd (asyncWriteDirect (env ch) ch BinaryMessage (udp_close_frame ?k) ?p)"
    have "dict_get (cp_conns ?s) ?k = Some st" "uc_once (cp_udpHeap ?s c) = OnceRunning" using p1(1,2) by simp_all
    from un [OF this, of env] Some show ?thesis
      using assms(1) p1(3) by (auto simp: stop_def stop_with_def SendUDPCloseDirect_with_def Let_def)
  qed
qed

text \<open>Fact: closing a UDP channel whose connection is still registered blocks the caller for
  ever. \<^verbatim>\<open>stop\<close> runs under the channel's \<^verbatim>\<open>once\<close> and unregisters the connection, which stops the channel
  again under the same \<^verbatim>\<open>once\<close>; the connection is gone, and every later close blocks too. When the
  connection is unregistered first, as on a failed dial, the same code returns and the channel is
  done.\<close>

theorem udp_close_deadlocks:
  assumes "uc_once (cp_udpHeap p c) = OnceFresh" "dict_get (cp_conns p) (uc_connID (cp_udpHeap p c)) = Some st"
    and "\<not> cc_closed st" "cc_target st \<noteq> PrebindTarget" "cc_udpSink st = Some c"
  shows "let k = uc_connID (cp_udpHeap p c); (ok, q) = UDP_Close env c p; (ok', q') = Unregister env k p
    in \<not> ok \<and> uc_once (cp_udpHeap q c) = OnceRunning \<and> dict_get (cp_conns q) k = None \<and>
       (\<forall>env' s. uc_once (cp_udpHeap s c) = OnceRunning \<longrightarrow> UDP_Close env' c s = (False, s)) \<and>
       ok' \<and> uc_once (cp_udpHeap q' c) = OnceDone \<and> uc_done (cp_udpHeap q' c) \<and> dict_get (cp_conns q') k = None"
proof -
  let ?k = "uc_connID (cp_udpHeap p c)"
  note block = stop_running [of _ c]
  note close = stop_blocks [OF assms, of env]
  let ?d = "case cc_tcpConn st of None \<Rightarrow> p\<lparr>cp_conns := dict_del (cp_conns p) ?k\<rparr>
      | Some d \<Rightarrow> cemit (ConnClose d) (p\<lparr>cp_conns := dict_del (cp_conns p) ?k\<rparr>)"
  have d: "cp_udpHeap ?d = cp_udpHeap p" "cp_conns ?d = dict_del (cp_conns p) ?k" by (simp_all add: cemit_def split: option.split)
  let ?d1 = "upd_udp c (\<lambda>ch. ch\<lparr>uc_once := OnceRunning, uc_done := True\<rparr>) ?d"
  have gone: "dict_get (cp_conns ?d1) ?k = None" "uc_connID (cp_udpHeap ?d1 c) = ?k" using d by (simp_all add: upd_udp_def)
  have "Unregister env ?k ?d1 = returns ?d1" using gone(1) by (subst Unregister_unfold) (simp add: Unregister_with_def)
  then have "stop_with (Unregister env) env c ?d = returns (upd_udp c (uc_once_update (\<lambda>_. OnceDone)) ?d1)"
    using assms(1) d gone unfolding stop_with_def by (simp add: GetUplinkChannel_def Let_def)
  then have first: "Unregister env ?k p = returns (let q = upd_udp c (uc_once_update (\<lambda>_. OnceDone)) ?d1
      in if cp_hasWarmer q then with_warmer (ReleasePair (cc_pair st)) q else q)"
    using assms(2-5) by (subst Unregister_unfold) (simp add: Unregister_with_def Let_def)
  show ?thesis
    using close block gone(1) d(2)
    by (auto simp: first returns_def UDP_Close_def stop_def Let_def upd_udp_def with_warmer_def)
qed

definition udp_pool :: clientPool where
  "udp_pool = snd (DialUDP ''u1'' [443] (newClientPool DefaultConfig))"

theorem udp_close_deadlocks_witness:
  "fst (UDP_Close (\<lambda>_. no_send) 0 udp_pool) = False \<and> fst (Unregister (\<lambda>_. no_send) ''u1'' udp_pool) = True"
proof -
  have f: "uc_once (cp_udpHeap udp_pool 0) = OnceFresh" "uc_connID (cp_udpHeap udp_pool 0) = ''u1''"
    "dict_get (cp_conns udp_pool) ''u1'' = Some (new_conn_state\<lparr>cc_udpSink := Some 0, cc_connected := Some False,
       cc_reqType := ''SOCKS5 UDP''\<rparr>)"
    by (simp_all add: udp_pool_def DialUDP_def RegisterUDP_def connState_def new_conn_state_def newClientPool_def
        blank_udp_def Let_def)
  show ?thesis
    using udp_close_deadlocks [of udp_pool 0 _ "\<lambda>_. no_send", OF f(1), unfolded f(2), OF f(3)]
    by (simp add: new_conn_state_def PrebindTarget_def Let_def split_def)
qed

text \<open>Fact: the downlink queue of an open UDP channel keeps the order of the datagrams, never
  holds more than 256 and drops what arrives when it is full.\<close>

theorem udp_downlink_fifo:
  assumes "\<not> uc_done (cp_udpHeap p c)"
  shows "let q = foldl (\<lambda>p (a, b). handleUDPResponse pick a b c p) p ds
    in uc_down (cp_udpHeap q c) = uc_down (cp_udpHeap p c) @
         take (256 - length (uc_down (cp_udpHeap p c))) (map (\<lambda>(a, b). \<lparr>dg_target = a, dg_data = b\<rparr>) ds) \<and>
       cp_conns q = cp_conns p"
  using assms
proof (induction ds arbitrary: p)
  case (Cons d ds)
  obtain a b where d: "d = (a, b)" by fastforce
  let ?q = "handleUDPResponse pick a b c p" and ?n = "length (uc_down (cp_udpHeap p c))"
  have q: "\<not> uc_done (cp_udpHeap ?q c)" "cp_conns ?q = cp_conns p"
    "uc_down (cp_udpHeap ?q c) = uc_down (cp_udpHeap p c) @ (if ?n < 256 then [\<lparr>dg_target = a, dg_data = b\<rparr>] else [])"
    using Cons.prems by (simp_all add: handleUDPResponse_def upd_udp_def udpDownCap_def Let_def)
  show ?case
  proof (cases "?n < 256")
    case True
    then obtain k where k: "256 - ?n = Suc k" "256 - Suc ?n = k" by (cases "256 - ?n") auto
    with Cons.IH [OF q(1)] q True d show ?thesis by (simp add: Let_def)
  qed (use Cons.IH [OF q(1)] q d in \<open>simp add: Let_def\<close>)
qed simp

theorem udp_downlink_fifo_witness:
  "uc_down (cp_udpHeap (foldl (\<lambda>p (a, b). handleUDPResponse True a b 0 p) udp_pool [(''x'', [1]), (''y'', [2])]) 0) =
     [\<lparr>dg_target = ''x'', dg_data = [1]\<rparr>, \<lparr>dg_target = ''y'', dg_data = [2]\<rparr>]"
proof -
  have "\<not> uc_done (cp_udpHeap udp_pool 0)" "uc_down (cp_udpHeap udp_pool 0) = []"
    by (simp_all add: udp_pool_def DialUDP_def RegisterUDP_def newClientPool_def blank_udp_def Let_def)
  with udp_downlink_fifo [of udp_pool 0 True "[(''x'', [1]), (''y'', [2])]"] show ?thesis
    by (simp add: Let_def)
qed

text \<open>Fact: a dial with no live channel reports success. Without a pair the request is broadcast
  to no channel, the connection is unregistered at once, and since there is then nothing to wait
  for, the dial returns a stream and no error.\<close>

theorem dial_without_channels_succeeds:
  assumes "\<not> cp_hasWarmer p" "\<forall>c\<in>set (cp_wsConns p). c = None" "dict_get (cp_conns p) uuid = None" "target \<noteq> PrebindTarget"
  shows "let (c, ok, q) = DialStream_begin_client env uuid sink target p
    in c = uuid \<and> ok \<and> dict_get (cp_conns q) uuid = None \<and> \<not> dialWaits q uuid"
proof -
  define p1 where "p1 = p\<lparr>cp_conns := dict_set (cp_conns p) uuid (fresh_state env target (Some sink) ''SOCKS5'')\<rparr>"
  have "liveIndices p1 = []" using assms(2) by (simp add: liveIndices_def p1_def)
  then have b: "broadcastWrite_client e mt m p1 = (0, p1)" for e mt m by (simp add: broadcastWrite_client_def)
  have g: "dict_get (cp_conns p1) uuid = Some (fresh_state env target (Some sink) ''SOCKS5'')" by (simp add: p1_def)
  have "DialStream_begin_client env uuid sink target p = (uuid, Unregister (re_close env) uuid p1)"
    using assms(1) b
    by (simp add: DialStream_begin_client_def registerAndBroadcastTCPWithPair_def registerTCP_fresh [OF assms(3)]
        broadcastConnect_def p1_def [symmetric] Let_def)
  then show ?thesis
    using Unregister_tcp [OF g, of "re_close env"] assms(4) by (simp add: split_def dialWaits_def)
qed

theorem dial_without_channels_succeeds_witness:
  "fst (snd (DialStream_begin_client sample_renv ''u'' 9 ''h:80'' (newClientPool DefaultConfig))) \<and>
   \<not> dialWaits (snd (snd (DialStream_begin_client sample_renv ''u'' 9 ''h:80'' (newClientPool DefaultConfig)))) ''u''"
proof -
  have "\<not> cp_hasWarmer (newClientPool DefaultConfig)" "\<forall>c\<in>set (cp_wsConns (newClientPool DefaultConfig)). c = None"
    "dict_get (cp_conns (newClientPool DefaultConfig)) ''u'' = None" "''h:80'' \<noteq> PrebindTarget"
    by (simp_all add: newClientPool_def DefaultConfig_def PrebindTarget_def Let_def)
  from dial_without_channels_succeeds [OF this, of sample_renv 9] show ?thesis by (simp add: split_def Let_def)
qed

end
