(* ===== verification/Client_Pool.thy ===== *)
theory Client_Pool
  imports Proxy_Dialer
begin

text \<open>
  The client's channels (\<^verbatim>\<open>src/pool.go\<close>): the handler of the messages that arrive on a channel, the
  start and end of a channel's session, the clean-up after a lost channel, the dial loop's retry
  control, shutdown and statistics, and the step relation of the running client.

  Every message is handled in one step. A handler can block its goroutine for ever (see
  \<^theory_text>\<open>Client_Conn\<close>), so it returns a \<^typ>\<open>call\<close>.
\<close>

section \<open>Messages\<close>

text \<open>The environment of a handler: the time, the outcomes of its own sends and of the sends of a
  clean-up, whether the write to the local connection succeeds, the choice of a select with two
  ready cases, and the resolver.\<close>

record client_env =
  ce_now :: instant
  ce_send :: "chid \<Rightarrow> send_env"
  ce_close :: "chid \<Rightarrow> send_env"
  ce_write_ok :: bool
  ce_pick :: bool
  ce_resolve :: "string \<Rightarrow> IPStrategy \<Rightarrow> string"

definition isPrebindID :: "string \<Rightarrow> bool" where
  "isPrebindID connID \<longleftrightarrow> HasPrefix connID ''prebind-'' \<and> CHR ''.'' \<notin> set connID"

text \<open>The diagnostic record of the channels a prebind answer arrived on. Its flag \<^verbatim>\<open>logged\<close> is set in the
  step that deletes it.\<close>

definition notePrebindRacer :: "instant \<Rightarrow> string \<Rightarrow> chid \<Rightarrow> clientPool \<Rightarrow> clientPool" where
  "notePrebindRacer now connID chID p =
     (let p = (if dict_get (cp_prebindRacers p) connID = None
               then cspawn (RacerSummary connID (now + 3 * time_Second))
                      (p\<lparr>cp_prebindRacers := dict_set (cp_prebindRacers p) connID []\<rparr>)
               else p)
      in case dict_get (cp_prebindRacers p) connID of
           None \<Rightarrow> p
         | Some chs \<Rightarrow>
             if chID \<in> set chs then p
             else p\<lparr>cp_prebindRacers := dict_set (cp_prebindRacers p) connID (chs @ [chID])\<rparr>)"

definition racerSummary :: "string \<Rightarrow> clientPool \<Rightarrow> clientPool" where
  "racerSummary connID p = p\<lparr>cp_prebindRacers := dict_del (cp_prebindRacers p) connID\<rparr>"

definition downlink_frame :: "string \<Rightarrow> chid \<Rightarrow> bytes" where
  "downlink_frame connID ch = EncodeMessage MsgSelectDownlink connID (PutUint32 (word_of_int ch)) []"

definition handleSelectUplink_client :: "client_env \<Rightarrow> chid \<Rightarrow> string \<Rightarrow> bytes \<Rightarrow> clientPool \<Rightarrow> clientPool" where
  "handleSelectUplink_client env chID connID meta p =
     (let uplinkChID = (if length meta \<ge> 4 then uint (Uint32 (take 4 meta)) else chID);
          p = noteUplink connID uplinkChID p;
          p = (if isPrebindID connID then notePrebindRacer (ce_now env) connID chID p else p);
          (ds, p) = selectDownlink connID chID p
      in if \<not> ds_selected ds then p
         else
           let p = snd (asyncWriteDirect (ce_send env uplinkChID) uplinkChID BinaryMessage
                          (downlink_frame connID (ds_chosen ds)) p)
           in if cp_hasWarmer p \<and> isPrebindID connID
              then with_warmer (HandlePrebindResult \<lparr>pb_connID = connID, pb_uplinkChID = uplinkChID,
                     pb_downlinkChID = ds_chosen ds, pb_err = False\<rparr>) p
              else p)"

definition handleConnStatus_client :: "client_env \<Rightarrow> string \<Rightarrow> bytes \<Rightarrow> clientPool \<Rightarrow> call" where
  "handleConnStatus_client env connID meta p =
     (case meta of
        [] \<Rightarrow> returns p
      | st # _ \<Rightarrow>
          if st = StatusOK then returns (signalConnected connID p) else Unregister (ce_close env) connID p)"

text \<open>The downlink that a data message must have arrived on: the chosen one, or the result of the
  competition if none is chosen yet.\<close>

definition dataDownlink :: "string \<Rightarrow> chid \<Rightarrow> clientPool \<Rightarrow> downlink_choice \<times> clientPool" where
  "dataDownlink connID chID p =
     (case getDownlink p connID of
        Some ch \<Rightarrow> (no_choice\<lparr>ds_chosen := ch, ds_uplink := -1\<rparr>, p)
      | None \<Rightarrow> selectDownlink connID chID p)"

definition conn_tcp :: "clientPool \<Rightarrow> string \<Rightarrow> nat option" where
  "conn_tcp p connID = (case dict_get (cp_conns p) connID of None \<Rightarrow> None | Some st \<Rightarrow> cc_tcpConn st)"

definition conn_sink :: "clientPool \<Rightarrow> string \<Rightarrow> ref option" where
  "conn_sink p connID = (case dict_get (cp_conns p) connID of None \<Rightarrow> None | Some st \<Rightarrow> cc_udpSink st)"

definition handleTCPData_client :: "client_env \<Rightarrow> chid \<Rightarrow> string \<Rightarrow> bytes \<Rightarrow> clientPool \<Rightarrow> call" where
  "handleTCPData_client env chID connID payload p =
     (let (ds, p) = dataDownlink connID chID p
      in if ds_chosen ds \<noteq> chID then returns p
         else case conn_tcp p connID of
                Some c \<Rightarrow>
                  if ce_write_ok env then returns (cemit (ConnWrite c payload) p)
                  else Unregister (ce_close env) connID
                         (cemit (ConnClose c) (snd (SendCloseDirect (ce_send env chID) chID connID p)))
              | None \<Rightarrow>
                  Unregister (ce_close env) connID (snd (SendCloseDirect (ce_send env chID) chID connID p)))"

definition handleTCPClose_client :: "client_env \<Rightarrow> chid \<Rightarrow> string \<Rightarrow> clientPool \<Rightarrow> call" where
  "handleTCPClose_client env chID connID p =
     (let p = noteUplink connID chID p;
          p = (case conn_tcp p connID of None \<Rightarrow> p | Some c \<Rightarrow> cemit (ConnClose c) p)
      in Unregister (ce_close env) connID p)"

definition handleUDPData_client :: "client_env \<Rightarrow> chid \<Rightarrow> string \<Rightarrow> bytes \<Rightarrow> bytes \<Rightarrow> clientPool \<Rightarrow> clientPool" where
  "handleUDPData_client env chID connID meta payload p =
     (let (ds, p) = dataDownlink connID chID p
      in if ds_chosen ds \<noteq> chID then p
         else
           let p = (if ds_selected ds
                    then snd (asyncWriteDirect (ce_send env chID) chID BinaryMessage (downlink_frame connID chID) p)
                    else p)
           in case conn_sink p connID of
                None \<Rightarrow> p
              | Some s \<Rightarrow> handleUDPResponse (ce_pick env) (string_of_bytes meta) payload s p)"

definition handleUDPClose_client :: "client_env \<Rightarrow> chid \<Rightarrow> string \<Rightarrow> clientPool \<Rightarrow> call" where
  "handleUDPClose_client env chID connID p =
     (let p = noteUplink connID chID p
      in case conn_sink p connID of
           Some s \<Rightarrow> stop (ce_close env) s p
         | None \<Rightarrow> Unregister (ce_close env) connID p)"

definition chNotifyCap :: nat where
  "chNotifyCap = 64"

definition notifyInvalid :: "chid \<Rightarrow> clientPool \<Rightarrow> clientPool" where
  "notifyInvalid chID p =
     (if length (cp_chInvalidCh p) < chNotifyCap then p\<lparr>cp_chInvalidCh := cp_chInvalidCh p @ [chID]\<rparr> else p)"

definition notifyReady :: "chid \<Rightarrow> clientPool \<Rightarrow> clientPool" where
  "notifyReady chID p =
     (if length (cp_chReadyCh p) < chNotifyCap then p\<lparr>cp_chReadyCh := cp_chReadyCh p @ [chID]\<rparr> else p)"

definition invalidateCh :: "chid \<Rightarrow> clientPool \<Rightarrow> clientPool" where
  "invalidateCh chID p =
     (let p = notifyInvalid chID p
      in if cp_hasWarmer p then with_warmer (PW_InvalidateChannel chID) p else p)"

definition handleChannelReset :: "bytes \<Rightarrow> clientPool \<Rightarrow> clientPool" where
  "handleChannelReset meta p =
     (if length meta \<ge> 4 then invalidateCh (uint (Uint32 (take 4 meta))) p else p)"

text \<open>The body of the read loop for one binary message.\<close>

definition handleMessage_client ::
  "client_env \<Rightarrow> chid \<Rightarrow> MessageType \<Rightarrow> string \<Rightarrow> bytes \<Rightarrow> bytes \<Rightarrow> clientPool \<Rightarrow> call" where
  "handleMessage_client env chID mtype connID meta payload p =
     (let p = noteLastChannel connID chID p
      in if hasReverseConn p connID then
           returns (handleReverseServerMsg (ce_write_ok env) (ce_send env) chID mtype connID meta payload p)
         else if mtype = MsgTCPConnect then
           returns (handleReverseTCPConnect (ce_resolve env) (ce_send env) chID connID meta p)
         else if mtype = MsgReverseListenResult then returns (handleReverseListenResult connID meta p)
         else if mtype = MsgSelectUplink then returns (handleSelectUplink_client env chID connID meta p)
         else if mtype = MsgConnStatus then handleConnStatus_client env connID meta p
         else if mtype = MsgTCPData then handleTCPData_client env chID connID payload p
         else if mtype = MsgTCPClose then handleTCPClose_client env chID connID p
         else if mtype = MsgUDPData then returns (handleUDPData_client env chID connID meta payload p)
         else if mtype = MsgUDPClose then handleUDPClose_client env chID connID p
         else if mtype = MsgBackpressure then
           returns (case meta of [] \<Rightarrow> p | st # _ \<Rightarrow> handleBackpressure st p)
         else if mtype = MsgChannelReset then returns (handleChannelReset meta p)
         else returns p)"

definition handleChannel_frame :: "client_env \<Rightarrow> chid \<Rightarrow> int \<Rightarrow> bytes \<Rightarrow> clientPool \<Rightarrow> call" where
  "handleChannel_frame env chID mt msg p =
     (if mt \<noteq> BinaryMessage then returns p
      else let p = addReceivedBytes_client (int (length msg)) p
           in case decode_frame msg of
                None \<Rightarrow> returns p
              | Some f \<Rightarrow>
                  handleMessage_client env chID (f_type f) (f_connID f) (f_meta f) (f_payload f) p)"

text \<open>The ping handler answers with a pong past the queue; \<open>ok\<close> is the outcome of the write.\<close>

definition handlePing :: "bool \<Rightarrow> chid \<Rightarrow> bytes \<Rightarrow> clientPool \<Rightarrow> clientPool" where
  "handlePing ok chID m p = snd (writeControlDirect ok chID PongMessage m p)"

section \<open>Losing a channel\<close>

definition cleanup_conn :: "(chid \<Rightarrow> send_env) \<Rightarrow> string \<Rightarrow> clientPool \<Rightarrow> call" where
  "cleanup_conn env connID p =
     (case dict_get (cp_conns p) connID of
        None \<Rightarrow> returns p
      | Some st \<Rightarrow>
          let p = (case cc_tcpConn st of None \<Rightarrow> p | Some c \<Rightarrow> cemit (ConnClose c) p);
              stopped = (case cc_udpSink st of None \<Rightarrow> returns p | Some s \<Rightarrow> stop env s p)
          in andThen stopped (Unregister env connID))"

definition conn_uses :: "chid \<Rightarrow> clientConnState \<Rightarrow> bool" where
  "conn_uses chID st \<longleftrightarrow> cc_uplink st = chID \<or> cc_downlink st = chID"

definition cleanupChannel_client :: "(chid \<Rightarrow> send_env) \<Rightarrow> chid \<Rightarrow> clientPool \<Rightarrow> call" where
  "cleanupChannel_client env chID p =
     (let p = reverseCleanupChannel chID p;
          toClose = map fst (filter (\<lambda>(c, st). conn_uses chID st) (cp_conns p))
      in each (cleanup_conn env) toClose p)"

section \<open>Sessions\<close>

text \<open>\<^verbatim>\<open>dialAndServe\<close> after a successful dial: the session is installed and announced.\<close>

definition sessionStart ::
  "instant \<Rightarrow> (string \<Rightarrow> string) \<Rightarrow> (string \<Rightarrow> send_env) \<Rightarrow> nat \<Rightarrow> nat \<Rightarrow> clientPool \<Rightarrow> clientPool" where
  "sessionStart now uuid env idx sock p =
     (let chID = int idx + 1;
          p = installSession idx sock p;
          p = p\<lparr>cp_readyChannels := cp_readyChannels p + 1\<rparr>;
          p = notifyReady chID p
      in reverseOnChannelReady now uuid env chID p)"

text \<open>The end of a session: what follows the return of \<^verbatim>\<open>handleChannel\<close>.\<close>

definition sessionEnd :: "(chid \<Rightarrow> send_env) \<Rightarrow> nat \<Rightarrow> nat \<Rightarrow> clientPool \<Rightarrow> call" where
  "sessionEnd env idx sock p =
     (let chID = int idx + 1;
          p = cemit (SocketClose sock) p;
          p = p\<lparr>cp_wsConns := (cp_wsConns p)[idx := None]\<rparr>;
          p = p\<lparr>cp_readyChannels := cp_readyChannels p - 1\<rparr>;
          p = invalidateCh chID p
      in cleanupChannel_client env chID p)"

text \<open>A reconnection request is a channel of capacity one; its loop closes every live socket.\<close>

definition Reconnect :: "clientPool \<Rightarrow> clientPool" where
  "Reconnect p = p\<lparr>cp_reconnectCh := True\<rparr>"

definition reconnectLoop_round :: "clientPool \<Rightarrow> clientPool" where
  "reconnectLoop_round p =
     (if cp_ctxDone p \<or> \<not> cp_reconnectCh p then p
      else foldl (\<lambda>p sock. cemit (SocketClose sock) p) (p\<lparr>cp_reconnectCh := False\<rparr>) (non_nil (cp_wsConns p)))"

text \<open>Steps 3 to 5 of \<^verbatim>\<open>shutdown\<close>: cancellation, the queues, then a close frame and the end of every
  socket. The other steps stop components outside the pool and wait.\<close>

definition closeSocket :: "bytes \<Rightarrow> clientPool \<Rightarrow> nat \<Rightarrow> clientPool" where
  "closeSocket closeFrame p sock = cemit (SocketClose sock) (cemit (SocketWrite sock CloseMessage closeFrame) p)"

definition shutdown_client :: "bytes \<Rightarrow> clientPool \<Rightarrow> clientPool" where
  "shutdown_client closeFrame p =
     (let p = p\<lparr>cp_ctxDone := True\<rparr>;
          p = closeQueues p;
          socks = non_nil (cp_wsConns p);
          p = foldl (closeSocket closeFrame) p socks
      in p\<lparr>cp_wsConns := map (\<lambda>_. None) (cp_wsConns p)\<rparr>)"

record PoolStats =
  st_Connections :: nat
  st_ActiveChannels :: nat
  st_RelayNodes :: nat
  st_BytesSent :: "64 word"
  st_BytesReceived :: "64 word"

definition Stats_client :: "nat \<Rightarrow> clientPool \<Rightarrow> PoolStats" where
  "Stats_client relayNodes p =
     \<lparr>st_Connections = length (cp_conns p), st_ActiveChannels = length (non_nil (cp_wsConns p)),
      st_RelayNodes = relayNodes, st_BytesSent = cp_bytesSent p, st_BytesReceived = cp_bytesReceived p\<rparr>"

text \<open>One event of \<^verbatim>\<open>delayedStartPairWarmer\<close>: \<^term>\<open>None\<close> goes on waiting, else whether the pair
  manager starts.\<close>

datatype start_event = StartCancelled | StartTimeout | StartTick

definition delayedStartPairWarmer :: "start_event \<Rightarrow> int \<Rightarrow> clientPool \<Rightarrow> bool option" where
  "delayedStartPairWarmer ev expectedCount p =
     (case ev of
        StartCancelled \<Rightarrow> Some False
      | StartTimeout \<Rightarrow> Some (cp_readyChannels p > 0)
      | StartTick \<Rightarrow> if cp_readyChannels p \<ge> expectedCount then Some True else None)"

section \<open>What the handlers keep\<close>

lemma conns_ok_fwd_view: "conns_ok p \<Longrightarrow> fwd_view q = fwd_view p \<Longrightarrow> conns_ok q"
  by (erule conns_ok_cong) (erule fwd_view_fields)+

interpretation rev_accounts: reverse_frame "\<lambda>p. cq_ok p \<and> conns_ok p"
proof
  show "pool_ok p \<Longrightarrow> fwd_view q = fwd_view p \<Longrightarrow> pool_ok q" for p q
    using cq_ok_fwd_view [of p q] conns_ok_fwd_view [of p q] by blast
qed

text \<open>Fields that neither the accounting nor the connection table looks at.\<close>

lemma pool_ok_cong:
  assumes "pool_ok p" "cp_queueHeap q = cp_queueHeap p" "cp_nextQueue q = cp_nextQueue p"
    "cp_globalQueueBytes q = cp_globalQueueBytes p" "cp_globalQueueLimit q = cp_globalQueueLimit p"
    "cp_writeQueues q = cp_writeQueues p" "cp_conns q = cp_conns p" "cp_warmer q = cp_warmer p"
    "cp_hasWarmer q = cp_hasWarmer p"
  shows "pool_ok q"
  using assms cq_ok_cong [of p q] conns_ok_cong [of p q] by blast

lemma pool_ok_warmer:
  assumes "pool_ok p" "upkeep_step\<^sup>*\<^sup>* (cp_warmer p) (f (cp_warmer p))"
  shows "pool_ok (with_warmer f p)"
  using assms conns_ok_upkeep [of p "with_warmer f p"] by (simp add: inv_intros) (simp add: with_warmer_def)

lemma pool_ok_notes [inv_intros]:
  "pool_ok p \<Longrightarrow> pool_ok (noteUplink c ch p)" "pool_ok p \<Longrightarrow> pool_ok (noteLastChannel c ch p)"
  "pool_ok p \<Longrightarrow> pool_ok (signalConnected c p)"
  unfolding noteUplink_def noteLastChannel_def signalConnected_def by (erule pool_ok_upd; simp)+

lemma pool_ok_selectDownlink [inv_intros]: "pool_ok p \<Longrightarrow> pool_ok (snd (selectDownlink c ch p))"
proof (cases "dict_get (cp_conns p) c")
  case (Some st)
  assume ok: "pool_ok p"
  have "pool_ok (upd_cconn c (cc_downlink_update (\<lambda>_. wrap32 x)) p)" for x
    using ok by (rule pool_ok_upd) simp_all
  then have "pool_ok (p\<lparr>cp_conns := dict_set (cp_conns p) c (st\<lparr>cc_downlink := wrap32 x\<rparr>)\<rparr>)" for x
    using Some by (simp add: upd_cconn_def)
  with ok Some show ?thesis by (simp add: selectDownlink_def Let_def)
qed (simp add: selectDownlink_def)

lemma pool_ok_dataDownlink: "pool_ok p \<Longrightarrow> dataDownlink c ch p = (ds, q) \<Longrightarrow> pool_ok q"
  using pool_ok_selectDownlink [of p c ch] by (auto simp: dataDownlink_def split: option.splits)

lemma pool_ok_small [inv_intros]:
  "pool_ok p \<Longrightarrow> pool_ok (notePrebindRacer now c ch p)" "pool_ok p \<Longrightarrow> pool_ok (racerSummary c p)"
  "pool_ok p \<Longrightarrow> pool_ok (addReceivedBytes_client n p)" "pool_ok p \<Longrightarrow> pool_ok (handleBackpressure st p)"
  "pool_ok p \<Longrightarrow> pool_ok (notifyInvalid ch p)" "pool_ok p \<Longrightarrow> pool_ok (notifyReady ch p)"
  "pool_ok p \<Longrightarrow> pool_ok (p\<lparr>cp_readyChannels := k\<rparr>)" "pool_ok p \<Longrightarrow> pool_ok (p\<lparr>cp_wsConns := ws\<rparr>)"
  "pool_ok p \<Longrightarrow> pool_ok (Reconnect p)" "pool_ok p \<Longrightarrow> pool_ok (p\<lparr>cp_ctxDone := d\<rparr>)"
  "pool_ok p \<Longrightarrow> pool_ok (handlePing ok ch m p)"
  by (erule pool_ok_cong; simp add: notePrebindRacer_def racerSummary_def addReceivedBytes_client_def
      handleBackpressure_def notifyInvalid_def notifyReady_def Reconnect_def cspawn_def handlePing_def
      writeControlDirect_def cemit_def Let_def split: option.split)+

lemma pool_ok_invalidateCh [inv_intros]: "pool_ok p \<Longrightarrow> pool_ok (invalidateCh ch p)"
  using pool_ok_small(5) [of p ch]
  by (auto simp: invalidateCh_def Let_def intro!: pool_ok_warmer ws_invalidate)

lemma pool_ok_SelectUplink [inv_intros]: "pool_ok p \<Longrightarrow> pool_ok (handleSelectUplink_client env ch c meta p)"
proof -
  assume ok: "pool_ok p"
  define up where "up = (if length meta \<ge> 4 then uint (Uint32 (take 4 meta)) else ch)"
  define p1 where "p1 = (if isPrebindID c then notePrebindRacer (ce_now env) c ch (noteUplink c up p) else noteUplink c up p)"
  have ok1: "pool_ok p1" using ok by (simp add: p1_def inv_intros)
  obtain ds p2 where s: "selectDownlink c ch p1 = (ds, p2)" by fastforce
  then have ok2: "pool_ok p2" using pool_ok_selectDownlink [OF ok1, of c ch] by simp
  have ok3: "pool_ok (snd (asyncWriteDirect e up mt m p2))" for e mt m by (rule accounts.I_send [OF ok2])
  show ?thesis
    using ok2 ok3 s by (auto simp: handleSelectUplink_client_def up_def [symmetric] p1_def [symmetric] Let_def
        intro!: pool_ok_warmer ws_result)
qed

lemma pool_ok_handlers:
  assumes ok: "pool_ok p"
  shows "pool_ok (snd (handleConnStatus_client env c meta p))" "pool_ok (snd (handleTCPData_client env ch c payload p))"
    "pool_ok (snd (handleTCPClose_client env ch c p))" "pool_ok (handleUDPData_client env ch c meta payload p)"
    "pool_ok (snd (handleUDPClose_client env ch c p))" "pool_ok (handleChannelReset meta p)"
proof -
  show "pool_ok (snd (handleConnStatus_client env c meta p))"
    using ok by (simp add: handleConnStatus_client_def accounts.I_Unregister inv_intros split: list.split)
  obtain ds q where d: "dataDownlink c ch p = (ds, q)" by fastforce
  have q: "pool_ok q" by (rule pool_ok_dataDownlink [OF ok d])
  show "pool_ok (snd (handleTCPData_client env ch c payload p))"
    using d q by (simp add: handleTCPData_client_def accounts.I_Unregister accounts.I_emit accounts.I_SendCloseDirect
        split: option.split)
  show "pool_ok (snd (handleTCPClose_client env ch c p))"
    using ok by (simp add: handleTCPClose_client_def accounts.I_Unregister accounts.I_emit inv_intros Let_def split: option.split)
  define q1 where "q1 = (if ds_selected ds
    then snd (asyncWriteDirect (ce_send env ch) ch BinaryMessage (downlink_frame c ch) q) else q)"
  have q1: "pool_ok q1" unfolding q1_def using q accounts.I_send [OF q] by simp
  have "handleUDPData_client env ch c meta payload p = (if ds_chosen ds \<noteq> ch then q
      else case conn_sink q1 c of None \<Rightarrow> q1 | Some s \<Rightarrow> handleUDPResponse (ce_pick env) (string_of_bytes meta) payload s q1)"
    unfolding handleUDPData_client_def d q1_def by (simp add: Let_def)
  then show "pool_ok (handleUDPData_client env ch c meta payload p)"
    using q q1 pool_ok_udp(4) [OF q1] by (simp split: option.split)
  show "pool_ok (snd (handleUDPClose_client env ch c p))"
    using ok by (simp add: handleUDPClose_client_def accounts.I_Unregister accounts.I_stop inv_intros Let_def split: option.split)
  show "pool_ok (handleChannelReset meta p)"
    using ok by (simp add: handleChannelReset_def inv_intros)
qed

lemma pool_ok_handleMessage: "pool_ok p \<Longrightarrow> pool_ok (snd (handleMessage_client env ch mt c meta payload p))"
proof -
  assume "pool_ok p"
  then have ok: "pool_ok (noteLastChannel c ch p)" by (rule pool_ok_notes)
  have "pool_ok (case meta of [] \<Rightarrow> noteLastChannel c ch p | st # _ \<Rightarrow> handleBackpressure st (noteLastChannel c ch p))"
    using ok pool_ok_small(4) [OF ok] by (simp split: list.split)
  then show ?thesis
    using ok pool_ok_handlers [OF ok] pool_ok_SelectUplink [OF ok] rev_accounts.I_message [OF ok] rev_accounts.I_connect [OF ok]
      rev_accounts.I_listen_result [OF ok]
    unfolding handleMessage_client_def Let_def by simp
qed

lemma pool_ok_frame: "pool_ok p \<Longrightarrow> pool_ok (snd (handleChannel_frame env ch mt msg p))"
  by (simp add: handleChannel_frame_def pool_ok_handleMessage inv_intros Let_def split: option.split)

lemma pool_ok_cleanup: "pool_ok p \<Longrightarrow> pool_ok (snd (cleanupChannel_client env ch p))"
proof -
  have one: "pool_ok q \<Longrightarrow> pool_ok (snd (cleanup_conn env c q))" for c q
    using accounts.I_emit accounts.I_stop
    by (auto simp: cleanup_conn_def Let_def intro!: accounts.I_andThen accounts.I_Unregister split: option.split)
  assume "pool_ok p"
  then have "pool_ok (reverseCleanupChannel ch p)" by (rule rev_accounts.I_cleanup)
  then show ?thesis by (simp add: cleanupChannel_client_def Let_def accounts.I_each [OF one])
qed

lemma pool_ok_session:
  assumes ok: "pool_ok p"
  shows "pool_ok (sessionStart now uuid env idx sock p)" "pool_ok (snd (sessionEnd senv idx sock p))"
proof -
  have "conns_ok (installSession idx sock p)"
    by (rule conns_ok_cong [of p]) (use ok in \<open>simp_all add: installSession_def Let_def\<close>)
  then have "pool_ok (installSession idx sock p)" using ok cq_ok_installSession by blast
  then show "pool_ok (sessionStart now uuid env idx sock p)"
    unfolding sessionStart_def Let_def by (intro rev_accounts.I_channel_ready pool_ok_small)
  show "pool_ok (snd (sessionEnd senv idx sock p))"
    unfolding sessionEnd_def Let_def by (intro pool_ok_cleanup pool_ok_invalidateCh pool_ok_small accounts.I_emit ok)
qed

lemma pool_ok_reconnect: "pool_ok p \<Longrightarrow> pool_ok (reconnectLoop_round p)"
proof -
  have "pool_ok q \<Longrightarrow> pool_ok (foldl (\<lambda>p sock. cemit (SocketClose sock) p) q ss)" for q ss
    by (induction ss arbitrary: q) (simp_all add: accounts.I_emit)
  moreover have "pool_ok p \<Longrightarrow> pool_ok (p\<lparr>cp_reconnectCh := False\<rparr>)" by (erule pool_ok_cong) simp_all
  ultimately show "pool_ok p \<Longrightarrow> pool_ok (reconnectLoop_round p)" by (simp add: reconnectLoop_round_def)
qed

lemma pool_ok_shutdown: "pool_ok p \<Longrightarrow> pool_ok (shutdown_client fr p)"
proof -
  assume ok: "pool_ok p"
  have "sent_view (foldl (\<lambda>p q. upd_queue q f p) q qs) = sent_view q" for f q qs
    by (induction qs arbitrary: q) simp_all
  note v = sent_view_fields [OF this]
  have close: "pool_ok (closeQueues q)" if "pool_ok q" for q
    using that cq_ok_closeQueues [of q] conns_ok_cong [of q "closeQueues q"] by (simp add: closeQueues_def v)
  have "pool_ok q \<Longrightarrow> pool_ok (foldl (closeSocket fr) q ss)" for q ss
    by (induction ss arbitrary: q) (simp_all add: closeSocket_def accounts.I_emit)
  note sockets = this
  show ?thesis
    unfolding shutdown_client_def Let_def by (intro pool_ok_small sockets close ok)
qed

section \<open>The pair manager inside the pool\<close>

text \<open>What the pair manager's longer operations leave of the pool: the connections, apart from the
  prebind entry that they add and delete again, and the accounting of the queues.\<close>

definition aside :: "clientPool \<Rightarrow> clientPool \<Rightarrow> bool" where
  "aside p q \<longleftrightarrow> cp_conns q = cp_conns p \<and> cp_hasWarmer q = cp_hasWarmer p \<and> (cq_ok p \<longrightarrow> cq_ok q)"

lemma aside_refl [simp]: "aside p p"
  by (simp add: aside_def)

lemma aside_trans: "aside p q \<Longrightarrow> aside q s \<Longrightarrow> aside p s"
  by (simp add: aside_def)

lemma aside_warmer: "aside p (with_warmer f p)"
  by (simp add: aside_def inv_intros) (simp add: with_warmer_def)

lemma aside_warmer_field: "aside p (p\<lparr>cp_warmer := w\<rparr>)"
  by (simp add: aside_def inv_intros)

lemma aside_send: "aside p (snd (asyncWriteDirect env ch mt m p))"
  by (simp add: aside_def inv_intros)

lemma dict_del_set: "dict_get m k = None \<Longrightarrow> dict_del (dict_set m k v) k = m"
  by (induction m) (auto split: if_splits)

lemma dict_del_fresh: "dict_get m k = None \<Longrightarrow> dict_del m k = m"
  by (induction m) (auto split: if_splits)

definition fresh_build :: "build_env \<Rightarrow> clientPool \<Rightarrow> bool" where
  "fresh_build env p \<longleftrightarrow> dict_get (cp_conns p) (''prebind-'' @ be_uuid env) = None"

lemma aside_sendAll: "aside p (snd (sendAll env msg chs p))"
proof -
  have "aside p (snd (foldl (\<lambda>(n, p) c. let (res, p) = asyncWriteDirect (env c) c BinaryMessage msg p
      in (if res = Sent then n + 1 else n, p)) (n, p) chs))" for n :: nat
  proof (induction chs arbitrary: n p)
    case (Cons c chs)
    show ?case
      using aside_trans [OF aside_send [of p "env c" c BinaryMessage msg] Cons] by (simp add: Let_def split_def)
  qed simp
  then show ?thesis by (simp add: sendAll_def)
qed

lemma cq_ok_conns_iff: "cq_ok (cp_conns_update f p) \<longleftrightarrow> cq_ok p"
  by (auto elim!: cq_ok_cong)

lemma aside_around:
  assumes "dict_get (cp_conns p) k = None" "aside (p\<lparr>cp_conns := dict_set (cp_conns p) k st\<rparr>) q"
  shows "aside p (deletePrebindState k q)"
  using assms by (simp add: aside_def deletePrebindState_def dict_del_set cq_ok_conns_iff)

lemma BuildPair_begin_aside:
  assumes "fresh_build env p"
  shows "aside p (deletePrebindState (''prebind-'' @ be_uuid env) (snd (BuildPair_begin env chs p)))"
    "fst (BuildPair_begin env chs p) = Inl e \<Longrightarrow> aside p (snd (BuildPair_begin env chs p))"
    "fst (BuildPair_begin env chs p) = Inr c \<Longrightarrow> c = ''prebind-'' @ be_uuid env"
proof -
  define k where "k = ''prebind-'' @ be_uuid env"
  note B = BuildPair_begin_def [of env chs p, folded k_def]
  have fresh: "dict_get (cp_conns p) k = None" using assms by (simp only: fresh_build_def k_def)
  let ?st = "new_conn_state\<lparr>cc_id := k, cc_target := PrebindTarget, cc_start := Some (be_now env), cc_connected := Some False\<rparr>"
  let ?p = "p\<lparr>cp_conns := dict_set (cp_conns p) k ?st\<rparr>"
  let ?msg = "EncodeMessage MsgPrebindRequest k (cf_IPStrategy (cp_config p) # bytes_of_string PrebindTarget) []"
  let ?q = "snd (sendAll (be_request env) ?msg chs (snd (sendAll (be_begin env) (EncodeMessage MsgHotPairBegin '''' [] []) chs ?p)))"
  have "aside ?p ?q" by (rule aside_trans [OF aside_sendAll aside_sendAll])
  then have q: "aside p (deletePrebindState k ?q)" by (rule aside_around [OF fresh])
  have none: "aside p (deletePrebindState k p)"
    using fresh by (simp add: aside_def deletePrebindState_def dict_del_fresh cq_ok_conns_iff)
  have again: "deletePrebindState k (deletePrebindState k s) = deletePrebindState k s" for s
    by (simp add: deletePrebindState_def dict_del_fresh)
  show "aside p (deletePrebindState (''prebind-'' @ be_uuid env) (snd (BuildPair_begin env chs p)))"
    unfolding k_def [symmetric] using q none by (simp add: B Let_def split_def again)
  show "fst (BuildPair_begin env chs p) = Inl e \<Longrightarrow> aside p (snd (BuildPair_begin env chs p))"
    using q by (auto simp: B Let_def split_def split: if_splits)
  show "fst (BuildPair_begin env chs p) = Inr c \<Longrightarrow> c = ''prebind-'' @ be_uuid env"
    unfolding k_def [symmetric] by (auto simp: B Let_def split_def split: if_splits)
qed

lemma BuildPair_finish_shape:
  "\<exists>w. snd (BuildPair_finish env c p) = deletePrebindState c (p\<lparr>cp_warmer := w\<rparr>)"
  by (auto simp: BuildPair_finish_def Let_def split: option.split prod.split)

lemma BuildPair_aside:
  assumes "fresh_build env p"
  shows "aside p (snd (BuildPair env chs p))"
proof -
  note B = BuildPair_begin_aside [OF assms, of chs]
  obtain x q where b: "BuildPair_begin env chs p = (x, q)" by fastforce
  show ?thesis
  proof (cases x)
    case (Inr c)
    then have c: "c = ''prebind-'' @ be_uuid env" using B(3) b by simp
    obtain w where "snd (BuildPair_finish env c q) = deletePrebindState c (q\<lparr>cp_warmer := w\<rparr>)"
      using BuildPair_finish_shape by blast
    also have "\<dots> = (deletePrebindState c q)\<lparr>cp_warmer := w\<rparr>" by (cases q) (simp add: deletePrebindState_def)
    finally show ?thesis
      using B(1) b Inr c aside_trans [OF _ aside_warmer_field, of p "deletePrebindState c q" w] by (simp add: BuildPair_def)
  qed (use B(2) b in \<open>simp add: BuildPair_def\<close>)
qed

lemma fresh_build_aside: "aside p q \<Longrightarrow> fresh_build env p \<Longrightarrow> fresh_build env q"
  by (simp add: aside_def fresh_build_def)

lemma buildLoop_aside: "\<forall>k. fresh_build (envs k) p \<Longrightarrow> aside p (buildLoop n envs chs p)"
proof (induction n arbitrary: p)
  case (Suc n)
  obtain x q where b: "BuildPair (envs n) chs p = (x, q)" by fastforce
  then have q: "aside p q" using BuildPair_aside [of "envs n" p chs] Suc.prems by simp
  show ?case
  proof (cases x)
    case (Inr r)
    have 1: "aside p (with_warmer (assignPairSlot r) q)" by (rule aside_trans [OF q aside_warmer])
    have "\<forall>k. fresh_build (envs k) (with_warmer (assignPairSlot r) q)"
      using Suc.prems fresh_build_aside [OF 1] by blast
    from aside_trans [OF 1 Suc.IH [OF this]] b Inr show ?thesis by simp
  qed (use b q in simp)
qed simp

lemma tryBuildPairs_aside: "\<forall>k. fresh_build (envs k) p \<Longrightarrow> aside p (tryBuildPairs envs p)"
  by (simp add: tryBuildPairs_def Let_def buildLoop_aside)

lemma tryRefresh_aside:
  assumes "\<forall>k. fresh_build (envs k) p"
  shows "aside p (tryRefresh envs p)"
proof -
  have v: "aside q (snd (validatePrimaryChannels x q))" for x q
    using aside_warmer [of q] aside_trans [OF aside_warmer aside_warmer, of q]
    by (simp add: validatePrimaryChannels_def Let_def split: option.split)
  let ?p = "with_warmer ensurePrimaryLocked p"
  let ?q = "snd (validatePrimaryChannels (pw_primary (cp_warmer ?p)) ?p)"
  have 1: "aside p ?q" by (rule aside_trans [OF aside_warmer v])
  then have "\<forall>k. fresh_build (envs k) ?q" using assms fresh_build_aside [OF 1] by blast
  from aside_trans [OF 1 tryBuildPairs_aside [OF this]] show ?thesis by (simp add: tryRefresh_def Let_def split_def)
qed

lemma periodicRefresh_aside:
  assumes "fresh_build cenv p" "\<forall>k. fresh_build (envs k) p"
  shows "aside p (periodicRefresh cenv envs p)"
proof -
  define p1 where "p1 = with_warmer pruneIdleDrainingPairs (with_warmer heartbeatHotPairNotify p)"
  define p2 where "p2 = (if length (availableChannels p1) \<ge> 2 then
       (case BuildPair cenv (availableChannels p1) p1 of (Inl _, p) \<Rightarrow> p | (Inr c, p) \<Rightarrow> with_warmer (placeCandidate c) p)
       else p1)"
  define p3 where "p3 = with_warmer deduplicatePairs p2"
  define p4 where "p4 = with_warmer trimExcessPairs (with_warmer (healthCheckSpares (availableChannels p3)) p3)"
  have 1: "aside p p1" unfolding p1_def by (rule aside_trans [OF aside_warmer aside_warmer])
  obtain x q where b: "BuildPair cenv (availableChannels p1) p1 = (x, q)" by fastforce
  have "aside p1 q" using BuildPair_aside [OF fresh_build_aside [OF 1 assms(1)], of "availableChannels p1"] b by simp
  then have 2: "aside p1 p2" unfolding p2_def b using aside_trans [OF _ aside_warmer] by (auto split: sum.split)
  have 4: "aside p p4"
    unfolding p4_def p3_def
    by (rule aside_trans [OF aside_trans [OF aside_trans [OF aside_trans [OF 1 2] aside_warmer] aside_warmer] aside_warmer])
  then have "\<forall>k. fresh_build (envs k) p4" using assms(2) fresh_build_aside [OF 4] by blast
  from aside_trans [OF 4 tryBuildPairs_aside [OF this]] have "aside p (tryBuildPairs envs p4)" .
  moreover have "periodicRefresh cenv envs p = with_warmer deduplicatePairs (tryBuildPairs envs p4)"
    by (simp add: periodicRefresh_def p1_def p2_def p3_def p4_def Let_def)
  ultimately show ?thesis using aside_trans [OF _ aside_warmer] by simp
qed

definition fresh_event :: "(nat \<Rightarrow> build_env) \<Rightarrow> warmer_event \<Rightarrow> clientPool \<Rightarrow> bool" where
  "fresh_event envs ev p \<longleftrightarrow> (\<forall>k. fresh_build (envs k) p) \<and>
     (case ev of RefreshTick cenv \<Rightarrow> fresh_build cenv p | _ \<Rightarrow> True)"

lemma pool_ok_run:
  assumes ok: "pool_ok p" and f: "fresh_event envs ev p"
  shows "pool_ok (Run_event envs ev p)"
proof -
  have up: "pool_ok q" if "aside r q" "warmer_run r q" "pool_ok r" for r q
    using that conns_ok_upkeep [of r q] by (auto simp: aside_def)
  have fr: "\<forall>k. fresh_build (envs k) p" using f by (simp add: fresh_event_def)
  show ?thesis
  proof (cases ev)
    case ChannelReady
    let ?p = "p\<lparr>cp_chReadyCh := tl (cp_chReadyCh p)\<rparr>"
    have "pool_ok ?p" by (rule pool_ok_cong [OF ok]) simp_all
    moreover have "\<forall>k. fresh_build (envs k) ?p" using fr by (simp add: fresh_build_def)
    ultimately show ?thesis
      using up [OF tryBuildPairs_aside tryBuildPairs_run] by (simp add: Run_event_def ChannelReady)
  next
    case ChannelInvalid
    let ?p = "p\<lparr>cp_chInvalidCh := tl (cp_chInvalidCh p)\<rparr>"
    have "pool_ok ?p" by (rule pool_ok_cong [OF ok]) simp_all
    moreover have "\<forall>k. fresh_build (envs k) ?p" using fr by (simp add: fresh_build_def)
    ultimately show ?thesis
      using up [OF tryRefresh_aside tryRefresh_run] by (simp add: Run_event_def ChannelInvalid)
  next
    case (RefreshTick cenv)
    have c: "fresh_build cenv p" using f RefreshTick by (simp add: fresh_event_def)
    have "pool_ok (periodicRefresh cenv envs p)"
      by (rule up [OF periodicRefresh_aside [OF c fr] periodicRefresh_run ok])
    then have "pool_ok (with_warmer heartbeatHotPairNotify (periodicRefresh cenv envs p))"
      by (rule pool_ok_warmer) (rule heartbeat_run)
    with ok show ?thesis by (simp add: Run_event_def RefreshTick)
  qed
qed

lemma pool_ok_flush: "pool_ok p \<Longrightarrow> pool_ok (flushHotPairNotify env p)"
proof -
  assume ok: "pool_ok p"
  have send: "pool_ok q \<Longrightarrow> pool_ok (snd (flushSend env msg cs q))" for msg cs q
    by (induction cs arbitrary: q) (auto simp: Let_def split_def accounts.I_send)
  have w: "pool_ok (q\<lparr>cp_warmer := (cp_warmer q)\<lparr>pw_notifyTimer := b, pw_notifyPending := m\<rparr>\<rparr>)" if "pool_ok q" for q m b
  proof -
    have "upkeep_step v (v\<lparr>pw_notifyTimer := b, pw_notifyPending := m\<rparr>)" for v
    proof -
      have "v\<lparr>pw_notifyTimer := b, pw_notifyPending := m\<rparr> = v\<lparr>pw_notifyPending := m, pw_notifyTimer := b\<rparr>"
        by (cases v) simp
      then show ?thesis by (rule ssubst) (rule ws_flush)
    qed
    then have "pool_ok (with_warmer (\<lambda>v. v\<lparr>pw_notifyTimer := b, pw_notifyPending := m\<rparr>) q)"
      by (intro pool_ok_warmer [OF that] r_into_rtranclp)
    then show ?thesis by (simp add: with_warmer_def)
  qed
  have pend: "pool_ok (with_warmer (pw_notifyPending_update g) q)" if "pool_ok q" for q g
  proof -
    have "upkeep_step v (pw_notifyPending_update g v)" for v
    proof -
      have "pw_notifyPending_update g v =
          v\<lparr>pw_notifyPending := g (pw_notifyPending v), pw_notifyTimer := pw_notifyTimer v\<rparr>"
        by (cases v) simp
      then show ?thesis by (rule ssubst) (rule ws_flush)
    qed
    then show ?thesis by (intro pool_ok_warmer [OF that] r_into_rtranclp)
  qed
  define m where "m = dict_filter (\<lambda>key _. lookupReady key ((cp_warmer p)\<lparr>pw_notifyTimer := False\<rparr>) \<noteq> None)
    (pw_notifyPending ((cp_warmer p)\<lparr>pw_notifyTimer := False\<rparr>))"
  define q where "q = p\<lparr>cp_warmer := (cp_warmer p)\<lparr>pw_notifyTimer := False, pw_notifyPending := m\<rparr>\<rparr>"
  have "pool_ok q" unfolding q_def by (rule w [OF ok])
  note q = this send [OF this] pend [OF send [OF this]]
  show ?thesis
    unfolding flushHotPairNotify_def Let_def split_def m_def [symmetric] q_def [symmetric] by (simp add: q)
qed


section \<open>The running client\<close>

text \<open>
  The operations of a running client, each run without interruption: frames and pings that arrive, sessions that start and end, rounds of
  the writers, what the proxies do with streams and UDP channels, the goroutines of reverse
  connections, the events of the pair manager, the timers, reconnection and shutdown. The
  identifiers of dials and builds are fresh, as UUIDs are, and no proxy request asks for the
  target that marks prebind entries.
\<close>

inductive client_step :: "clientPool \<Rightarrow> clientPool \<Rightarrow> bool" where
  cs_frame: "client_step p (snd (handleChannel_frame env ch mt msg p))"
| cs_ping: "client_step p (handlePing ok ch m p)"
| cs_start: "idx < length (cp_wsConns p) \<Longrightarrow> client_step p (sessionStart now uuid senv idx sock p)"
| cs_end: "idx < length (cp_wsConns p) \<Longrightarrow> client_step p (snd (sessionEnd env idx sock p))"
| cs_writer: "client_step p (snd (writeWorker_step ok ev sock q pend p))"
| cs_dial: "dict_get (cp_conns p) (dial_id uuid p) = None \<Longrightarrow> target \<noteq> PrebindTarget \<Longrightarrow>
    client_step p (snd (snd (DialStream_begin_client renv uuid sink target p)))"
| cs_dial_end: "client_step p (snd (snd (DialStream_end env dev c p)))"
| cs_write: "client_step p (snd (pipeWrite env s data p))"
| cs_closeWrite: "client_step p (CloseWrite env s p)"
| cs_close: "client_step p (snd (snd (pipeClose env s p)))"
| cs_udp: "dict_get (cp_conns p) uuid = None \<Longrightarrow> client_step p (snd (DialUDP uuid blocked p))"
| cs_udp_send: "client_step p (snd (snd (UDP_Send renv env target data u p)))"
| cs_udp_read: "client_step p (snd (ReadFrom pick u p))"
| cs_udp_close: "client_step p (snd (UDP_Close env u p))"
| cs_reverse_dial: "client_step p (dialReverseTarget env result r c p)"
| cs_reverse_pump: "client_step p (reverseReadPump env read r c p)"
| cs_reverse_check: "client_step p (checkReverseRegFatal p)"
| cs_warmer: "fresh_event envs wev p \<Longrightarrow> client_step p (Run_event envs wev p)"
| cs_flush: "client_step p (flushHotPairNotify env p)"
| cs_racers: "client_step p (racerSummary c p)"
| cs_reconnect: "client_step p (Reconnect p)"
| cs_reconnect_loop: "client_step p (reconnectLoop_round p)"
| cs_shutdown: "client_step p (shutdown_client frame p)"

lemma releaseJobs_view [simp]: "sent_view (releaseJobs js p) = sent_view p"
  unfolding releaseJobs_def by (induction js arbitrary: p) simp_all

lemma drainQueue_view [simp]: "sent_view (drainQueue q p) = sent_view p"
  by (simp add: drainQueue_def)

lemma pool_ok_writer: "pool_ok p \<Longrightarrow> pool_ok (snd (writeWorker_step ok ev sock q pend p))"
proof -
  assume ok: "pool_ok p"
  have drain: "cp_conns (drainQueue q s) = cp_conns s \<and> cp_warmer (drainQueue q s) = cp_warmer s \<and>
      cp_hasWarmer (drainQueue q s) = cp_hasWarmer s" for s
    using sent_view_fields [OF drainQueue_view [of q s]] by simp
  have job: "cp_conns (snd (writeWorker_job b sock q j s)) = cp_conns s \<and>
      cp_warmer (snd (writeWorker_job b sock q j s)) = cp_warmer s \<and>
      cp_hasWarmer (snd (writeWorker_job b sock q j s)) = cp_hasWarmer s" for b j s
  proof -
    have "sent_view (releaseJobs xs (upd_queue q f s)) = sent_view s" for xs f by simp
    note sent_view_fields [OF this]
    then show ?thesis
      by (simp add: writeWorker_job_def Let_def split_def addSentBytes_client_def cemit_def)
  qed
  have take1: "cp_conns (takeJob q s) = cp_conns s \<and> cp_warmer (takeJob q s) = cp_warmer s \<and>
      cp_hasWarmer (takeJob q s) = cp_hasWarmer s" for s
    using sent_view_fields [OF sent_view_simps(7) [of q s]] by simp
  have "conns_ok (snd (writeWorker_step ok ev sock q pend p))"
    by (rule conns_ok_cong [of p])
      (use ok in \<open>simp_all add: writeWorker_step_def Let_def split_def drain job take1 cemit_def
        split: option.split worker_event.split list.split\<close>)
  with ok show ?thesis by (simp add: cq_ok_writeWorker_step)
qed

lemma pool_ok_step: "client_step p q \<Longrightarrow> pool_ok p \<Longrightarrow> pool_ok q"
  by (induction rule: client_step.induct)
    (rule pool_ok_frame pool_ok_small pool_ok_session pool_ok_writer pool_ok_dial pool_ok_stream pool_ok_DialUDP
      pool_ok_udp rev_accounts.I_dial rev_accounts.I_pump rev_accounts.I_check pool_ok_run pool_ok_flush
      pool_ok_reconnect pool_ok_shutdown; assumption)+

lemma pool_ok_newClientPool: "pool_ok (newClientPool cfg)"
proof -
  have f: "cp_conns (newClientPool cfg) = []" "cp_warmer (newClientPool cfg) = NewPairWarmer cfg"
    by (simp_all add: newClientPool_def Let_def)
  have "conns_ok (newClientPool cfg)"
    by (rule conns_okI) (simp_all add: f holders_def warmer_ok_def NewPairWarmer_def blank_pair_def)
  then show ?thesis by (simp add: cq_ok_newClientPool)
qed

definition client_start :: "clientPool \<Rightarrow> bool" where
  "client_start p \<longleftrightarrow> (\<exists>cfg. p = newClientPool cfg)"

interpretation client: invariant_system client_start client_step "\<lambda>p. cq_ok p \<and> conns_ok p"
  by unfold_locales (auto simp: client_start_def pool_ok_newClientPool dest: pool_ok_step)


section \<open>Losing a channel for good\<close>

text \<open>What a clean-up keeps: every connection that is left was there before and is as it was, the
  reverse connections and the sockets do not change, and no pair becomes ready.\<close>

definition avoids :: "chid \<Rightarrow> PairWarmer \<Rightarrow> bool" where
  "avoids ch w \<longleftrightarrow> (\<forall>r. pair_state w r = PairStateReady \<longrightarrow> \<not> uses_chan ch (pw_heap w r))"

definition within :: "chid \<Rightarrow> clientPool \<Rightarrow> clientPool \<Rightarrow> bool" where
  "within ch b p \<longleftrightarrow> conns_ok p \<and> (\<forall>c st. dict_get (cp_conns p) c = Some st \<longrightarrow> dict_get (cp_conns b) c = Some st) \<and>
     cp_reverseConns p = cp_reverseConns b \<and> cp_revHeap p = cp_revHeap b \<and> cp_wsConns p = cp_wsConns b \<and>
     cp_writeQueues p = cp_writeQueues b \<and> cp_hasWarmer p = cp_hasWarmer b \<and> (cp_hasWarmer b \<longrightarrow> avoids ch (cp_warmer p))"

lemma avoids_release:
  assumes "avoids ch w"
  shows "avoids ch (ReleasePair x w)"
proof -
  have [simp]: "pw_heap (ensurePrimaryLocked v) = pw_heap v" for v by (simp add: ensurePrimaryLocked_def)
  have "pair_state (ReleasePair x w) r = PairStateReady \<Longrightarrow> pair_state w r = PairStateReady \<and>
      uses_chan ch (pw_heap (ReleasePair x w) r) = uses_chan ch (pw_heap w r)" for r
    by (cases x) (auto simp: ReleasePair_def Let_def removePair_def setState_def upd_pair_def uses_chan_def split: if_splits)
  with assms show ?thesis by (auto simp: avoids_def)
qed

interpretation clean: unregistering "within ch b" for ch b
proof
  fix p c st
  assume w: "within ch b p" and g: "dict_get (cp_conns p) c = Some st"
  then show "within ch b (with_warmer (ReleasePair (cc_pair st)) (p\<lparr>cp_conns := dict_del (cp_conns p) c\<rparr>))"
    using conns_ok_delete [of p c st] avoids_release [of ch "cp_warmer p"]
    by (auto simp: within_def with_warmer_def)
qed (auto simp: within_def dest: conns_okD(4) intro: conns.I_send conns.I_emit conns.I_udp, auto simp: cemit_def upd_udp_def)

lemma cleanup_conn_within: "within ch b p \<Longrightarrow> within ch b (snd (cleanup_conn env c p))"
  by (auto simp: cleanup_conn_def Let_def intro!: clean.I_andThen clean.I_Unregister clean.I_stop clean.I_emit split: option.split)

text \<open>The clean-up of the reverse connections removes exactly those on the channel, and changes no other.\<close>

definition rev_uses :: "chid \<Rightarrow> reverseConn \<Rightarrow> bool" where
  "rev_uses ch r \<longleftrightarrow> rv_recvCh r = ch \<or> rv_sendCh r = ch"

lemma reverse_cleanup_entry:
  "cp_reverseConns (reverseCleanup_entry ch s (d, x)) =
     (if rev_uses ch (cp_revHeap s x) then dict_del (cp_reverseConns s) d else cp_reverseConns s)"
  "rev_uses ch (cp_revHeap (reverseCleanup_entry ch s (d, x)) y) = rev_uses ch (cp_revHeap s y)"
  "\<not> rev_uses ch (cp_revHeap s y) \<Longrightarrow> cp_revHeap (reverseCleanup_entry ch s (d, x)) y = cp_revHeap s y"
  by (auto simp: reverseCleanup_entry_def rev_uses_def removeReverseConn_client_def closeOnce_do_def upd_rvc_def getConn_def
      cemit_def Let_def split: option.split)

lemma reverse_cleanup_fold:
  "dict_get (cp_reverseConns (foldl (reverseCleanup_entry ch) s es)) c = Some r \<longleftrightarrow>
     dict_get (cp_reverseConns s) c = Some r \<and> (\<forall>x. (c, x) \<in> set es \<longrightarrow> \<not> rev_uses ch (cp_revHeap s x))"
  "\<not> rev_uses ch (cp_revHeap s y) \<Longrightarrow> cp_revHeap (foldl (reverseCleanup_entry ch) s es) y = cp_revHeap s y"
proof (induction es arbitrary: s)
  case (Cons e es)
  obtain d x where e: "e = (d, x)" by fastforce
  { case 1 show ?case using Cons.IH(1) [of "reverseCleanup_entry ch s e"] by (auto simp: e reverse_cleanup_entry(1,2)) }
  { case 2 then show ?case using Cons.IH(2) [of "reverseCleanup_entry ch s e"] by (simp add: e reverse_cleanup_entry(2,3)) }
qed simp_all

lemma reverse_cleanup_exact:
  assumes "dict_ok (cp_reverseConns p)"
  shows "dict_get (cp_reverseConns (reverseCleanupChannel ch p)) c = Some r \<longleftrightarrow>
      dict_get (cp_reverseConns p) c = Some r \<and> \<not> rev_uses ch (cp_revHeap p r)"
    "\<not> rev_uses ch (cp_revHeap p r) \<Longrightarrow> cp_revHeap (reverseCleanupChannel ch p) r = cp_revHeap p r"
  using assms by (auto simp: reverseCleanupChannel_def reverse_cleanup_fold dict_get_in_set)

text \<open>Without UDP flows a clean-up returns and deletes exactly the connections it was asked to.\<close>

lemma Unregister_plain:
  assumes "conns_ok p" "\<And>st. dict_get (cp_conns p) c = Some st \<Longrightarrow> cc_udpSink st = None"
  shows "fst (Unregister env c p)"
    "dict_get (cp_conns (snd (Unregister env c p))) d = (if d = c then None else dict_get (cp_conns p) d)"
proof -
  show "fst (Unregister env c p)"
    using assms(2) by (subst Unregister_unfold) (auto simp: Unregister_with_def Let_def andThen_def returns_def split: option.split)
  show "dict_get (cp_conns (snd (Unregister env c p))) d = (if d = c then None else dict_get (cp_conns p) d)"
    using assms(2) conns_okD(3) [OF assms(1)]
    by (subst Unregister_unfold) (auto simp: Unregister_with_def Let_def andThen_def returns_def with_warmer_def cemit_def split: option.split)
qed

lemma cleanup_conn_plain:
  assumes "conns_ok p" "\<And>st. dict_get (cp_conns p) c = Some st \<Longrightarrow> cc_udpSink st = None"
  shows "fst (cleanup_conn env c p)"
    "dict_get (cp_conns (snd (cleanup_conn env c p))) d = (if d = c then None else dict_get (cp_conns p) d)"
proof -
  have ok: "conns_ok (cemit e p)" for e by (rule conns.I_emit [OF assms(1)])
  have u: "fst (Unregister env c (cemit e p))"
    "dict_get (cp_conns (snd (Unregister env c (cemit e p)))) d = (if d = c then None else dict_get (cp_conns p) d)" for e
    using Unregister_plain [OF ok, where c = c] assms(2) by simp_all
  have n: "fst (Unregister env c p)"
    "dict_get (cp_conns (snd (Unregister env c p))) d = (if d = c then None else dict_get (cp_conns p) d)"
    using Unregister_plain [where c = c and p = p, OF assms(1)] assms(2) by simp_all
  show "fst (cleanup_conn env c p)"
    using u(1) n(1) assms(2) by (auto simp: cleanup_conn_def Let_def returns_def split: option.split)
  show "dict_get (cp_conns (snd (cleanup_conn env c p))) d = (if d = c then None else dict_get (cp_conns p) d)"
    using u(2) n(2) assms(2) by (auto simp: cleanup_conn_def Let_def returns_def split: option.split)
qed

lemma each_cleanup_plain:
  assumes "conns_ok p" "\<And>c st. c \<in> set cs \<Longrightarrow> dict_get (cp_conns p) c = Some st \<Longrightarrow> cc_udpSink st = None"
    and "cp_hasWarmer p \<longrightarrow> avoids ch (cp_warmer p)"
  shows "fst (each (cleanup_conn env) cs p) \<and> within ch p (snd (each (cleanup_conn env) cs p)) \<and>
    dict_get (cp_conns (snd (each (cleanup_conn env) cs p))) d = (if d \<in> set cs then None else dict_get (cp_conns p) d)"
  using assms
proof (induction cs arbitrary: p)
  case (Cons c cs)
  define q where "q = snd (cleanup_conn env c p)"
  have u: "cc_udpSink st = None" if "dict_get (cp_conns p) c = Some st" for st using Cons.prems(2) [OF _ that] by simp
  have C: "fst (cleanup_conn env c p)" "dict_get (cp_conns q) d = (if d = c then None else dict_get (cp_conns p) d)" for d
    unfolding q_def using cleanup_conn_plain [where c = c and p = p, OF Cons.prems(1)] u by blast+
  have w: "within ch p q" unfolding q_def by (rule cleanup_conn_within) (use Cons.prems in \<open>simp add: within_def\<close>)
  have e: "each (cleanup_conn env) (c # cs) p = each (cleanup_conn env) cs q" using C(1) by (simp add: andThen_def q_def)
  have "fst (each (cleanup_conn env) cs q) \<and> within ch q (snd (each (cleanup_conn env) cs q)) \<and>
      dict_get (cp_conns (snd (each (cleanup_conn env) cs q))) d = (if d \<in> set cs then None else dict_get (cp_conns q) d)"
    by (rule Cons.IH) (use w C(2) Cons.prems(2) in \<open>auto simp: within_def split: if_splits\<close>)
  with w C(2) show ?case unfolding e by (auto simp: within_def)
qed (simp add: returns_def within_def)

lemma cleanup_exact:
  assumes "conns_ok p" "cp_hasWarmer p \<longrightarrow> avoids ch (cp_warmer p)" "dict_ok (cp_reverseConns p)"
    and "\<And>c st. dict_get (cp_conns p) c = Some st \<Longrightarrow> conn_uses ch st \<Longrightarrow> cc_udpSink st = None"
    and q: "q = snd (cleanupChannel_client env ch p)"
  shows "fst (cleanupChannel_client env ch p)"
    "dict_get (cp_conns q) c = Some st \<longleftrightarrow> dict_get (cp_conns p) c = Some st \<and> \<not> conn_uses ch st"
    "dict_get (cp_reverseConns q) c = Some x \<longleftrightarrow> dict_get (cp_reverseConns p) c = Some x \<and> \<not> rev_uses ch (cp_revHeap p x)"
    "\<not> rev_uses ch (cp_revHeap p x) \<Longrightarrow> cp_revHeap q x = cp_revHeap p x"
    "cp_hasWarmer p \<Longrightarrow> avoids ch (cp_warmer q)" "cp_wsConns q = cp_wsConns p"
    "cp_writeQueues q = cp_writeQueues p"
proof -
  let ?p = "reverseCleanupChannel ch p"
  let ?cs = "map fst (filter (\<lambda>(c, st). conn_uses ch st) (cp_conns ?p))"
  note v = fwd_view_fields [OF fwd_view_cleanup [of ch p]] and rc = reverse_cleanup_exact [OF assms(3), of ch]
  have cs: "c \<in> set ?cs \<longleftrightarrow> (\<exists>st. dict_get (cp_conns p) c = Some st \<and> conn_uses ch st)" for c
    using conns_okD(1) [OF assms(1)] by (force simp: v dict_get_in_set)
  define r where "r = each (cleanup_conn env) ?cs ?p"
  have E: "fst r \<and> within ch ?p (snd r) \<and> dict_get (cp_conns (snd r)) d = (if d \<in> set ?cs then None else dict_get (cp_conns ?p) d)" for d
    unfolding r_def
  proof (rule each_cleanup_plain)
    show "conns_ok ?p" by (rule conns_ok_fwd_view [OF assms(1) fwd_view_cleanup])
    show "cc_udpSink st = None" if "c \<in> set ?cs" "dict_get (cp_conns ?p) c = Some st" for c st
      using that(2) that(1)[unfolded cs] assms(4) by (auto simp: v)
  qed (use assms(2) in \<open>simp add: v\<close>)
  have qr: "cleanupChannel_client env ch p = r" "q = snd r"
    by (simp_all add: q cleanupChannel_client_def Let_def r_def)
  show "fst (cleanupChannel_client env ch p)" using E qr by simp
  show "dict_get (cp_conns q) c = Some st \<longleftrightarrow> dict_get (cp_conns p) c = Some st \<and> \<not> conn_uses ch st"
    using E [of c] unfolding cs qr(2) by (auto simp: v split: if_splits)
  have w: "within ch ?p q" using E qr(2) by simp
  then show "cp_hasWarmer p \<Longrightarrow> avoids ch (cp_warmer q)" "cp_wsConns q = cp_wsConns p" "cp_writeQueues q = cp_writeQueues p"
    by (simp_all add: within_def v)
  show "dict_get (cp_reverseConns q) c = Some x \<longleftrightarrow> dict_get (cp_reverseConns p) c = Some x \<and> \<not> rev_uses ch (cp_revHeap p x)"
    "\<not> rev_uses ch (cp_revHeap p x) \<Longrightarrow> cp_revHeap q x = cp_revHeap p x"
    using w rc by (simp_all add: within_def)
qed

lemma avoids_lost:
  assumes "warmer_ok w"
  shows "avoids ch (PW_InvalidateChannel ch w)"
proof -
  note E = PW_InvalidateChannel_effect [OF assms, of ch]
  have "warmer_ok (PW_InvalidateChannel ch w)" by (rule channel_loss.keeps_ok [OF assms])
  then have "r \<in> set (pw_pairs (PW_InvalidateChannel ch w))" if "pair_state (PW_InvalidateChannel ch w) r = PairStateReady" for r
    using warmer_okD(2) that by fastforce
  then show ?thesis
    unfolding avoids_def using warmer_okD(2) [OF assms] by (auto simp: E(1,2) drained_def survives_def uses_chan_def split: if_splits)
qed

text \<open>The state in which the clean-up of a lost channel starts.\<close>

definition channel_lost :: "nat \<Rightarrow> nat \<Rightarrow> clientPool \<Rightarrow> clientPool" where
  "channel_lost idx sock p = invalidateCh (int idx + 1) ((cemit (SocketClose sock) p)
     \<lparr>cp_wsConns := (cp_wsConns p)[idx := None], cp_readyChannels := cp_readyChannels p - 1\<rparr>)"

lemma sessionEnd_cleanup:
  "sessionEnd env idx sock p = cleanupChannel_client env (int idx + 1) (channel_lost idx sock p)"
  by (simp add: sessionEnd_def channel_lost_def cemit_def Let_def)

lemma channel_lost_fields [simp]:
  "cp_conns (channel_lost idx sock p) = cp_conns p" "cp_wsConns (channel_lost idx sock p) = (cp_wsConns p)[idx := None]"
  "cp_reverseConns (channel_lost idx sock p) = cp_reverseConns p" "cp_udpHeap (channel_lost idx sock p) = cp_udpHeap p"
  "cp_hasWarmer p \<Longrightarrow> cp_warmer (channel_lost idx sock p) = PW_InvalidateChannel (int idx + 1) (cp_warmer p)"
  by (simp_all add: channel_lost_def invalidateCh_def notifyInvalid_def with_warmer_def cemit_def Let_def)

lemma pool_ok_channel_lost: "pool_ok p \<Longrightarrow> pool_ok (channel_lost idx sock p)"
  unfolding channel_lost_def by (intro pool_ok_invalidateCh pool_ok_small accounts.I_emit)

section \<open>Delivery to the local side\<close>

definition deliver_client :: "client_env \<Rightarrow> string \<Rightarrow> (chid \<times> bytes) list \<Rightarrow> clientPool \<Rightarrow> call" where
  "deliver_client env connID = each (\<lambda>(ch, b). handleMessage_client env ch MsgTCPData connID [] b)"

definition data_channel :: "clientPool \<Rightarrow> clientConnState \<Rightarrow> chid \<Rightarrow> chid" where
  "data_channel p st first =
     (if cc_downlink st > 0 then cc_downlink st
      else case cc_pair st of None \<Rightarrow> first | Some h \<Rightarrow> pr_DownlinkChID (pw_heap (cp_warmer p) h))"

lemma deliver_one:
  assumes st: "dict_get (cp_conns p) c = Some st" and f: "cc_tcpConn st = Some s" "cc_target st \<noteq> ''''"
    "cc_target st \<noteq> PrebindTarget" "0 \<le> cc_downlink st"
    and r: "\<not> hasReverseConn p c" and ok: "ce_write_ok env"
    and d: "d = data_channel p st ch" "0 < d" "d < 2 ^ 31"
  obtains q where "handleMessage_client env ch MsgTCPData c [] b p = (True, q)"
    "cp_effects q = cp_effects p @ (if ch = d then [ConnWrite s b] else [])"
    "dict_get (cp_conns q) c = Some (st\<lparr>cc_lastCh := ch, cc_downlink := d\<rparr>)" "\<not> hasReverseConn q c"
proof -
  define p1 where "p1 = noteLastChannel c ch p"
  let ?st = "st\<lparr>cc_lastCh := ch\<rparr>"
  have p1: "dict_get (cp_conns p1) c = Some ?st" "\<not> hasReverseConn p1 c" "cp_effects p1 = cp_effects p" "cp_warmer p1 = cp_warmer p"
    using st r by (simp_all add: p1_def noteLastChannel_def upd_cconn_def hasReverseConn_def)
  define p2 where "p2 = snd (dataDownlink c ch p1)"
  have w: "wrap32 d = d" using d by (intro wrap32_id) auto
  have dd: "ds_chosen (fst (dataDownlink c ch p1)) = d" "dict_get (cp_conns p2) c = Some (?st\<lparr>cc_downlink := d\<rparr>)"
    "\<not> hasReverseConn p2 c" "cp_effects p2 = cp_effects p"
  proof -
    let ?q = "p1\<lparr>cp_conns := dict_set (cp_conns p1) c (?st\<lparr>cc_downlink := d\<rparr>)\<rparr>"
    have "ds_chosen (fst (dataDownlink c ch p1)) = d \<and> (p2 = ?q \<or> p2 = p1 \<and> ?st\<lparr>cc_downlink := d\<rparr> = ?st)"
    proof (cases "cc_downlink st > 0")
      case True
      then show ?thesis using p1(1) d(1) by (simp add: p2_def dataDownlink_def getDownlink_def data_channel_def)
    next
      case False
      then have "cc_downlink st = 0" using f(4) by simp
      then show ?thesis
        using p1(1,4) f(2,3) d(1,2) w
        by (cases "cc_pair st") (simp_all add: p2_def dataDownlink_def getDownlink_def selectDownlink_def data_channel_def Let_def)
    qed
    with p1 show "ds_chosen (fst (dataDownlink c ch p1)) = d" "dict_get (cp_conns p2) c = Some (?st\<lparr>cc_downlink := d\<rparr>)"
      "\<not> hasReverseConn p2 c" "cp_effects p2 = cp_effects p" by (auto simp: hasReverseConn_def)
  qed
  have "handleMessage_client env ch MsgTCPData c [] b p = handleTCPData_client env ch c b p1"
    using r p1(2) by (simp add: handleMessage_client_def p1_def [symmetric] Let_def)
  also have "\<dots> = returns (if ch = d then cemit (ConnWrite s b) p2 else p2)"
    using dd f ok by (simp add: handleTCPData_client_def split_def Let_def p2_def [symmetric] conn_tcp_def)
  finally show ?thesis
    using dd by (intro that [of "if ch = d then cemit (ConnWrite s b) p2 else p2"]) (auto simp: returns_def cemit_def hasReverseConn_def)
qed

lemma deliver_client_writes:
  assumes "dict_get (cp_conns p) c = Some st" "cc_tcpConn st = Some s" "cc_target st \<noteq> ''''"
    "cc_target st \<noteq> PrebindTarget" "0 \<le> cc_downlink st" "\<not> hasReverseConn p c" "ce_write_ok env"
    and "fs \<noteq> [] \<Longrightarrow> d = data_channel p st (fst (hd fs))" "0 < d" "d < 2 ^ 31"
  shows "\<exists>q. deliver_client env c fs p = (True, q) \<and>
    cp_effects q = cp_effects p @ map (\<lambda>(ch, b). ConnWrite s b) (filter (\<lambda>(ch, b). ch = d) fs) \<and>
    (fs \<noteq> [] \<longrightarrow> getDownlink q c = Some d)"
  using assms
proof (induction fs arbitrary: p st)
  case (Cons x fs)
  obtain ch b where x: "x = (ch, b)" by fastforce
  have dc: "d = data_channel p st ch" using Cons.prems(8) by (simp add: x)
  obtain q where q: "handleMessage_client env ch MsgTCPData c [] b p = (True, q)"
    "cp_effects q = cp_effects p @ (if ch = d then [ConnWrite s b] else [])"
    "dict_get (cp_conns q) c = Some (st\<lparr>cc_lastCh := ch, cc_downlink := d\<rparr>)" "\<not> hasReverseConn q c"
    using deliver_one [OF Cons.prems(1-7) dc Cons.prems(9,10)] by blast
  have e: "deliver_client env c (x # fs) p = deliver_client env c fs q"
    by (simp add: deliver_client_def x q(1) andThen_def)
  have "\<exists>s'. deliver_client env c fs q = (True, s') \<and>
      cp_effects s' = cp_effects q @ map (\<lambda>(ch, b). ConnWrite s b) (filter (\<lambda>(ch, b). ch = d) fs) \<and>
      (fs \<noteq> [] \<longrightarrow> getDownlink s' c = Some d)"
    by (rule Cons.IH [OF q(3)]) (use Cons.prems q(4) in \<open>auto simp: data_channel_def\<close>)
  then show ?case
    unfolding e using q(2,3) Cons.prems(9)
    by (cases "fs = []") (auto simp: x deliver_client_def returns_def getDownlink_def)
qed (simp add: deliver_client_def returns_def)

section \<open>Theorems\<close>

text \<open>Fact: when the operations of a client run one at a time, in any order, then in every state reached
  every hot pair counts exactly the connections that hold it, the open pairs are the listed ones, the
  identifiers in the table are different, and the counter of queued bytes is the sum over all queues
  and never above its limit.\<close>

theorem reachable_client_accounts:
  assumes "client_step\<^sup>*\<^sup>* (newClientPool cfg) p"
  shows "(\<forall>r. pr_refs (pw_heap (cp_warmer p) r) = int (length (filter (\<lambda>(c, st). cc_pair st = Some r) (cp_conns p)))) \<and>
    (\<forall>r. pr_state (pw_heap (cp_warmer p) r) \<noteq> PairStateClosed \<longleftrightarrow> r \<in> set (pw_pairs (cp_warmer p))) \<and>
    distinct (map fst (cp_conns p)) \<and>
    cp_globalQueueBytes p = queued_client p \<and> 0 \<le> queued_client p \<and> queued_client p \<le> cp_globalQueueLimit p \<and>
    (\<forall>q. length (wq_jobs (cp_queueHeap p q)) \<le> 16384)"
proof -
  have "pool_ok p" by (rule client.reachable_inv [OF _ assms]) (auto simp: client_start_def)
  then have q: "cq_ok p" and c: "conns_ok p" by simp_all
  show ?thesis
    using cq_okD(1-3) [OF q] queued_client_nonneg [OF q] conns_okD(1,2,5) [OF c] warmer_okD(2) [OF conns_okD(2) [OF c]]
    by (auto simp: holders_def dict_ok_def writeQueueSize_def)
qed

text \<open>Property C33: the end of a channel's session, with or without hot pairs. When no connection on
  the channel is a UDP flow the clean-up returns; the channel is not available any more and the
  others are as before; exactly the connections with the channel as uplink or downlink are removed
  and exactly the reverse connections that receive or send on it; what is left is unchanged; and
  no ready hot pair uses the channel.\<close>

theorem session_end_forgets_channel:
  assumes "cq_ok p" "conns_ok p" "rv_ok p" "idx < length (cp_wsConns p)"
    and "\<forall>c st. dict_get (cp_conns p) c = Some st \<longrightarrow> conn_uses (int idx + 1) st \<longrightarrow> cc_udpSink st = None"
  shows "let ch = int idx + 1; (ok, q) = sessionEnd env idx sock p
    in ok \<and> set (availableChannels q) = set (availableChannels p) - {ch} \<and>
       (\<forall>c st. dict_get (cp_conns q) c = Some st \<longleftrightarrow>
          dict_get (cp_conns p) c = Some st \<and> cc_uplink st \<noteq> ch \<and> cc_downlink st \<noteq> ch) \<and>
       (\<forall>c r. dict_get (cp_reverseConns q) c = Some r \<longleftrightarrow>
          dict_get (cp_reverseConns p) c = Some r \<and> rv_recvCh (cp_revHeap p r) \<noteq> ch \<and> rv_sendCh (cp_revHeap p r) \<noteq> ch) \<and>
       (\<forall>c r. dict_get (cp_reverseConns q) c = Some r \<longrightarrow> cp_revHeap q r = cp_revHeap p r) \<and>
       (cp_hasWarmer p \<longrightarrow> (\<forall>r. pr_state (pw_heap (cp_warmer q) r) = PairStateReady \<longrightarrow>
          pr_UplinkChID (pw_heap (cp_warmer q) r) \<noteq> ch \<and> pr_DownlinkChID (pw_heap (cp_warmer q) r) \<noteq> ch))"
proof -
  let ?ch = "int idx + 1"
  define b where "b = channel_lost idx sock p"
  have f: "cp_conns b = cp_conns p" "cp_wsConns b = (cp_wsConns p)[idx := None]" "cp_reverseConns b = cp_reverseConns p"
    "cp_revHeap b = cp_revHeap p" "cp_writeQueues b = cp_writeQueues p" "cp_hasWarmer b = cp_hasWarmer p"
    by (simp_all add: b_def) (simp_all add: channel_lost_def invalidateCh_def notifyInvalid_def with_warmer_def cemit_def Let_def)
  have ok: "conns_ok b" unfolding b_def using pool_ok_channel_lost assms(1,2) by blast
  have av: "cp_hasWarmer b \<longrightarrow> avoids ?ch (cp_warmer b)"
    using avoids_lost [OF conns_okD(2) [OF assms(2)]] f(6) unfolding b_def by simp
  have d: "dict_ok (cp_reverseConns b)" using rv_okD(1) [OF assms(3)] by (simp add: f)
  have u: "cc_udpSink st = None" if "dict_get (cp_conns b) c = Some st" "conn_uses ?ch st" for c st
    using assms(5) that by (simp add: f)
  define q where "q = snd (cleanupChannel_client env ?ch b)"
  note q = cleanup_exact [OF ok av d u q_def, unfolded f]
  have e: "sessionEnd env idx sock p = (True, q)" using q(1) by (simp add: sessionEnd_cleanup b_def q_def prod_eq_iff)
  have "set (availableChannels q) = set (availableChannels p) - {?ch}"
    using assms(4) by (auto simp: q(6,7) availableChannels_def nth_list_update split: if_splits)
  then show ?thesis
    using q(2-5) by (simp add: e avoids_def uses_chan_def conn_uses_def rev_uses_def)
qed

theorem reachable_client_accounts_witness:
  "let p = snd (DialUDP ''u1'' [443] (newClientPool DefaultConfig))
   in map fst (cp_conns p) = [''u1''] \<and> cp_globalQueueBytes p = queued_client p \<and> 0 \<le> queued_client p \<and>
      queued_client p \<le> cp_globalQueueLimit p"
proof -
  let ?p = "snd (DialUDP ''u1'' [443] (newClientPool DefaultConfig))"
  have "client_step\<^sup>*\<^sup>* (newClientPool DefaultConfig) ?p"
    by (rule r_into_rtranclp) (rule cs_udp, simp add: newClientPool_def Let_def)
  from reachable_client_accounts [OF this] show ?thesis
    by (simp add: DialUDP_def RegisterUDP_def newClientPool_def Let_def)
qed

text \<open>A pool with one forward and one reverse connection on the lost channel, and one of each elsewhere.\<close>

definition split_pool :: clientPool where
  "split_pool = (installSession 1 8 (installSession 0 7 (newClientPool DefaultConfig)))
     \<lparr>cp_conns := [(''a'', new_conn_state\<lparr>cc_id := ''a'', cc_target := ''h:1'', cc_uplink := 2\<rparr>),
                  (''b'', new_conn_state\<lparr>cc_id := ''b'', cc_target := ''h:2'', cc_uplink := 1\<rparr>)],
      cp_reverseConns := [(''x'', 0), (''y'', 1)], cp_nextRev := 2,
      cp_revHeap := (\<lambda>_. blank_rev)(0 := blank_rev\<lparr>rv_id := ''x'', rv_recvCh := 2\<rparr>, 1 := blank_rev\<lparr>rv_id := ''y'', rv_recvCh := 1\<rparr>)\<rparr>"

theorem session_end_forgets_channel_witness:
  "let q = snd (sessionEnd (\<lambda>_. no_send) 1 8 split_pool)
   in dict_get (cp_conns q) ''a'' = None \<and> dict_get (cp_conns q) ''b'' \<noteq> None \<and>
      dict_get (cp_reverseConns q) ''x'' = None \<and> dict_get (cp_reverseConns q) ''y'' = Some 1 \<and> 2 \<notin> set (availableChannels q)"
proof -
  let ?r = "installSession 1 8 (installSession 0 7 (newClientPool DefaultConfig))"
  have "cq_ok ?r" by (intro cq_ok_installSession cq_ok_newClientPool)
  then have cq: "cq_ok split_pool" using cq_ok_cong [of ?r split_pool] by (simp add: split_pool_def)
  have "cp_warmer ?r = cp_warmer (newClientPool DefaultConfig)" by (simp add: installSession_def Let_def)
  then have w: "warmer_ok (cp_warmer split_pool)" "pair_refs (cp_warmer split_pool) r = 0" for r
    using conns_okD(2,5) [of "newClientPool DefaultConfig"] pool_ok_newClientPool [of DefaultConfig]
    by (simp_all add: split_pool_def holders_def) (simp add: newClientPool_def Let_def)
  have co: "conns_ok split_pool"
    using w by (intro conns_okI) (auto simp: split_pool_def dict_ok_def holders_def new_conn_state_def split: if_splits)
  have rv: "rv_ok split_pool" by (auto simp: rv_ok_def split_pool_def dict_ok_def blank_rev_def split: if_splits)
  have i: "1 < length (cp_wsConns split_pool)"
    by (simp add: split_pool_def installSession_def newClientPool_def DefaultConfig_def Let_def)
  have u: "\<forall>c st. dict_get (cp_conns split_pool) c = Some st \<longrightarrow> conn_uses (int 1 + 1) st \<longrightarrow> cc_udpSink st = None"
    by (auto simp: split_pool_def new_conn_state_def split: if_splits)
  define q where "q = snd (sessionEnd (\<lambda>_. no_send) 1 8 split_pool)"
  have T: "2 \<notin> set (availableChannels q)"
    "dict_get (cp_conns q) c = Some st \<longleftrightarrow> dict_get (cp_conns split_pool) c = Some st \<and> cc_uplink st \<noteq> 2 \<and> cc_downlink st \<noteq> 2"
    "dict_get (cp_reverseConns q) c = Some r \<longleftrightarrow> dict_get (cp_reverseConns split_pool) c = Some r \<and>
       rv_recvCh (cp_revHeap split_pool r) \<noteq> 2 \<and> rv_sendCh (cp_revHeap split_pool r) \<noteq> 2" for c st r
    using session_end_forgets_channel [OF cq co rv i u, of "\<lambda>_. no_send" 8] by (simp_all add: q_def Let_def split_def)
  have none: "x = None" if "\<And>y. x \<noteq> Some y" for x :: "'z option" using that by (cases x) auto
  have "dict_get (cp_conns q) ''a'' = None" "dict_get (cp_reverseConns q) ''x'' = None"
    by (rule none, auto simp: T(2) split_pool_def) (rule none, auto simp: T(3) split_pool_def)
  moreover have "dict_get (cp_conns q) ''b'' \<noteq> None" "dict_get (cp_reverseConns q) ''y'' = Some 1"
    using T(2) [of "''b''" "new_conn_state\<lparr>cc_id := ''b'', cc_target := ''h:2'', cc_uplink := 1\<rparr>"]
    by (simp add: split_pool_def new_conn_state_def) (simp add: T(3) split_pool_def blank_rev_def)
  ultimately show ?thesis using T(1) by (simp add: q_def Let_def)
qed

text \<open>Property C34: the downlink data of a TCP connection reaches the local side in order and from one
  channel only. Data may arrive on any channels before the downlink is known; the chosen channel is
  the one already recorded, else the hot pair's downlink, else the channel of the first data frame,
  and exactly the payloads of that channel are written, in order of arrival.\<close>

theorem client_delivery_in_order:
  assumes "dict_get (cp_conns p) c = Some st" "cc_tcpConn st = Some s" "cc_target st \<noteq> ''''"
    "cc_target st \<noteq> PrebindTarget" "0 \<le> cc_downlink st" "\<not> hasReverseConn p c" "ce_write_ok env" "fs \<noteq> []"
    and "d = data_channel p st (fst (hd fs))" "0 < d" "d < 2 ^ 31"
  shows "let (ok, q) = deliver_client env c fs p
    in ok \<and> getDownlink q c = Some d \<and>
       cp_effects q = cp_effects p @ map (\<lambda>(ch, b). ConnWrite s b) (filter (\<lambda>(ch, b). ch = d) fs)"
  using deliver_client_writes [OF assms(1-7) _ assms(10,11), of fs] assms(8,9) by auto

definition sample_client_env :: client_env where
  "sample_client_env = \<lparr>ce_now = 0, ce_send = (\<lambda>_. no_send), ce_close = (\<lambda>_. no_send), ce_write_ok = True, ce_pick = True,
     ce_resolve = (\<lambda>t s. t)\<rparr>"

definition sample_conn :: clientConnState where
  "sample_conn = new_conn_state\<lparr>cc_id := ''c1'', cc_target := ''h:80'', cc_tcpConn := Some 5\<rparr>"

theorem client_delivery_in_order_witness:
  "cp_effects (snd (deliver_client sample_client_env ''c1'' [(2, [7]), (1, [8]), (2, [9])]
     ((newClientPool DefaultConfig)\<lparr>cp_conns := [(''c1'', sample_conn)]\<rparr>))) = [ConnWrite 5 [7], ConnWrite 5 [9]]"
  using client_delivery_in_order [where c = "''c1''" and st = sample_conn and s = 5 and d = 2 and env = sample_client_env
      and fs = "[(2, [7]), (1, [8]), (2, [9])]" and p = "(newClientPool DefaultConfig)\<lparr>cp_conns := [(''c1'', sample_conn)]\<rparr>"]
  by (simp add: sample_conn_def new_conn_state_def PrebindTarget_def hasReverseConn_def newClientPool_def sample_client_env_def
      data_channel_def Let_def split_def)


text \<open>Property C35: what a prebind race reports. For a prebind entry whose uplink is not yet known or is
  the announced one, an answer makes a result exactly when no downlink was chosen before and the
  answer came on a channel other than the uplink; the result names that channel as downlink and the
  announced uplink. So a hot pair never has the same channel in both directions, and one race gives
  one result.\<close>

theorem prebind_race_sound:
  assumes "dict_get (cp_conns p) c = Some st" "cc_target st = PrebindTarget" "cc_pair st = None" "isPrebindID c" "cp_hasWarmer p"
    and "length meta \<ge> 4" "up = uint (Uint32 (take 4 meta))" "0 < up" "cc_uplink st = 0 \<or> cc_uplink st = up"
    and "0 \<le> cc_downlink st" "0 < ch" "ch < 2 ^ 31" "length (pw_prebindResultCh (cp_warmer p)) < 8"
  shows "let q = handleSelectUplink_client env ch c meta p
    in pw_prebindResultCh (cp_warmer q) = pw_prebindResultCh (cp_warmer p) @
         (if cc_downlink st = 0 \<and> ch \<noteq> up
          then [\<lparr>pb_connID = c, pb_uplinkChID = up, pb_downlinkChID = ch, pb_err = False\<rparr>] else []) \<and>
       GetUplinkChannel q c = Some up \<and>
       getDownlink q c = (if cc_downlink st > 0 then Some (cc_downlink st) else if ch = up then None else Some ch)"
proof -
  let ?st = "st\<lparr>cc_uplink := up\<rparr>"
  define p1 where "p1 = notePrebindRacer (ce_now env) c ch (noteUplink c up p)"
  have st': "(if cc_uplink st = 0 then st\<lparr>cc_uplink := up\<rparr> else st) = ?st" using assms(9) by auto
  have p1: "dict_get (cp_conns p1) c = Some ?st" "cp_warmer p1 = cp_warmer p" "cp_hasWarmer p1"
    using assms(1,5) st' by (simp_all add: p1_def notePrebindRacer_def noteUplink_def upd_cconn_def cspawn_def Let_def split: option.split)
  define p2 where "p2 = p1\<lparr>cp_conns := dict_set (cp_conns p1) c (?st\<lparr>cc_downlink := ch\<rparr>)\<rparr>"
  have w: "wrap32 ch = ch" using assms(11,12) by (intro wrap32_id) auto
  have sel: "ds_selected (fst (selectDownlink c ch p1)) \<longleftrightarrow> cc_downlink st = 0 \<and> ch \<noteq> up"
    "cc_downlink st = 0 \<and> ch \<noteq> up \<Longrightarrow> selectDownlink c ch p1 = ((fst (selectDownlink c ch p1))\<lparr>ds_chosen := ch\<rparr>, p2)"
    "\<not> (cc_downlink st = 0 \<and> ch \<noteq> up) \<Longrightarrow> snd (selectDownlink c ch p1) = p1"
    using p1 assms(2,3,8,10,11) w
    by (auto simp: selectDownlink_def p2_def PrebindTarget_def Let_def)
  have h: "handleSelectUplink_client env ch c meta p =
    (let (ds, p) = selectDownlink c ch p1
     in if \<not> ds_selected ds then p
        else let p = snd (asyncWriteDirect (ce_send env up) up BinaryMessage (downlink_frame c (ds_chosen ds)) p)
             in if cp_hasWarmer p then with_warmer (HandlePrebindResult \<lparr>pb_connID = c, pb_uplinkChID = up,
                  pb_downlinkChID = ds_chosen ds, pb_err = False\<rparr>) p else p)"
    using assms(4,6) by (simp add: handleSelectUplink_client_def p1_def assms(7) [symmetric] Let_def split_def)
  show ?thesis
  proof (cases "cc_downlink st = 0 \<and> ch \<noteq> up")
    case True
    obtain ds where ds: "selectDownlink c ch p1 = (ds, p2)" "ds_selected ds" "ds_chosen ds = ch"
      using sel(1) sel(2) [OF True] True by (metis downlink_choice.select_convs(2) downlink_choice.surjective downlink_choice.update_convs(2) fst_conv)
    have "cp_hasWarmer p2" using p1(3) by (simp add: p2_def)
    with ds True assms(8,11,13) p1(2) show ?thesis
      by (simp add: h Let_def HandlePrebindResult_def prebindResultCap_def with_warmer_def GetUplinkChannel_def getDownlink_def p2_def)
  next
    case False
    with sel(1,3) p1 assms(8,10) show ?thesis
      by (auto simp: h Let_def split_def GetUplinkChannel_def getDownlink_def)
  qed
qed


definition prebind_pool :: clientPool where
  "prebind_pool = (newClientPool (DefaultConfig\<lparr>cf_EnableHotPair := True\<rparr>))
     \<lparr>cp_conns := [(''prebind-u'', new_conn_state\<lparr>cc_id := ''prebind-u'', cc_target := PrebindTarget\<rparr>)]\<rparr>"

theorem prebind_race_sound_witness:
  "pw_prebindResultCh (cp_warmer (handleSelectUplink_client sample_client_env 2 ''prebind-u'' [0, 0, 0, 1] prebind_pool)) =
     [\<lparr>pb_connID = ''prebind-u'', pb_uplinkChID = 1, pb_downlinkChID = 2, pb_err = False\<rparr>] \<and>
   pw_prebindResultCh (cp_warmer (handleSelectUplink_client sample_client_env 1 ''prebind-u'' [0, 0, 0, 1] prebind_pool)) = []"
proof -
  let ?st = "new_conn_state\<lparr>cc_id := ''prebind-u'', cc_target := PrebindTarget\<rparr>"
  have f: "dict_get (cp_conns prebind_pool) ''prebind-u'' = Some ?st" "isPrebindID ''prebind-u''" "cp_hasWarmer prebind_pool"
    "pw_prebindResultCh (cp_warmer prebind_pool) = []" "uint (Uint32 [0, 0, 0, 1]) = 1"
    by (simp_all add: prebind_pool_def isPrebindID_def HasPrefix_def newClientPool_def NewPairWarmer_def DefaultConfig_def
        Uint32_def Let_def)
  note T = prebind_race_sound [OF f(1) _ _ f(2,3), where env = sample_client_env and meta = "[0, 0, 0, 1]" and up = 1]
  show ?thesis
    using T [of 2] T [of 1] f(4,5) by (simp add: new_conn_state_def Let_def)
qed

text \<open>Property C36: a UDP flow takes its channel's goroutine with it. When the server closes a UDP flow,
  the read loop of the channel on which the message arrived never gets past it, and when the
  channel of a UDP flow is lost, the clean-up of that flow never returns, so that the channel is
  not dialled again.\<close>

theorem udp_flow_blocks_channel:
  assumes "dict_get (cp_conns p) c = Some st" "\<not> cc_closed st" "cc_target st \<noteq> PrebindTarget" "cc_udpSink st = Some u"
    and "uc_once (cp_udpHeap p u) = OnceFresh" "uc_connID (cp_udpHeap p u) = c" "\<not> hasReverseConn p c"
  shows "fst (handleMessage_client env ch MsgUDPClose c meta payload p) = False \<and> fst (cleanup_conn (ce_close env) c p) = False \<and>
    (cp_conns p = [(c, st)] \<and> conn_uses (int idx + 1) st \<and> cp_reverseConns p = [] \<longrightarrow>
       fst (sessionEnd (ce_close env) idx sock p) = False)"
proof -
  have blocks: "fst (stop e u q) = False" if "cp_udpHeap q = cp_udpHeap p" "dict_get (cp_conns q) c = Some st'"
    "\<not> cc_closed st'" "cc_target st' \<noteq> PrebindTarget" "cc_udpSink st' = Some u" for e q st'
    using stop_blocks [of q u st' e] that assms(5,6) by auto
  have clean: "fst (cleanup_conn e c q) = False" if "cp_udpHeap q = cp_udpHeap p" "dict_get (cp_conns q) c = Some st" for e q
    using blocks [of "case cc_tcpConn st of None \<Rightarrow> q | Some d \<Rightarrow> cemit (ConnClose d) q" st e] that assms(2-4)
    by (simp add: cleanup_conn_def Let_def andThen_def cemit_def split: option.splits)
  let ?q = "noteUplink c ch (noteLastChannel c ch p)"
  let ?st = "(\<lambda>st. if cc_uplink st = 0 then st\<lparr>cc_uplink := ch\<rparr> else st) (st\<lparr>cc_lastCh := ch\<rparr>)"
  have q: "cp_udpHeap ?q = cp_udpHeap p" "dict_get (cp_conns ?q) c = Some ?st"
    using assms(1) by (simp_all add: noteUplink_def noteLastChannel_def upd_cconn_def)
  have "fst (stop (ce_close env) u ?q) = False"
    by (rule blocks [OF q]) (use assms(2-4) in auto)
  moreover have "\<not> hasReverseConn (noteLastChannel c ch p) c"
    using assms(1,7) by (simp add: hasReverseConn_def noteLastChannel_def upd_cconn_def)
  ultimately have "fst (handleMessage_client env ch MsgUDPClose c meta payload p) = False"
    using q(2) assms(4) by (simp add: handleMessage_client_def handleUDPClose_client_def conn_sink_def Let_def)
  moreover have "fst (sessionEnd (ce_close env) idx sock p) = False"
    if one: "cp_conns p = [(c, st)]" "conn_uses (int idx + 1) st" "cp_reverseConns p = []"
    using one clean [of "channel_lost idx sock p" "ce_close env"]
    by (simp add: sessionEnd_cleanup cleanupChannel_client_def reverseCleanupChannel_def andThen_def Let_def)
  ultimately show ?thesis using clean [of p "ce_close env"] assms(1) by blast
qed

theorem udp_flow_blocks_channel_witness:
  "fst (handleMessage_client sample_client_env 1 MsgUDPClose ''u1'' [] [] udp_pool) = False"
proof -
  let ?st = "new_conn_state\<lparr>cc_udpSink := Some 0, cc_connected := Some False, cc_reqType := ''SOCKS5 UDP''\<rparr>"
  have f: "dict_get (cp_conns udp_pool) ''u1'' = Some ?st" "uc_once (cp_udpHeap udp_pool 0) = OnceFresh"
    "uc_connID (cp_udpHeap udp_pool 0) = ''u1''" "\<not> hasReverseConn udp_pool ''u1''"
    by (simp_all add: udp_pool_def DialUDP_def RegisterUDP_def connState_def new_conn_state_def newClientPool_def
        blank_udp_def hasReverseConn_def Let_def)
  show ?thesis
    using udp_flow_blocks_channel [OF f(1) _ _ _ f(2-4), of sample_client_env 1 "[]" "[]"]
    by (simp add: new_conn_state_def PrebindTarget_def)
qed

end
