(* ===== verification/Relay.thy ===== *)
theory Relay
  imports Complex_Main "HOL-Library.Multiset" IP_Strategy
begin

text \<open>
  The manager of the relay nodes (\<^verbatim>\<open>src/relay.go\<close>): adding and resolving nodes, speed tests and
  scores, the choice of nodes, the health score and the load counts.

  Nodes are never removed, so a node pointer is an index into the list. The locks of the source make
  each update of a node and each copy of the list atomic. Floating-point numbers are rationals:
  rounding is left out, and the theorems state bounds, signs and orders. What the operations take
  from outside is an argument: the time, the resolver, the result of a probe (\<^term>\<open>None\<close> if the
  dial fails, else the latency), the number drawn by \<^verbatim>\<open>rng.Float64\<close>, and the sorting routine.
\<close>

section \<open>Sorting\<close>

text \<open>\<^verbatim>\<open>sort.Slice\<close> sorts by a strict weak order and promises nothing about equal elements, so the
  operations take the routine as an argument and rely on the contract below. \<open>sortSlice\<close> is the
  insertion sort that the library uses for short slices.\<close>

definition weak_order :: "('a \<Rightarrow> 'a \<Rightarrow> bool) \<Rightarrow> bool" where
  "weak_order lt \<longleftrightarrow> (\<forall>a b. lt a b \<longrightarrow> \<not> lt b a) \<and> (\<forall>a b c. \<not> lt b a \<longrightarrow> \<not> lt c b \<longrightarrow> \<not> lt c a)"

lemma weak_orderD:
  assumes "weak_order lt"
  shows "\<not> lt a a" "lt a b \<Longrightarrow> \<not> lt b a" "\<not> lt b a \<Longrightarrow> \<not> lt c b \<Longrightarrow> \<not> lt c a"
  using assms unfolding weak_order_def by blast+

locale slice_sort =
  fixes srt :: "('a \<Rightarrow> 'a \<Rightarrow> bool) \<Rightarrow> 'a list \<Rightarrow> 'a list"
  assumes sort_perm: "mset (srt lt xs) = mset xs"
    and sort_order: "weak_order lt \<Longrightarrow> sorted_wrt (\<lambda>a b. \<not> lt b a) (srt lt xs)"
begin

lemma sort_set: "set (srt lt xs) = set xs"
  using arg_cong [OF sort_perm, of set_mset lt xs] by simp

lemma sort_length: "length (srt lt xs) = length xs"
  using arg_cong [OF sort_perm, of size lt xs] by simp

lemma sort_nil [simp]: "srt lt [] = []"
  using sort_length [of lt "[]"] by simp

lemma sort_first:
  assumes "weak_order lt" "x \<in> set xs"
  shows "srt lt xs \<noteq> [] \<and> hd (srt lt xs) \<in> set xs \<and> \<not> lt x (hd (srt lt xs))"
proof -
  have "srt lt xs \<noteq> []" using assms(2) sort_length [of lt xs] by auto
  then obtain y ys where s: "srt lt xs = y # ys" by (cases "srt lt xs") auto
  with sort_order [OF assms(1), of xs] have "\<forall>z\<in>set ys. \<not> lt z y" by simp
  moreover have "x = y \<or> x \<in> set ys" "y \<in> set xs" using assms(2) sort_set [of lt xs] s by auto
  ultimately show ?thesis using weak_orderD(1) [OF assms(1)] s by auto
qed

lemma sort_front:
  assumes "weak_order lt" "x \<in> set (take n (srt lt xs))" "y \<in> set (drop n (srt lt xs))"
  shows "\<not> lt y x"
  using sort_order [OF assms(1), of xs] assms(2,3)
  by (metis append_take_drop_id sorted_wrt_append)

end

fun insertSlice :: "('a \<Rightarrow> 'a \<Rightarrow> bool) \<Rightarrow> 'a \<Rightarrow> 'a list \<Rightarrow> 'a list" where
  "insertSlice lt x [] = [x]"
| "insertSlice lt x (y # ys) = (if lt y x then y # insertSlice lt x ys else x # y # ys)"

definition sortSlice :: "('a \<Rightarrow> 'a \<Rightarrow> bool) \<Rightarrow> 'a list \<Rightarrow> 'a list" where
  "sortSlice lt xs = foldr (insertSlice lt) xs []"

lemma mset_insertSlice: "mset (insertSlice lt x xs) = add_mset x (mset xs)"
  by (induction xs) auto

lemma set_insertSlice: "set (insertSlice lt x xs) = insert x (set xs)"
  using arg_cong [OF mset_insertSlice, of set_mset lt x xs] by simp

lemma sorted_insertSlice:
  assumes "weak_order lt"
  shows "sorted_wrt (\<lambda>a b. \<not> lt b a) xs \<Longrightarrow> sorted_wrt (\<lambda>a b. \<not> lt b a) (insertSlice lt x xs)"
proof (induction xs)
  case (Cons y ys)
  show ?case
  proof (cases "lt y x")
    case True
    with Cons weak_orderD(2) [OF assms True] show ?thesis by (auto simp: set_insertSlice)
  next
    case False
    with Cons.prems weak_orderD(3) [OF assms False] show ?thesis by auto
  qed
qed simp

interpretation go_sort: slice_sort sortSlice
proof
  fix lt :: "'a \<Rightarrow> 'a \<Rightarrow> bool" and xs
  show "mset (sortSlice lt xs) = mset xs"
    by (induction xs) (simp_all add: sortSlice_def mset_insertSlice)
  show "sorted_wrt (\<lambda>a b. \<not> lt b a) (sortSlice lt xs)" if "weak_order lt"
    by (induction xs) (simp_all add: sortSlice_def sorted_insertSlice [OF that])
qed

section \<open>Nodes\<close>

record RelayNode =
  rn_ID :: string
  rn_Address :: string
  rn_IP :: string
  rn_Score :: rat
  rn_LastTest :: "instant option"
  rn_Latency :: duration
  rn_SuccessRate :: rat
  rn_Weight :: rat
  rn_FailCount :: int
  rn_FailTime :: "instant option"

record RelayNodeManager =
  rm_nodes :: "RelayNode list"
  rm_stopped :: bool
  rm_healthScore :: int
  rm_loadCounts :: "(string, int) dict"

record relayNodeSnapshot =
  sn_node :: nat
  sn_address :: string
  sn_ip :: string
  sn_score :: rat
  sn_successRate :: rat
  sn_latency :: duration
  sn_failCount :: int
  sn_failTime :: "instant option"

definition maxLoadPerNode :: int where
  "maxLoadPerNode = 16"

definition NewRelayNodeManager :: RelayNodeManager where
  "NewRelayNodeManager = \<lparr>rm_nodes = [], rm_stopped = False, rm_healthScore = 0, rm_loadCounts = []\<rparr>"

definition splitAddress :: "string \<Rightarrow> string \<Rightarrow> string \<times> string" where
  "splitAddress address defaultPort =
     (case SplitHostPort address of None \<Rightarrow> (address, defaultPort) | Some (host, port) \<Rightarrow> (host, port))"

definition formatIPPort :: "IP \<Rightarrow> string \<Rightarrow> string" where
  "formatIPPort ip port =
     (if To4 ip = None then ''['' @ IP_String ip @ '']:'' @ port else IP_String ip @ '':'' @ port)"

definition newNode :: "string \<Rightarrow> string \<Rightarrow> RelayNode" where
  "newNode sourceAddress resolvedAddr =
     \<lparr>rn_ID = resolvedAddr, rn_Address = sourceAddress, rn_IP = resolvedAddr, rn_Score = 50, rn_LastTest = None,
      rn_Latency = 0, rn_SuccessRate = 0, rn_Weight = 0, rn_FailCount = 0, rn_FailTime = None\<rparr>"

definition snapshotNode :: "nat \<Rightarrow> RelayNode \<Rightarrow> relayNodeSnapshot" where
  "snapshotNode i node =
     \<lparr>sn_node = i, sn_address = rn_Address node, sn_ip = rn_IP node, sn_score = rn_Score node,
      sn_successRate = rn_SuccessRate node, sn_latency = rn_Latency node, sn_failCount = rn_FailCount node,
      sn_failTime = rn_FailTime node\<rparr>"

definition snapshotNodes :: "RelayNodeManager \<Rightarrow> relayNodeSnapshot list" where
  "snapshotNodes m = map (\<lambda>i. snapshotNode i (rm_nodes m ! i)) [0..<length (rm_nodes m)]"

definition addResolved :: "string \<Rightarrow> string \<Rightarrow> RelayNode list \<Rightarrow> IP \<Rightarrow> RelayNode list" where
  "addResolved sourceAddress port nodes ip =
     (let resolvedAddr = formatIPPort ip port
      in if resolvedAddr \<in> set (map rn_IP nodes) then nodes else nodes @ [newNode sourceAddress resolvedAddr])"

definition addResolvedNodes :: "string \<Rightarrow> string \<Rightarrow> IP list \<Rightarrow> RelayNodeManager \<Rightarrow> RelayNodeManager" where
  "addResolvedNodes sourceAddress port ips m =
     m\<lparr>rm_nodes := foldl (addResolved sourceAddress port) (rm_nodes m) ips\<rparr>"

text \<open>One snapshot of the loop of \<^verbatim>\<open>refreshHostnameNodes\<close>, with the sources seen so far.\<close>

definition refreshSource ::
  "(string \<Rightarrow> IP list option) \<Rightarrow> string list \<times> RelayNodeManager \<Rightarrow> relayNodeSnapshot \<Rightarrow> string list \<times> RelayNodeManager" where
  "refreshSource lookup acc snapshot =
     (case acc of (seen, m) \<Rightarrow>
        if sn_address snapshot \<in> set seen then (seen, m)
        else
          let (host, port) = splitAddress (sn_address snapshot) ''443''
          in (sn_address snapshot # seen,
              if ParseIP host \<noteq> None then m
              else case lookup host of
                     None \<Rightarrow> m
                   | Some ips \<Rightarrow> addResolvedNodes (sn_address snapshot) port ips m))"

definition refreshHostnameNodes :: "(string \<Rightarrow> IP list option) \<Rightarrow> RelayNodeManager \<Rightarrow> RelayNodeManager" where
  "refreshHostnameNodes lookup m = snd (foldl (refreshSource lookup) ([], m) (snapshotNodes m))"

text \<open>The result says whether the address could be resolved.\<close>

definition AddNode :: "(string \<Rightarrow> IP list option) \<Rightarrow> string \<Rightarrow> string \<Rightarrow> RelayNodeManager \<Rightarrow> bool \<times> RelayNodeManager" where
  "AddNode lookup address defaultPort m =
     (let (host, port) = splitAddress address defaultPort
      in case ParseIP host of
           Some ip \<Rightarrow>
             let resolvedAddr = formatIPPort ip port
             in (True, m\<lparr>rm_nodes := rm_nodes m @ [newNode resolvedAddr resolvedAddr]\<rparr>)
         | None \<Rightarrow>
             (case lookup host of
                None \<Rightarrow> (False, m)
              | Some ips \<Rightarrow>
                  (True, m\<lparr>rm_nodes := rm_nodes m @ map (\<lambda>ip. newNode address (formatIPPort ip port)) ips\<rparr>)))"

section \<open>Tests and scores\<close>

text \<open>\<^verbatim>\<open>time.Since\<close> of the zero time is the largest duration.\<close>

definition hoursSince :: "instant \<Rightarrow> instant option \<Rightarrow> rat" where
  "hoursSince now t = of_int (case t of None \<Rightarrow> 2 ^ 63 - 1 | Some s \<Rightarrow> now - s) / of_int (3600 * time_Second)"

definition CalculateScore :: "instant \<Rightarrow> RelayNode \<Rightarrow> rat" where
  "CalculateScore now node =
     (let maxLatency = 5000 * time_Millisecond;
          normalizedLatency = of_int (rn_Latency node) / of_int maxLatency;
          normalizedLatency = (if normalizedLatency > 1 then 1 else normalizedLatency);
          baseScore = (1 - normalizedLatency) * (7 / 10) + rn_SuccessRate node * (3 / 10);
          hoursSinceTest = hoursSince now (rn_LastTest node);
          decayFactor = (if hoursSinceTest > 1 then 1 / (1 + hoursSinceTest * (1 / 10)) else 1)
      in baseScore * decayFactor)"

definition TestNodeSpeed :: "duration option \<Rightarrow> RelayNode \<Rightarrow> bool \<times> RelayNode" where
  "TestNodeSpeed probe node =
     (case probe of None \<Rightarrow> (False, node) | Some latency \<Rightarrow> (True, node\<lparr>rn_Latency := latency\<rparr>))"

text \<open>The test of a node and what follows it, the same in \<^verbatim>\<open>AddNodeAndTest\<close> and in \<^verbatim>\<open>testAllNodes\<close>.\<close>

definition testNode :: "instant \<Rightarrow> duration option \<Rightarrow> RelayNode \<Rightarrow> bool \<times> RelayNode" where
  "testNode now probe node =
     (let (ok, node) = TestNodeSpeed probe node;
          node = (if ok then node\<lparr>rn_SuccessRate := 1\<rparr>
                  else node\<lparr>rn_Latency := 9999 * time_Second, rn_SuccessRate := 0\<rparr>);
          node = node\<lparr>rn_LastTest := Some now\<rparr>;
          node = node\<lparr>rn_Score := CalculateScore now node\<rparr>
      in (ok, node\<lparr>rn_Weight := rn_Score node\<rparr>))"

definition AddNodeAndTest ::
  "(string \<Rightarrow> IP list option) \<Rightarrow> (string \<Rightarrow> instant \<times> duration option) \<Rightarrow> string \<Rightarrow> string \<Rightarrow> RelayNodeManager
   \<Rightarrow> string list option \<times> RelayNodeManager" where
  "AddNodeAndTest lookup probe address defaultPort m =
     (let (host, port) = splitAddress address defaultPort;
          test = (\<lambda>node. testNode (fst (probe (rn_IP node))) (snd (probe (rn_IP node))) node);
          add = (\<lambda>nodes. (Some (map (\<lambda>(_, n). rn_IP n) (filter fst (map test nodes))),
                          m\<lparr>rm_nodes := rm_nodes m @ map (\<lambda>n. snd (test n)) nodes\<rparr>))
      in case ParseIP host of
           Some ip \<Rightarrow> add [newNode (formatIPPort ip port) (formatIPPort ip port)]
         | None \<Rightarrow>
             (case lookup host of
                None \<Rightarrow> (None, m)
              | Some ips \<Rightarrow> add (map (\<lambda>ip. newNode address (formatIPPort ip port)) ips)))"

text \<open>The probes run concurrently, each on its own node.\<close>

definition testAllNodes ::
  "(string \<Rightarrow> IP list option) \<Rightarrow> (nat \<Rightarrow> instant \<times> duration option) \<Rightarrow> RelayNodeManager \<Rightarrow> RelayNodeManager" where
  "testAllNodes lookup probe m =
     (let m = refreshHostnameNodes lookup m
      in m\<lparr>rm_nodes := map (\<lambda>i. snd (testNode (fst (probe i)) (snd (probe i)) (rm_nodes m ! i))) [0..<length (rm_nodes m)]\<rparr>)"

section \<open>Health\<close>

definition SetHealthScore :: "int \<Rightarrow> RelayNodeManager \<Rightarrow> RelayNodeManager" where
  "SetHealthScore score m =
     (let score = (if score < 0 then 0 else score);
          score = (if score > 100 then 100 else score)
      in m\<lparr>rm_healthScore := score\<rparr>)"

definition GetHealthScore :: "RelayNodeManager \<Rightarrow> int" where
  "GetHealthScore m = rm_healthScore m"

definition CurrentTestInterval :: "RelayNodeManager \<Rightarrow> duration" where
  "CurrentTestInterval m =
     (let score = GetHealthScore m
      in if score < 30 then 15 * time_Second
         else if score \<ge> 70 then 60 * time_Second
         else 30 * time_Second)"

definition updateHealthScore :: "RelayNodeManager \<Rightarrow> RelayNodeManager" where
  "updateHealthScore m =
     (let snapshots = snapshotNodes m
      in if snapshots = [] then SetHealthScore 50 m
         else
           let failures = int (length (filter (\<lambda>s. sn_failCount s > 0) snapshots));
               score = 100 - (failures * 100 div int (length snapshots))
           in SetHealthScore score m)"

text \<open>\<^verbatim>\<open>Start\<close> and the rounds of \<^verbatim>\<open>speedTestLoop\<close> do the same work and set the timer.\<close>

definition speedTest_round ::
  "(string \<Rightarrow> IP list option) \<Rightarrow> (nat \<Rightarrow> instant \<times> duration option) \<Rightarrow> RelayNodeManager \<Rightarrow> duration \<times> RelayNodeManager" where
  "speedTest_round lookup probe m =
     (let m = updateHealthScore (testAllNodes lookup probe m) in (CurrentTestInterval m, m))"

definition Relay_Stop :: "RelayNodeManager \<Rightarrow> RelayNodeManager" where
  "Relay_Stop m = m\<lparr>rm_stopped := True\<rparr>"

definition GetHealthyRelayIPs :: "RelayNodeManager \<Rightarrow> string list" where
  "GetHealthyRelayIPs m = map sn_ip (filter (\<lambda>s. sn_score s > 30 \<and> sn_successRate s > 0) (snapshotNodes m))"

definition GetAvailableHealthyCount :: "RelayNodeManager \<Rightarrow> nat" where
  "GetAvailableHealthyCount m = length (filter (\<lambda>s. sn_score s > 30 \<and> sn_successRate s > 0) (snapshotNodes m))"

definition NodeCount :: "RelayNodeManager \<Rightarrow> nat" where
  "NodeCount m = length (rm_nodes m)"

section \<open>Choosing nodes\<close>

definition byScore :: "relayNodeSnapshot \<Rightarrow> relayNodeSnapshot \<Rightarrow> bool" where
  "byScore a b \<longleftrightarrow> sn_score a > sn_score b"

type_synonym sorter = "(relayNodeSnapshot \<Rightarrow> relayNodeSnapshot \<Rightarrow> bool) \<Rightarrow> relayNodeSnapshot list \<Rightarrow> relayNodeSnapshot list"

definition SelectBestNode :: "sorter \<Rightarrow> RelayNodeManager \<Rightarrow> nat option" where
  "SelectBestNode srt m =
     (let snapshots = snapshotNodes m
      in if snapshots = [] then None else Some (sn_node (hd (srt byScore snapshots))))"

definition SelectBestNodes :: "sorter \<Rightarrow> nat \<Rightarrow> RelayNodeManager \<Rightarrow> relayNodeSnapshot list" where
  "SelectBestNodes srt n m =
     (let snapshots = snapshotNodes m
      in if snapshots = [] then [] else take (min n (length snapshots)) (srt byScore snapshots))"

fun findNode :: "string \<Rightarrow> RelayNode list \<Rightarrow> nat option" where
  "findNode ip [] = None"
| "findNode ip (node # nodes) = (if rn_IP node = ip then Some 0 else map_option Suc (findNode ip nodes))"

definition GetNodeByIP :: "string \<Rightarrow> RelayNodeManager \<Rightarrow> nat option" where
  "GetNodeByIP ip m = findNode ip (rm_nodes m)"

definition upd_node :: "nat \<Rightarrow> (RelayNode \<Rightarrow> RelayNode) \<Rightarrow> RelayNodeManager \<Rightarrow> RelayNodeManager" where
  "upd_node i f m = m\<lparr>rm_nodes := (rm_nodes m)[i := f (rm_nodes m ! i)]\<rparr>"

definition MarkNodeFailed :: "instant \<Rightarrow> string \<Rightarrow> RelayNodeManager \<Rightarrow> RelayNodeManager" where
  "MarkNodeFailed now ip m =
     (case GetNodeByIP ip m of
        None \<Rightarrow> m
      | Some i \<Rightarrow>
          upd_node i (\<lambda>node. node\<lparr>rn_FailCount := rn_FailCount node + 1, rn_FailTime := Some now, rn_SuccessRate := 0,
            rn_Score := 0, rn_Weight := 0\<rparr>) m)"

definition MarkNodeSuccess :: "instant \<Rightarrow> string \<Rightarrow> RelayNodeManager \<Rightarrow> RelayNodeManager" where
  "MarkNodeSuccess now ip m =
     (case GetNodeByIP ip m of
        None \<Rightarrow> m
      | Some i \<Rightarrow>
          upd_node i (\<lambda>node.
            let node = node\<lparr>rn_FailCount := 0, rn_SuccessRate := 1, rn_LastTest := Some now\<rparr>;
                node = node\<lparr>rn_Score := CalculateScore now node\<rparr>
            in node\<lparr>rn_Weight := rn_Score node\<rparr>) m)"

definition Acquire :: "string \<Rightarrow> RelayNodeManager \<Rightarrow> RelayNodeManager" where
  "Acquire ip m =
     m\<lparr>rm_loadCounts := dict_set (rm_loadCounts m) ip
         (wrap32 ((case dict_get (rm_loadCounts m) ip of None \<Rightarrow> 0 | Some n \<Rightarrow> n) + 1))\<rparr>"

definition Release :: "string \<Rightarrow> RelayNodeManager \<Rightarrow> RelayNodeManager" where
  "Release ip m =
     (let count = (case dict_get (rm_loadCounts m) ip of None \<Rightarrow> 0 | Some n \<Rightarrow> n)
      in if count > 1 then m\<lparr>rm_loadCounts := dict_set (rm_loadCounts m) ip (count - 1)\<rparr>
         else m\<lparr>rm_loadCounts := dict_del (rm_loadCounts m) ip\<rparr>)"

definition AcquiredCount :: "string \<Rightarrow> RelayNodeManager \<Rightarrow> int" where
  "AcquiredCount ip m = (case dict_get (rm_loadCounts m) ip of None \<Rightarrow> 0 | Some n \<Rightarrow> n)"

definition candidateWeight :: "RelayNodeManager \<Rightarrow> string \<Rightarrow> rat \<Rightarrow> rat" where
  "candidateWeight m ip score =
     (let load = of_int (AcquiredCount ip m);
          loadFactor = 1 - (load / of_int maxLoadPerNode) * (1 / 2);
          loadFactor = (if loadFactor < 1 / 10 then 1 / 10 else loadFactor)
      in score * loadFactor)"

text \<open>\<^verbatim>\<open>now.Sub\<close> of the zero time is the largest duration.\<close>

definition coolingDown :: "instant \<Rightarrow> relayNodeSnapshot \<Rightarrow> bool" where
  "coolingDown now s \<longleftrightarrow> sn_failCount s \<ge> 3 \<and>
     (case sn_failTime s of None \<Rightarrow> False | Some t \<Rightarrow> now - t < 30 * time_Second)"

definition selectHealthy :: "instant \<Rightarrow> string list \<Rightarrow> RelayNodeManager \<Rightarrow> relayNodeSnapshot list" where
  "selectHealthy now excludeIPs m =
     filter (\<lambda>s. sn_ip s \<notin> set excludeIPs \<and> \<not> coolingDown now s \<and> \<not> sn_successRate s \<le> 0) (snapshotNodes m)"

text \<open>The loop that draws a candidate: the first one at which the running difference is negative, else
  the last.\<close>

fun weightedPick :: "rat \<Rightarrow> ('a \<times> rat) list \<Rightarrow> 'a option" where
  "weightedPick pick [] = None"
| "weightedPick pick [(c, w)] = Some c"
| "weightedPick pick ((c, w) # cws) = (if pick - w < 0 then Some c else weightedPick (pick - w) cws)"

definition byFailures :: "relayNodeSnapshot \<Rightarrow> relayNodeSnapshot \<Rightarrow> bool" where
  "byFailures a b \<longleftrightarrow> (if sn_failCount a \<noteq> sn_failCount b then sn_failCount a < sn_failCount b else sn_score a > sn_score b)"

text \<open>The clock is read once for each search.\<close>

definition SelectNodeExcluding ::
  "sorter \<Rightarrow> (string \<Rightarrow> IP list option) \<Rightarrow> rat \<Rightarrow> instant \<times> instant \<Rightarrow> string list \<Rightarrow> RelayNodeManager
   \<Rightarrow> relayNodeSnapshot option \<times> RelayNodeManager" where
  "SelectNodeExcluding srt lookup rnd now excludeIPs m =
     (let candidates = selectHealthy (fst now) excludeIPs m;
          (m', candidates) =
            (if candidates = []
             then let m = refreshHostnameNodes lookup m in (m, selectHealthy (snd now) excludeIPs m)
             else (m, candidates))
      in if candidates \<noteq> [] then
           let weights = map (\<lambda>c. candidateWeight m' (sn_ip c) (sn_score c)) candidates;
               total = sum_list weights
           in (weightedPick (rnd * total) (zip candidates weights), m')
         else
           let filtered = filter (\<lambda>s. sn_ip s \<notin> set excludeIPs) (snapshotNodes m')
           in if filtered = [] then (None, m') else (Some (hd (srt byFailures filtered)), m'))"


section \<open>Scores stay in range\<close>

text \<open>A node that has been tested or used has a score between 0 and 1; a node that was only added has
  the initial score 50 and no success.\<close>

definition node_ok :: "RelayNode \<Rightarrow> bool" where
  "node_ok n \<longleftrightarrow> 0 \<le> rn_Latency n \<and> (rn_SuccessRate n = 0 \<or> rn_SuccessRate n = 1) \<and> 0 \<le> rn_FailCount n \<and>
     0 \<le> rn_Score n \<and> (rn_Score n \<le> 1 \<or> rn_Score n = 50 \<and> rn_SuccessRate n = 0)"

definition relay_ok :: "RelayNodeManager \<Rightarrow> bool" where
  "relay_ok m \<longleftrightarrow> (\<forall>n\<in>set (rm_nodes m). node_ok n) \<and> 0 \<le> rm_healthScore m \<and> rm_healthScore m \<le> 100"

lemma score_range:
  assumes "0 \<le> rn_Latency n" "rn_SuccessRate n = 0 \<or> rn_SuccessRate n = 1"
  shows "0 \<le> CalculateScore now n" "CalculateScore now n \<le> 1"
proof -
  define x :: rat where "x = of_int (rn_Latency n) / of_int (5000 * time_Millisecond)"
  define y where "y = (if x > 1 then 1 else x)"
  define h where "h = hoursSince now (rn_LastTest n)"
  define d where "d = (if h > 1 then 1 / (1 + h * (1 / 10)) else 1)"
  define b where "b = (1 - y) * (7 / 10) + rn_SuccessRate n * (3 / 10)"
  have "0 \<le> x" using assms(1) by (simp add: x_def time_Millisecond_def)
  then have y: "0 \<le> y" "y \<le> 1" by (auto simp: y_def)
  have b: "0 \<le> b" "b \<le> 1" using y assms(2) by (auto simp: b_def field_simps)
  have d: "0 \<le> d" "d \<le> 1" by (auto simp: d_def)
  have "CalculateScore now n = b * d" by (simp add: CalculateScore_def Let_def b_def d_def h_def y_def x_def)
  then show "0 \<le> CalculateScore now n" "CalculateScore now n \<le> 1" using b d mult_le_one [of b d] by auto
qed

lemma node_ok_new: "node_ok (newNode a b)"
  by (simp add: node_ok_def newNode_def)

lemma node_ok_test:
  assumes "node_ok n" "\<And>l. probe = Some l \<Longrightarrow> 0 \<le> l"
  shows "node_ok (snd (testNode now probe n))"
proof -
  define k where "k = (case probe of None \<Rightarrow> n\<lparr>rn_Latency := 9999 * time_Second, rn_SuccessRate := 0, rn_LastTest := Some now\<rparr>
    | Some l \<Rightarrow> n\<lparr>rn_Latency := l, rn_SuccessRate := 1, rn_LastTest := Some now\<rparr>)"
  have k: "0 \<le> rn_Latency k" "rn_SuccessRate k = 0 \<or> rn_SuccessRate k = 1" "rn_FailCount k = rn_FailCount n"
    using assms(2) by (auto simp: k_def time_Second_def split: option.split)
  have "snd (testNode now probe n) = k\<lparr>rn_Score := CalculateScore now k, rn_Weight := CalculateScore now k\<rparr>"
    by (cases probe) (simp_all add: testNode_def TestNodeSpeed_def k_def Let_def)
  then show ?thesis using k score_range [OF k(1,2), of now] assms(1) by (auto simp: node_ok_def)
qed

lemma node_ok_marks:
  assumes "node_ok n"
  shows "node_ok (n\<lparr>rn_FailCount := rn_FailCount n + 1, rn_FailTime := t, rn_SuccessRate := 0, rn_Score := 0, rn_Weight := 0\<rparr>)"
    "node_ok (let node = n\<lparr>rn_FailCount := 0, rn_SuccessRate := 1, rn_LastTest := Some now\<rparr>;
                  node = node\<lparr>rn_Score := CalculateScore now node\<rparr>
              in node\<lparr>rn_Weight := rn_Score node\<rparr>)"
  using assms score_range [of "n\<lparr>rn_FailCount := 0, rn_SuccessRate := 1, rn_LastTest := Some now\<rparr>" now]
  by (auto simp: node_ok_def Let_def)

lemma addResolved_nodes:
  "\<exists>ns. foldl (addResolved a port) nodes ips = nodes @ ns \<and> (\<forall>n\<in>set ns. node_ok n)"
proof (induction ips arbitrary: nodes)
  case (Cons ip ips)
  obtain ks where k: "addResolved a port nodes ip = nodes @ ks" "\<forall>n\<in>set ks. node_ok n"
    by (cases "formatIPPort ip port \<in> set (map rn_IP nodes)") (auto simp: addResolved_def Let_def node_ok_new)
  obtain ns where "foldl (addResolved a port) (nodes @ ks) ips = (nodes @ ks) @ ns" "\<forall>n\<in>set ns. node_ok n"
    using Cons by blast
  with k show ?case by (intro exI [of _ "ks @ ns"]) auto
qed simp

text \<open>A refresh only appends new nodes.\<close>

lemma refresh_appends:
  "\<exists>ns. refreshHostnameNodes lookup m = m\<lparr>rm_nodes := rm_nodes m @ ns\<rparr> \<and> (\<forall>n\<in>set ns. node_ok n)"
proof -
  have "\<exists>ns. snd (foldl (refreshSource lookup) (seen, m) ss) = m\<lparr>rm_nodes := rm_nodes m @ ns\<rparr> \<and> (\<forall>n\<in>set ns. node_ok n)" for seen ss
  proof (induction ss arbitrary: seen m)
    case Nil
    show ?case by (intro exI [of _ "[]"]) simp
  next
    case (Cons s ss)
    obtain seen1 m1 where r: "refreshSource lookup (seen, m) s = (seen1, m1)" by fastforce
    have "\<exists>ns. m1 = m\<lparr>rm_nodes := rm_nodes m @ ns\<rparr> \<and> (\<forall>n\<in>set ns. node_ok n)"
    proof -
      have new: "\<exists>ns. addResolvedNodes a port ips m = m\<lparr>rm_nodes := rm_nodes m @ ns\<rparr> \<and> (\<forall>n\<in>set ns. node_ok n)" for a port ips
        using addResolved_nodes [of a port "rm_nodes m" ips] by (auto simp: addResolvedNodes_def)
      have "m1 = m \<or> (\<exists>a port ips. m1 = addResolvedNodes a port ips m)"
        using r by (auto simp: refreshSource_def Let_def split: if_splits option.splits prod.splits)
      then show ?thesis
      proof
        assume "m1 = m"
        then show ?thesis by (intro exI [of _ "[]"]) simp
      qed (use new in blast)
    qed
    then obtain ns where m1: "m1 = m\<lparr>rm_nodes := rm_nodes m @ ns\<rparr>" "\<forall>n\<in>set ns. node_ok n" by blast
    obtain ks where "snd (foldl (refreshSource lookup) (seen1, m1) ss) = m1\<lparr>rm_nodes := rm_nodes m1 @ ks\<rparr>" "\<forall>n\<in>set ks. node_ok n"
      using Cons.IH by blast
    with r m1 show ?case by (intro exI [of _ "ns @ ks"]) auto
  qed
  then show ?thesis by (simp add: refreshHostnameNodes_def)
qed

lemma relay_ok_refresh [inv_intros]: "relay_ok m \<Longrightarrow> relay_ok (refreshHostnameNodes lookup m)"
  using refresh_appends [of lookup m] by (auto simp: relay_ok_def)

lemma relay_ok_upd:
  assumes "relay_ok m" "\<And>n. node_ok n \<Longrightarrow> node_ok (f n)"
  shows "relay_ok (upd_node i f m)"
proof -
  have "node_ok n" if "n \<in> set ((rm_nodes m)[i := f (rm_nodes m ! i)])" for n
  proof (cases "i < length (rm_nodes m)")
    case True
    then have "node_ok (f (rm_nodes m ! i))" using assms by (simp add: relay_ok_def)
    with assms(1) that show ?thesis using set_update_subset_insert [of "rm_nodes m" i] unfolding relay_ok_def by blast
  qed (use assms(1) that list_update_beyond [of "rm_nodes m" i] in \<open>simp add: relay_ok_def not_less\<close>)
  with assms(1) show ?thesis by (simp add: relay_ok_def upd_node_def)
qed

lemma relay_ok_marks [inv_intros]:
  assumes "relay_ok m"
  shows "relay_ok (MarkNodeFailed now ip m)" "relay_ok (MarkNodeSuccess now ip m)"
proof -
  show "relay_ok (MarkNodeFailed now ip m)"
    unfolding MarkNodeFailed_def using relay_ok_upd [OF assms node_ok_marks(1)] assms by (simp split: option.split)
  show "relay_ok (MarkNodeSuccess now ip m)"
    unfolding MarkNodeSuccess_def using relay_ok_upd [OF assms node_ok_marks(2)] assms by (simp split: option.split)
qed

lemma relay_ok_AddNode [inv_intros]: "relay_ok m \<Longrightarrow> relay_ok (snd (AddNode lookup a port m))"
  by (auto simp: AddNode_def relay_ok_def node_ok_new Let_def split: option.split prod.split)

lemma relay_ok_AddNodeAndTest:
  assumes "relay_ok m" "\<And>ip l. snd (probe ip) = Some l \<Longrightarrow> 0 \<le> l"
  shows "relay_ok (snd (AddNodeAndTest lookup probe a port m))"
  using assms by (auto simp: AddNodeAndTest_def relay_ok_def Let_def split: option.split prod.split intro!: node_ok_test node_ok_new)

lemma relay_ok_test:
  assumes "relay_ok m" "\<And>i l. snd (probe i) = Some l \<Longrightarrow> 0 \<le> l"
  shows "relay_ok (testAllNodes lookup probe m)"
  using relay_ok_refresh [OF assms(1), of lookup] assms(2)
  by (auto simp: testAllNodes_def relay_ok_def Let_def intro!: node_ok_test)

lemma relay_ok_SetHealthScore: "relay_ok m \<Longrightarrow> relay_ok (SetHealthScore k m)"
  by (simp add: SetHealthScore_def relay_ok_def)

lemma relay_ok_health [inv_intros]: "relay_ok m \<Longrightarrow> relay_ok (updateHealthScore m)"
  by (simp add: updateHealthScore_def Let_def relay_ok_SetHealthScore)

lemma relay_ok_load [inv_intros]:
  "relay_ok m \<Longrightarrow> relay_ok (Acquire ip m)" "relay_ok m \<Longrightarrow> relay_ok (Release ip m)" "relay_ok m \<Longrightarrow> relay_ok (Relay_Stop m)"
  by (simp_all add: relay_ok_def Acquire_def Release_def Relay_Stop_def Let_def)

lemma Select_manager: "snd (SelectNodeExcluding srt lookup rnd now ex m) \<in> {m, refreshHostnameNodes lookup m}"
  by (simp add: SelectNodeExcluding_def Let_def)

lemma relay_ok_Select [inv_intros]: "relay_ok m \<Longrightarrow> relay_ok (snd (SelectNodeExcluding srt lookup rnd now ex m))"
  using Select_manager [of srt lookup rnd now ex m] relay_ok_refresh [of m lookup] by auto

inductive relay_step :: "RelayNodeManager \<Rightarrow> RelayNodeManager \<Rightarrow> bool" where
  rs_add: "relay_step m (snd (AddNode lookup a port m))"
| rs_add_test: "(\<And>ip l. snd (probe ip) = Some l \<Longrightarrow> 0 \<le> l) \<Longrightarrow> relay_step m (snd (AddNodeAndTest lookup probe a port m))"
| rs_round: "(\<And>i l. snd (probe' i) = Some l \<Longrightarrow> 0 \<le> l) \<Longrightarrow> relay_step m (snd (speedTest_round lookup probe' m))"
| rs_failed: "relay_step m (MarkNodeFailed now ip m)"
| rs_success: "relay_step m (MarkNodeSuccess now ip m)"
| rs_select: "relay_step m (snd (SelectNodeExcluding srt lookup rnd nows ex m))"
| rs_acquire: "relay_step m (Acquire ip m)"
| rs_release: "relay_step m (Release ip m)"
| rs_set: "relay_step m (SetHealthScore k m)"
| rs_stop: "relay_step m (Relay_Stop m)"

lemma relay_ok_step: "relay_step m m' \<Longrightarrow> relay_ok m \<Longrightarrow> relay_ok m'"
  by (induction rule: relay_step.induct)
    (simp_all add: inv_intros relay_ok_AddNodeAndTest relay_ok_test speedTest_round_def relay_ok_SetHealthScore Let_def)

interpretation relay: invariant_system "\<lambda>m. m = NewRelayNodeManager" relay_step relay_ok
  by unfold_locales (auto simp: relay_ok_def NewRelayNodeManager_def dest: relay_ok_step)


section \<open>The weighted draw\<close>

lemma weightedPick_interval:
  assumes "length cs = length ws" "i < length ws" "\<forall>w\<in>set ws. 0 \<le> w"
    and "sum_list (take i ws) \<le> pick" "pick < sum_list (take (Suc i) ws)"
  shows "weightedPick pick (zip cs ws) = Some (cs ! i)"
  using assms
proof (induction cs ws arbitrary: i pick rule: list_induct2)
  case (Cons c cs w ws)
  show ?case
  proof (cases i)
    case 0
    with Cons.prems show ?thesis by (cases "zip cs ws") auto
  next
    case (Suc j)
    then have j: "j < length ws" "sum_list (take j ws) \<le> pick - w" "pick - w < sum_list (take (Suc j) ws)"
      using Cons.prems by auto
    have "0 \<le> sum_list (take j ws)" using Cons.prems(2) by (intro sum_list_nonneg) (auto dest: in_set_takeD)
    moreover obtain d v cws where "zip cs ws = (d, v) # cws" using j(1) Cons.hyps by (cases cs; cases ws) auto
    ultimately show ?thesis using Cons.IH [OF j(1) _ j(2,3)] Cons.prems(2) Suc j(2) by simp
  qed
qed simp

lemma weightedPick_mem: "cws \<noteq> [] \<Longrightarrow> \<exists>c w. (c, w) \<in> set cws \<and> weightedPick pick cws = Some c"
  by (induction pick cws rule: weightedPick.induct) auto

lemma weight_bounds:
  assumes "0 \<le> score" "0 \<le> AcquiredCount ip m"
  shows "score / 10 \<le> candidateWeight m ip score" "candidateWeight m ip score \<le> score"
proof -
  define x :: rat where "x = 1 - (of_int (AcquiredCount ip m) / of_int maxLoadPerNode) * (1 / 2)"
  define f where "f = (if x < 1 / 10 then 1 / 10 else x)"
  have w: "candidateWeight m ip score = score * f" by (simp add: candidateWeight_def f_def x_def Let_def)
  have "0 \<le> (of_int (AcquiredCount ip m) :: rat)" using assms(2) by simp
  then have f: "1 / 10 \<le> f" "f \<le> 1" by (auto simp: f_def x_def maxLoadPerNode_def)
  show "score / 10 \<le> candidateWeight m ip score" using mult_left_mono [OF f(1) assms(1)] by (simp add: w)
  show "candidateWeight m ip score \<le> score" using mult_left_mono [OF f(2) assms(1)] by (simp add: w)
qed

section \<open>Load counts\<close>

lemma AcquiredCount_Acquire:
  "0 \<le> AcquiredCount ip m \<Longrightarrow> AcquiredCount ip m < 2 ^ 31 - 1 \<Longrightarrow>
    AcquiredCount x (Acquire ip m) = AcquiredCount x m + (if x = ip then 1 else 0)"
  by (auto simp: AcquiredCount_def Acquire_def wrap32_id split: option.splits)

lemma AcquiredCount_Release:
  "0 < AcquiredCount ip m \<Longrightarrow> AcquiredCount x (Release ip m) = AcquiredCount x m - (if x = ip then 1 else 0)"
  by (auto simp: AcquiredCount_def Release_def Let_def split: option.splits)

lemma AcquiredCount_same:
  "rm_loadCounts m' = rm_loadCounts m \<Longrightarrow> AcquiredCount x m' = AcquiredCount x m"
  by (simp add: AcquiredCount_def)

section \<open>Theorems\<close>

lemma set_snapshotNodes: "set (snapshotNodes m) = {snapshotNode i (rm_nodes m ! i) |i. i < length (rm_nodes m)}"
  by (auto simp: snapshotNodes_def)

lemma snapshot_ok:
  assumes "relay_ok m" "s \<in> set (snapshotNodes m)"
  shows "0 \<le> sn_score s" "sn_successRate s = 0 \<or> sn_successRate s = 1" "sn_score s \<le> 1 \<or> sn_score s = 50 \<and> sn_successRate s = 0"
    "0 \<le> sn_failCount s"
  using assms by (auto simp: set_snapshotNodes snapshotNode_def relay_ok_def node_ok_def dest!: nth_mem)

text \<open>Fact: in every reachable state of the relay manager a node's score lies between 0 and 1, or
  is the initial 50 of a node that was never tested or used; success rates are 0 or 1, the health
  score is between 0 and 100, and the interval between tests is 15, 30 or 60 seconds.\<close>

theorem relay_scores_bounded:
  assumes "relay_step\<^sup>*\<^sup>* NewRelayNodeManager m"
  shows "(\<forall>n\<in>set (rm_nodes m). 0 \<le> rn_Score n \<and> (rn_Score n \<le> 1 \<or> rn_Score n = 50 \<and> rn_SuccessRate n = 0) \<and>
      rn_SuccessRate n \<in> {0, 1} \<and> 0 \<le> rn_FailCount n) \<and>
    0 \<le> GetHealthScore m \<and> GetHealthScore m \<le> 100 \<and>
    CurrentTestInterval m \<in> {15 * time_Second, 30 * time_Second, 60 * time_Second}"
  using relay.reachable_inv [OF refl assms]
  by (auto simp: relay_ok_def node_ok_def GetHealthScore_def CurrentTestInterval_def Let_def)

theorem relay_scores_bounded_witness:
  "map rn_Score (rm_nodes (snd (AddNode (\<lambda>_. None) ''1.2.3.4:80'' ''443'' NewRelayNodeManager))) = [50] \<and>
   GetHealthScore (snd (AddNode (\<lambda>_. None) ''1.2.3.4:80'' ''443'' NewRelayNodeManager)) \<le> 100"
proof -
  let ?m = "snd (AddNode (\<lambda>_. None) ''1.2.3.4:80'' ''443'' NewRelayNodeManager)"
  have "relay_step\<^sup>*\<^sup>* NewRelayNodeManager ?m" by (rule r_into_rtranclp) (rule rs_add)
  moreover have "map rn_Score (rm_nodes ?m) = [50]" by code_simp
  ultimately show ?thesis using relay_scores_bounded by blast
qed

text \<open>Fact: no node ever counts as healthy. The test asks for a score above 30, but scores that a
  test gives are at most 1, and a node with the initial score 50 has success rate 0, so the list of
  healthy relays is empty in every reachable state.\<close>

theorem no_relay_is_healthy:
  assumes "relay_step\<^sup>*\<^sup>* NewRelayNodeManager m"
  shows "GetHealthyRelayIPs m = [] \<and> GetAvailableHealthyCount m = 0"
proof -
  have ok: "relay_ok m" by (rule relay.reachable_inv [OF refl assms])
  have "\<not> (sn_score s > 30 \<and> sn_successRate s > 0)" if "s \<in> set (snapshotNodes m)" for s
    using snapshot_ok(2,3) [OF ok that] by auto
  then show ?thesis by (simp add: GetHealthyRelayIPs_def GetAvailableHealthyCount_def filter_empty_conv)
qed

theorem no_relay_is_healthy_witness:
  "GetHealthyRelayIPs (snd (speedTest_round (\<lambda>_. None) (\<lambda>_. (0, Some 5)) (snd (AddNode (\<lambda>_. None) ''1.2.3.4:80'' ''443'' NewRelayNodeManager)))) = []"
proof -
  let ?m = "snd (AddNode (\<lambda>_. None) ''1.2.3.4:80'' ''443'' NewRelayNodeManager)"
  have "relay_step ?m (snd (speedTest_round (\<lambda>_. None) (\<lambda>_. (0, Some 5)) ?m))" by (rule rs_round) auto
  with converse_rtranclp_into_rtranclp [of relay_step NewRelayNodeManager ?m, OF rs_add] no_relay_is_healthy show ?thesis by blast
qed


lemma byScore_weak: "weak_order byScore"
  by (auto simp: weak_order_def byScore_def)

lemma byFailures_weak: "weak_order byFailures"
  by (auto simp: weak_order_def byFailures_def split: if_splits)

lemma set_selectHealthy:
  "s \<in> set (selectHealthy t ex m) \<longleftrightarrow>
     s \<in> set (snapshotNodes m) \<and> sn_ip s \<notin> set ex \<and> 0 < sn_successRate s \<and> \<not> coolingDown t s"
  by (auto simp: selectHealthy_def)

lemma draw_mem: "cs \<noteq> [] \<Longrightarrow> \<exists>s\<in>set cs. weightedPick pick (zip cs (map w cs)) = Some s"
  using weightedPick_mem [of "zip cs (map w cs)" pick] by (cases cs) (auto dest!: set_zip_leftD)

text \<open>The three outcomes: a candidate at once, a candidate after resolving again, or the fallback.\<close>

lemma SelectNodeExcluding_cases:
  obtains (first) s where "s \<in> set (selectHealthy (fst now) ex m)"
      "SelectNodeExcluding srt lookup rnd now ex m = (Some s, m)"
  | (again) s where "selectHealthy (fst now) ex m = []"
      "s \<in> set (selectHealthy (snd now) ex (refreshHostnameNodes lookup m))"
      "SelectNodeExcluding srt lookup rnd now ex m = (Some s, refreshHostnameNodes lookup m)"
  | (fallback) "selectHealthy (fst now) ex m = []" "selectHealthy (snd now) ex (refreshHostnameNodes lookup m) = []"
      "SelectNodeExcluding srt lookup rnd now ex m =
        (let filtered = filter (\<lambda>s. sn_ip s \<notin> set ex) (snapshotNodes (refreshHostnameNodes lookup m))
         in (if filtered = [] then None else Some (hd (srt byFailures filtered)), refreshHostnameNodes lookup m))"
proof (cases "selectHealthy (fst now) ex m = []")
  case False
  let ?w = "\<lambda>c. candidateWeight m (sn_ip c) (sn_score c)"
  obtain s where "s \<in> set (selectHealthy (fst now) ex m)"
    "weightedPick (rnd * sum_list (map ?w (selectHealthy (fst now) ex m)))
       (zip (selectHealthy (fst now) ex m) (map ?w (selectHealthy (fst now) ex m))) = Some s"
    using draw_mem [OF False] by blast
  with False first show ?thesis by (simp add: SelectNodeExcluding_def Let_def)
next
  case True
  let ?m = "refreshHostnameNodes lookup m"
  let ?cs = "selectHealthy (snd now) ex ?m" and ?w = "\<lambda>c. candidateWeight ?m (sn_ip c) (sn_score c)"
  show ?thesis
  proof (cases "?cs = []")
    case False
    obtain s where "s \<in> set ?cs" "weightedPick (rnd * sum_list (map ?w ?cs)) (zip ?cs (map ?w ?cs)) = Some s"
      using draw_mem [OF False] by blast
    with True False again show ?thesis by (simp add: SelectNodeExcluding_def Let_def)
  qed (use True fallback in \<open>simp add: SelectNodeExcluding_def Let_def\<close>)
qed

lemma map_ip_snapshots: "map sn_ip (snapshotNodes m) = map rn_IP (rm_nodes m)"
  by (rule nth_equalityI) (simp_all add: snapshotNodes_def snapshotNode_def)

lemma all_excluded:
  "(\<forall>n\<in>set (rm_nodes m). rn_IP n \<in> set ex) \<longleftrightarrow> filter (\<lambda>s. sn_ip s \<notin> set ex) (snapshotNodes m) = []"
  using arg_cong [OF map_ip_snapshots, of "\<lambda>ips. \<forall>ip\<in>set ips. ip \<in> set ex" m] by (simp add: filter_empty_conv)

lemma none_healthy:
  "selectHealthy t ex m = [] \<longleftrightarrow>
     (\<nexists>s. s \<in> set (snapshotNodes m) \<and> sn_ip s \<notin> set ex \<and> 0 < sn_successRate s \<and> \<not> coolingDown t s)"
  using set_selectHealthy [of _ t ex m] by (metis last_in_set empty_iff empty_set)

text \<open>Property C8: the choice of a node for a reconnection. The chosen node is one of the manager's and
  not excluded; there is a choice exactly if some node is not excluded; while there are candidates
  (not excluded, last test or use successful, not cooling down after three failures) one of them is
  chosen; without candidates even after resolving the names again, the choice has the fewest
  failures and among those the best score. The manager only changes by nodes that the resolver adds.\<close>

theorem relay_choice_sound:
  assumes "slice_sort srt"
  shows "let (res, m') = SelectNodeExcluding srt lookup rnd now ex m;
             healthy = (\<lambda>t m s. s \<in> set (snapshotNodes m) \<and> sn_ip s \<notin> set ex \<and> 0 < sn_successRate s \<and> \<not> coolingDown t s)
    in (\<exists>ns. rm_nodes m' = rm_nodes m @ ns) \<and>
       (res = None \<longleftrightarrow> (\<forall>n\<in>set (rm_nodes m'). rn_IP n \<in> set ex)) \<and>
       (\<forall>s. res = Some s \<longrightarrow> s \<in> set (snapshotNodes m') \<and> sn_ip s \<notin> set ex) \<and>
       (\<forall>s. res = Some s \<longrightarrow> (\<exists>c. healthy (fst now) m c) \<longrightarrow> m' = m \<and> healthy (fst now) m s) \<and>
       (\<forall>s. res = Some s \<longrightarrow> (\<nexists>c. healthy (fst now) m c) \<longrightarrow> (\<exists>c. healthy (snd now) m' c) \<longrightarrow> healthy (snd now) m' s) \<and>
       (\<forall>s c. res = Some s \<longrightarrow> (\<nexists>c. healthy (fst now) m c) \<longrightarrow> (\<nexists>c. healthy (snd now) m' c) \<longrightarrow>
          c \<in> set (snapshotNodes m') \<longrightarrow> sn_ip c \<notin> set ex \<longrightarrow>
          sn_failCount s < sn_failCount c \<or> sn_failCount s = sn_failCount c \<and> sn_score c \<le> sn_score s)"
proof (cases rule: SelectNodeExcluding_cases [of now ex m srt lookup rnd])
  case (first s)
  note s = first(1) [unfolded set_selectHealthy]
  then have "\<not> (\<forall>n\<in>set (rm_nodes m). rn_IP n \<in> set ex)"
    unfolding all_excluded by (auto simp: filter_empty_conv)
  with s first(2) show ?thesis by auto
next
  case (again s)
  let ?m = "refreshHostnameNodes lookup m"
  obtain ns where ns: "rm_nodes ?m = rm_nodes m @ ns" using refresh_appends [of lookup m] by auto
  note s = again(2) [unfolded set_selectHealthy]
  then have "\<not> (\<forall>n\<in>set (rm_nodes ?m). rn_IP n \<in> set ex)"
    unfolding all_excluded by (auto simp: filter_empty_conv)
  with s ns again(1) [unfolded none_healthy] again(3) show ?thesis by auto
next
  case fallback
  let ?m = "refreshHostnameNodes lookup m"
  let ?f = "filter (\<lambda>s. sn_ip s \<notin> set ex) (snapshotNodes ?m)"
  obtain ns where ns: "rm_nodes ?m = rm_nodes m @ ns" using refresh_appends [of lookup m] by auto
  note none = fallback(1,2) [unfolded none_healthy]
  show ?thesis
  proof (cases "?f = []")
    case True
    with fallback(3) ns all_excluded [of ?m ex] show ?thesis by (simp add: Let_def)
  next
    case False
    let ?h = "hd (srt byFailures ?f)"
    have best: "?h \<in> set ?f \<and> \<not> byFailures c ?h" if "c \<in> set ?f" for c
      using slice_sort.sort_first [OF assms byFailures_weak that] by blast
    moreover obtain c where "c \<in> set ?f" using False by (cases ?f) auto
    ultimately have h: "?h \<in> set (snapshotNodes ?m)" "sn_ip ?h \<notin> set ex" by auto
    have "sn_failCount ?h < sn_failCount c \<or> sn_failCount ?h = sn_failCount c \<and> sn_score c \<le> sn_score ?h"
      if "c \<in> set (snapshotNodes ?m)" "sn_ip c \<notin> set ex" for c
      using best [of c] that by (auto simp: byFailures_def split: if_splits)
    with fallback(3) False ns h all_excluded [of ?m ex] show ?thesis by (simp add: Let_def) (use none in blast)
  qed
qed

theorem relay_choice_sound_witness:
  "let m = snd (AddNode (\<lambda>_. None) ''1.2.3.5:80'' ''443'' (snd (AddNode (\<lambda>_. None) ''1.2.3.4:80'' ''443'' NewRelayNodeManager)));
       (res, m') = SelectNodeExcluding sortSlice (\<lambda>_. None) 0 (7, 8) [''1.2.3.4:80''] m
   in map rn_IP (rm_nodes m) = [''1.2.3.4:80'', ''1.2.3.5:80''] \<and> res \<noteq> None \<and> (\<forall>s. res = Some s \<longrightarrow> sn_ip s \<noteq> ''1.2.3.4:80'')"
proof -
  let ?m = "snd (AddNode (\<lambda>_. None) ''1.2.3.5:80'' ''443'' (snd (AddNode (\<lambda>_. None) ''1.2.3.4:80'' ''443'' NewRelayNodeManager)))"
  have ips: "map rn_IP (rm_nodes ?m) = [''1.2.3.4:80'', ''1.2.3.5:80'']" by code_simp
  obtain res m' where r: "SelectNodeExcluding sortSlice (\<lambda>_. None) 0 (7, 8) [''1.2.3.4:80''] ?m = (res, m')" by fastforce
  note T = relay_choice_sound [OF go_sort.slice_sort_axioms, of "\<lambda>_. None" 0 "(7, 8)" "[''1.2.3.4:80'']" ?m, unfolded r Let_def prod.case]
  obtain ns where "rm_nodes m' = rm_nodes ?m @ ns" using T by blast
  then have "map rn_IP (rm_nodes m') = [''1.2.3.4:80'', ''1.2.3.5:80''] @ map rn_IP ns" unfolding map_append ips by (simp only: map_append ips)
  then have "set (map rn_IP (rm_nodes m')) = set ([''1.2.3.4:80'', ''1.2.3.5:80''] @ map rn_IP ns)" by (rule arg_cong)
  then have "''1.2.3.5:80'' \<in> rn_IP ` set (rm_nodes m')" by simp
  then obtain k where "k \<in> set (rm_nodes m')" "rn_IP k = ''1.2.3.5:80''" by auto
  then have "\<not> (\<forall>n\<in>set (rm_nodes m'). rn_IP n \<in> set [''1.2.3.4:80''])" by (intro notI) (drule bspec, assumption, simp)
  moreover have "res = None \<longleftrightarrow> (\<forall>n\<in>set (rm_nodes m'). rn_IP n \<in> set [''1.2.3.4:80''])" using T by blast
  moreover have "\<forall>s. res = Some s \<longrightarrow> sn_ip s \<notin> set [''1.2.3.4:80'']" using T by blast
  ultimately show ?thesis unfolding Let_def r prod.case using ips by simp
qed

text \<open>Fact: the weighted draw takes candidate \<open>i\<close> exactly for the random numbers in the interval
  of its weight, so that its share is its weight; and a candidate's weight lies between a tenth of
  its score and its score, whatever its load.\<close>

theorem weighted_draw_proportional:
  assumes "length cs = length ws" "i < length ws" "\<forall>w\<in>set ws. 0 \<le> w"
    and "sum_list (take i ws) \<le> rnd * sum_list ws" "rnd * sum_list ws < sum_list (take (Suc i) ws)"
    and "0 \<le> score" "0 \<le> AcquiredCount ip m"
  shows "weightedPick (rnd * sum_list ws) (zip cs ws) = Some (cs ! i) \<and>
    score / 10 \<le> candidateWeight m ip score \<and> candidateWeight m ip score \<le> score"
  using weightedPick_interval [OF assms(1-5)] weight_bounds [OF assms(6,7)] by blast

theorem weighted_draw_proportional_witness:
  "weightedPick ((1 / 2) * sum_list [1, 3]) (zip [''a'', ''b''] [1, 3]) = Some ''b'' \<and>
   candidateWeight (Acquire ''a'' NewRelayNodeManager) ''a'' 1 \<le> 1"
proof -
  have "AcquiredCount ''a'' (Acquire ''a'' NewRelayNodeManager) = 1"
    by (simp add: AcquiredCount_def Acquire_def NewRelayNodeManager_def wrap32_id)
  then show ?thesis
    using weighted_draw_proportional [of "[''a'', ''b'']" "[1, 3]" 1 "1 / 2" 1 "''a''" "Acquire ''a'' NewRelayNodeManager"] by simp
qed

text \<open>Fact: dead relays are still handed out. After a round of tests in which every probe fails,
  the best nodes are as many as before, at most the number asked for, all with score 0 and success
  rate 0; the caller's fallback for an empty choice is reached only if there is no node at all.\<close>

theorem dead_relays_still_selected:
  assumes "slice_sort srt" "\<forall>i. snd (probe i) = None" "m' = testAllNodes lookup probe m"
  shows "length (SelectBestNodes srt n m') = min n (length (rm_nodes m')) \<and> length (rm_nodes m) \<le> length (rm_nodes m') \<and>
    (\<forall>s\<in>set (SelectBestNodes srt n m'). sn_successRate s = 0 \<and> sn_score s = 0)"
proof -
  have len: "length (snapshotNodes m') = length (rm_nodes m')" by (simp add: snapshotNodes_def)
  have dead: "rn_SuccessRate (snd (testNode t None k)) = 0 \<and> rn_Score (snd (testNode t None k)) = 0" for t k
    by (simp add: testNode_def TestNodeSpeed_def CalculateScore_def time_Second_def time_Millisecond_def Let_def)
  have snaps: "sn_successRate s = 0 \<and> sn_score s = 0" if "s \<in> set (snapshotNodes m')" for s
    using that assms(2) dead by (auto simp: set_snapshotNodes snapshotNode_def assms(3) testAllNodes_def Let_def)
  have sub: "set (SelectBestNodes srt n m') \<subseteq> set (snapshotNodes m')"
    using slice_sort.sort_set [OF assms(1)] by (auto simp: SelectBestNodes_def Let_def dest: in_set_takeD)
  obtain ns where "refreshHostnameNodes lookup m = m\<lparr>rm_nodes := rm_nodes m @ ns\<rparr>" using refresh_appends by blast
  then have "length (rm_nodes m) \<le> length (rm_nodes m')" by (simp add: assms(3) testAllNodes_def Let_def)
  moreover have "length (SelectBestNodes srt n m') = min n (length (rm_nodes m'))"
    using len slice_sort.sort_length [OF assms(1), of byScore "snapshotNodes m'"] by (auto simp: SelectBestNodes_def Let_def)
  ultimately show ?thesis using sub snaps by blast
qed

theorem dead_relays_still_selected_witness:
  "length (SelectBestNodes sortSlice 3 (testAllNodes (\<lambda>_. None) (\<lambda>_. (0, None))
     (snd (AddNode (\<lambda>_. None) ''1.2.3.4:80'' ''443'' NewRelayNodeManager)))) \<ge> 1"
proof -
  let ?m = "snd (AddNode (\<lambda>_. None) ''1.2.3.4:80'' ''443'' NewRelayNodeManager)"
  have "length (rm_nodes ?m) = 1" by code_simp
  with dead_relays_still_selected [OF go_sort.slice_sort_axioms _ refl, of "\<lambda>_. (0, None)" 3 "\<lambda>_. None" ?m] show ?thesis
    by simp
qed

end
