(* ===== verification/Client_Dial.thy ===== *)
theory Client_Dial
  imports Client_Pool Relay
begin

text \<open>
  The dial loop of a channel (\<^verbatim>\<open>dialAndServe\<close> in \<^verbatim>\<open>src/pool.go\<close>) with its retry state, and the dial itself
  (\<^verbatim>\<open>src/dialer.go\<close>). A round of the loop is split at the dial: what comes before it, what follows a
  failure, what follows a success, and what follows the end of the session. \<open>sessionStart\<close> and
  \<open>sessionEnd\<close> of \<^theory_text>\<open>Client_Pool\<close> are the parts of the round that change the pool.
\<close>

section \<open>Retry state\<close>

record fastRetryState =
  fr_consecutiveFailures :: int
  fr_lastFailure :: "instant option"

definition OnFailure :: "instant \<Rightarrow> fastRetryState \<Rightarrow> fastRetryState" where
  "OnFailure now f = \<lparr>fr_consecutiveFailures = fr_consecutiveFailures f + 1, fr_lastFailure = Some now\<rparr>"

definition OnSuccess :: "fastRetryState \<Rightarrow> fastRetryState" where
  "OnSuccess f = \<lparr>fr_consecutiveFailures = 0, fr_lastFailure = None\<rparr>"

definition ShouldFastRetry :: "int \<Rightarrow> fastRetryState \<Rightarrow> bool" where
  "ShouldFastRetry maxConsecutive f \<longleftrightarrow> fr_consecutiveFailures f < maxConsecutive"

definition ShouldFastRetryWithinWindow :: "int \<Rightarrow> duration \<Rightarrow> instant \<Rightarrow> fastRetryState \<Rightarrow> bool" where
  "ShouldFastRetryWithinWindow maxConsecutive window now f =
     (if fr_consecutiveFailures f \<ge> maxConsecutive then False
      else case fr_lastFailure f of None \<Rightarrow> False | Some t \<Rightarrow> now - t \<le> window)"

definition dialAndServeMaxRetries :: int where
  "dialAndServeMaxRetries = 20"

definition dialAndServeBaseDelay :: duration where
  "dialAndServeBaseDelay = 3 * time_Second"

definition dialAndServeMaxDelay :: duration where
  "dialAndServeMaxDelay = 60 * time_Second"

section \<open>The loop\<close>

text \<open>The local variables of \<^verbatim>\<open>dialAndServe\<close>.\<close>

record dialLoop =
  dl_idx :: nat
  dl_ip :: string
  dl_lastIP :: string
  dl_firstAttempt :: bool
  dl_retryCount :: int
  dl_slowRetryMode :: bool
  dl_frs :: fastRetryState
  dl_fastRetryCount :: int
  dl_currentDelay :: duration

definition newDialLoop :: "nat \<Rightarrow> string \<Rightarrow> dialLoop" where
  "newDialLoop idx ip =
     \<lparr>dl_idx = idx, dl_ip = ip, dl_lastIP = '''', dl_firstAttempt = True, dl_retryCount = 0, dl_slowRetryMode = False,
      dl_frs = \<lparr>fr_consecutiveFailures = 0, fr_lastFailure = None\<rparr>, dl_fastRetryCount = 0,
      dl_currentDelay = dialAndServeBaseDelay\<rparr>"

text \<open>What a round takes from outside: the sorting routine, the resolver, the random numbers and the
  readings of the clock.\<close>

record dial_env =
  de_sort :: sorter
  de_lookup :: "string \<Rightarrow> IP list option"
  de_rnd :: rat
  de_selectNow :: "instant \<times> instant"
  de_failureNow :: instant
  de_markNow :: instant
  de_sinceNow :: instant
  de_jitter :: int

definition excludeIPs :: "dialLoop \<Rightarrow> string list" where
  "excludeIPs l =
     (if dl_lastIP l \<noteq> '''' then [dl_lastIP l] else []) @
     (if dl_ip l \<noteq> '''' \<and> dl_ip l \<noteq> dl_lastIP l then [dl_ip l] else [])"

definition dialRound_begin :: "dial_env \<Rightarrow> int \<Rightarrow> dialLoop \<Rightarrow> RelayNodeManager \<Rightarrow> dialLoop \<times> RelayNodeManager" where
  "dialRound_begin env relayCount l m =
     (let l = (if dl_retryCount l \<ge> dialAndServeMaxRetries \<and> \<not> dl_slowRetryMode l
               then l\<lparr>dl_slowRetryMode := True, dl_retryCount := 0, dl_currentDelay := dialAndServeMaxDelay\<rparr> else l);
          (l, m) =
            (if relayCount > 0 \<and> \<not> dl_firstAttempt l
             then let (newNode, m) = SelectNodeExcluding (de_sort env) (de_lookup env) (de_rnd env) (de_selectNow env)
                                       (excludeIPs l) m
                  in (case newNode of None \<Rightarrow> l | Some s \<Rightarrow> l\<lparr>dl_ip := sn_ip s\<rparr>, m)
             else (l, m))
      in (l\<lparr>dl_firstAttempt := False\<rparr>, m))"

text \<open>After a failed dial: how long the loop waits before the next round. A factor of 1.5 is exact on the
  values that occur.\<close>

definition dialFailed :: "Config \<Rightarrow> dial_env \<Rightarrow> int \<Rightarrow> dialLoop \<Rightarrow> RelayNodeManager \<Rightarrow> duration \<times> dialLoop \<times> RelayNodeManager" where
  "dialFailed cfg env relayCount l m =
     (let l = l\<lparr>dl_frs := OnFailure (de_failureNow env) (dl_frs l), dl_retryCount := dl_retryCount l + 1\<rparr>;
          m = (if dl_ip l \<noteq> '''' \<and> relayCount > 0 then MarkNodeFailed (de_markNow env) (dl_ip l) m else m)
      in if \<not> dl_slowRetryMode l \<and>
            ShouldFastRetryWithinWindow (cf_MaxFastRetryConsecutive cfg) (cf_FastRetryWindow cfg) (de_sinceNow env) (dl_frs l) \<and>
            dl_fastRetryCount l < cf_FastRetryAttempts cfg
         then (100 * time_Millisecond + de_jitter env * time_Millisecond,
               l\<lparr>dl_fastRetryCount := dl_fastRetryCount l + 1\<rparr>, m)
         else
           let delay = dl_currentDelay l;
               delay = (if delay < dialAndServeMaxDelay
                        then let d = delay * 3 div 2 in if d > dialAndServeMaxDelay then dialAndServeMaxDelay else d
                        else delay)
           in (delay, l\<lparr>dl_fastRetryCount := 0, dl_currentDelay := delay\<rparr>, m))"

definition dialSucceeded :: "instant \<Rightarrow> int \<Rightarrow> dialLoop \<Rightarrow> RelayNodeManager \<Rightarrow> dialLoop \<times> RelayNodeManager" where
  "dialSucceeded now relayCount l m =
     (let l = l\<lparr>dl_retryCount := 0, dl_slowRetryMode := False, dl_fastRetryCount := 0,
                dl_currentDelay := dialAndServeBaseDelay, dl_frs := OnSuccess (dl_frs l)\<rparr>;
          m = (if dl_ip l \<noteq> '''' \<and> relayCount > 0 then Acquire (dl_ip l) (MarkNodeSuccess now (dl_ip l) m) else m)
      in (if dl_ip l \<noteq> '''' then l\<lparr>dl_lastIP := dl_ip l\<rparr> else l, m))"

text \<open>After the session: the node's load is released; the loop then waits for \<^verbatim>\<open>ReconnectDelay\<close>.\<close>

definition dialReleased :: "int \<Rightarrow> dialLoop \<Rightarrow> RelayNodeManager \<Rightarrow> RelayNodeManager" where
  "dialReleased relayCount l m = (if dl_ip l \<noteq> '''' \<and> relayCount > 0 then Release (dl_ip l) m else m)"

section \<open>The dial\<close>

text \<open>\<^verbatim>\<open>net.JoinHostPort\<close>, and the address that a relayed dial connects to.\<close>

definition JoinHostPort :: "string \<Rightarrow> string \<Rightarrow> string" where
  "JoinHostPort host port = (if CHR '':'' \<in> set host then ''['' @ host @ '']:'' @ port else host @ '':'' @ port)"

definition relayDialAddr :: "string \<Rightarrow> string \<Rightarrow> string" where
  "relayDialAddr relayIP address =
     (let port = (case SplitHostPort address of None \<Rightarrow> '''' | Some (_, port) \<Rightarrow> port)
      in case SplitHostPort relayIP of Some _ \<Rightarrow> relayIP | None \<Rightarrow> JoinHostPort relayIP port)"

datatype dial_error = DialBadURL | DialNotWSS | DialContext | DialTLS | DialUnauthorized | DialOther | DialFailed

text \<open>One attempt: whether the context is done when it starts, whether the TLS configuration is
  available, the outcome of the handshake (\<open>True\<close> for an error that mentions ECH), and whether the
  context ends during the pause that follows.\<close>

datatype handshake = HandshakeOK nat | HandshakeUnauthorized | HandshakeError bool

record attempt =
  at_ctxDone :: bool
  at_tlsOK :: bool
  at_handshake :: handshake
  at_cancelled :: bool

definition maxRetries :: nat where
  "maxRetries = 3"

text \<open>The loop from attempt \<open>i\<close> on, with the number of attempts left.\<close>

fun dialAttempts :: "bool \<Rightarrow> (nat \<Rightarrow> attempt) \<Rightarrow> nat \<Rightarrow> nat \<Rightarrow> dial_error + nat" where
  "dialAttempts ech att i 0 = Inl DialFailed"
| "dialAttempts ech att i (Suc k) =
     (let retry = (if at_cancelled (att i) then Inl DialContext else dialAttempts ech att (i + 1) k)
      in if at_ctxDone (att i) then Inl DialContext
         else if \<not> at_tlsOK (att i) then (if i < maxRetries \<and> ech then retry else Inl DialTLS)
         else case at_handshake (att i) of
                HandshakeOK sock \<Rightarrow> Inr sock
              | HandshakeUnauthorized \<Rightarrow> Inl DialUnauthorized
              | HandshakeError mentionsECH \<Rightarrow> if ech \<and> mentionsECH \<and> i < maxRetries then retry else Inl DialOther)"

text \<open>The scheme of the server address comes from \<^verbatim>\<open>url.Parse\<close>; \<^term>\<open>None\<close> if that fails.\<close>

definition lowerASCII :: "string \<Rightarrow> string" where
  "lowerASCII s = map (\<lambda>c. if of_char c \<in> {65..90 :: nat} then char_of (of_char c + 32 :: nat) else c) s"

definition dialWebSocket :: "string option \<Rightarrow> (nat \<Rightarrow> attempt) \<Rightarrow> clientPool \<Rightarrow> dial_error + nat" where
  "dialWebSocket scheme att p =
     (case scheme of
        None \<Rightarrow> Inl DialBadURL
      | Some s \<Rightarrow>
          if lowerASCII s \<noteq> ''wss'' then Inl DialNotWSS
          else dialAttempts (cf_EnableECH (cp_config p)) att 1 maxRetries)"


section \<open>Waiting between dials\<close>

text \<open>Rounds that all fail, and the waits between them.\<close>

definition failRound :: "Config \<Rightarrow> int \<Rightarrow> dial_env \<Rightarrow> dialLoop \<Rightarrow> RelayNodeManager \<Rightarrow> duration \<times> dialLoop \<times> RelayNodeManager" where
  "failRound cfg relayCount env l m =
     (let (l, m) = dialRound_begin env relayCount l m in dialFailed cfg env relayCount l m)"

fun failRounds :: "Config \<Rightarrow> int \<Rightarrow> dial_env list \<Rightarrow> dialLoop \<Rightarrow> RelayNodeManager \<Rightarrow> duration list" where
  "failRounds cfg relayCount [] l m = []"
| "failRounds cfg relayCount (env # envs) l m =
     (let (w, l, m) = failRound cfg relayCount env l m in w # failRounds cfg relayCount envs l m)"

text \<open>The retry part of the loop state as a round changes it.\<close>

definition fast_wait :: "dial_env \<Rightarrow> duration" where
  "fast_wait env = 100 * time_Millisecond + de_jitter env * time_Millisecond"

definition backoff :: "duration \<Rightarrow> duration" where
  "backoff d = (if d < dialAndServeMaxDelay then min dialAndServeMaxDelay (d * 3 div 2) else d)"

lemma begin_retry:
  assumes "dialRound_begin env rc l m = (l', m')"
  shows "dl_retryCount l' = (if dl_retryCount l \<ge> 20 \<and> \<not> dl_slowRetryMode l then 0 else dl_retryCount l)"
    "dl_slowRetryMode l' = (dl_slowRetryMode l \<or> dl_retryCount l \<ge> 20)"
    "dl_currentDelay l' = (if dl_retryCount l \<ge> 20 \<and> \<not> dl_slowRetryMode l then dialAndServeMaxDelay else dl_currentDelay l)"
  using assms by (auto simp: dialRound_begin_def dialAndServeMaxRetries_def Let_def split: if_splits prod.splits option.splits)

lemma failed_retry:
  assumes "dialFailed cfg env rc l m = (w, l', m')"
  shows "dl_retryCount l' = dl_retryCount l + 1" "dl_slowRetryMode l' = dl_slowRetryMode l"
    "w = fast_wait env \<and> \<not> dl_slowRetryMode l \<and> dl_currentDelay l' = dl_currentDelay l \<or>
     w = backoff (dl_currentDelay l) \<and> dl_currentDelay l' = w"
  using assms by (auto simp: dialFailed_def fast_wait_def backoff_def Let_def min_def split: if_splits)

text \<open>After \<open>k\<close> failures in a row: slow mode from the twentieth on, with the longest delay.\<close>

definition retry_ok :: "nat \<Rightarrow> dialLoop \<Rightarrow> bool" where
  "retry_ok k l \<longleftrightarrow> dialAndServeBaseDelay \<le> dl_currentDelay l \<and> dl_currentDelay l \<le> dialAndServeMaxDelay \<and>
     (if k \<le> 20 then \<not> dl_slowRetryMode l \<and> dl_retryCount l = int k
      else dl_slowRetryMode l \<and> dl_currentDelay l = dialAndServeMaxDelay)"

lemma backoff_range:
  "dialAndServeBaseDelay \<le> d \<Longrightarrow> d \<le> dialAndServeMaxDelay \<Longrightarrow>
    dialAndServeBaseDelay \<le> backoff d \<and> backoff d \<le> dialAndServeMaxDelay \<and> d \<le> backoff d"
  by (auto simp: backoff_def dialAndServeBaseDelay_def dialAndServeMaxDelay_def time_Second_def)

lemma retry_ok_round:
  assumes ok: "retry_ok k l" and r: "failRound cfg rc env l m = (w, l', m')"
  shows "retry_ok (Suc k) l' \<and> dl_currentDelay l \<le> dl_currentDelay l' \<and>
    (w = fast_wait env \<and> k < 20 \<or> w = dl_currentDelay l') \<and> (k \<ge> 20 \<longrightarrow> w = dialAndServeMaxDelay)"
proof -
  obtain l1 m1 where b: "dialRound_begin env rc l m = (l1, m1)" by fastforce
  then have f: "dialFailed cfg env rc l1 m1 = (w, l', m')" using r by (simp add: failRound_def)
  note B = begin_retry [OF b] and F = failed_retry [OF f]
  have max: "backoff dialAndServeMaxDelay = dialAndServeMaxDelay" by (simp add: backoff_def)
  consider "k < 20" | "k = 20" | "k > 20" by linarith
  then show ?thesis
  proof cases
    case 1
    then have "dl_slowRetryMode l1 = False" "dl_retryCount l1 = int k" "dl_currentDelay l1 = dl_currentDelay l"
      using B ok by (auto simp: retry_ok_def)
    with 1 F ok backoff_range [of "dl_currentDelay l"] show ?thesis by (auto simp: retry_ok_def)
  next
    case 2
    then have "dl_slowRetryMode l1" "dl_currentDelay l1 = dialAndServeMaxDelay" using B ok by (auto simp: retry_ok_def)
    with 2 F ok max show ?thesis by (auto simp: retry_ok_def)
  next
    case 3
    then have "dl_slowRetryMode l1" "dl_currentDelay l1 = dialAndServeMaxDelay" using B ok by (auto simp: retry_ok_def)
    with 3 F ok max show ?thesis by (auto simp: retry_ok_def)
  qed
qed

lemma failRounds_waits:
  assumes "retry_ok k l" "\<forall>env\<in>set envs. 0 \<le> de_jitter env \<and> de_jitter env < 300"
  shows "let ws = failRounds cfg rc envs l m
    in length ws = length envs \<and>
       (\<forall>w\<in>set ws. 100 * time_Millisecond \<le> w \<and> w < 400 * time_Millisecond \<or> dl_currentDelay l \<le> w \<and> w \<le> dialAndServeMaxDelay) \<and>
       sorted (filter (\<lambda>w. dialAndServeBaseDelay \<le> w) ws) \<and>
       (\<forall>i<length ws. 20 \<le> k + i \<longrightarrow> ws ! i = dialAndServeMaxDelay)"
  using assms
proof (induction envs arbitrary: k l m)
  case (Cons env envs)
  obtain w l' m' where r: "failRound cfg rc env l m = (w, l', m')" by (metis prod_cases3)
  note R = retry_ok_round [OF Cons.prems(1) r]
  define ws where "ws = failRounds cfg rc envs l' m'"
  have ih: "length ws = length envs"
    "\<forall>w\<in>set ws. 100 * time_Millisecond \<le> w \<and> w < 400 * time_Millisecond \<or> dl_currentDelay l' \<le> w \<and> w \<le> dialAndServeMaxDelay"
    "sorted (filter (\<lambda>w. dialAndServeBaseDelay \<le> w) ws)" "\<forall>i<length ws. 20 \<le> Suc k + i \<longrightarrow> ws ! i = dialAndServeMaxDelay"
    using Cons.IH [of "Suc k" l' m'] R Cons.prems(2) by (simp_all add: ws_def Let_def)
  have jit: "0 \<le> de_jitter env" "de_jitter env < 300" using Cons.prems(2) by simp_all
  then have fast: "100 * time_Millisecond \<le> fast_wait env" "fast_wait env < 400 * time_Millisecond"
    by (simp_all add: fast_wait_def time_Millisecond_def)
  have ms: "400 * time_Millisecond < dialAndServeBaseDelay" by (simp add: time_Millisecond_def dialAndServeBaseDelay_def time_Second_def)
  have d: "dialAndServeBaseDelay \<le> dl_currentDelay l'" "dl_currentDelay l' \<le> dialAndServeMaxDelay" "dl_currentDelay l \<le> dl_currentDelay l'"
    using R by (simp_all add: retry_ok_def)
  have w: "w = fast_wait env \<or> w = dl_currentDelay l'" using R by blast
  have hd: "100 * time_Millisecond \<le> w \<and> w < 400 * time_Millisecond \<or> dl_currentDelay l \<le> w \<and> w \<le> dialAndServeMaxDelay"
    using w fast d by auto
  have tl: "\<forall>v\<in>set ws. 100 * time_Millisecond \<le> v \<and> v < 400 * time_Millisecond \<or> dl_currentDelay l \<le> v \<and> v \<le> dialAndServeMaxDelay"
    using ih(2) d(3) by fastforce
  have "\<forall>v\<in>set ws. dialAndServeBaseDelay \<le> v \<longrightarrow> dialAndServeBaseDelay \<le> w \<longrightarrow> w \<le> v"
    using ih(2) w fast(2) ms by fastforce
  then have sorted: "sorted (filter (\<lambda>w. dialAndServeBaseDelay \<le> w) (w # ws))" using ih(3) by auto
  have late: "\<forall>i<length (w # ws). 20 \<le> k + i \<longrightarrow> (w # ws) ! i = dialAndServeMaxDelay"
    using R ih(4) by (auto simp: nth_Cons split: nat.split)
  show ?case using ih(1) hd tl sorted late by (simp add: r ws_def [symmetric] Let_def)
qed simp

text \<open>Property C10: the waits between dials that all fail. Every wait is either a fast retry of 100 to 400
  milliseconds or between 3 and 60 seconds; the long waits never get shorter; and from the
  twenty-first failure on every wait is 60 seconds, without fast retries and without giving up. This
  holds whichever relay nodes are chosen in between.\<close>

theorem dial_backoff:
  assumes "\<forall>env\<in>set envs. 0 \<le> de_jitter env \<and> de_jitter env < 300"
  shows "let ws = failRounds cfg rc envs (newDialLoop idx ip) m
    in length ws = length envs \<and>
       (\<forall>w\<in>set ws. 100 * time_Millisecond \<le> w \<and> w < 400 * time_Millisecond \<or> 3 * time_Second \<le> w \<and> w \<le> 60 * time_Second) \<and>
       sorted (filter (\<lambda>w. 3 * time_Second \<le> w) ws) \<and>
       (\<forall>i<length ws. 20 \<le> i \<longrightarrow> ws ! i = 60 * time_Second)"
proof -
  have k: "retry_ok 0 (newDialLoop idx ip)" "dl_currentDelay (newDialLoop idx ip) = 3 * time_Second"
    by (simp_all add: retry_ok_def newDialLoop_def dialAndServeBaseDelay_def dialAndServeMaxDelay_def time_Second_def)
  from failRounds_waits [OF k(1) assms, of cfg rc m] show ?thesis
    unfolding k(2) by (simp add: dialAndServeMaxDelay_def dialAndServeBaseDelay_def Let_def)
qed

definition sample_dial_env :: dial_env where
  "sample_dial_env = \<lparr>de_sort = sortSlice, de_lookup = (\<lambda>_. None), de_rnd = 0, de_selectNow = (0, 0), de_failureNow = 0,
     de_markNow = 0, de_sinceNow = 0, de_jitter = 50\<rparr>"

theorem dial_backoff_witness:
  "failRounds DefaultConfig 0 (replicate 25 sample_dial_env) (newDialLoop 0 '''') NewRelayNodeManager ! 24 = 60 * time_Second"
proof -
  have "\<forall>env\<in>set (replicate 25 sample_dial_env). 0 \<le> de_jitter env \<and> de_jitter env < 300" by (simp add: sample_dial_env_def)
  from dial_backoff [OF this, of DefaultConfig 0 0 "''''" NewRelayNodeManager] show ?thesis by (simp add: Let_def)
qed


section \<open>Load of the relay nodes\<close>

text \<open>The dial loops of all channels over one relay manager: each loop with whether it is serving a
  session. Other users of the manager do not touch the load counts.\<close>

type_synonym loops = "(dialLoop \<times> bool) list"

inductive dial_step :: "Config \<Rightarrow> int \<Rightarrow> loops \<times> RelayNodeManager \<Rightarrow> loops \<times> RelayNodeManager \<Rightarrow> bool" for cfg rc where
  ds_fail: "i < length ls \<Longrightarrow> ls ! i = (l, False) \<Longrightarrow> failRound cfg rc env l m = (w, l', m') \<Longrightarrow>
    dial_step cfg rc (ls, m) (ls[i := (l', False)], m')"
| ds_connect: "i < length ls \<Longrightarrow> ls ! i = (l, False) \<Longrightarrow> dialRound_begin env rc l m = (l1, m1) \<Longrightarrow>
    dialSucceeded now rc l1 m1 = (l2, m2) \<Longrightarrow> dial_step cfg rc (ls, m) (ls[i := (l2, True)], m2)"
| ds_over: "i < length ls \<Longrightarrow> ls ! i = (l, True) \<Longrightarrow> dial_step cfg rc (ls, m) (ls[i := (l, False)], dialReleased rc l m)"
| ds_manager: "relay_step m m' \<Longrightarrow> rm_loadCounts m' = rm_loadCounts m \<Longrightarrow> dial_step cfg rc (ls, m) (ls, m')"

definition sessions_on :: "string \<Rightarrow> loops \<Rightarrow> int" where
  "sessions_on ip ls = int (length (filter (\<lambda>(l, serving). serving \<and> dl_ip l = ip) ls))"

definition load_ok :: "int \<Rightarrow> loops \<times> RelayNodeManager \<Rightarrow> bool" where
  "load_ok rc s \<longleftrightarrow> rc > 0 \<and> length (fst s) < 2 ^ 31 - 1 \<and>
     (\<forall>ip. AcquiredCount ip (snd s) = (if ip = '''' then 0 else sessions_on ip (fst s)))"

lemma sessions_bound: "0 \<le> sessions_on ip ls" "sessions_on ip ls \<le> int (length ls)"
  by (simp_all add: sessions_on_def)

lemma sessions_update:
  assumes "i < length ls" "ls ! i = (l, b)"
  shows "sessions_on ip (ls[i := (l', b')]) =
    sessions_on ip ls - (if b \<and> dl_ip l = ip then 1 else 0) + (if b' \<and> dl_ip l' = ip then 1 else 0)"
proof -
  define xs ys where "xs = take i ls" and "ys = drop (Suc i) ls"
  have "ls = xs @ (l, b) # ys" using id_take_nth_drop [OF assms(1)] assms(2) by (simp add: xs_def ys_def)
  moreover have "ls[i := (l', b')] = xs @ (l', b') # ys" using assms(1) by (simp add: upd_conv_take_nth_drop xs_def ys_def)
  ultimately show ?thesis by (simp add: sessions_on_def)
qed

lemma sessions_idle: "i < length ls \<Longrightarrow> ls ! i = (l, True) \<Longrightarrow> 0 < sessions_on (dl_ip l) ls"
proof -
  assume "i < length ls" "ls ! i = (l, True)"
  then have "(l, True) \<in> set ls" using nth_mem by force
  then have "(l, True) \<in> set (filter (\<lambda>(k, serving). serving \<and> dl_ip k = dl_ip l) ls)" by simp
  then show ?thesis unfolding sessions_on_def using length_pos_if_in_set by fastforce
qed

lemma load_marks [simp]:
  "rm_loadCounts (MarkNodeFailed now ip m) = rm_loadCounts m" "rm_loadCounts (MarkNodeSuccess now ip m) = rm_loadCounts m"
  by (simp_all add: MarkNodeFailed_def MarkNodeSuccess_def upd_node_def split: option.split)

lemma load_refresh [simp]: "rm_loadCounts (refreshHostnameNodes lookup m) = rm_loadCounts m"
  using refresh_appends [of lookup m] by auto

lemma load_begin: "dialRound_begin env rc l m = (l', m') \<Longrightarrow> rm_loadCounts m' = rm_loadCounts m"
proof -
  have s: "rm_loadCounts (snd (SelectNodeExcluding srt lookup rnd now ex m)) = rm_loadCounts m" for srt lookup rnd now ex
    using Select_manager [of srt lookup rnd now ex m] by auto
  assume "dialRound_begin env rc l m = (l', m')"
  then have "m' = snd (dialRound_begin env rc l m)" by simp
  then show ?thesis by (simp add: dialRound_begin_def Let_def split_def s)
qed

lemma load_fail: "failRound cfg rc env l m = (w, l', m') \<Longrightarrow> rm_loadCounts m' = rm_loadCounts m"
proof -
  assume r: "failRound cfg rc env l m = (w, l', m')"
  obtain l1 m1 where b: "dialRound_begin env rc l m = (l1, m1)" by fastforce
  with r have "dialFailed cfg env rc l1 m1 = (w, l', m')" by (simp add: failRound_def)
  then have "rm_loadCounts m' = rm_loadCounts m1" by (auto simp: dialFailed_def Let_def split: if_splits)
  with load_begin [OF b] show ?thesis by simp
qed


lemma load_step:
  assumes "load_ok rc s" "dial_step cfg rc s t"
  shows "load_ok rc t"
  using assms(2,1)
proof (induction rule: dial_step.induct)
  case (ds_fail i ls l env m w l' m')
  then show ?case using sessions_update [OF ds_fail(1,2)] AcquiredCount_same [OF load_fail [OF ds_fail(3)]] by (simp add: load_ok_def)
next
  case (ds_connect i ls l env m l1 m1 now l2 m2)
  let ?ip = "dl_ip l1"
  have rc: "rc > 0" and len: "length ls < 2 ^ 31 - 1" and c: "\<And>ip. AcquiredCount ip m = (if ip = '''' then 0 else sessions_on ip ls)"
    using ds_connect.prems by (simp_all add: load_ok_def)
  have m1: "AcquiredCount ip m1 = AcquiredCount ip m" for ip by (rule AcquiredCount_same [OF load_begin [OF ds_connect(3)]])
  have l2: "dl_ip l2 = ?ip" "m2 = (if ?ip \<noteq> '''' then Acquire ?ip (MarkNodeSuccess now ?ip m1) else m1)"
    using ds_connect(4) rc by (auto simp: dialSucceeded_def Let_def)
  have mark: "AcquiredCount ip (MarkNodeSuccess now ?ip m1) = AcquiredCount ip m" for ip using m1 by (simp add: AcquiredCount_def)
  have "0 \<le> AcquiredCount ?ip m" "AcquiredCount ?ip m < 2 ^ 31 - 1" using c sessions_bound [of ?ip ls] len by auto
  then have "AcquiredCount x m2 = AcquiredCount x m + (if x = ?ip \<and> ?ip \<noteq> '''' then 1 else 0)" for x
    using AcquiredCount_Acquire [of ?ip "MarkNodeSuccess now ?ip m1" x] mark m1 by (auto simp: l2(2))
  then show ?case using c rc len sessions_update [OF ds_connect(1,2)] l2(1) by (auto simp: load_ok_def)
next
  case (ds_over i ls l m)
  have rc: "rc > 0" and c: "\<And>ip. AcquiredCount ip m = (if ip = '''' then 0 else sessions_on ip ls)"
    using ds_over.prems by (simp_all add: load_ok_def)
  have "AcquiredCount x (dialReleased rc l m) = AcquiredCount x m - (if x = dl_ip l \<and> dl_ip l \<noteq> '''' then 1 else 0)" for x
    using AcquiredCount_Release [of "dl_ip l" m x] c [of "dl_ip l"] sessions_idle [OF ds_over(1,2)] rc by (auto simp: dialReleased_def)
  then show ?case using ds_over.prems c sessions_update [OF ds_over(1,2)] by (auto simp: load_ok_def)
next
  case (ds_manager m m' ls)
  then show ?case using AcquiredCount_same [OF ds_manager(2)] by (simp add: load_ok_def)
qed

definition idle_start :: "int \<Rightarrow> loops \<times> RelayNodeManager \<Rightarrow> bool" where
  "idle_start rc s \<longleftrightarrow> rc > 0 \<and> length (fst s) < 2 ^ 31 - 1 \<and> (\<forall>(l, serving)\<in>set (fst s). \<not> serving) \<and> rm_loadCounts (snd s) = []"

interpretation loads: invariant_system "idle_start rc" "dial_step cfg rc" "load_ok rc" for cfg rc
proof
  show "load_ok rc s" if "idle_start rc s" for s
  proof -
    have "filter (\<lambda>(l, serving). serving \<and> dl_ip l = ip) (fst s) = []" for ip
      using that by (auto simp: idle_start_def filter_empty_conv)
    then show ?thesis using that by (simp add: load_ok_def idle_start_def sessions_on_def AcquiredCount_def)
  qed
qed (rule load_step)

text \<open>Property C9: the load of a relay node is the number of sessions on it. Whatever the dial loops do,
  with failures, changes of node and lost sessions in any order, the count that weighs the node in
  the choice is exactly the number of channels being served through it.\<close>

theorem relay_load_is_sessions:
  assumes "0 < rc" "length ls < 2 ^ 31 - 1" "\<forall>(l, serving)\<in>set ls. \<not> serving" "rm_loadCounts m = []"
    and "(dial_step cfg rc)\<^sup>*\<^sup>* (ls, m) (ls', m')" "ip \<noteq> ''''"
  shows "AcquiredCount ip m' = int (length (filter (\<lambda>(l, serving). serving \<and> dl_ip l = ip) ls'))"
proof -
  have "idle_start rc (ls, m)" using assms(1-4) by (simp add: idle_start_def)
  from loads.reachable_inv [OF this assms(5)] assms(6) show ?thesis by (simp add: load_ok_def sessions_on_def)
qed

theorem relay_load_is_sessions_witness:
  "AcquiredCount ''1.2.3.4:80'' (snd (dialSucceeded 5 1 (newDialLoop 0 ''1.2.3.4:80'') NewRelayNodeManager)) = 1"
proof -
  let ?l = "newDialLoop 0 ''1.2.3.4:80''"
  obtain l2 m2 where r: "dialSucceeded 5 1 (?l\<lparr>dl_firstAttempt := False\<rparr>) NewRelayNodeManager = (l2, m2)" by fastforce
  have same: "snd (dialSucceeded 5 1 (?l\<lparr>dl_firstAttempt := False\<rparr>) NewRelayNodeManager) = snd (dialSucceeded 5 1 ?l NewRelayNodeManager)"
    by (simp add: dialSucceeded_def Let_def)
  have b: "dialRound_begin sample_dial_env 1 ?l NewRelayNodeManager = (?l\<lparr>dl_firstAttempt := False\<rparr>, NewRelayNodeManager)"
    by (simp add: dialRound_begin_def newDialLoop_def dialAndServeMaxRetries_def)
  have "dial_step DefaultConfig 1 ([(?l, False)], NewRelayNodeManager) ([(?l, False)][0 := (l2, True)], m2)"
    by (rule ds_connect [OF _ _ b r]) simp_all
  from relay_load_is_sessions [OF _ _ _ _ r_into_rtranclp [of "dial_step DefaultConfig 1", OF this], of "''1.2.3.4:80''"]
  have "AcquiredCount ''1.2.3.4:80'' m2 = int (length (filter (\<lambda>(l, serving). serving \<and> dl_ip l = ''1.2.3.4:80'') [(l2, True)]))"
    by (simp add: NewRelayNodeManager_def)
  moreover have "dl_ip l2 = ''1.2.3.4:80''" using r by (auto simp: dialSucceeded_def newDialLoop_def Let_def)
  ultimately show ?thesis using r same by simp
qed


section \<open>Attempts of one dial\<close>

text \<open>An attempt that is followed by another one: an ECH problem, and no cancellation.\<close>

definition retried :: "bool \<Rightarrow> attempt \<Rightarrow> bool" where
  "retried ech a \<longleftrightarrow> ech \<and> \<not> at_ctxDone a \<and> \<not> at_cancelled a \<and> (\<not> at_tlsOK a \<or> at_handshake a = HandshakeError True)"

definition connects :: "attempt \<Rightarrow> nat \<Rightarrow> bool" where
  "connects a sock \<longleftrightarrow> \<not> at_ctxDone a \<and> at_tlsOK a \<and> at_handshake a = HandshakeOK sock"

lemma dialAttempts_step:
  "i < maxRetries \<Longrightarrow> retried ech (att i) \<Longrightarrow> dialAttempts ech att i (Suc k) = dialAttempts ech att (Suc i) k"
  by (auto simp: retried_def Let_def)

lemma attempt_final:
  assumes "\<not> (i < maxRetries \<and> retried ech (att i))"
  shows "dialAttempts ech att i (Suc k) = Inr sock \<longleftrightarrow> connects (att i) sock" "dialAttempts ech att i (Suc k) \<noteq> Inl DialFailed"
  using assms by (auto simp: retried_def connects_def Let_def split: handshake.split)

lemma attempt_connects: "connects a sock \<Longrightarrow> \<not> retried ech a"
  by (auto simp: connects_def retried_def)

text \<open>Property C11: one dial makes at most three attempts. It succeeds exactly with the socket of the
  first attempt that is not an ECH failure to be retried, a second or third attempt is made only
  with ECH enabled, a cancelled context ends it, and the error after the loop is never returned.\<close>

theorem dial_at_most_three_attempts:
  assumes "lowerASCII s = ''wss''"
  shows "let r = dialWebSocket (Some s) att p; ech = cf_EnableECH (cp_config p)
    in r \<noteq> Inl DialFailed \<and>
       (r = Inr sock \<longleftrightarrow> connects (att 1) sock \<or> retried ech (att 1) \<and> connects (att 2) sock \<or>
          retried ech (att 1) \<and> retried ech (att 2) \<and> connects (att 3) sock)"
proof -
  let ?ech = "cf_EnableECH (cp_config p)"
  have d: "dialWebSocket (Some s) att p = dialAttempts ?ech att 1 3" using assms by (simp add: dialWebSocket_def maxRetries_def)
  have 1: "dialAttempts ?ech att 1 3 = dialAttempts ?ech att 2 2" if "retried ?ech (att 1)"
    using dialAttempts_step [of 1 ?ech att 2] that by (simp add: maxRetries_def eval_nat_numeral)
  have 2: "dialAttempts ?ech att 2 2 = dialAttempts ?ech att 3 1" if "retried ?ech (att 2)"
    using dialAttempts_step [of 2 ?ech att 1] that by (simp add: maxRetries_def eval_nat_numeral)
  have F: "\<not> (i < maxRetries \<and> retried ?ech (att i)) \<Longrightarrow> 0 < k \<Longrightarrow>
      dialAttempts ?ech att i k \<noteq> Inl DialFailed \<and> (dialAttempts ?ech att i k = Inr sock \<longleftrightarrow> connects (att i) sock)" for i k
    using attempt_final [of i ?ech att "k - 1"] by (cases k) auto
  consider "\<not> retried ?ech (att 1)" | "retried ?ech (att 1)" "\<not> retried ?ech (att 2)"
    | "retried ?ech (att 1)" "retried ?ech (att 2)" by blast
  then show ?thesis
  proof cases
    case 1
    with F [of 1 3] show ?thesis by (simp add: d Let_def)
  next
    case 2
    with 1 F [of 2 2] attempt_connects [of "att 1" sock ?ech] show ?thesis by (auto simp: d Let_def)
  next
    case 3
    with 1 2 F [of 3 1] attempt_connects [of "att 1" sock ?ech] attempt_connects [of "att 2" sock ?ech] show ?thesis
      by (auto simp: d maxRetries_def Let_def)
  qed
qed

theorem dial_at_most_three_attempts_witness:
  "dialWebSocket (Some ''WSS'') (\<lambda>i. \<lparr>at_ctxDone = False, at_tlsOK = i \<noteq> 1, at_handshake = HandshakeOK 7, at_cancelled = False\<rparr>)
     (newClientPool (DefaultConfig\<lparr>cf_EnableECH := True\<rparr>)) = Inr 7"
proof -
  have "lowerASCII ''WSS'' = ''wss''" by code_simp
  from dial_at_most_three_attempts [OF this, of "\<lambda>i. \<lparr>at_ctxDone = False, at_tlsOK = i \<noteq> 1, at_handshake = HandshakeOK 7, at_cancelled = False\<rparr>"
      "newClientPool (DefaultConfig\<lparr>cf_EnableECH := True\<rparr>)" 7]
  show ?thesis by (simp add: connects_def retried_def newClientPool_def Let_def)
qed

end
