(* ===== verification/Server_State.thy ===== *)
theory Server_State
  imports Hotpair_Table
begin

text \<open>
  The server's data: its configuration (\<^verbatim>\<open>src/server_config.go\<close>), the WebSocket channels and the
  forward connections (\<^verbatim>\<open>src/connection.go\<close>), the reverse connections
  (\<^verbatim>\<open>src/reverse_server.go\<close>), the reverse listeners (\<^verbatim>\<open>src/reverse_listener.go\<close>) and the pool
  that holds them all (\<^verbatim>\<open>src/server_pool.go\<close>).

  A Go pointer is a \<^typ>\<open>ref\<close> into one of the pool's three heaps (channels, forward connections,
  reverse connections), so that two places that hold the same pointer see each other's writes;
  nil is \<^term>\<open>None\<close>. Goroutines the code starts and timers it arms are collected in \<open>sp_tasks\<close>
  and run later as separate steps; what the server does to sockets outside the tunnel is logged
  in \<open>sp_effects\<close>, what it writes to a WebSocket in the channel's \<open>ws_out\<close>.
\<close>

section \<open>Configuration\<close>

record ServerConfig =
  sc_ListenAddr :: string
  sc_Token :: string
  sc_CertFile :: string
  sc_KeyFile :: string
  sc_AutoCert :: bool
  sc_ReadTimeout :: duration
  sc_WriteTimeout :: duration
  sc_PingInterval :: duration
  sc_HandshakeTimeout :: duration
  sc_ReadBufferSize :: int
  sc_WriteBufferSize :: int
  sc_BackpressureLimitBytes :: int
  sc_MaxTotalChannels :: int
  sc_MaxChannelsPerClient :: int
  sc_MaxReverseListeners :: int

definition DefaultServerConfig :: ServerConfig where
  "DefaultServerConfig =
     \<lparr>sc_ListenAddr = '':8443'', sc_Token = '''', sc_CertFile = '''', sc_KeyFile = '''',
      sc_AutoCert = True,
      sc_ReadTimeout = 15 * time_Second, sc_WriteTimeout = 5 * time_Second,
      sc_PingInterval = 5 * time_Second, sc_HandshakeTimeout = 5 * time_Second,
      sc_ReadBufferSize = 64 * 1024, sc_WriteBufferSize = 64 * 1024,
      sc_BackpressureLimitBytes = 32 * 2 ^ 20,
      sc_MaxTotalChannels = 0, sc_MaxChannelsPerClient = 0, sc_MaxReverseListeners = 3\<rparr>"

datatype server_config_error =
  ErrInvalidListenAddr | ErrEmptyToken | ErrNegativeChannelLimit | ErrNonPositiveTimeout

definition ServerConfig_Validate :: "ServerConfig \<Rightarrow> server_config_error option" where
  "ServerConfig_Validate c =
     (if sc_ListenAddr c = '''' then Some ErrInvalidListenAddr
      else if sc_Token c = '''' then Some ErrEmptyToken
      else if sc_MaxTotalChannels c < 0 \<or> sc_MaxChannelsPerClient c < 0 then Some ErrNegativeChannelLimit
      else if sc_ReadTimeout c \<le> 0 \<or> sc_WriteTimeout c \<le> 0 \<or> sc_PingInterval c \<le> 0 \<or>
              sc_HandshakeTimeout c \<le> 0 then Some ErrNonPositiveTimeout
      else None)"

section \<open>Channels and connections\<close>

text \<open>The capacity of a channel's write queue.\<close>

definition writeChanCap :: nat where
  "writeChanCap = 4096"

record writeTask =
  wt_msgType :: int
  wt_data :: bytes
  wt_size :: int

text \<open>
  The write queue of a channel: \<open>ws_writeChan\<close> says that the field is not nil, and
  \<open>ws_queue\<close> holds the buffered tasks of the Go channel, which outlive the field (the write loop
  keeps its own reference to drain it). \<open>ws_loop\<close> is the state of the write goroutine.
\<close>

datatype loop_state = LoopPending | LoopRunning | LoopDone

record ServerWSConn =
  ws_chID :: chid
  ws_clientID :: string
  ws_remoteAddr :: string
  ws_closed :: bool
  ws_writeChan :: bool
  ws_queue :: "writeTask list"
  ws_loop :: loop_state
  ws_queueFullCount :: int
  ws_lastQueueFull :: "instant option"
  ws_lastReset :: "instant option"
  ws_out :: "(int \<times> bytes) list"
  ws_socketOpen :: bool

record ServerConnState =
  cs_connID :: string
  cs_clientID :: string
  cs_target :: string
  cs_targetConn :: "nat option"
  cs_targetUDP :: "nat option"
  cs_uplinkChID :: chid
  cs_downlinkChID :: chid
  cs_ipStrategy :: byte
  cs_isUDP :: bool
  cs_clientAddr :: string
  cs_connected :: bool
  cs_closed :: bool
  cs_pendingData :: "bytes list"

definition pendingDataMaxSize :: int where
  "pendingDataMaxSize = 1024 * 1024"

text \<open>\<open>rc_rx\<close> is what has been written into the tunnel end of the pipe for the application;
  \<open>rc_open\<close> is cleared when both pipe ends are closed.\<close>

record ServerReverseConn =
  rc_connID :: string
  rc_target :: string
  rc_ownerClientID :: string
  rc_sendCh :: int
  rc_recvCh :: int
  rc_rx :: "bytes list"
  rc_open :: bool
  rc_settled :: bool
  rc_ok :: bool
  rc_errMsg :: string
  rc_pairPreset :: bool
  rc_repaired :: bool

record reverseListener =
  rl_spec :: string
  rl_listenerID :: string
  rl_server :: nat

section \<open>The pool\<close>

text \<open>What goroutines still have to do. \<open>cleanup_pc\<close> is how far the clean-up of a channel has come.\<close>

datatype cleanup_pc =
    CleanConns "string list"
  | CleanRevs "string list"
  | CleanPairs
  | CleanListeners
  | CleanSocket

datatype task =
    ConnectTarget ref
  | Dialing ref
  | RefuseClose ref
  | RefuseForget ref
  | AnnounceOK ref nat "bytes list"
  | FlushPending ref nat "bytes list"
  | ForwardTarget ref
  | ForwardUDP ref
  | PrebindExpire string instant
  | CooldownReset instant
  | ReverseUpstream ref
  | FinishClose ref
  | CleanUp string chid "ref option" bool cleanup_pc
  | ExitLoop ref

datatype target_effect =
    TargetWrite nat bytes
  | TargetClose nat
  | UDPSend nat string bytes
  | UDPClose nat
  | ListenerClose nat

record serverPool =
  sp_config :: ServerConfig
  sp_token :: string
  sp_bytesSent :: "64 word"
  sp_bytesReceived :: "64 word"
  sp_conns :: "(string, ref) dict"
  sp_connHeap :: "ref \<Rightarrow> ServerConnState"
  sp_nextConn :: nat
  sp_wsConns :: "ref option list"
  sp_clientChConns :: "(string, (chid, ref) dict) dict"
  sp_wsHeap :: "ref \<Rightarrow> ServerWSConn"
  sp_nextWS :: nat
  sp_revConns :: "(string, ref) dict"
  sp_revHeap :: "ref \<Rightarrow> ServerReverseConn"
  sp_nextRev :: nat
  sp_maxPerClient :: int
  sp_listeners :: "(string, (string, reverseListener) dict) dict"
  sp_hotPairs :: HotPairTable
  sp_prebindTTL :: duration
  sp_prebindArmed :: "(string, instant) dict"
  sp_globalQueueBytes :: int
  sp_globalQueueLimit :: int
  sp_backpressureState :: byte
  sp_backpressureCooldown :: bool
  sp_tasks :: "task list"
  sp_effects :: "target_effect list"

definition prebindStateTTL :: duration where
  "prebindStateTTL = 5 * time_Second"

definition maxAllowedChID :: int where
  "maxAllowedChID = 65535"

text \<open>The contents of heap cells that are not allocated yet; no operation reads them.\<close>

definition blank_ws :: ServerWSConn where
  "blank_ws = \<lparr>ws_chID = 0, ws_clientID = '''', ws_remoteAddr = '''', ws_closed = True,
     ws_writeChan = False, ws_queue = [], ws_loop = LoopDone, ws_queueFullCount = 0,
     ws_lastQueueFull = None, ws_lastReset = None, ws_out = [], ws_socketOpen = False\<rparr>"

definition blank_conn :: ServerConnState where
  "blank_conn = \<lparr>cs_connID = '''', cs_clientID = '''', cs_target = '''', cs_targetConn = None,
     cs_targetUDP = None, cs_uplinkChID = 0, cs_downlinkChID = 0, cs_ipStrategy = 0,
     cs_isUDP = False, cs_clientAddr = '''', cs_connected = False, cs_closed = False,
     cs_pendingData = []\<rparr>"

definition newServerReverseConn :: "string \<Rightarrow> string \<Rightarrow> string \<Rightarrow> ServerReverseConn" where
  "newServerReverseConn connID clientID target =
     \<lparr>rc_connID = connID, rc_target = target, rc_ownerClientID = clientID, rc_sendCh = 0,
      rc_recvCh = 0, rc_rx = [], rc_open = True, rc_settled = False, rc_ok = False,
      rc_errMsg = '''', rc_pairPreset = False, rc_repaired = False\<rparr>"

definition NewReverseListenerManager :: "int \<Rightarrow> int" where
  "NewReverseListenerManager maxPerClient = (if maxPerClient \<le> 0 then 3 else maxPerClient)"

definition newServerPool :: "string \<Rightarrow> ServerConfig \<Rightarrow> serverPool" where
  "newServerPool token config =
     (let limit = sc_BackpressureLimitBytes config;
          limit = (if limit \<le> 0 then 32 * 2 ^ 20 else limit)
      in \<lparr>sp_config = config, sp_token = token, sp_bytesSent = 0, sp_bytesReceived = 0,
          sp_conns = [], sp_connHeap = (\<lambda>_. blank_conn), sp_nextConn = 0,
          sp_wsConns = [], sp_clientChConns = [], sp_wsHeap = (\<lambda>_. blank_ws), sp_nextWS = 0,
          sp_revConns = [], sp_revHeap = (\<lambda>_. newServerReverseConn '''' '''' ''''), sp_nextRev = 0,
          sp_maxPerClient = NewReverseListenerManager (sc_MaxReverseListeners config),
          sp_listeners = [], sp_hotPairs = NewHotPairTable, sp_prebindTTL = prebindStateTTL,
          sp_prebindArmed = [], sp_globalQueueBytes = 0, sp_globalQueueLimit = limit,
          sp_backpressureState = BackpressureNormal, sp_backpressureCooldown = False,
          sp_tasks = [], sp_effects = []\<rparr>)"

section \<open>Reading and writing through the heaps\<close>

definition upd_ws :: "ref \<Rightarrow> (ServerWSConn \<Rightarrow> ServerWSConn) \<Rightarrow> serverPool \<Rightarrow> serverPool" where
  "upd_ws r f p = p\<lparr>sp_wsHeap := (sp_wsHeap p)(r := f (sp_wsHeap p r))\<rparr>"

definition upd_conn :: "ref \<Rightarrow> (ServerConnState \<Rightarrow> ServerConnState) \<Rightarrow> serverPool \<Rightarrow> serverPool" where
  "upd_conn r f p = p\<lparr>sp_connHeap := (sp_connHeap p)(r := f (sp_connHeap p r))\<rparr>"

definition upd_rev :: "ref \<Rightarrow> (ServerReverseConn \<Rightarrow> ServerReverseConn) \<Rightarrow> serverPool \<Rightarrow> serverPool" where
  "upd_rev r f p = p\<lparr>sp_revHeap := (sp_revHeap p)(r := f (sp_revHeap p r))\<rparr>"

definition spawn :: "task \<Rightarrow> serverPool \<Rightarrow> serverPool" where
  "spawn t p = p\<lparr>sp_tasks := sp_tasks p @ [t]\<rparr>"

definition emit :: "target_effect \<Rightarrow> serverPool \<Rightarrow> serverPool" where
  "emit e p = p\<lparr>sp_effects := sp_effects p @ [e]\<rparr>"

text \<open>\<^verbatim>\<open>p.clientChConns[clientID][chID]\<close>: a missing client reads as a nil map, hence nil.\<close>

definition channel_ref :: "serverPool \<Rightarrow> string \<Rightarrow> chid \<Rightarrow> ref option" where
  "channel_ref p clientID chID =
     (case dict_get (sp_clientChConns p) clientID of None \<Rightarrow> None | Some m \<Rightarrow> dict_get m chID)"

text \<open>A channel pointer the code treats as usable: not nil and not closed.\<close>

fun ws_live :: "serverPool \<Rightarrow> ref option \<Rightarrow> bool" where
  "ws_live p None = False"
| "ws_live p (Some r) = (\<not> ws_closed (sp_wsHeap p r))"

definition channelAliveForClient :: "serverPool \<Rightarrow> string \<Rightarrow> chid \<Rightarrow> bool" where
  "channelAliveForClient p clientID chID = ws_live p (channel_ref p clientID chID)"

definition getReverseConn :: "serverPool \<Rightarrow> string \<Rightarrow> ref option" where
  "getReverseConn p connID = dict_get (sp_revConns p) connID"

section \<open>Counting channels\<close>

fun countActiveLoop :: "serverPool \<Rightarrow> string \<Rightarrow> ref option list \<Rightarrow> int \<times> int \<Rightarrow> int \<times> int" where
  "countActiveLoop p clientID [] acc = acc"
| "countActiveLoop p clientID (None # xs) acc = countActiveLoop p clientID xs acc"
| "countActiveLoop p clientID (Some r # xs) (totalN, clientTotal) =
     (if ws_closed (sp_wsHeap p r) then countActiveLoop p clientID xs (totalN, clientTotal)
      else countActiveLoop p clientID xs
        (totalN + 1, if ws_clientID (sp_wsHeap p r) = clientID then clientTotal + 1 else clientTotal))"

definition countActiveChannelsLocked :: "serverPool \<Rightarrow> string \<Rightarrow> int \<times> int" where
  "countActiveChannelsLocked p clientID = countActiveLoop p clientID (sp_wsConns p) (0, 0)"

definition countActiveChannels :: "serverPool \<Rightarrow> string \<Rightarrow> int \<times> int" where
  "countActiveChannels p clientID = countActiveChannelsLocked p clientID"

definition countActiveChannelsForClient :: "serverPool \<Rightarrow> string \<Rightarrow> int" where
  "countActiveChannelsForClient p clientID =
     foldl (\<lambda>cnt x. case x of None \<Rightarrow> cnt
                    | Some r \<Rightarrow> if \<not> ws_closed (sp_wsHeap p r) \<and> ws_clientID (sp_wsHeap p r) = clientID
                                then cnt + 1 else cnt) 0 (sp_wsConns p)"

definition connectTimeout :: "serverPool \<Rightarrow> duration" where
  "connectTimeout p =
     (if sc_HandshakeTimeout (sp_config p) \<le> 0 then 10 * time_Second
      else sc_HandshakeTimeout (sp_config p))"

definition udpReadTimeout :: "serverPool \<Rightarrow> duration" where
  "udpReadTimeout p =
     (if sc_ReadTimeout (sp_config p) \<le> 0 then 30 * time_Second
      else sc_ReadTimeout (sp_config p) * 2)"

definition addSentBytes :: "int \<Rightarrow> serverPool \<Rightarrow> serverPool" where
  "addSentBytes n p = (if n > 0 then p\<lparr>sp_bytesSent := sp_bytesSent p + word_of_int n\<rparr> else p)"

definition addReceivedBytes :: "int \<Rightarrow> serverPool \<Rightarrow> serverPool" where
  "addReceivedBytes n p =
     (if n > 0 then p\<lparr>sp_bytesReceived := sp_bytesReceived p + word_of_int n\<rparr> else p)"

record ServerStats =
  st_ActiveConnections :: int
  st_ActiveChannels :: int
  st_TotalConnections :: int
  st_BytesSent :: "64 word"
  st_BytesReceived :: "64 word"

definition Stats :: "serverPool \<Rightarrow> ServerStats" where
  "Stats p =
     (let activeConns = foldl (\<lambda>n x. if ws_live p x then n + 1 else n) 0 (sp_wsConns p)
      in \<lparr>st_ActiveConnections = activeConns, st_ActiveChannels = activeConns,
          st_TotalConnections = int (length (sp_conns p)),
          st_BytesSent = sp_bytesSent p, st_BytesReceived = sp_bytesReceived p\<rparr>)"

section \<open>Abstract counts\<close>

text \<open>The live channels the pool lists, and the same per client; the loops of the code compute
  their sizes.\<close>

definition live_refs :: "serverPool \<Rightarrow> ref list" where
  "live_refs p = filter (\<lambda>r. \<not> ws_closed (sp_wsHeap p r)) (non_nil (sp_wsConns p))"

definition client_live_refs :: "serverPool \<Rightarrow> string \<Rightarrow> ref list" where
  "client_live_refs p c = filter (\<lambda>r. ws_clientID (sp_wsHeap p r) = c) (live_refs p)"

lemma countActiveLoop_eq:
  "countActiveLoop p c xs (a, b) =
     (a + int (length (filter (\<lambda>r. \<not> ws_closed (sp_wsHeap p r)) (non_nil xs))),
      b + int (length (filter (\<lambda>r. ws_clientID (sp_wsHeap p r) = c)
            (filter (\<lambda>r. \<not> ws_closed (sp_wsHeap p r)) (non_nil xs)))))"
  by (induction p c xs "(a, b)" arbitrary: a b rule: countActiveLoop.induct) auto

lemma countActiveChannelsLocked_eq:
  "countActiveChannelsLocked p c = (int (length (live_refs p)), int (length (client_live_refs p c)))"
  by (simp add: countActiveChannelsLocked_def countActiveLoop_eq live_refs_def client_live_refs_def
      del: filter_filter)

lemma foldl_count: "foldl (\<lambda>n x. if P x then n + 1 else n) (a :: int) xs = a + int (length (filter P xs))"
  by (induction xs arbitrary: a) auto

lemma length_filter_non_nil:
  "length (filter P (non_nil xs)) = length (filter (\<lambda>x. case x of None \<Rightarrow> False | Some r \<Rightarrow> P r) xs)"
proof (induction xs)
  case (Cons x xs) then show ?case by (cases x) simp_all
qed simp

lemma Stats_active: "st_ActiveChannels (Stats p) = int (length (live_refs p))"
proof -
  have "ws_live p = (\<lambda>x. case x of None \<Rightarrow> False | Some r \<Rightarrow> \<not> ws_closed (sp_wsHeap p r))"
    by (rule ext) (simp split: option.split)
  then show ?thesis
    by (simp add: Stats_def Let_def foldl_count live_refs_def length_filter_non_nil)
qed

lemma countActiveChannelsForClient_eq:
  "countActiveChannelsForClient p c = int (length (client_live_refs p c))"
proof -
  have "(\<lambda>cnt x. case x of None \<Rightarrow> cnt
      | Some r \<Rightarrow> if \<not> ws_closed (sp_wsHeap p r) \<and> ws_clientID (sp_wsHeap p r) = c then cnt + 1 else cnt)
    = (\<lambda>(cnt :: int) x. if (case x of None \<Rightarrow> False
      | Some r \<Rightarrow> \<not> ws_closed (sp_wsHeap p r) \<and> ws_clientID (sp_wsHeap p r) = c) then cnt + 1 else cnt)"
    by (intro ext) (simp split: option.split)
  then show ?thesis
    by (simp add: countActiveChannelsForClient_def foldl_count client_live_refs_def live_refs_def
        length_filter_non_nil conj_commute)
qed

end
