(* ===== verification/Server_Queue.thy ===== *)
theory Server_Queue
  imports Server_State
begin

text \<open>
  The server's sending side: the per-channel write queues (\<^verbatim>\<open>asyncWrite\<close>, \<^verbatim>\<open>writeDirect\<close> and
  \<^verbatim>\<open>notifyChannelReset\<close> of \<^verbatim>\<open>src/connection.go\<close>), the byte counter and the back-pressure
  state machine, and the unicast and broadcast primitives of \<^verbatim>\<open>src/server_pool.go\<close>.

  \<^verbatim>\<open>asyncWrite\<close>, \<^verbatim>\<open>updateBackpressureState\<close> and \<^verbatim>\<open>broadcastBackpressure\<close> call each other: an
  enqueue can raise the back-pressure level, and announcing the new level enqueues. The bodies
  take the recursive call as an argument and the knot is tied with fuel 3; the theory shows
  that the level only rises while the recursion lasts, so that three rounds are always enough
  and the definitions satisfy the recursive equations of the code.
\<close>

section \<open>Byte accounting\<close>

text \<open>\<open>sp_globalQueueBytes\<close> is kept as an unbounded integer: it counts bytes held in
  queues of 4096 frames per channel and stays far below the \<open>2 ^ 63\<close> of the \<^verbatim>\<open>int64\<close>. The products
  of the configured limit are where a width matters, and are wrapped.\<close>

definition addQueueBytes :: "int \<Rightarrow> serverPool \<Rightarrow> int \<times> serverPool" where
  "addQueueBytes sz p =
     (let n = sp_globalQueueBytes p + sz in (n, p\<lparr>sp_globalQueueBytes := n\<rparr>))"

definition rollbackQueueBytes :: "int \<Rightarrow> serverPool \<Rightarrow> int \<times> serverPool" where
  "rollbackQueueBytes sz p =
     (let newSize = sp_globalQueueBytes p - sz
      in if newSize < 0 then (0, p\<lparr>sp_globalQueueBytes := 0\<rparr>)
         else (newSize, p\<lparr>sp_globalQueueBytes := newSize\<rparr>))"

text \<open>\<^verbatim>\<open>limit*a/b\<close> on \<^verbatim>\<open>int64\<close>.\<close>

definition threshold :: "int \<Rightarrow> int \<Rightarrow> int \<Rightarrow> int" where
  "threshold limit a b = go_div (wrap64 (limit * a)) b"

section \<open>Enqueueing\<close>

datatype send_error = ErrQueueFull | ErrNoChannel | ErrChannelUnavailable | ErrNoConn

definition notifyChannelReset :: "ref \<Rightarrow> serverPool \<Rightarrow> serverPool" where
  "notifyChannelReset r p =
     (let w = sp_wsHeap p r
      in if ws_closed w then p
         else let meta = PutUint32 (word_of_int (ws_chID w));
                  data = EncodeMessage MsgChannelReset '''' meta []
              in upd_ws r (ws_out_update (\<lambda>out. out @ [(BinaryMessage, data)])) p)"

text \<open>The bookkeeping of a full queue: five refusals with at most a second between two of them
  reset the channel, at most once every five seconds.\<close>

definition queueFull :: "instant \<Rightarrow> ServerWSConn \<Rightarrow> bool \<times> ServerWSConn" where
  "queueFull now w =
     (let stale = (case ws_lastQueueFull w of None \<Rightarrow> True | Some t \<Rightarrow> now - t > time_Second);
          count = (if stale then 0 else ws_queueFullCount w) + 1;
          cool = (case ws_lastReset w of None \<Rightarrow> True | Some t \<Rightarrow> now - t > 5 * time_Second);
          shouldReset = (count \<ge> 5 \<and> cool);
          w = w\<lparr>ws_lastQueueFull := Some now, ws_queueFullCount := count\<rparr>;
          w = (if shouldReset then w\<lparr>ws_queueFullCount := 0, ws_lastReset := Some now\<rparr> else w)
      in (shouldReset, w))"

definition asyncWrite_with ::
  "(int \<Rightarrow> serverPool \<Rightarrow> serverPool) \<Rightarrow> instant \<Rightarrow> int \<Rightarrow> bytes \<Rightarrow> ref \<Rightarrow> serverPool
     \<Rightarrow> send_error option \<times> serverPool" where
  "asyncWrite_with update now msgType data r p =
     (let sz = int (length data); w = sp_wsHeap p r
      in if ws_closed w \<or> \<not> ws_writeChan w then (None, p)
         else
           let (newSize, p) = addQueueBytes sz p
           in if length (ws_queue w) < writeChanCap then
                let p = upd_ws r (ws_queue_update (\<lambda>q. q @
                          [\<lparr>wt_msgType = msgType, wt_data = data, wt_size = sz\<rparr>])) p
                in (None, update newSize p)
              else
                let (_, p) = rollbackQueueBytes sz p;
                    (shouldReset, w) = queueFull now (sp_wsHeap p r);
                    p = upd_ws r (\<lambda>_. w) p;
                    p = (if shouldReset then notifyChannelReset r p else p)
                in (Some ErrQueueFull, p))"

section \<open>Broadcast\<close>

definition activeConns :: "serverPool \<Rightarrow> string \<Rightarrow> ref list" where
  "activeConns p clientID =
     filter (\<lambda>r. \<not> ws_closed (sp_wsHeap p r) \<and> \<not> (clientID \<noteq> '''' \<and> ws_clientID (sp_wsHeap p r) \<noteq> clientID))
       (non_nil (sp_wsConns p))"

definition broadcastWriteToClient_with ::
  "(int \<Rightarrow> serverPool \<Rightarrow> serverPool) \<Rightarrow> instant \<Rightarrow> string \<Rightarrow> int \<Rightarrow> bytes \<Rightarrow> serverPool
     \<Rightarrow> send_error option \<times> serverPool" where
  "broadcastWriteToClient_with update now clientID msgType data p =
     (let conns = activeConns p clientID
      in if conns = [] then (Some ErrNoChannel, p)
         else (None, foldl (\<lambda>p r. snd (asyncWrite_with update now msgType data r p)) p conns))"

definition broadcastBackpressure_with ::
  "(int \<Rightarrow> serverPool \<Rightarrow> serverPool) \<Rightarrow> instant \<Rightarrow> BackpressureState \<Rightarrow> serverPool \<Rightarrow> serverPool" where
  "broadcastBackpressure_with update now state p =
     (let meta = [state];
          msg = EncodeMessage MsgBackpressure '''' meta []
      in snd (broadcastWriteToClient_with update now '''' BinaryMessage msg p))"

section \<open>Back pressure\<close>

definition updateBackpressure_body ::
  "(BackpressureState \<Rightarrow> serverPool \<Rightarrow> serverPool) \<Rightarrow> instant \<Rightarrow> int \<Rightarrow> serverPool \<Rightarrow> serverPool" where
  "updateBackpressure_body announce now newSize p =
     (let limit = sp_globalQueueLimit p
      in if limit \<le> 0 then p
         else if newSize > threshold limit 95 100 then
           (if sp_backpressureState p \<noteq> BackpressurePause
            then announce BackpressurePause (p\<lparr>sp_backpressureState := BackpressurePause\<rparr>)
            else p)
         else if newSize > threshold limit 8 10 then
           (if sp_backpressureState p = BackpressureNormal then
              (if \<not> sp_backpressureCooldown p
               then spawn (CooldownReset (now + time_Second))
                      (announce BackpressureSlowDown
                        (p\<lparr>sp_backpressureCooldown := True, sp_backpressureState := BackpressureSlowDown\<rparr>))
               else p)
            else p)
         else p)"

primrec updateBackpressureN :: "nat \<Rightarrow> instant \<Rightarrow> int \<Rightarrow> serverPool \<Rightarrow> serverPool" where
  "updateBackpressureN 0 = (\<lambda>now newSize p. p)"
| "updateBackpressureN (Suc n) = (\<lambda>now.
     updateBackpressure_body (broadcastBackpressure_with (updateBackpressureN n now) now) now)"

definition updateBackpressureState :: "instant \<Rightarrow> int \<Rightarrow> serverPool \<Rightarrow> serverPool" where
  "updateBackpressureState = updateBackpressureN 3"

definition asyncWrite :: "instant \<Rightarrow> int \<Rightarrow> bytes \<Rightarrow> ref \<Rightarrow> serverPool \<Rightarrow> send_error option \<times> serverPool" where
  "asyncWrite now = asyncWrite_with (updateBackpressureState now) now"

definition broadcastWriteToClient ::
  "instant \<Rightarrow> string \<Rightarrow> int \<Rightarrow> bytes \<Rightarrow> serverPool \<Rightarrow> send_error option \<times> serverPool" where
  "broadcastWriteToClient now = broadcastWriteToClient_with (updateBackpressureState now) now"

definition broadcastWrite :: "instant \<Rightarrow> int \<Rightarrow> bytes \<Rightarrow> serverPool \<Rightarrow> send_error option \<times> serverPool" where
  "broadcastWrite now msgType data p = broadcastWriteToClient now '''' msgType data p"

definition broadcastBackpressure :: "instant \<Rightarrow> BackpressureState \<Rightarrow> serverPool \<Rightarrow> serverPool" where
  "broadcastBackpressure now state p =
     (let meta = [state];
          msg = EncodeMessage MsgBackpressure '''' meta []
      in snd (broadcastWrite now BinaryMessage msg p))"

definition removeQueueBytes :: "instant \<Rightarrow> int \<Rightarrow> serverPool \<Rightarrow> serverPool" where
  "removeQueueBytes now sz p =
     (let newSize = sp_globalQueueBytes p - sz;
          newSize = (if newSize < 0 then 0 else newSize);
          p = p\<lparr>sp_globalQueueBytes := newSize\<rparr>;
          limit = sp_globalQueueLimit p;
          currentState = sp_backpressureState p
      in if limit \<le> 0 then p
         else if currentState = BackpressurePause \<and> newSize < threshold limit 3 10 then
           broadcastBackpressure now BackpressureNormal (p\<lparr>sp_backpressureState := BackpressureNormal\<rparr>)
         else if currentState = BackpressurePause \<and> newSize < threshold limit 9 10 then
           broadcastBackpressure now BackpressureSlowDown (p\<lparr>sp_backpressureState := BackpressureSlowDown\<rparr>)
         else if currentState = BackpressureSlowDown \<and> newSize < threshold limit 7 10 then
           broadcastBackpressure now BackpressureNormal (p\<lparr>sp_backpressureState := BackpressureNormal\<rparr>)
         else p)"

text \<open>The timer armed with a slow-down announcement.\<close>

definition cooldownReset :: "serverPool \<Rightarrow> serverPool" where
  "cooldownReset p = p\<lparr>sp_backpressureCooldown := False\<rparr>"

section \<open>Unicast and downlink\<close>

definition sendToChannel ::
  "instant \<Rightarrow> string \<Rightarrow> chid \<Rightarrow> int \<Rightarrow> bytes \<Rightarrow> serverPool \<Rightarrow> send_error option \<times> serverPool" where
  "sendToChannel now clientID chID msgType data p =
     (case channel_ref p clientID chID of
        None \<Rightarrow> (Some ErrChannelUnavailable, p)
      | Some r \<Rightarrow>
          if ws_closed (sp_wsHeap p r) then (Some ErrChannelUnavailable, p)
          else (None, snd (asyncWrite now msgType data r p)))"

definition sendDownlink ::
  "instant \<Rightarrow> string \<Rightarrow> MessageType \<Rightarrow> bytes \<Rightarrow> bytes \<Rightarrow> serverPool \<Rightarrow> send_error option \<times> serverPool" where
  "sendDownlink now connID msgType meta payload p =
     (case dict_get (sp_conns p) connID of
        None \<Rightarrow> (Some ErrNoConn, p)
      | Some c \<Rightarrow>
          let downlink = cs_downlinkChID (sp_connHeap p c);
              clientID = cs_clientID (sp_connHeap p c)
          in if downlink > 0
             then sendToChannel now clientID downlink BinaryMessage (EncodeMessage msgType connID meta payload) p
             else broadcastWriteToClient now clientID BinaryMessage (EncodeMessage msgType connID meta payload) p)"

section \<open>Dequeueing\<close>

text \<open>\<^verbatim>\<open>writeDirect\<close>: the argument \<open>ok\<close> is the outcome of the socket write; the result says whether
  the caller sees an error.\<close>

definition writeDirect :: "ref \<Rightarrow> int \<Rightarrow> bytes \<Rightarrow> bool \<Rightarrow> serverPool \<Rightarrow> bool \<times> serverPool" where
  "writeDirect r msgType data ok p =
     (if ws_closed (sp_wsHeap p r) then (True, p)
      else let p = upd_ws r (ws_out_update (\<lambda>out. out @ [(msgType, data)])) p
           in if \<not> ok then (False, p)
              else (True, addSentBytes (int (length data)) p))"

text \<open>Receiving the first task \<open>t\<close> of a queue and giving its bytes back, as both the write loop
  and its deferred drain do.\<close>

definition dequeue :: "instant \<Rightarrow> ref \<Rightarrow> writeTask \<Rightarrow> serverPool \<Rightarrow> serverPool" where
  "dequeue now r t p =
     (let p = upd_ws r (ws_queue_update tl) p
      in if wt_size t > 0 then removeQueueBytes now (wt_size t) p else p)"

text \<open>The deferred drain of the write loop, once per buffered task.\<close>

primrec drainN :: "nat \<Rightarrow> instant \<Rightarrow> ref \<Rightarrow> serverPool \<Rightarrow> serverPool" where
  "drainN 0 now r p = p"
| "drainN (Suc n) now r p =
     (case ws_queue (sp_wsHeap p r) of
        [] \<Rightarrow> p
      | t # q \<Rightarrow> drainN n now r (dequeue now r t p))"

definition drain :: "instant \<Rightarrow> ref \<Rightarrow> serverPool \<Rightarrow> serverPool" where
  "drain now r p = drainN (length (ws_queue (sp_wsHeap p r))) now r p"

section \<open>The recursion of the announcements ends\<close>

definition bp_level :: "serverPool \<Rightarrow> nat" where
  "bp_level p = (if sp_backpressureState p = BackpressurePause then 0
                 else if sp_backpressureState p = BackpressureNormal then 2 else 1)"

lemma bp_state_upd_ws [simp]: "sp_backpressureState (upd_ws r f p) = sp_backpressureState p"
  by (simp add: upd_ws_def)

lemma bp_state_notifyChannelReset [simp]:
  "sp_backpressureState (notifyChannelReset r p) = sp_backpressureState p"
  by (simp add: notifyChannelReset_def Let_def)

lemma bp_level_spawn [simp]: "bp_level (spawn t p) = bp_level p"
  by (simp add: bp_level_def spawn_def)

text \<open>What an update handler may do to the level, and when two handlers agree.\<close>

definition level_safe :: "nat \<Rightarrow> (int \<Rightarrow> serverPool \<Rightarrow> serverPool) \<Rightarrow> bool" where
  "level_safe k u \<longleftrightarrow> (\<forall>x p. bp_level p \<le> k \<longrightarrow> bp_level (u x p) \<le> bp_level p)"

definition agree_upto :: "nat \<Rightarrow> (int \<Rightarrow> serverPool \<Rightarrow> serverPool) \<Rightarrow> (int \<Rightarrow> serverPool \<Rightarrow> serverPool) \<Rightarrow> bool" where
  "agree_upto k u v \<longleftrightarrow> (\<forall>x p. bp_level p \<le> k \<longrightarrow> u x p = v x p)"

lemma asyncWrite_with_cases:
  obtains (skip) "snd (asyncWrite_with u now mt d r p) = p"
      "\<And>v. asyncWrite_with v now mt d r p = asyncWrite_with u now mt d r p"
  | (enqueue) q x where "\<And>v. asyncWrite_with v now mt d r p = (None, v x q)" "bp_level q = bp_level p"
  | (full) "\<And>v. asyncWrite_with v now mt d r p = asyncWrite_with u now mt d r p"
      "bp_level (snd (asyncWrite_with u now mt d r p)) = bp_level p"
proof -
  consider "ws_closed (sp_wsHeap p r) \<or> \<not> ws_writeChan (sp_wsHeap p r)"
    | "\<not> (ws_closed (sp_wsHeap p r) \<or> \<not> ws_writeChan (sp_wsHeap p r))"
        "length (ws_queue (sp_wsHeap p r)) < writeChanCap"
    | "\<not> (ws_closed (sp_wsHeap p r) \<or> \<not> ws_writeChan (sp_wsHeap p r))"
        "\<not> length (ws_queue (sp_wsHeap p r)) < writeChanCap"
    by blast
  then show thesis
  proof cases
    case 1
    then show thesis by (intro skip) (simp_all add: asyncWrite_with_def Let_def)
  next
    case 2
    let ?x = "sp_globalQueueBytes p + int (length d)"
    let ?t = "\<lparr>wt_msgType = mt, wt_data = d, wt_size = int (length d)\<rparr>"
    show thesis
    proof (rule enqueue)
      show "asyncWrite_with v now mt d r p =
          (None, v ?x (upd_ws r (ws_queue_update (\<lambda>q. q @ [?t])) (p\<lparr>sp_globalQueueBytes := ?x\<rparr>)))" for v
        using 2 by (simp add: asyncWrite_with_def Let_def addQueueBytes_def)
    qed (simp add: bp_level_def)
  next
    case 3
    then show thesis
      by (intro full) (simp_all add: asyncWrite_with_def Let_def addQueueBytes_def
          rollbackQueueBytes_def bp_level_def split_def)
  qed
qed

lemma asyncWrite_with_level:
  assumes "level_safe k u" "bp_level p \<le> k"
  shows "bp_level (snd (asyncWrite_with u now mt d r p)) \<le> bp_level p"
proof (rule asyncWrite_with_cases [of u now mt d r p])
  fix q x assume "\<And>v. asyncWrite_with v now mt d r p = (None, v x q)" "bp_level q = bp_level p"
  with assms show ?thesis by (metis level_safe_def snd_conv)
qed auto

lemma asyncWrite_with_agree:
  assumes "agree_upto k u v" "bp_level p \<le> k"
  shows "asyncWrite_with u now mt d r p = asyncWrite_with v now mt d r p"
proof (rule asyncWrite_with_cases [of u now mt d r p])
  fix q x assume "\<And>v. asyncWrite_with v now mt d r p = (None, v x q)" "bp_level q = bp_level p"
  with assms show ?thesis by (metis agree_upto_def)
next
  assume "\<And>v. asyncWrite_with v now mt d r p = asyncWrite_with u now mt d r p"
  then show ?thesis by metis
next
  assume "\<And>v. asyncWrite_with v now mt d r p = asyncWrite_with u now mt d r p"
  then show ?thesis by metis
qed

lemma broadcast_fold_level_agree:
  assumes "level_safe k u" "agree_upto k u v" "bp_level p \<le> k"
  shows "bp_level (foldl (\<lambda>p r. snd (asyncWrite_with u now mt d r p)) p rs) \<le> bp_level p \<and>
    foldl (\<lambda>p r. snd (asyncWrite_with u now mt d r p)) p rs =
      foldl (\<lambda>p r. snd (asyncWrite_with v now mt d r p)) p rs"
  using assms(3)
proof (induction rs arbitrary: p)
  case (Cons r rs)
  have l: "bp_level (snd (asyncWrite_with u now mt d r p)) \<le> bp_level p"
    using asyncWrite_with_level [OF assms(1) Cons.prems] .
  then have "bp_level (snd (asyncWrite_with u now mt d r p)) \<le> k" using Cons.prems by linarith
  note IH = Cons.IH [OF this]
  have v: "snd (asyncWrite_with v now mt d r p) = snd (asyncWrite_with u now mt d r p)"
    using asyncWrite_with_agree [OF assms(2) Cons.prems, of now mt d r] by simp
  show ?case
    unfolding foldl_Cons v using IH l by (meson le_trans)
qed simp

lemma broadcastBackpressure_with_level:
  assumes "level_safe k u" "bp_level p \<le> k"
  shows "bp_level (broadcastBackpressure_with u now st p) \<le> bp_level p"
  using broadcast_fold_level_agree [OF assms(1) _ assms(2), of u]
  by (simp add: broadcastBackpressure_with_def broadcastWriteToClient_with_def Let_def agree_upto_def)

lemma broadcastBackpressure_with_agree:
  assumes "level_safe k u" "agree_upto k u v" "bp_level p \<le> k"
  shows "broadcastBackpressure_with u now st p = broadcastBackpressure_with v now st p"
  using broadcast_fold_level_agree [OF assms]
  by (simp add: broadcastBackpressure_with_def broadcastWriteToClient_with_def Let_def)

lemma bp_level_raised:
  "bp_level (p\<lparr>sp_backpressureState := BackpressurePause\<rparr>) = 0"
  "bp_level (p\<lparr>sp_backpressureCooldown := c, sp_backpressureState := BackpressureSlowDown\<rparr>) = 1"
  by (simp_all add: bp_level_def)

lemma updateBackpressure_body_level:
  assumes "\<And>st q. bp_level q < bp_level p \<Longrightarrow> bp_level (announce st q) \<le> bp_level q"
  shows "bp_level (updateBackpressure_body announce now x p) \<le> bp_level p"
proof (cases "sp_backpressureState p = BackpressurePause")
  case True
  then show ?thesis by (simp add: updateBackpressure_body_def Let_def)
next
  case False
  then have l: "0 < bp_level p" by (simp add: bp_level_def)
  have pause: "bp_level (announce BackpressurePause (p\<lparr>sp_backpressureState := BackpressurePause\<rparr>)) \<le> bp_level p"
    using assms [of "p\<lparr>sp_backpressureState := BackpressurePause\<rparr>" BackpressurePause] l
    by (simp add: bp_level_raised)
  show ?thesis
  proof (cases "sp_backpressureState p = BackpressureNormal")
    case True
    then have "bp_level p = 2" by (simp add: bp_level_def)
    then show ?thesis
      using pause assms [of "p\<lparr>sp_backpressureCooldown := True, sp_backpressureState := BackpressureSlowDown\<rparr>"
          BackpressureSlowDown]
      by (simp add: updateBackpressure_body_def Let_def bp_level_raised)
  next
    case False
    then show ?thesis using pause by (simp add: updateBackpressure_body_def Let_def)
  qed
qed

lemma updateBackpressure_body_agree:
  assumes "\<And>st q. bp_level q < bp_level p \<Longrightarrow> a1 st q = a2 st q"
  shows "updateBackpressure_body a1 now x p = updateBackpressure_body a2 now x p"
proof -
  have "a1 BackpressurePause (p\<lparr>sp_backpressureState := BackpressurePause\<rparr>) =
      a2 BackpressurePause (p\<lparr>sp_backpressureState := BackpressurePause\<rparr>)"
    if "sp_backpressureState p \<noteq> BackpressurePause"
    using that by (intro assms) (simp add: bp_level_def)
  moreover have "a1 BackpressureSlowDown (p\<lparr>sp_backpressureCooldown := True, sp_backpressureState := BackpressureSlowDown\<rparr>) =
      a2 BackpressureSlowDown (p\<lparr>sp_backpressureCooldown := True, sp_backpressureState := BackpressureSlowDown\<rparr>)"
    if "sp_backpressureState p = BackpressureNormal"
    using that by (intro assms) (simp add: bp_level_def)
  ultimately show ?thesis
    by (simp add: updateBackpressure_body_def Let_def)
qed

lemma updateBackpressureN_level: "bp_level (updateBackpressureN n now x p) \<le> bp_level p"
proof (induction n arbitrary: x p)
  case (Suc n)
  have "level_safe k (updateBackpressureN n now)" for k
    using Suc.IH by (simp add: level_safe_def)
  then show ?case
    by (auto intro!: updateBackpressure_body_level broadcastBackpressure_with_level)
qed simp

lemma level_safe_updateBackpressureN: "level_safe k (updateBackpressureN n now)"
  by (simp add: level_safe_def updateBackpressureN_level)

lemma updateBackpressureN_fuel:
  "bp_level p < n \<Longrightarrow> bp_level p < m \<Longrightarrow> updateBackpressureN n now x p = updateBackpressureN m now x p"
proof (induction "bp_level p" arbitrary: n m x p rule: less_induct)
  case less
  obtain n' m' where n: "n = Suc n'" and m: "m = Suc m'"
    using less.prems by (metis lessE)
  have "broadcastBackpressure_with (updateBackpressureN n' now) now st q =
      broadcastBackpressure_with (updateBackpressureN m' now) now st q" if q: "bp_level q < bp_level p" for st q
  proof (rule broadcastBackpressure_with_agree [of "bp_level q"])
    show "agree_upto (bp_level q) (updateBackpressureN n' now) (updateBackpressureN m' now)"
      unfolding agree_upto_def using less.hyps less.prems q n m by auto
  qed (simp_all add: level_safe_updateBackpressureN)
  then show ?case
    by (auto simp: n m intro: updateBackpressure_body_agree)
qed

lemma bp_level_less_3 [simp]: "bp_level p < 3"
  by (simp add: bp_level_def)

lemma updateBackpressureState_rec:
  "updateBackpressureState now x p =
     updateBackpressure_body (broadcastBackpressure now) now x p"
proof -
  have "updateBackpressureState now x p = updateBackpressureN 4 now x p"
    unfolding updateBackpressureState_def by (rule updateBackpressureN_fuel) (simp_all add: bp_level_def)
  also have "\<dots> = updateBackpressure_body
      (broadcastBackpressure_with (updateBackpressureState now) now) now x p"
    by (simp add: updateBackpressureState_def numeral_eq_Suc)
  also have "broadcastBackpressure_with (updateBackpressureState now) now = broadcastBackpressure now"
    by (intro ext) (simp add: broadcastBackpressure_with_def broadcastBackpressure_def
        broadcastWrite_def broadcastWriteToClient_def Let_def)
  finally show ?thesis .
qed

section \<open>What sending can change\<close>

text \<open>
  A state property that survives an accepted enqueue, a refused one, a channel-reset notice and
  the bookkeeping of the back-pressure level survives every sending operation. \<open>allowed\<close>
  restricts which frame may be queued on which channel; back-pressure announcements go to
  every channel.
\<close>

definition backpressure_frame :: "BackpressureState \<Rightarrow> bytes" where
  "backpressure_frame st = EncodeMessage MsgBackpressure '''' [st] []"

definition enqueue :: "ref \<Rightarrow> int \<Rightarrow> bytes \<Rightarrow> serverPool \<Rightarrow> serverPool" where
  "enqueue r mt d p = upd_ws r (ws_queue_update (\<lambda>q. q @
       [\<lparr>wt_msgType = mt, wt_data = d, wt_size = int (length d)\<rparr>]))
     (p\<lparr>sp_globalQueueBytes := sp_globalQueueBytes p + int (length d)\<rparr>)"

definition refuse :: "instant \<Rightarrow> ref \<Rightarrow> serverPool \<Rightarrow> serverPool" where
  "refuse now r p = upd_ws r (\<lambda>w. snd (queueFull now w))
     (p\<lparr>sp_globalQueueBytes := max 0 (sp_globalQueueBytes p)\<rparr>)"

lemma asyncWrite_with_eq:
  "asyncWrite_with u now mt d r p =
     (if ws_closed (sp_wsHeap p r) \<or> \<not> ws_writeChan (sp_wsHeap p r) then (None, p)
      else if length (ws_queue (sp_wsHeap p r)) < writeChanCap
      then (None, u (sp_globalQueueBytes p + int (length d)) (enqueue r mt d p))
      else (Some ErrQueueFull,
            if fst (queueFull now (sp_wsHeap p r)) then notifyChannelReset r (refuse now r p)
            else refuse now r p))"
  by (simp add: asyncWrite_with_def Let_def addQueueBytes_def rollbackQueueBytes_def enqueue_def
      refuse_def split_def upd_ws_def)

locale transport_invariant =
  fixes I :: "serverPool \<Rightarrow> bool"
    and allowed :: "ref \<Rightarrow> int \<Rightarrow> bytes \<Rightarrow> bool"
  assumes I_enqueue: "I p \<Longrightarrow> allowed r mt d \<Longrightarrow> \<not> ws_closed (sp_wsHeap p r) \<Longrightarrow>
      length (ws_queue (sp_wsHeap p r)) < writeChanCap \<Longrightarrow> I (enqueue r mt d p)"
    and I_refuse: "I p \<Longrightarrow> I (refuse now r p)"
    and I_reset: "I p \<Longrightarrow> I (notifyChannelReset r p)"
    and I_level: "I p \<Longrightarrow> I (p\<lparr>sp_backpressureState := st\<rparr>)"
    and I_cooldown: "I p \<Longrightarrow> I (p\<lparr>sp_backpressureCooldown := c\<rparr>)"
    and I_timer: "I p \<Longrightarrow> I (spawn (CooldownReset t) p)"
    and allowed_backpressure: "allowed r BinaryMessage (backpressure_frame st)"
begin

lemma I_asyncWrite_with:
  assumes "\<And>x q. I q \<Longrightarrow> I (u x q)" "I p" "allowed r mt d"
  shows "I (snd (asyncWrite_with u now mt d r p))"
  using assms by (auto simp: asyncWrite_with_eq intro: I_enqueue I_refuse I_reset)

lemma I_broadcast_fold:
  assumes "\<And>x q. I q \<Longrightarrow> I (u x q)" "I p" "\<And>r. r \<in> set rs \<Longrightarrow> allowed r mt d"
  shows "I (foldl (\<lambda>p r. snd (asyncWrite_with u now mt d r p)) p rs)"
  using assms(2,3)
proof (induction rs arbitrary: p)
  case (Cons r rs)
  then show ?case by (simp add: I_asyncWrite_with [OF assms(1)])
qed simp

lemma I_broadcastBackpressure_with:
  assumes "\<And>x q. I q \<Longrightarrow> I (u x q)" "I p"
  shows "I (broadcastBackpressure_with u now st p)"
  using assms
  by (simp add: broadcastBackpressure_with_def broadcastWriteToClient_with_def Let_def
      backpressure_frame_def [symmetric] allowed_backpressure I_broadcast_fold)

lemma I_updateBackpressureN: "I p \<Longrightarrow> I (updateBackpressureN n now x p)"
proof (induction n arbitrary: x p)
  case (Suc n)
  have "I (p\<lparr>sp_backpressureCooldown := True, sp_backpressureState := BackpressureSlowDown\<rparr>)"
    using I_level [OF I_cooldown [OF Suc.prems, of True], of BackpressureSlowDown] by simp
  with Suc show ?case
    by (auto simp: updateBackpressure_body_def Let_def
        intro!: I_timer I_broadcastBackpressure_with intro: I_level)
qed simp

lemma I_updateBackpressureState: "I p \<Longrightarrow> I (updateBackpressureState now x p)"
  by (simp add: updateBackpressureState_def I_updateBackpressureN)

lemma I_asyncWrite: "I p \<Longrightarrow> allowed r mt d \<Longrightarrow> I (snd (asyncWrite now mt d r p))"
  by (simp add: asyncWrite_def I_asyncWrite_with I_updateBackpressureState)

lemma I_broadcastWriteToClient:
  "I p \<Longrightarrow> (\<And>r. r \<in> set (activeConns p c) \<Longrightarrow> allowed r mt d) \<Longrightarrow>
   I (snd (broadcastWriteToClient now c mt d p))"
  by (auto simp: broadcastWriteToClient_def broadcastWriteToClient_with_def Let_def
      intro: I_broadcast_fold I_updateBackpressureState)

lemma I_broadcastBackpressure: "I p \<Longrightarrow> I (broadcastBackpressure now st p)"
  by (auto simp: broadcastBackpressure_def broadcastWrite_def Let_def
      backpressure_frame_def [symmetric] intro: I_broadcastWriteToClient allowed_backpressure)

lemma I_sendToChannel:
  "I p \<Longrightarrow> (\<And>r. channel_ref p c ch = Some r \<Longrightarrow> allowed r mt d) \<Longrightarrow>
   I (snd (sendToChannel now c ch mt d p))"
  by (auto simp: sendToChannel_def split: option.splits intro: I_asyncWrite)

lemma I_removeQueueBytes:
  assumes "I (p\<lparr>sp_globalQueueBytes := max 0 (sp_globalQueueBytes p - sz)\<rparr>)"
  shows "I (removeQueueBytes now sz p)"
proof -
  let ?q = "p\<lparr>sp_globalQueueBytes := max 0 (sp_globalQueueBytes p - sz)\<rparr>"
  have m: "(if x < 0 then 0 else x) = max 0 x" for x :: int by simp
  show ?thesis
    using assms I_level [OF assms]
    by (simp add: removeQueueBytes_def Let_def m I_broadcastBackpressure)
qed

end

subsection \<open>Sending leaves the core of the pool alone\<close>

fun is_CooldownReset :: "task \<Rightarrow> bool" where
  "is_CooldownReset (CooldownReset _) = True"
| "is_CooldownReset _ = False"

text \<open>The pool without its transport state: queues, written frames, byte counters and the
  back-pressure level.\<close>

definition ws_core :: "ServerWSConn \<Rightarrow> ServerWSConn" where
  "ws_core w = w\<lparr>ws_queue := [], ws_queueFullCount := 0, ws_lastQueueFull := None,
     ws_lastReset := None, ws_out := []\<rparr>"

definition core :: "serverPool \<Rightarrow> serverPool" where
  "core p = p\<lparr>sp_wsHeap := ws_core \<circ> sp_wsHeap p, sp_globalQueueBytes := 0,
     sp_backpressureState := 0, sp_backpressureCooldown := False, sp_bytesSent := 0,
     sp_tasks := filter (\<lambda>t. \<not> is_CooldownReset t) (sp_tasks p)\<rparr>"

lemma core_fields:
  assumes "core p = core q"
  shows "sp_config p = sp_config q" "sp_token p = sp_token q" "sp_conns p = sp_conns q"
    "sp_connHeap p = sp_connHeap q" "sp_nextConn p = sp_nextConn q" "sp_wsConns p = sp_wsConns q"
    "sp_clientChConns p = sp_clientChConns q" "sp_nextWS p = sp_nextWS q"
    "sp_revConns p = sp_revConns q" "sp_revHeap p = sp_revHeap q" "sp_nextRev p = sp_nextRev q"
    "sp_maxPerClient p = sp_maxPerClient q" "sp_listeners p = sp_listeners q"
    "sp_hotPairs p = sp_hotPairs q" "sp_prebindTTL p = sp_prebindTTL q"
    "sp_prebindArmed p = sp_prebindArmed q" "sp_globalQueueLimit p = sp_globalQueueLimit q"
    "sp_effects p = sp_effects q" "sp_bytesReceived p = sp_bytesReceived q"
    "filter (\<lambda>t. \<not> is_CooldownReset t) (sp_tasks p) = filter (\<lambda>t. \<not> is_CooldownReset t) (sp_tasks q)"
  using assms by (cases p; cases q; simp add: core_def)+

lemma ws_core_fields:
  assumes "ws_core v = ws_core w"
  shows "ws_chID v = ws_chID w" "ws_clientID v = ws_clientID w" "ws_remoteAddr v = ws_remoteAddr w"
    "ws_closed v = ws_closed w" "ws_writeChan v = ws_writeChan w" "ws_loop v = ws_loop w"
    "ws_socketOpen v = ws_socketOpen w"
  using assms by (cases v; cases w; simp add: ws_core_def)+

lemma core_ws: "core p = core q \<Longrightarrow> ws_core (sp_wsHeap p r) = ws_core (sp_wsHeap q r)"
  by (drule arg_cong [where f = "\<lambda>p. sp_wsHeap p r"]) (simp add: core_def)

lemmas core_ws_fields = ws_core_fields [OF core_ws]

lemma core_channel_ref: "core p = core q \<Longrightarrow> channel_ref p = channel_ref q"
  using core_fields(7) [of p q] by (intro ext) (simp add: channel_ref_def)

lemma core_upd_ws:
  assumes "\<And>w. ws_core (f w) = ws_core w"
  shows "core (upd_ws r f p) = core p"
proof -
  have "ws_core \<circ> (sp_wsHeap p)(r := f (sp_wsHeap p r)) = ws_core \<circ> sp_wsHeap p"
    using assms by (auto simp: fun_eq_iff)
  then show ?thesis by (simp add: core_def upd_ws_def)
qed

lemma core_transport [simp]:
  "core (p\<lparr>sp_globalQueueBytes := x\<rparr>) = core p"
  "core (p\<lparr>sp_backpressureState := st\<rparr>) = core p"
  "core (p\<lparr>sp_backpressureCooldown := c\<rparr>) = core p"
  "core (p\<lparr>sp_bytesSent := n\<rparr>) = core p"
  "core (spawn (CooldownReset t) p) = core p"
  by (simp_all add: core_def spawn_def)

lemma ws_core_transport [simp]:
  "ws_core (ws_queue_update f w) = ws_core w" "ws_core (ws_out_update g w) = ws_core w"
  by (simp_all add: ws_core_def)

lemma core_enqueue [simp]: "core (enqueue r mt d p) = core p"
  by (simp add: enqueue_def core_upd_ws)

lemma ws_core_queueFull [simp]: "ws_core (snd (queueFull now w)) = ws_core w"
  by (simp add: queueFull_def Let_def ws_core_def)

lemma core_refuse [simp]: "core (refuse now r p) = core p"
  by (simp add: refuse_def core_upd_ws)

lemma core_notifyChannelReset [simp]: "core (notifyChannelReset r p) = core p"
  by (simp add: notifyChannelReset_def Let_def core_upd_ws)

interpretation core: transport_invariant "\<lambda>p. core p = core p0" "\<lambda>_ _ _. True" for p0
  by unfold_locales simp_all

lemma core_sends [simp]:
  "core (updateBackpressureState now x p) = core p"
  "core (snd (asyncWrite now mt d r p)) = core p"
  "core (snd (broadcastWriteToClient now c mt d p)) = core p"
  "core (broadcastBackpressure now st p) = core p"
  "core (snd (sendToChannel now c ch mt d p)) = core p"
  "core (removeQueueBytes now sz p) = core p"
  by (rule core.I_updateBackpressureState core.I_asyncWrite core.I_broadcastWriteToClient
      core.I_broadcastBackpressure core.I_sendToChannel core.I_removeQueueBytes; simp)+

lemma core_sendDownlink [simp]: "core (snd (sendDownlink now connID mt meta payload p)) = core p"
  by (simp add: sendDownlink_def Let_def split: option.split)

lemma core_writeDirect [simp]: "core (snd (writeDirect r mt d ok p)) = core p"
  by (simp add: writeDirect_def Let_def addSentBytes_def core_upd_ws)

lemma core_dequeue [simp]: "core (dequeue now r t p) = core p"
  by (simp add: dequeue_def Let_def core_upd_ws)

lemma core_drainN [simp]: "core (drainN n now r p) = core p"
  by (induction n arbitrary: p) (simp_all split: list.split)

lemma core_drain [simp]: "core (drain now r p) = core p"
  by (simp add: drain_def)

lemma core_cooldownReset [simp]: "core (cooldownReset p) = core p"
  by (simp add: cooldownReset_def)

text \<open>The parts of the pool the other components own: the channel table, the forward
  connections, the reverse connections, and the listeners.\<close>

definition chan_view where
  "chan_view p = (sp_config p, sp_clientChConns p, sp_wsConns p, sp_nextWS p, ws_core \<circ> sp_wsHeap p)"

definition conn_view where
  "conn_view p = (sp_conns p, sp_connHeap p, sp_nextConn p)"

definition rev_view where
  "rev_view p = (sp_revConns p, sp_revHeap p, sp_nextRev p)"

lemma core_views:
  assumes "core p = core q"
  shows "chan_view p = chan_view q" "conn_view p = conn_view q" "rev_view p = rev_view q"
  using core_fields [OF assms] core_ws [OF assms]
  by (simp_all add: chan_view_def conn_view_def rev_view_def fun_eq_iff)

lemmas view_core = core_views [OF core_sends(1)] core_views [OF core_sends(2)]
  core_views [OF core_sends(3)] core_views [OF core_sends(4)] core_views [OF core_sends(5)]
  core_views [OF core_sends(6)] core_views [OF core_sendDownlink] core_views [OF core_writeDirect]
  core_views [OF core_dequeue] core_views [OF core_drain] core_views [OF core_cooldownReset]

lemmas view_core [simp]

lemma view_updates [simp]:
  "chan_view (upd_conn c f p) = chan_view p" "chan_view (upd_rev c g p) = chan_view p"
  "conn_view (upd_ws r h p) = conn_view p" "conn_view (upd_rev c g p) = conn_view p"
  "rev_view (upd_ws r h p) = rev_view p" "rev_view (upd_conn c f p) = rev_view p"
  "chan_view (spawn t p) = chan_view p" "chan_view (emit e p) = chan_view p"
  "conn_view (spawn t p) = conn_view p" "conn_view (emit e p) = conn_view p"
  "rev_view (spawn t p) = rev_view p" "rev_view (emit e p) = rev_view p"
  by (simp_all add: chan_view_def conn_view_def rev_view_def upd_conn_def upd_rev_def upd_ws_def
      spawn_def emit_def)

lemma view_fields [simp]:
  "chan_view (p\<lparr>sp_hotPairs := h\<rparr>) = chan_view p" "chan_view (p\<lparr>sp_revConns := v\<rparr>) = chan_view p"
  "chan_view (p\<lparr>sp_revHeap := rh\<rparr>) = chan_view p" "chan_view (p\<lparr>sp_nextRev := nr\<rparr>) = chan_view p"
  "chan_view (p\<lparr>sp_conns := cs\<rparr>) = chan_view p" "chan_view (p\<lparr>sp_connHeap := ch\<rparr>) = chan_view p"
  "chan_view (p\<lparr>sp_nextConn := nc\<rparr>) = chan_view p" "chan_view (p\<lparr>sp_listeners := l\<rparr>) = chan_view p"
  "chan_view (p\<lparr>sp_prebindArmed := a\<rparr>) = chan_view p" "chan_view (p\<lparr>sp_bytesReceived := b\<rparr>) = chan_view p"
  "chan_view (p\<lparr>sp_effects := es\<rparr>) = chan_view p" "chan_view (p\<lparr>sp_tasks := ts\<rparr>) = chan_view p"
  "conn_view (p\<lparr>sp_hotPairs := h\<rparr>) = conn_view p" "conn_view (p\<lparr>sp_revConns := v\<rparr>) = conn_view p"
  "conn_view (p\<lparr>sp_revHeap := rh\<rparr>) = conn_view p" "conn_view (p\<lparr>sp_nextRev := nr\<rparr>) = conn_view p"
  "conn_view (p\<lparr>sp_listeners := l\<rparr>) = conn_view p" "conn_view (p\<lparr>sp_prebindArmed := a\<rparr>) = conn_view p"
  "conn_view (p\<lparr>sp_bytesReceived := b\<rparr>) = conn_view p" "conn_view (p\<lparr>sp_effects := es\<rparr>) = conn_view p"
  "conn_view (p\<lparr>sp_tasks := ts\<rparr>) = conn_view p" "conn_view (p\<lparr>sp_wsHeap := w\<rparr>) = conn_view p"
  "conn_view (p\<lparr>sp_wsConns := ws\<rparr>) = conn_view p" "conn_view (p\<lparr>sp_clientChConns := cc\<rparr>) = conn_view p"
  "conn_view (p\<lparr>sp_nextWS := nw\<rparr>) = conn_view p"
  by (simp_all add: chan_view_def conn_view_def)

subsection \<open>The byte counter is exact\<close>

definition queue_bytes :: "writeTask list \<Rightarrow> int" where
  "queue_bytes q = sum_list (map wt_size q)"

definition queued_bytes :: "serverPool \<Rightarrow> int" where
  "queued_bytes p = (\<Sum>r\<in>{..<sp_nextWS p}. queue_bytes (ws_queue (sp_wsHeap p r)))"

definition task_ok :: "writeTask \<Rightarrow> bool" where
  "task_ok t \<longleftrightarrow> wt_size t = int (length (wt_data t))"

text \<open>The counter equals the bytes held in all write queues, no queue exceeds its capacity and
  cells that are not allocated are empty and closed.\<close>

definition queue_ok :: "serverPool \<Rightarrow> bool" where
  "queue_ok p \<longleftrightarrow> sp_globalQueueBytes p = queued_bytes p \<and>
     (\<forall>r. length (ws_queue (sp_wsHeap p r)) \<le> writeChanCap \<and> list_all task_ok (ws_queue (sp_wsHeap p r))) \<and>
     (\<forall>r. sp_nextWS p \<le> r \<longrightarrow> ws_closed (sp_wsHeap p r) \<and> ws_queue (sp_wsHeap p r) = [])"

lemma queue_bytes_simps [simp]:
  "queue_bytes [] = 0" "queue_bytes (t # q) = wt_size t + queue_bytes q"
  "queue_bytes (q @ q') = queue_bytes q + queue_bytes q'"
  by (simp_all add: queue_bytes_def)

lemma queue_bytes_nonneg: "list_all task_ok q \<Longrightarrow> 0 \<le> queue_bytes q"
  by (induction q) (auto simp: task_ok_def)

lemma queued_bytes_nonneg: "queue_ok p \<Longrightarrow> 0 \<le> queued_bytes p"
  by (auto simp: queue_ok_def queued_bytes_def intro!: sum_nonneg queue_bytes_nonneg)

lemma queued_bytes_upd:
  assumes "r < sp_nextWS p"
  shows "queued_bytes (upd_ws r f p) = queued_bytes p
    - queue_bytes (ws_queue (sp_wsHeap p r)) + queue_bytes (ws_queue (f (sp_wsHeap p r)))"
proof -
  have "queued_bytes (upd_ws r f p) =
      (\<Sum>x\<in>{..<sp_nextWS p}. if x = r then queue_bytes (ws_queue (f (sp_wsHeap p r)))
         else queue_bytes (ws_queue (sp_wsHeap p x)))"
    by (auto simp: queued_bytes_def upd_ws_def intro: sum.cong)
  also have "\<dots> = queue_bytes (ws_queue (f (sp_wsHeap p r))) +
      (\<Sum>x\<in>{..<sp_nextWS p} - {r}. queue_bytes (ws_queue (sp_wsHeap p x)))"
    using assms by (subst sum.remove [of _ r]) (auto intro!: sum.cong)
  also have "(\<Sum>x\<in>{..<sp_nextWS p} - {r}. queue_bytes (ws_queue (sp_wsHeap p x))) =
      queued_bytes p - queue_bytes (ws_queue (sp_wsHeap p r))"
    unfolding queued_bytes_def using assms by (subst sum.remove [of "{..<sp_nextWS p}" r]) auto
  finally show ?thesis by simp
qed

lemma queued_bytes_cong:
  assumes "\<And>r. ws_queue (sp_wsHeap q r) = ws_queue (sp_wsHeap p r)" "sp_nextWS q = sp_nextWS p"
  shows "queued_bytes q = queued_bytes p"
  using assms by (simp add: queued_bytes_def)

text \<open>States with the same queues and counter have the same accounting.\<close>

lemma queue_ok_cong:
  assumes "queue_ok p" "\<And>r. ws_queue (sp_wsHeap q r) = ws_queue (sp_wsHeap p r)"
    "\<And>r. ws_closed (sp_wsHeap p r) \<Longrightarrow> ws_closed (sp_wsHeap q r)"
    "sp_nextWS q = sp_nextWS p" "sp_globalQueueBytes q = sp_globalQueueBytes p"
  shows "queue_ok q"
  using assms queued_bytes_cong [OF assms(2,4)] by (simp add: queue_ok_def)

lemma queue_ok_enqueue:
  assumes "queue_ok p" "\<not> ws_closed (sp_wsHeap p r)" "length (ws_queue (sp_wsHeap p r)) < writeChanCap"
  shows "queue_ok (enqueue r mt d p)"
proof -
  have r: "r < sp_nextWS p" using assms by (meson queue_ok_def not_le)
  let ?p = "p\<lparr>sp_globalQueueBytes := sp_globalQueueBytes p + int (length d)\<rparr>"
  have "queued_bytes ?p = queued_bytes p" by (rule queued_bytes_cong) simp_all
  with r have "queued_bytes (enqueue r mt d p) = queued_bytes p + int (length d)"
    unfolding enqueue_def by (subst queued_bytes_upd) simp_all
  with assms r show ?thesis
    by (auto simp: queue_ok_def enqueue_def upd_ws_def task_ok_def)
qed

lemma ws_queueFull [simp]:
  "ws_queue (snd (queueFull now w)) = ws_queue w" "ws_closed (snd (queueFull now w)) = ws_closed w"
  by (simp_all add: queueFull_def Let_def)

lemma queue_ok_refuse: "queue_ok p \<Longrightarrow> queue_ok (refuse now r p)"
  using queued_bytes_nonneg [of p]
  by (rule_tac p = p in queue_ok_cong) (auto simp: refuse_def upd_ws_def queue_ok_def)

lemma queue_ok_reset: "queue_ok p \<Longrightarrow> queue_ok (notifyChannelReset r p)"
  by (rule_tac p = p in queue_ok_cong) (auto simp: notifyChannelReset_def Let_def upd_ws_def)

interpretation accounting: transport_invariant queue_ok "\<lambda>_ _ _. True"
  by unfold_locales (auto intro: queue_ok_enqueue queue_ok_refuse queue_ok_reset
      elim: queue_ok_cong simp: spawn_def)

lemma queue_ok_dequeue:
  assumes ok: "queue_ok p" and q: "ws_queue (sp_wsHeap p r) = t # q"
  shows "queue_ok (dequeue now r t p)"
proof -
  have r: "r < sp_nextWS p" using assms by (auto simp: queue_ok_def not_less [symmetric])
  have t: "task_ok t" "list_all task_ok q" using assms by (auto simp: queue_ok_def dest!: spec [of _ r])
  let ?p = "upd_ws r (ws_queue_update tl) p"
  have bytes: "queued_bytes ?p = queued_bytes p - wt_size t"
    using queued_bytes_upd [OF r, of "ws_queue_update tl"] q by simp
  have len: "length (tl (ws_queue (sp_wsHeap p r))) \<le> writeChanCap" "list_all task_ok (tl (ws_queue (sp_wsHeap p r)))"
    using ok q t by (auto simp: queue_ok_def dest!: spec [of _ r])
  have ok': "queue_ok (?p\<lparr>sp_globalQueueBytes := queued_bytes ?p\<rparr>)"
    using ok len by (auto simp: queue_ok_def upd_ws_def queued_bytes_def)
  have "0 \<le> queued_bytes ?p" using queued_bytes_nonneg [OF ok'] by (simp add: queued_bytes_def)
  moreover have g: "sp_globalQueueBytes ?p = queued_bytes p" using ok by (simp add: queue_ok_def upd_ws_def)
  ultimately have rem: "queue_ok (removeQueueBytes now (wt_size t) ?p)"
    using ok' bytes by (intro accounting.I_removeQueueBytes) (simp add: max_def)
  have "queue_ok ?p" if "wt_size t = 0"
    using ok' that by (rule_tac queue_ok_cong [OF ok']) (simp_all add: bytes g)
  with rem t show ?thesis by (auto simp: dequeue_def Let_def task_ok_def)
qed

text \<open>Sending to others never touches the queue of a closed channel, and never removes or
  reorders what is queued.\<close>

interpretation closed_queue: transport_invariant
  "\<lambda>p. ws_closed (sp_wsHeap p r) \<and> ws_queue (sp_wsHeap p r) = q" "\<lambda>_ _ _. True" for r q
  by unfold_locales (auto simp: enqueue_def refuse_def notifyChannelReset_def Let_def upd_ws_def spawn_def)

interpretation queue_growth: transport_invariant
  "\<lambda>p. prefix q (ws_queue (sp_wsHeap p r))" "\<lambda>_ _ _. True" for r q
  by unfold_locales (auto simp: enqueue_def refuse_def notifyChannelReset_def Let_def upd_ws_def spawn_def)

lemma drainN_closed:
  assumes "queue_ok p" "ws_closed (sp_wsHeap p r)" "length (ws_queue (sp_wsHeap p r)) \<le> n"
  shows "queue_ok (drainN n now r p) \<and> ws_queue (sp_wsHeap (drainN n now r p) r) = []"
  using assms
proof (induction n arbitrary: p)
  case (Suc n)
  show ?case
  proof (cases "ws_queue (sp_wsHeap p r)")
    case (Cons t q)
    have "ws_closed (sp_wsHeap (dequeue now r t p) r) \<and> ws_queue (sp_wsHeap (dequeue now r t p) r) = q"
      using Suc.prems Cons
      by (auto simp: dequeue_def Let_def upd_ws_def closed_queue.I_removeQueueBytes)
    with Suc Cons queue_ok_dequeue [OF Suc.prems(1) Cons] show ?thesis by simp
  qed (use Suc in simp)
qed simp

lemma drain_closed:
  assumes "queue_ok p" "ws_closed (sp_wsHeap p r)"
  shows "queue_ok (drain now r p) \<and> ws_queue (sp_wsHeap (drain now r p) r) = []"
  unfolding drain_def using assms by (intro drainN_closed) simp_all

lemma queue_ok_sendDownlink: "queue_ok p \<Longrightarrow> queue_ok (snd (sendDownlink now connID mt meta payload p))"
  by (auto simp: sendDownlink_def Let_def split: option.split
      intro: accounting.I_sendToChannel accounting.I_broadcastWriteToClient)

lemmas queue_ok_sends [inv_intros] = queue_ok_sendDownlink accounting.I_asyncWrite
  accounting.I_sendToChannel accounting.I_broadcastWriteToClient accounting.I_broadcastBackpressure
  accounting.I_updateBackpressureState

lemma queue_ok_updates [simp]:
  "queue_ok (upd_conn c f p) = queue_ok p" "queue_ok (upd_rev c g p) = queue_ok p"
  "queue_ok (spawn t p) = queue_ok p" "queue_ok (emit e p) = queue_ok p"
  "queue_ok (p\<lparr>sp_hotPairs := h\<rparr>) = queue_ok p" "queue_ok (p\<lparr>sp_revConns := v\<rparr>) = queue_ok p"
  "queue_ok (p\<lparr>sp_conns := cs\<rparr>) = queue_ok p" "queue_ok (p\<lparr>sp_listeners := l\<rparr>) = queue_ok p"
  "queue_ok (p\<lparr>sp_prebindArmed := a\<rparr>) = queue_ok p" "queue_ok (p\<lparr>sp_bytesReceived := b\<rparr>) = queue_ok p"
  "queue_ok (p\<lparr>sp_revHeap := rh\<rparr>) = queue_ok p" "queue_ok (p\<lparr>sp_nextRev := nr\<rparr>) = queue_ok p"
  "queue_ok (p\<lparr>sp_connHeap := ch\<rparr>) = queue_ok p" "queue_ok (p\<lparr>sp_nextConn := nc\<rparr>) = queue_ok p"
  "queue_ok (p\<lparr>sp_clientChConns := cc\<rparr>) = queue_ok p" "queue_ok (p\<lparr>sp_wsConns := ws\<rparr>) = queue_ok p"
  "queue_ok (p\<lparr>sp_effects := es\<rparr>) = queue_ok p" "queue_ok (p\<lparr>sp_tasks := ts\<rparr>) = queue_ok p"
  by (simp_all add: queue_ok_def queued_bytes_def upd_conn_def upd_rev_def spawn_def emit_def)

section \<open>Thresholds\<close>

lemma threshold_exact:
  assumes "0 \<le> limit" "0 \<le> a" "0 < b" "limit * a < 2 ^ 63"
  shows "threshold limit a b = limit * a div b"
proof -
  have "wrap64 (limit * a) = limit * a"
  proof (rule wrap64_id)
    show "- (2 ^ 63) \<le> limit * a" using mult_nonneg_nonneg [OF assms(1,2)] by (rule order_trans [rotated]) simp
  qed (fact assms(4))
  then show ?thesis using assms by (simp add: threshold_def go_div_nonneg)
qed

lemma int_div_less_iff: "0 < b \<Longrightarrow> y div b < x \<longleftrightarrow> y < x * b" for x y b :: int
proof
  assume "0 < b" "y div b < x"
  then have "(y div b + 1) * b \<le> x * b" by (intro mult_right_mono) auto
  moreover have "y < (y div b + 1) * b"
    using div_mult_mod_eq [of y b] pos_mod_bound [OF \<open>0 < b\<close>, of y] unfolding distrib_right by linarith
  ultimately show "y < x * b" by linarith
next
  assume "0 < b" "y < x * b"
  then show "y div b < x"
    using div_mult_mod_eq [of y b] pos_mod_sign [OF \<open>0 < b\<close>, of y]
    by (metis add_increasing2 linorder_not_less mult_right_mono order.strict_implies_order order_less_le_trans)
qed

lemma above_threshold:
  assumes "0 \<le> limit" "0 \<le> a" "0 < b" "limit * a < 2 ^ 63"
  shows "threshold limit a b < x \<longleftrightarrow> limit * a < b * x"
proof -
  have "limit * a div b < x \<longleftrightarrow> limit * a < x * b"
    using int_div_less_iff [OF assms(3)] .
  then show ?thesis using threshold_exact [OF assms] by (simp add: mult.commute)
qed

text \<open>A limit is in range when no threshold product wraps.\<close>

definition limit_ok :: "int \<Rightarrow> bool" where
  "limit_ok limit \<longleftrightarrow> 0 < limit \<and> limit * 95 < 2 ^ 63"

lemma threshold_95: "limit_ok l \<Longrightarrow> threshold l 95 100 < x \<longleftrightarrow> 95 * l < 100 * x"
  and threshold_80: "limit_ok l \<Longrightarrow> threshold l 8 10 < x \<longleftrightarrow> 8 * l < 10 * x"
  and threshold_90: "limit_ok l \<Longrightarrow> x < threshold l 9 10 \<longleftrightarrow> 10 * (x + 1) \<le> 9 * l"
  and threshold_70: "limit_ok l \<Longrightarrow> x < threshold l 7 10 \<longleftrightarrow> 10 * (x + 1) \<le> 7 * l"
  and threshold_30: "limit_ok l \<Longrightarrow> x < threshold l 3 10 \<longleftrightarrow> 10 * (x + 1) \<le> 3 * l"
  by (subst above_threshold threshold_exact; (simp add: limit_ok_def mult.commute); linarith)+

lemma bp_level_0: "bp_level p = 0 \<longleftrightarrow> sp_backpressureState p = BackpressurePause"
  by (simp add: bp_level_def)

lemma level_broadcastBackpressure: "bp_level (broadcastBackpressure now st p) \<le> bp_level p"
proof -
  have "broadcastBackpressure now st p = broadcastBackpressure_with (updateBackpressureState now) now st p"
    by (simp add: broadcastBackpressure_with_def broadcastBackpressure_def
        broadcastWrite_def broadcastWriteToClient_def Let_def)
  then show ?thesis
    using broadcastBackpressure_with_level [of "bp_level p" "updateBackpressureState now" p now st]
    by (simp add: updateBackpressureState_def level_safe_updateBackpressureN)
qed

text \<open>Announcements that leave the queues below the slow-down mark do not change the level.\<close>

lemma updateBackpressureState_quiet:
  assumes "limit_ok (sp_globalQueueLimit p)" "10 * x \<le> 8 * sp_globalQueueLimit p"
  shows "updateBackpressureState now x p = p"
proof -
  have "\<not> 95 * sp_globalQueueLimit p < 100 * x" using assms by (simp add: limit_ok_def)
  with assms show ?thesis
    by (simp add: updateBackpressureState_rec updateBackpressure_body_def Let_def threshold_95 threshold_80
        limit_ok_def)
qed

lemma asyncWrite_quiet:
  assumes "limit_ok (sp_globalQueueLimit p)" "0 \<le> sp_globalQueueBytes p"
    "10 * (sp_globalQueueBytes p + int (length d)) \<le> 8 * sp_globalQueueLimit p"
  shows "let q = snd (asyncWrite now mt d r p) in
    sp_backpressureState q = sp_backpressureState p \<and> 0 \<le> sp_globalQueueBytes q \<and>
    sp_globalQueueBytes q \<le> sp_globalQueueBytes p + int (length d) \<and>
    (\<forall>x. x \<noteq> r \<longrightarrow> sp_wsHeap q x = sp_wsHeap p x) \<and>
    (ws_live p (Some r) \<and> ws_writeChan (sp_wsHeap p r) \<and> length (ws_queue (sp_wsHeap p r)) < writeChanCap \<longrightarrow>
      d \<in> wt_data ` set (ws_queue (sp_wsHeap q r)))"
proof -
  have "updateBackpressureState now (sp_globalQueueBytes p + int (length d)) (enqueue r mt d p) = enqueue r mt d p"
    using assms by (intro updateBackpressureState_quiet) (simp_all add: enqueue_def upd_ws_def)
  then show ?thesis
    using assms by (auto simp: asyncWrite_def asyncWrite_with_eq Let_def enqueue_def refuse_def
        notifyChannelReset_def upd_ws_def)
qed

lemma broadcast_quiet:
  assumes "limit_ok (sp_globalQueueLimit p)" "0 \<le> sp_globalQueueBytes p"
    "10 * (sp_globalQueueBytes p + int (length rs * length d)) \<le> 8 * sp_globalQueueLimit p"
  shows "let q = foldl (\<lambda>p r. snd (asyncWrite now mt d r p)) p rs in
    sp_backpressureState q = sp_backpressureState p \<and>
    (\<forall>r\<in>set rs. ws_live p (Some r) \<and> ws_writeChan (sp_wsHeap p r) \<and>
       length (ws_queue (sp_wsHeap p r)) < writeChanCap \<longrightarrow> d \<in> wt_data ` set (ws_queue (sp_wsHeap q r)))"
  using assms
proof (induction rs arbitrary: p)
  case (Cons a rs)
  let ?p = "snd (asyncWrite now mt d a p)"
  let ?q = "foldl (\<lambda>p r. snd (asyncWrite now mt d r p)) ?p rs"
  have one: "10 * (sp_globalQueueBytes p + int (length d)) \<le> 8 * sp_globalQueueLimit p"
  proof -
    have "length d \<le> length (a # rs) * length d" by simp
    then have "10 * (sp_globalQueueBytes p + int (length d)) \<le>
        10 * (sp_globalQueueBytes p + int (length (a # rs) * length d))"
      by (intro mult_left_mono add_left_mono of_nat_mono) simp_all
    then show ?thesis using Cons.prems(3) by (rule order_trans)
  qed
  note a = asyncWrite_quiet [OF Cons.prems(1,2) one, of now mt a, unfolded Let_def]
  have lim: "sp_globalQueueLimit ?p = sp_globalQueueLimit p"
    using core_fields(17) [OF core_sends(2)] .
  have "10 * (sp_globalQueueBytes ?p + int (length rs * length d)) \<le> 8 * sp_globalQueueLimit p"
    using Cons.prems(3) a by (simp add: distrib_left)
  with Cons.IH [of ?p] Cons.prems a lim
  have IH: "sp_backpressureState ?q = sp_backpressureState ?p"
    "\<And>r. r \<in> set rs \<Longrightarrow> ws_live ?p (Some r) \<Longrightarrow> ws_writeChan (sp_wsHeap ?p r) \<Longrightarrow>
       length (ws_queue (sp_wsHeap ?p r)) < writeChanCap \<Longrightarrow> d \<in> wt_data ` set (ws_queue (sp_wsHeap ?q r))"
    by (auto simp: Let_def)
  have grow: "prefix (ws_queue (sp_wsHeap ?p r)) (ws_queue (sp_wsHeap ?q r))" for r
    unfolding asyncWrite_def
    by (intro queue_growth.I_broadcast_fold queue_growth.I_updateBackpressureState) auto
  have keep: "d \<in> wt_data ` set (ws_queue (sp_wsHeap ?q a))" if "d \<in> wt_data ` set (ws_queue (sp_wsHeap ?p a))"
    using that grow [of a] by (auto dest: set_mono_prefix)
  show ?case
    unfolding Let_def foldl_Cons
  proof (intro conjI ballI impI)
    show "sp_backpressureState ?q = sp_backpressureState p" using IH(1) a by simp
    fix r assume r: "r \<in> set (a # rs)" and w: "ws_live p (Some r) \<and> ws_writeChan (sp_wsHeap p r) \<and>
      length (ws_queue (sp_wsHeap p r)) < writeChanCap"
    show "d \<in> wt_data ` set (ws_queue (sp_wsHeap ?q r))"
    proof (cases "r = a")
      case True
      with a w keep show ?thesis by simp
    next
      case False
      with a have "sp_wsHeap ?p r = sp_wsHeap p r" by simp
      with False r w show ?thesis by (intro IH(2)) simp_all
    qed
  qed
qed simp

lemma length_backpressure_frame [simp]: "length (backpressure_frame st) = 9"
  by (simp add: backpressure_frame_def EncodeMessage_def)

lemma activeConns_all: "activeConns p '''' = live_refs p"
  by (simp add: activeConns_def live_refs_def)

text \<open>A queue that drains back to its recovery mark.\<close>

lemma removeQueueBytes_recover:
  assumes "limit_ok (sp_globalQueueLimit p)" "0 \<le> n" "sp_globalQueueBytes p - sz = n"
    "sp_backpressureState p = BackpressurePause \<and> 10 * (n + 1) \<le> 3 * sp_globalQueueLimit p \<or>
     sp_backpressureState p = BackpressureSlowDown \<and> 10 * (n + 1) \<le> 7 * sp_globalQueueLimit p"
  shows "removeQueueBytes now sz p = broadcastBackpressure now BackpressureNormal
    (p\<lparr>sp_globalQueueBytes := n, sp_backpressureState := BackpressureNormal\<rparr>)"
  using assms by (auto simp: removeQueueBytes_def Let_def threshold_30 threshold_90 threshold_70 limit_ok_def)

section \<open>Properties\<close>

text \<open>Property C18: announcing a back-pressure level always terminates. The definitions with three rounds
  of recursion satisfy the recursive equation of the code, in which the announcement is itself
  queued through \<^verbatim>\<open>asyncWrite\<close> and re-examines the level, and more rounds change nothing.\<close>

theorem backpressure_recursion_terminates:
  "updateBackpressureState now x p = updateBackpressure_body (broadcastBackpressure now) now x p \<and>
   (\<forall>n. updateBackpressureN (n + 3) now x p = updateBackpressureState now x p)"
proof (intro conjI allI)
  show "updateBackpressureState now x p = updateBackpressure_body (broadcastBackpressure now) now x p"
    by (rule updateBackpressureState_rec)
  show "updateBackpressureN (n + 3) now x p = updateBackpressureState now x p" for n
    unfolding updateBackpressureState_def by (rule updateBackpressureN_fuel) (simp_all add: bp_level_def)
qed

text \<open>Property C19: the level follows the watermarks. For a limit whose products fit in 64 bits, more than
  95 percent queued leaves the pool in the pause state; between 80 and 95 percent a pool in the
  normal state that is not cooling down leaves the normal state and arms the cooldown; anything
  else leaves the whole pool unchanged.\<close>

theorem backpressure_follows_watermarks:
  assumes "limit_ok (sp_globalQueueLimit p)"
  shows "if 95 * sp_globalQueueLimit p < 100 * x then
      sp_backpressureState (updateBackpressureState now x p) = BackpressurePause
    else if 8 * sp_globalQueueLimit p < 10 * x \<and> sp_backpressureState p = BackpressureNormal \<and>
        \<not> sp_backpressureCooldown p then
      sp_backpressureState (updateBackpressureState now x p) \<noteq> BackpressureNormal \<and>
      CooldownReset (now + time_Second) \<in> set (sp_tasks (updateBackpressureState now x p))
    else updateBackpressureState now x p = p"
proof -
  let ?pause = "p\<lparr>sp_backpressureState := BackpressurePause\<rparr>"
  let ?slow = "p\<lparr>sp_backpressureCooldown := True, sp_backpressureState := BackpressureSlowDown\<rparr>"
  have "sp_backpressureState (broadcastBackpressure now BackpressurePause ?pause) = BackpressurePause"
    using level_broadcastBackpressure [of now BackpressurePause ?pause]
    by (simp add: bp_level_0 [symmetric] bp_level_raised)
  moreover have "sp_backpressureState (broadcastBackpressure now BackpressureSlowDown ?slow) \<noteq> BackpressureNormal"
    using level_broadcastBackpressure [of now BackpressureSlowDown ?slow]
    by (simp add: bp_level_raised) (simp add: bp_level_def split: if_splits)
  ultimately show ?thesis
    using assms by (auto simp: updateBackpressureState_rec updateBackpressure_body_def Let_def
        threshold_95 threshold_80 limit_ok_def spawn_def)
qed

theorem backpressure_follows_watermarks_witness:
  "sp_backpressureState (updateBackpressureState 7 96
     (newServerPool ''t'' (DefaultServerConfig\<lparr>sc_BackpressureLimitBytes := 100\<rparr>))) = BackpressurePause"
  using backpressure_follows_watermarks
    [of "newServerPool ''t'' (DefaultServerConfig\<lparr>sc_BackpressureLimitBytes := 100\<rparr>)" 96 7]
  by (simp add: newServerPool_def DefaultServerConfig_def limit_ok_def)

text \<open>Fact: the pool recovers. When a dequeue leaves less than 30 percent (from pause) or 70 percent
  (from slow-down) of the limit, and the announcements themselves fit below 80 percent, the pool
  is back in the normal state and every live channel with room in its queue has been told.\<close>

theorem backpressure_recovers:
  assumes "limit_ok (sp_globalQueueLimit p)" "0 \<le> n" "sp_globalQueueBytes p - sz = n"
    and "sp_backpressureState p = BackpressurePause \<and> 10 * (n + 1) \<le> 3 * sp_globalQueueLimit p \<or>
      sp_backpressureState p = BackpressureSlowDown \<and> 10 * (n + 1) \<le> 7 * sp_globalQueueLimit p"
    and "10 * (n + 9 * int (length (live_refs p))) \<le> 8 * sp_globalQueueLimit p"
  shows "sp_backpressureState (removeQueueBytes now sz p) = BackpressureNormal \<and>
    (\<forall>r\<in>set (live_refs p). ws_writeChan (sp_wsHeap p r) \<and> length (ws_queue (sp_wsHeap p r)) < writeChanCap \<longrightarrow>
      backpressure_frame BackpressureNormal \<in> wt_data ` set (ws_queue (sp_wsHeap (removeQueueBytes now sz p) r)))"
proof -
  let ?q = "p\<lparr>sp_globalQueueBytes := n, sp_backpressureState := BackpressureNormal\<rparr>"
  have live: "live_refs ?q = live_refs p" by (simp add: live_refs_def)
  have "removeQueueBytes now sz p = (if live_refs p = [] then ?q
      else foldl (\<lambda>p r. snd (asyncWrite now BinaryMessage (backpressure_frame BackpressureNormal) r p)) ?q (live_refs p))"
    by (simp add: removeQueueBytes_recover [OF assms(1-4)] broadcastBackpressure_def broadcastWrite_def
        broadcastWriteToClient_def broadcastWriteToClient_with_def activeConns_all live Let_def
        backpressure_frame_def asyncWrite_def)
  moreover have "\<forall>r\<in>set (live_refs p). ws_live ?q (Some r)" by (simp add: live_refs_def)
  ultimately show ?thesis
    using broadcast_quiet [of ?q "live_refs p" "backpressure_frame BackpressureNormal" now BinaryMessage] assms
    by (auto simp: Let_def)
qed

theorem backpressure_recovers_witness:
  "sp_backpressureState (removeQueueBytes 7 50
     ((newServerPool ''t'' (DefaultServerConfig\<lparr>sc_BackpressureLimitBytes := 100\<rparr>))
        \<lparr>sp_globalQueueBytes := 60, sp_backpressureState := BackpressurePause\<rparr>)) = BackpressureNormal"
  using backpressure_recovers
    [of "(newServerPool ''t'' (DefaultServerConfig\<lparr>sc_BackpressureLimitBytes := 100\<rparr>))
        \<lparr>sp_globalQueueBytes := 60, sp_backpressureState := BackpressurePause\<rparr>" 10 50 7]
  by (simp add: newServerPool_def DefaultServerConfig_def limit_ok_def live_refs_def)

text \<open>Fact: the global byte counter is exact: it equals the bytes held in all write queues, each
  of at most 4096 frames, and enqueueing, broadcasting, sending to a connection's downlink,
  dequeueing and the final drain of a closed channel all keep it so; the drain leaves no byte
  behind.\<close>

theorem queue_accounting_exact:
  assumes "queue_ok p"
  shows "queue_ok (snd (asyncWrite now mt d r p)) \<and>
    queue_ok (snd (broadcastWriteToClient now c mt d p)) \<and>
    queue_ok (snd (sendDownlink now connID t meta d p)) \<and>
    (ws_queue (sp_wsHeap p r) = tk # q \<longrightarrow> queue_ok (dequeue now r tk p)) \<and>
    (ws_closed (sp_wsHeap p r) \<longrightarrow> queue_ok (drain now r p) \<and> ws_queue (sp_wsHeap (drain now r p) r) = [])"
  using assms by (simp_all add: queue_ok_sends queue_ok_dequeue drain_closed)

theorem queue_accounting_exact_witness:
  "queue_ok (newServerPool ''t'' DefaultServerConfig) \<and>
   queue_ok (drain 0 0 (newServerPool ''t'' DefaultServerConfig))"
proof -
  have "queue_ok (newServerPool ''t'' DefaultServerConfig)"
    by (simp add: queue_ok_def queued_bytes_def newServerPool_def DefaultServerConfig_def blank_ws_def)
  moreover have "ws_closed (sp_wsHeap (newServerPool ''t'' DefaultServerConfig) 0)"
    by (simp add: newServerPool_def Let_def blank_ws_def)
  ultimately show ?thesis
    using queue_accounting_exact [where p = "newServerPool ''t'' DefaultServerConfig" and r = 0 and now = 0]
    by simp
qed

end
