(* ===== verification/Server_Reverse.thy ===== *)
theory Server_Reverse
  imports Server_Queue
begin

text \<open>
  The server's reverse mode: it listens on behalf of a client and dials back through the
  client. \<^verbatim>\<open>src/reverse_server.go\<close>: the reverse connections, their dial, their message handler
  and their upstream pump. \<^verbatim>\<open>src/reverse_listener.go\<close>: the listeners a client asks for and the
  listener specification syntax.

  \<^verbatim>\<open>DialStream\<close> waits for the result between its two halves, so it is modelled as
  \<open>DialStream_begin\<close> and \<open>DialStream_finish\<close>; the pipe write, the listener start and the fresh
  UUID come from outside and are arguments.
\<close>

section \<open>Reverse connections\<close>

definition settle :: "bool \<Rightarrow> string \<Rightarrow> ServerReverseConn \<Rightarrow> ServerReverseConn" where
  "settle ok msg rc =
     (if rc_settled rc then rc else rc\<lparr>rc_settled := True, rc_ok := ok, rc_errMsg := msg\<rparr>)"

definition isSettled :: "ServerReverseConn \<Rightarrow> bool" where
  "isSettled rc = rc_settled rc"

definition removeReverseConn :: "string \<Rightarrow> serverPool \<Rightarrow> serverPool" where
  "removeReverseConn connID p =
     (case dict_get (sp_revConns p) connID of
        None \<Rightarrow> p
      | Some r \<Rightarrow>
          let p = p\<lparr>sp_revConns := dict_del (sp_revConns p) connID\<rparr>;
              p = upd_rev r (settle False ''connection closed'') p
          in upd_rev r (rc_open_update (\<lambda>_. False)) p)"

definition reverseNotifyClose :: "instant \<Rightarrow> ref \<Rightarrow> serverPool \<Rightarrow> serverPool" where
  "reverseNotifyClose now r p =
     (let rc = sp_revHeap p r;
          msg = EncodeMessage MsgTCPClose (rc_connID rc) [] [];
          sendCh = rc_sendCh rc
      in if sendCh > 0
         then snd (sendToChannel now (rc_ownerClientID rc) sendCh BinaryMessage msg p)
         else snd (broadcastWriteToClient now (rc_ownerClientID rc) BinaryMessage msg p))"

text \<open>\<^verbatim>\<open>int32(binary.BigEndian.Uint32(meta[:4]))\<close>\<close>

definition meta_int32 :: "bytes \<Rightarrow> int" where
  "meta_int32 meta = sint (Uint32 (take 4 meta))"

definition select_downlink_frame :: "string \<Rightarrow> chid \<Rightarrow> bytes" where
  "select_downlink_frame connID chID = EncodeMessage MsgSelectDownlink connID (PutUint32 (word_of_int chID)) []"

definition handleReverseMessage ::
  "bool \<Rightarrow> instant \<Rightarrow> string \<Rightarrow> chid \<Rightarrow> MessageType \<Rightarrow> string \<Rightarrow> bytes \<Rightarrow> bytes \<Rightarrow> serverPool \<Rightarrow> serverPool" where
  "handleReverseMessage write_ok now clientID chID msgType connID meta payload p =
     (case getReverseConn p connID of
        None \<Rightarrow> p
      | Some r \<Rightarrow>
          let rc = sp_revHeap p r
          in if msgType = MsgSelectUplink then
               (if length meta < 4 then p
                else let clientRecv = meta_int32 meta
                     in if rc_sendCh rc = 0 then
                          let p = upd_rev r (\<lambda>rc. rc\<lparr>rc_sendCh := clientRecv, rc_recvCh := wrap32 chID\<rparr>) p
                          in snd (sendToChannel now clientID clientRecv BinaryMessage
                               (select_downlink_frame connID chID) p)
                        else if rc_pairPreset rc \<and> \<not> rc_repaired rc then
                          let p = upd_rev r (\<lambda>rc. rc\<lparr>rc_repaired := True, rc_sendCh := clientRecv,
                                     rc_recvCh := wrap32 chID\<rparr>) p
                          in snd (sendToChannel now clientID clientRecv BinaryMessage
                               (select_downlink_frame connID chID) p)
                        else p)
             else if msgType = MsgConnStatus then
               (case meta of
                  [] \<Rightarrow> p
                | st # rest \<Rightarrow>
                    if st = StatusOK then upd_rev r (settle True '''') p
                    else upd_rev r (settle False (string_of_bytes rest)) p)
             else if msgType = MsgTCPData then
               (if rc_recvCh rc \<noteq> chID then p
                else if write_ok then upd_rev r (rc_rx_update (\<lambda>rx. rx @ [payload])) p
                else removeReverseConn connID (reverseNotifyClose now r p))
             else if msgType = MsgTCPClose then
               removeReverseConn connID (reverseNotifyClose now r p)
             else p)"

section \<open>Dialling through a client\<close>

text \<open>The UTF-8 bytes of the time-out message of the dial.\<close>

definition dialTimeoutMsg :: string where
  "dialTimeoutMsg = string_of_bytes [0xE6, 0x8B, 0xA8, 0xE5, 0x8F, 0xB7, 0xE8, 0xB6, 0x85, 0xE6, 0x97, 0xB6]"

datatype dial_error = ErrNoClientChannel | ErrDialTimeout string | ErrDialContext string | ErrDialFailed string

text \<open>The hot entry of the dial: the newest live pair of the client, if both its channels are
  alive.\<close>

definition hotDialEntry :: "instant \<Rightarrow> string \<Rightarrow> serverPool \<Rightarrow> HotPairEntry option \<times> serverPool" where
  "hotDialEntry now clientID p =
     (let (e, t) = Newest (sp_hotPairs p) clientID now;
          p = p\<lparr>sp_hotPairs := t\<rparr>
      in (case e of
            None \<Rightarrow> (None, p)
          | Some x \<Rightarrow>
              if channelAliveForClient p clientID (he_ChA x) \<and> channelAliveForClient p clientID (he_ChB x)
              then (Some x, p) else (None, p)))"

text \<open>The send of the dial request: unicast on the pair's server channel, or broadcast when there
  is no pair or the unicast fails. The boolean says whether the request went out.\<close>

definition dialSend ::
  "instant \<Rightarrow> string \<Rightarrow> bytes \<Rightarrow> ref \<Rightarrow> HotPairEntry option \<Rightarrow> serverPool \<Rightarrow> bool \<times> serverPool" where
  "dialSend now clientID msg r entry p =
     (let (sent, p) =
        (case entry of
           None \<Rightarrow> (False, p)
         | Some e \<Rightarrow>
             let p = upd_rev r (\<lambda>rc. rc\<lparr>rc_sendCh := wrap32 (he_ChB e), rc_recvCh := wrap32 (he_ChA e),
                        rc_pairPreset := True\<rparr>) p;
                 (err, p) = sendToChannel now clientID (he_ChB e) BinaryMessage msg p
             in (case err of
                   None \<Rightarrow> (True, p)
                 | Some _ \<Rightarrow> (False, p\<lparr>sp_hotPairs := InvalidateChannel (sp_hotPairs p) (he_ChB e)\<rparr>)))
      in if sent then (True, p)
         else let (err, p) = broadcastWriteToClient now clientID BinaryMessage msg p
              in (err = None, p))"

definition DialStream_begin ::
  "instant \<Rightarrow> string \<Rightarrow> string \<Rightarrow> string \<Rightarrow> serverPool \<Rightarrow> (dial_error + ref) \<times> serverPool" where
  "DialStream_begin now uuid clientID target p =
     (if countActiveChannelsForClient p clientID = 0 then (Inl ErrNoClientChannel, p)
      else
        let (entry, p) = hotDialEntry now clientID p;
            connID = (case entry of None \<Rightarrow> uuid | Some e \<Rightarrow> HotPairConnID (he_Key e) uuid);
            r = sp_nextRev p;
            p = p\<lparr>sp_nextRev := r + 1,
                  sp_revHeap := (sp_revHeap p)(r := newServerReverseConn connID clientID target),
                  sp_revConns := dict_set (sp_revConns p) connID r\<rparr>;
            meta = IPStrategyDefault # bytes_of_string target;
            msg = EncodeMessage MsgTCPConnect connID meta [];
            (sent, p) = dialSend now clientID msg r entry p
        in if sent then (Inr r, spawn (ReverseUpstream r) p)
           else (Inl ErrNoClientChannel, removeReverseConn connID p))"

text \<open>The \<^verbatim>\<open>select\<close> of the dial: the result is ready only once the connection is settled.\<close>

datatype dial_event = DialResult | DialTimer | DialCancelled string

definition DialStream_finish ::
  "instant \<Rightarrow> dial_event \<Rightarrow> ref \<Rightarrow> serverPool \<Rightarrow> (dial_error option \<times> serverPool)" where
  "DialStream_finish now ev r p =
     (let connID = rc_connID (sp_revHeap p r)
      in case ev of
           DialTimer \<Rightarrow>
             let p = upd_rev r (settle False dialTimeoutMsg) p
             in (Some (ErrDialTimeout (rc_target (sp_revHeap p r))),
                 removeReverseConn connID (reverseNotifyClose now r p))
         | DialCancelled err \<Rightarrow>
             let p = upd_rev r (settle False err) p
             in (Some (ErrDialContext err), removeReverseConn connID (reverseNotifyClose now r p))
         | DialResult \<Rightarrow>
             if \<not> rc_ok (sp_revHeap p r)
             then (Some (ErrDialFailed (rc_errMsg (sp_revHeap p r))), removeReverseConn connID p)
             else (None, p))"

text \<open>One round of \<^verbatim>\<open>reverseUpstreamPump\<close>: \<^term>\<open>None\<close> is a failed read, which ends the pump.\<close>

definition reverseUpstreamPump :: "instant \<Rightarrow> ref \<Rightarrow> bytes option \<Rightarrow> serverPool \<Rightarrow> serverPool" where
  "reverseUpstreamPump now r read p =
     (let rc = sp_revHeap p r; connID = rc_connID rc
      in case read of
           None \<Rightarrow> removeReverseConn connID (reverseNotifyClose now r p)
         | Some data \<Rightarrow>
             if data = [] then p
             else let msg = EncodeMessage MsgTCPData connID [] data
                  in if rc_sendCh rc > 0 then
                       let (err, p) = sendToChannel now (rc_ownerClientID rc) (rc_sendCh rc) BinaryMessage msg p
                       in (case err of None \<Rightarrow> p
                           | Some _ \<Rightarrow> snd (broadcastWriteToClient now (rc_ownerClientID rc) BinaryMessage msg p))
                     else snd (broadcastWriteToClient now (rc_ownerClientID rc) BinaryMessage msg p))"

section \<open>Listener specifications\<close>

text \<open>\<^verbatim>\<open>strings.SplitN(s, sep, 2)\<close> for a one-character separator that occurs in \<open>s\<close>.\<close>

definition splitAt :: "char \<Rightarrow> string \<Rightarrow> string \<times> string" where
  "splitAt c s = (let a = takeWhile (\<lambda>x. x \<noteq> c) s in (a, drop (length a + 1) s))"

definition parseHostAuth :: "string \<Rightarrow> string \<times> string \<times> string" where
  "parseHostAuth rest =
     (if CHR ''@'' \<in> set rest then
        let (auth, host) = splitAt CHR ''@'' rest
        in if CHR '':'' \<in> set auth then
             let (user, pass) = splitAt CHR '':'' auth in (host, user, pass)
           else (host, auth, '''')
      else (rest, '''', ''''))"

text \<open>Host, user, password and scheme; \<^term>\<open>None\<close> is the error \<^verbatim>\<open>unsupported spec\<close>.\<close>

definition parseListenerSpec :: "string \<Rightarrow> (string \<times> string \<times> string \<times> string) option" where
  "parseListenerSpec spec =
     (if prefix ''socks5://'' spec then
        (case parseHostAuth (drop (length ''socks5://'') spec) of
           (host, user, pass) \<Rightarrow> Some (host, user, pass, ''socks5''))
      else if prefix ''http://'' spec then
        (case parseHostAuth (drop (length ''http://'') spec) of
           (host, user, pass) \<Rightarrow> Some (host, user, pass, ''http''))
      else None)"

section \<open>Listeners\<close>

definition reply :: "instant \<Rightarrow> string \<Rightarrow> chid \<Rightarrow> string \<Rightarrow> ConnStatus \<Rightarrow> string \<Rightarrow> serverPool \<Rightarrow> serverPool" where
  "reply now clientID chID listenerID status reason p =
     (let meta = status # (if reason \<noteq> '''' then bytes_of_string reason else []);
          data = EncodeMessage MsgReverseListenResult listenerID meta []
      in snd (sendToChannel now clientID chID BinaryMessage data p))"

text \<open>
  \<open>start scheme host user pass\<close> is the outcome of creating and starting the SOCKS5 or HTTP
  proxy of \<^verbatim>\<open>xshared\<close>: an error text or the handle of the running server. The pool pointer of
  the manager is set when the pool is created and never nil afterwards.
\<close>

definition HandleReverseListen ::
  "(string \<Rightarrow> string \<Rightarrow> string \<Rightarrow> string \<Rightarrow> string + nat) \<Rightarrow> instant \<Rightarrow> string \<Rightarrow> chid \<Rightarrow> string \<Rightarrow> bytes
     \<Rightarrow> serverPool \<Rightarrow> serverPool" where
  "HandleReverseListen start now clientID chID listenerID spec p =
     (let specStr = string_of_bytes spec;
          p = (case dict_get (sp_listeners p) clientID of
                 None \<Rightarrow> p\<lparr>sp_listeners := dict_set (sp_listeners p) clientID []\<rparr> | Some _ \<Rightarrow> p);
          clientMap = (case dict_get (sp_listeners p) clientID of None \<Rightarrow> [] | Some m \<Rightarrow> m)
      in if dict_get clientMap specStr \<noteq> None then reply now clientID chID listenerID StatusOK '''' p
         else if int (length clientMap) \<ge> sp_maxPerClient p
           then reply now clientID chID listenerID StatusERR ''listener limit reached'' p
         else (case parseListenerSpec specStr of
             None \<Rightarrow> reply now clientID chID listenerID StatusERR ''unsupported spec'' p
           | Some (host, user, pass, scheme) \<Rightarrow>
               (case start scheme host user pass of
                  Inl err \<Rightarrow> reply now clientID chID listenerID StatusERR err p
                | Inr srv \<Rightarrow>
                    let rl = \<lparr>rl_spec = specStr, rl_listenerID = listenerID, rl_server = srv\<rparr>;
                        p = p\<lparr>sp_listeners := dict_set (sp_listeners p) clientID (dict_set clientMap specStr rl)\<rparr>
                    in reply now clientID chID listenerID StatusOK '''' p)))"

definition ShutdownClient :: "string \<Rightarrow> serverPool \<Rightarrow> serverPool" where
  "ShutdownClient clientID p =
     (case dict_get (sp_listeners p) clientID of
        None \<Rightarrow> p
      | Some m \<Rightarrow>
          p\<lparr>sp_effects := sp_effects p @ map (\<lambda>(_, rl). ListenerClose (rl_server rl)) m,
            sp_listeners := dict_del (sp_listeners p) clientID\<rparr>)"

definition Listeners_Shutdown :: "serverPool \<Rightarrow> serverPool" where
  "Listeners_Shutdown p =
     p\<lparr>sp_effects := sp_effects p @
         concat (map (\<lambda>(_, m). map (\<lambda>(_, rl). ListenerClose (rl_server rl)) m) (sp_listeners p)),
       sp_listeners := []\<rparr>"

section \<open>What the reverse mode leaves alone\<close>

text \<open>The reverse operations never touch the channel table, the forward connections or the
  byte accounting of the queues.\<close>

lemma removeReverseConn_frame [simp]:
  "chan_view (removeReverseConn connID p) = chan_view p"
  "conn_view (removeReverseConn connID p) = conn_view p"
  "queue_ok (removeReverseConn connID p) = queue_ok p"
  by (simp_all add: removeReverseConn_def Let_def split: option.split)

lemma core_reverseNotifyClose [simp]: "core (reverseNotifyClose now r p) = core p"
  by (simp add: reverseNotifyClose_def Let_def)

lemmas view_reverseNotifyClose [simp] = core_views [OF core_reverseNotifyClose]

lemma queue_ok_reverseNotifyClose [inv_intros]: "queue_ok p \<Longrightarrow> queue_ok (reverseNotifyClose now r p)"
  by (simp add: reverseNotifyClose_def Let_def queue_ok_sends)

lemma handleReverseMessage_frame [simp]:
  "chan_view (handleReverseMessage ok now c ch mt connID meta payload p) = chan_view p"
  "conn_view (handleReverseMessage ok now c ch mt connID meta payload p) = conn_view p"
  by (simp_all add: handleReverseMessage_def Let_def split: option.split list.split)

lemma queue_ok_handleReverseMessage [inv_intros]:
  "queue_ok p \<Longrightarrow> queue_ok (handleReverseMessage ok now c ch mt connID meta payload p)"
  by (simp add: handleReverseMessage_def Let_def queue_ok_sends queue_ok_reverseNotifyClose
      split: option.split list.split)

lemma hotDialEntry_frame [simp]:
  "chan_view (snd (hotDialEntry now c p)) = chan_view p"
  "conn_view (snd (hotDialEntry now c p)) = conn_view p"
  "queue_ok (snd (hotDialEntry now c p)) = queue_ok p"
  by (simp_all add: hotDialEntry_def Let_def split_def split: option.split)

lemma dialSend_frame [simp]:
  "chan_view (snd (dialSend now c msg r entry p)) = chan_view p"
  "conn_view (snd (dialSend now c msg r entry p)) = conn_view p"
  by (simp_all add: dialSend_def Let_def split_def split: option.split)

lemma queue_ok_dialSend [inv_intros]: "queue_ok p \<Longrightarrow> queue_ok (snd (dialSend now c msg r entry p))"
  by (simp add: dialSend_def Let_def split_def queue_ok_sends split: option.split)

lemma DialStream_begin_frame [simp]:
  "chan_view (snd (DialStream_begin now uuid c target p)) = chan_view p"
  "conn_view (snd (DialStream_begin now uuid c target p)) = conn_view p"
  by (simp_all add: DialStream_begin_def Let_def split_def)

lemma queue_ok_DialStream_begin [inv_intros]:
  "queue_ok p \<Longrightarrow> queue_ok (snd (DialStream_begin now uuid c target p))"
  by (simp add: DialStream_begin_def Let_def split_def queue_ok_dialSend)

lemma DialStream_finish_frame [simp]:
  "chan_view (snd (DialStream_finish now ev r p)) = chan_view p"
  "conn_view (snd (DialStream_finish now ev r p)) = conn_view p"
  by (simp_all add: DialStream_finish_def Let_def split: dial_event.split)

lemma queue_ok_DialStream_finish [inv_intros]:
  "queue_ok p \<Longrightarrow> queue_ok (snd (DialStream_finish now ev r p))"
  by (simp add: DialStream_finish_def Let_def queue_ok_reverseNotifyClose split: dial_event.split)

lemma reverseUpstreamPump_frame [simp]:
  "chan_view (reverseUpstreamPump now r read p) = chan_view p"
  "conn_view (reverseUpstreamPump now r read p) = conn_view p"
  by (simp_all add: reverseUpstreamPump_def Let_def split_def split: option.split)

lemma queue_ok_reverseUpstreamPump [inv_intros]:
  "queue_ok p \<Longrightarrow> queue_ok (reverseUpstreamPump now r read p)"
  by (simp add: reverseUpstreamPump_def Let_def split_def queue_ok_sends queue_ok_reverseNotifyClose
      split: option.split)

lemma core_reply [simp]: "core (reply now c ch lid st reason p) = core p"
  by (simp add: reply_def Let_def)

lemmas view_reply [simp] = core_views [OF core_reply]

lemma queue_ok_reply [inv_intros]: "queue_ok p \<Longrightarrow> queue_ok (reply now c ch lid st reason p)"
  by (simp add: reply_def Let_def queue_ok_sends)

lemma HandleReverseListen_frame [simp]:
  "chan_view (HandleReverseListen start now c ch lid spec p) = chan_view p"
  "conn_view (HandleReverseListen start now c ch lid spec p) = conn_view p"
  by (simp_all add: HandleReverseListen_def Let_def split: option.split sum.split)

lemma queue_ok_HandleReverseListen [inv_intros]:
  "queue_ok p \<Longrightarrow> queue_ok (HandleReverseListen start now c ch lid spec p)"
  by (simp add: HandleReverseListen_def Let_def queue_ok_reply split: option.split sum.split)

lemma Shutdowns_frame [simp]:
  "chan_view (ShutdownClient c p) = chan_view p" "conn_view (ShutdownClient c p) = conn_view p"
  "queue_ok (ShutdownClient c p) = queue_ok p"
  "chan_view (Listeners_Shutdown p) = chan_view p" "conn_view (Listeners_Shutdown p) = conn_view p"
  "queue_ok (Listeners_Shutdown p) = queue_ok p"
  by (simp_all add: ShutdownClient_def Listeners_Shutdown_def split: option.split)

section \<open>The reverse-connection table\<close>

text \<open>
  Every registered reverse connection is open and stored under its own identifier, and every
  other one that was ever allocated is settled and closed: no dial is left waiting on a
  connection nobody can reach.
\<close>

definition rev_table_ok :: "(string, ref) dict \<times> (ref \<Rightarrow> ServerReverseConn) \<times> nat \<Rightarrow> bool" where
  "rev_table_ok = (\<lambda>(conns, heap, next).
     dict_ok conns \<and>
     (\<forall>connID r. dict_get conns connID = Some r \<longrightarrow> r < next \<and> rc_connID (heap r) = connID \<and> rc_open (heap r)) \<and>
     (\<forall>r<next. dict_get conns (rc_connID (heap r)) = Some r \<or> rc_settled (heap r) \<and> \<not> rc_open (heap r)))"

definition rev_ok :: "serverPool \<Rightarrow> bool" where
  "rev_ok p = rev_table_ok (rev_view p)"

lemma rev_ok_view: "rev_view p = rev_view q \<Longrightarrow> rev_ok p = rev_ok q"
  by (simp add: rev_ok_def)

lemma rev_ok_sends [simp]:
  "rev_ok (snd (sendToChannel now c ch mt d p)) = rev_ok p"
  "rev_ok (snd (broadcastWriteToClient now c mt d p)) = rev_ok p"
  "rev_ok (reverseNotifyClose now r p) = rev_ok p"
  "rev_ok (reply now c ch lid st reason p) = rev_ok p"
  "rev_ok (spawn t p) = rev_ok p"
  "rev_ok (p\<lparr>sp_hotPairs := h\<rparr>) = rev_ok p"
  by (rule rev_ok_view; simp)+ (simp add: rev_ok_def rev_view_def)

lemma rev_ok_lookup:
  "rev_ok p \<Longrightarrow> dict_get (sp_revConns p) connID = Some r \<Longrightarrow>
   r < sp_nextRev p \<and> rc_connID (sp_revHeap p r) = connID \<and> rc_open (sp_revHeap p r)"
  by (simp add: rev_ok_def rev_table_ok_def rev_view_def)

text \<open>Updates that keep the identifier and the open flag and never un-settle.\<close>

lemma rev_ok_upd:
  assumes "rev_ok p" "rc_connID (f (sp_revHeap p r)) = rc_connID (sp_revHeap p r)"
    "rc_open (f (sp_revHeap p r)) = rc_open (sp_revHeap p r)"
    "rc_settled (sp_revHeap p r) \<Longrightarrow> rc_settled (f (sp_revHeap p r))"
  shows "rev_ok (upd_rev r f p)"
  using assms by (auto simp: rev_ok_def rev_table_ok_def rev_view_def upd_rev_def)

lemma settle_simps [simp]:
  "rc_connID (settle ok msg rc) = rc_connID rc" "rc_open (settle ok msg rc) = rc_open rc"
  "rc_settled (settle ok msg rc)" "rc_sendCh (settle ok msg rc) = rc_sendCh rc"
  "rc_recvCh (settle ok msg rc) = rc_recvCh rc" "rc_ownerClientID (settle ok msg rc) = rc_ownerClientID rc"
  by (simp_all add: settle_def)

lemma rev_table_okD:
  assumes "rev_table_ok (conns, heap, n)"
  shows "dict_ok conns"
    and "dict_get conns connID = Some r \<Longrightarrow> r < n \<and> rc_connID (heap r) = connID \<and> rc_open (heap r)"
    and "r < n \<Longrightarrow> dict_get conns (rc_connID (heap r)) = Some r \<or> rc_settled (heap r) \<and> \<not> rc_open (heap r)"
  using assms by (simp_all add: rev_table_ok_def)

lemma rev_table_ok_remove:
  assumes "rev_table_ok (conns, heap, n)" "dict_get conns connID = Some r"
    "rc_connID rc' = rc_connID (heap r)" "rc_settled rc'" "\<not> rc_open rc'"
  shows "rev_table_ok (dict_del conns connID, heap(r := rc'), n)"
proof -
  have id: "rc_connID (heap r') = connID'" if "dict_get conns connID' = Some r'" for connID' r'
    using rev_table_okD(2) [OF assms(1) that] by simp
  have other: "r' \<noteq> r" if "dict_get conns connID' = Some r'" "connID' \<noteq> connID" for connID' r'
    using id [OF that(1)] id [OF assms(2)] that(2) by auto
  show ?thesis
    unfolding rev_table_ok_def prod.case
  proof (intro conjI allI impI)
    show "dict_ok (dict_del conns connID)" using rev_table_okD(1) [OF assms(1)] by simp
    fix connID' r' assume "dict_get (dict_del conns connID) connID' = Some r'"
    then have g: "dict_get conns connID' = Some r'" "connID' \<noteq> connID" by (auto split: if_splits)
    with other [OF g] rev_table_okD(2) [OF assms(1) g(1)]
    show "r' < n" "rc_connID ((heap(r := rc')) r') = connID'" "rc_open ((heap(r := rc')) r')" by simp_all
  next
    fix r' assume "r' < n"
    from rev_table_okD(3) [OF assms(1) this] show "dict_get (dict_del conns connID) (rc_connID ((heap(r := rc')) r')) = Some r' \<or>
        rc_settled ((heap(r := rc')) r') \<and> \<not> rc_open ((heap(r := rc')) r')"
    proof (cases "r' = r")
      case True
      then show ?thesis using assms(4,5) by simp
    next
      case False
      with assms(2) rev_table_okD(3) [OF assms(1) \<open>r' < n\<close>] show ?thesis by auto
    qed
  qed
qed

lemma rev_ok_removeReverseConn [inv_intros]: "rev_ok p \<Longrightarrow> rev_ok (removeReverseConn connID p)"
proof (cases "dict_get (sp_revConns p) connID")
  case (Some r)
  assume "rev_ok p"
  then have "rev_table_ok (dict_del (sp_revConns p) connID, (sp_revHeap p)(r :=
      rc_open_update (\<lambda>_. False) (settle False ''connection closed'' (sp_revHeap p r))), sp_nextRev p)"
    unfolding rev_ok_def rev_view_def by (rule rev_table_ok_remove [OF _ Some]) simp_all
  with Some show ?thesis by (simp add: removeReverseConn_def Let_def rev_ok_def rev_view_def upd_rev_def)
qed (simp add: removeReverseConn_def)

lemma rev_ok_handleReverseMessage [inv_intros]:
  "rev_ok p \<Longrightarrow> rev_ok (handleReverseMessage ok now c ch mt connID meta payload p)"
  by (simp add: handleReverseMessage_def Let_def rev_ok_removeReverseConn rev_ok_upd
      split: option.split list.split)

lemma hotDialEntry_rev [simp]: "rev_view (snd (hotDialEntry now c p)) = rev_view p"
  by (simp add: hotDialEntry_def Let_def split_def split: option.split) (simp add: rev_view_def)

lemma rev_ok_dialSend [inv_intros]: "rev_ok p \<Longrightarrow> rev_ok (snd (dialSend now c msg r entry p))"
  by (auto simp: dialSend_def Let_def split_def split: option.split intro!: rev_ok_upd)

text \<open>The identifier a dial registers; it is fresh when the UUID is.\<close>

definition dial_connID :: "instant \<Rightarrow> string \<Rightarrow> string \<Rightarrow> serverPool \<Rightarrow> string" where
  "dial_connID now uuid c p =
     (case fst (hotDialEntry now c p) of None \<Rightarrow> uuid | Some e \<Rightarrow> HotPairConnID (he_Key e) uuid)"

lemma rev_ok_alloc:
  assumes "rev_ok p" "dict_get (sp_revConns p) connID = None"
  shows "rev_ok (p\<lparr>sp_nextRev := sp_nextRev p + 1,
      sp_revHeap := (sp_revHeap p)(sp_nextRev p := newServerReverseConn connID c target),
      sp_revConns := dict_set (sp_revConns p) connID (sp_nextRev p)\<rparr>)"
proof -
  let ?rc = "newServerReverseConn connID c target" and ?n = "sp_nextRev p"
  have rc: "rc_connID ?rc = connID" "rc_open ?rc" by (simp_all add: newServerReverseConn_def)
  have tab: "rev_table_ok (sp_revConns p, sp_revHeap p, ?n)" using assms(1) by (simp add: rev_ok_def rev_view_def)
  have "rev_table_ok (dict_set (sp_revConns p) connID ?n, (sp_revHeap p)(?n := ?rc), ?n + 1)"
    unfolding rev_table_ok_def prod.case
  proof (intro conjI allI impI)
    show "dict_ok (dict_set (sp_revConns p) connID ?n)" using rev_table_okD(1) [OF tab] by simp
    fix connID' r' assume g: "dict_get (dict_set (sp_revConns p) connID ?n) connID' = Some r'"
    show "r' < ?n + 1" "rc_connID (((sp_revHeap p)(?n := ?rc)) r') = connID'" "rc_open (((sp_revHeap p)(?n := ?rc)) r')"
      using g rc rev_table_okD(2) [OF tab, of connID' r'] by (auto split: if_splits)
  next
    fix r' assume "r' < ?n + 1"
    then consider "r' = ?n" | "r' < ?n" by linarith
    then show "dict_get (dict_set (sp_revConns p) connID ?n) (rc_connID (((sp_revHeap p)(?n := ?rc)) r')) = Some r' \<or>
        rc_settled (((sp_revHeap p)(?n := ?rc)) r') \<and> \<not> rc_open (((sp_revHeap p)(?n := ?rc)) r')"
      using rc assms(2) rev_table_okD(3) [OF tab, of r'] by cases auto
  qed
  then show ?thesis by (simp add: rev_ok_def rev_view_def)
qed

lemma rev_ok_DialStream_begin:
  assumes "rev_ok p" "dict_get (sp_revConns p) (dial_connID now uuid c p) = None"
  shows "rev_ok (snd (DialStream_begin now uuid c target p))"
proof -
  let ?q = "snd (hotDialEntry now c p)"
  have "rev_ok ?q" "dict_get (sp_revConns ?q) (dial_connID now uuid c p) = None"
    using assms hotDialEntry_rev [of now c p] by (simp_all add: rev_ok_def rev_view_def)
  note a = rev_ok_alloc [OF this, of c target]
  then show ?thesis
    using assms unfolding DialStream_begin_def dial_connID_def
    by (simp add: Let_def split_def rev_ok_dialSend rev_ok_removeReverseConn)
qed

lemma rev_ok_DialStream_finish [inv_intros]: "rev_ok p \<Longrightarrow> rev_ok (snd (DialStream_finish now ev r p))"
  by (auto simp: DialStream_finish_def Let_def split: dial_event.split
      intro!: rev_ok_removeReverseConn rev_ok_upd)

lemma rev_ok_reverseUpstreamPump [inv_intros]: "rev_ok p \<Longrightarrow> rev_ok (reverseUpstreamPump now r read p)"
  by (auto simp: reverseUpstreamPump_def Let_def split_def split: option.split
      intro!: rev_ok_removeReverseConn)

subsection \<open>The first outcome stands\<close>

definition outcome :: "ServerReverseConn \<Rightarrow> bool \<times> bool \<times> string" where
  "outcome rc = (rc_settled rc, rc_ok rc, rc_errMsg rc)"

lemma rev_heap_sends [simp]:
  "sp_revHeap (snd (sendToChannel now c ch mt d p)) = sp_revHeap p"
  "sp_revHeap (snd (broadcastWriteToClient now c mt d p)) = sp_revHeap p"
  "sp_revConns (snd (sendToChannel now c ch mt d p)) = sp_revConns p"
  "sp_revConns (snd (broadcastWriteToClient now c mt d p)) = sp_revConns p"
  "sp_revHeap (reverseNotifyClose now r p) = sp_revHeap p"
  "sp_revConns (reverseNotifyClose now r p) = sp_revConns p"
  using core_fields(9,10) [OF core_sends(5), of now c ch mt d p]
    core_fields(9,10) [OF core_sends(3), of now c mt d p]
    core_fields(9,10) [OF core_reverseNotifyClose, of now r p] by simp_all

lemma outcome_settle [simp]: "rc_settled rc \<Longrightarrow> outcome (settle ok msg rc) = outcome rc"
  by (simp add: settle_def)

lemma outcome_updates [simp]:
  "outcome (rc_open_update f rc) = outcome rc" "outcome (rc_rx_update g rc) = outcome rc"
  "outcome (rc_sendCh_update h rc) = outcome rc" "outcome (rc_recvCh_update h rc) = outcome rc"
  "outcome (rc_repaired_update k rc) = outcome rc"
  by (simp_all add: outcome_def)

lemma outcome_removeReverseConn:
  "rc_settled (sp_revHeap p r) \<Longrightarrow> outcome (sp_revHeap (removeReverseConn connID p) r) = outcome (sp_revHeap p r)"
  by (auto simp: removeReverseConn_def Let_def upd_rev_def split: option.splits)

lemma outcome_handleReverseMessage:
  "rc_settled (sp_revHeap p r) \<Longrightarrow>
   outcome (sp_revHeap (handleReverseMessage ok now c ch mt connID meta payload p) r) = outcome (sp_revHeap p r)"
  by (auto simp: handleReverseMessage_def Let_def upd_rev_def outcome_removeReverseConn
      split: option.splits list.splits)

lemma outcome_DialStream_finish:
  "rc_settled (sp_revHeap p r) \<Longrightarrow>
   outcome (sp_revHeap (snd (DialStream_finish now ev r' p)) r) = outcome (sp_revHeap p r)"
  by (auto simp: DialStream_finish_def Let_def upd_rev_def outcome_removeReverseConn
      split: dial_event.splits)

lemma outcome_reverseUpstreamPump:
  "rc_settled (sp_revHeap p r) \<Longrightarrow>
   outcome (sp_revHeap (reverseUpstreamPump now r' read p) r) = outcome (sp_revHeap p r)"
  by (auto simp: reverseUpstreamPump_def Let_def split_def outcome_removeReverseConn split: option.splits)

subsection \<open>Choosing the channels of a reverse connection\<close>

text \<open>A connection accepts a channel choice while it has none, or once more when the choice was
  preset from a hot pair.\<close>

definition awaiting_uplink :: "ServerReverseConn \<Rightarrow> bool" where
  "awaiting_uplink rc \<longleftrightarrow> rc_sendCh rc = 0 \<and> \<not> rc_pairPreset rc \<or>
     rc_sendCh rc \<noteq> 0 \<and> rc_pairPreset rc \<and> \<not> rc_repaired rc"

definition uplink_chosen :: "ServerReverseConn \<Rightarrow> bool" where
  "uplink_chosen rc \<longleftrightarrow> rc_sendCh rc \<noteq> 0 \<and> (rc_pairPreset rc \<longrightarrow> rc_repaired rc)"

lemma uplink_choice:
  assumes "getReverseConn p connID = Some r" "awaiting_uplink (sp_revHeap p r)"
    "4 \<le> length meta" "meta_int32 meta \<noteq> 0"
  shows "let q = handleReverseMessage ok now c ch MsgSelectUplink connID meta payload p in
    getReverseConn q connID = Some r \<and> uplink_chosen (sp_revHeap q r) \<and>
    rc_sendCh (sp_revHeap q r) = meta_int32 meta \<and> rc_recvCh (sp_revHeap q r) = wrap32 ch"
  using assms
  by (auto simp: handleReverseMessage_def awaiting_uplink_def uplink_chosen_def getReverseConn_def
      Let_def upd_rev_def)

lemma uplink_settled:
  assumes "getReverseConn p connID = Some r" "uplink_chosen (sp_revHeap p r)"
  shows "handleReverseMessage ok now c ch MsgSelectUplink connID meta payload p = p"
  using assms by (auto simp: handleReverseMessage_def uplink_chosen_def Let_def)

section \<open>The listener table\<close>

definition listeners_ok :: "serverPool \<Rightarrow> bool" where
  "listeners_ok p \<longleftrightarrow> dict_ok (sp_listeners p) \<and>
     (\<forall>c m. dict_get (sp_listeners p) c = Some m \<longrightarrow> dict_ok m \<and> int (length m) \<le> max 0 (sp_maxPerClient p))"

lemma listeners_sends [simp]:
  "sp_listeners (reply now c ch lid st reason p) = sp_listeners p"
  "sp_maxPerClient (reply now c ch lid st reason p) = sp_maxPerClient p"
  using core_fields(12,13) [OF core_reply, of now c ch lid st reason p] by simp_all

lemma length_dict_set: "length (dict_set m k v) = (if dict_get m k = None then length m + 1 else length m)"
  by (induction m) (auto split: if_splits)

lemma listeners_ok_HandleReverseListen [inv_intros]:
  assumes "listeners_ok p"
  shows "listeners_ok (HandleReverseListen start now c ch lid spec p)"
proof -
  let ?p = "case dict_get (sp_listeners p) c of
      None \<Rightarrow> p\<lparr>sp_listeners := dict_set (sp_listeners p) c []\<rparr> | Some _ \<Rightarrow> p"
  obtain m where m: "dict_get (sp_listeners ?p) c = Some m"
    by (cases "dict_get (sp_listeners p) c") auto
  have ok: "listeners_ok ?p"
    using assms by (auto simp: listeners_ok_def split: option.split)
  then have mok: "dict_ok m" "int (length m) \<le> max 0 (sp_maxPerClient ?p)"
    using m by (auto simp: listeners_ok_def)
  have set: "listeners_ok (?p\<lparr>sp_listeners := dict_set (sp_listeners ?p) c (dict_set m k v)\<rparr>)"
    if "int (length m) < sp_maxPerClient ?p" for k v
    using ok mok that by (auto simp: listeners_ok_def length_dict_set)
  have reply: "listeners_ok (reply now c ch lid st reason q) = listeners_ok q" for st reason q
    by (simp add: listeners_ok_def)
  show ?thesis
    unfolding HandleReverseListen_def Let_def m
    using ok set by (auto simp: reply not_le split: option.split sum.split)
qed

lemma listeners_ok_shutdowns [inv_intros]:
  "listeners_ok p \<Longrightarrow> listeners_ok (ShutdownClient c p)"
  "listeners_ok p \<Longrightarrow> listeners_ok (Listeners_Shutdown p)"
  by (auto simp: listeners_ok_def ShutdownClient_def Listeners_Shutdown_def split: option.split)

section \<open>Properties\<close>

text \<open>Fact: no reverse dial is left hanging. In a table where every registered connection is open
  under its own identifier and every other allocated one is settled and closed, starting a dial
  (with a fresh identifier), finishing it, handling any message of the client, pumping data and
  removing a connection all keep the table that way.\<close>

theorem reverse_table_invariant:
  assumes "rev_ok p"
  shows "(dict_get (sp_revConns p) (dial_connID now uuid c p) = None \<longrightarrow>
      rev_ok (snd (DialStream_begin now uuid c target p))) \<and>
    rev_ok (snd (DialStream_finish now ev r p)) \<and>
    rev_ok (handleReverseMessage ok now c ch mt connID meta payload p) \<and>
    rev_ok (reverseUpstreamPump now r read p) \<and>
    rev_ok (removeReverseConn connID p)"
  using assms by (simp add: rev_ok_DialStream_begin inv_intros)

theorem reverse_table_invariant_witness:
  "rev_ok (newServerPool ''t'' DefaultServerConfig) \<and>
   rev_ok (removeReverseConn ''x'' (newServerPool ''t'' DefaultServerConfig))"
proof -
  have "rev_ok (newServerPool ''t'' DefaultServerConfig)"
    by (simp add: rev_ok_def rev_table_ok_def rev_view_def newServerPool_def Let_def)
  from this reverse_table_invariant [OF this] show ?thesis by blast
qed

text \<open>Property C24: the first outcome of a reverse dial stands. Once a connection is settled, no later
  status, data, close, time-out, cancellation or removal changes whether it succeeded or its
  error text.\<close>

theorem first_settlement_wins:
  assumes "rc_settled (sp_revHeap p r)"
  shows "outcome (sp_revHeap (handleReverseMessage ok now c ch mt connID meta payload p) r) = outcome (sp_revHeap p r) \<and>
    outcome (sp_revHeap (snd (DialStream_finish now ev r' p)) r) = outcome (sp_revHeap p r) \<and>
    outcome (sp_revHeap (reverseUpstreamPump now r' read p) r) = outcome (sp_revHeap p r) \<and>
    outcome (sp_revHeap (removeReverseConn connID p) r) = outcome (sp_revHeap p r)"
  using assms by (simp add: outcome_handleReverseMessage outcome_DialStream_finish
      outcome_reverseUpstreamPump outcome_removeReverseConn)

theorem first_settlement_wins_witness:
  "let p = (newServerPool ''t'' DefaultServerConfig)\<lparr>sp_nextRev := 1,
         sp_revConns := [(''x'', 0)], sp_revHeap := (\<lambda>_. settle True '''' (newServerReverseConn ''x'' ''c'' ''h:1''))\<rparr>
   in outcome (sp_revHeap (removeReverseConn ''x'' p) 0) = (True, True, '''')"
  using first_settlement_wins [of "(newServerPool ''t'' DefaultServerConfig)\<lparr>sp_nextRev := 1,
         sp_revConns := [(''x'', 0)], sp_revHeap := (\<lambda>_. settle True '''' (newServerReverseConn ''x'' ''c'' ''h:1''))\<rparr>" 0]
  by (simp add: Let_def outcome_def settle_def newServerReverseConn_def)

text \<open>Fact: the first channel choice wins. The first well-formed uplink selection a waiting
  reverse connection receives (or the one repair of a preset pair) fixes both channels, and any
  number of later selections, from any channel, leave the whole pool unchanged.\<close>

theorem reverse_uplink_first_wins:
  assumes "getReverseConn p connID = Some r" "awaiting_uplink (sp_revHeap p r)"
    "4 \<le> length meta" "meta_int32 meta \<noteq> 0"
    and "q = handleReverseMessage ok now c ch MsgSelectUplink connID meta payload p"
  shows "rc_sendCh (sp_revHeap q r) = meta_int32 meta \<and> rc_recvCh (sp_revHeap q r) = wrap32 ch \<and>
    foldl (\<lambda>s (ch', meta'). handleReverseMessage ok now c ch' MsgSelectUplink connID meta' [] s) q later = q"
proof -
  note first = uplink_choice [OF assms(1-4), of ok now c ch payload, folded assms(5), unfolded Let_def]
  have "foldl (\<lambda>s (ch', meta'). handleReverseMessage ok now c ch' MsgSelectUplink connID meta' [] s) q later = q"
    by (induction later) (use first in \<open>auto simp: uplink_settled\<close>)
  with first show ?thesis by blast
qed

theorem reverse_uplink_first_wins_witness:
  "let p = (newServerPool ''t'' DefaultServerConfig)\<lparr>sp_nextRev := 1,
         sp_revConns := [(''x'', 0)], sp_revHeap := (\<lambda>_. newServerReverseConn ''x'' ''c'' ''h:1'')\<rparr>
   in rc_recvCh (sp_revHeap (handleReverseMessage True 0 ''c'' 3 MsgSelectUplink ''x'' [0, 0, 0, 7] [] p) 0) = 3"
proof -
  let ?p = "(newServerPool ''t'' DefaultServerConfig)\<lparr>sp_nextRev := 1,
         sp_revConns := [(''x'', 0)], sp_revHeap := (\<lambda>_. newServerReverseConn ''x'' ''c'' ''h:1'')\<rparr>"
  have "meta_int32 [0, 0, 0, 7] \<noteq> 0" by (simp add: meta_int32_def Uint32_def)
  with reverse_uplink_first_wins [of ?p "''x''" 0 "[0, 0, 0, 7]" _ True 0 "''c''" 3 "[]"] show ?thesis
    by (simp add: getReverseConn_def awaiting_uplink_def newServerReverseConn_def wrap32_id Let_def)
qed

text \<open>Fact: a client never holds more reverse listeners than the configured maximum, one per
  specification; the table keeps this under every listen request, and a client's departure or
  the server's shutdown closes exactly the listeners that were registered.\<close>

theorem listener_table_bounded:
  assumes "listeners_ok p"
  shows "listeners_ok (HandleReverseListen start now c ch lid spec p) \<and>
    listeners_ok (ShutdownClient c p) \<and> dict_get (sp_listeners (ShutdownClient c p)) c = None \<and>
    (\<forall>m. dict_get (sp_listeners p) c = Some m \<longrightarrow>
       sp_effects (ShutdownClient c p) = sp_effects p @ map (\<lambda>(_, rl). ListenerClose (rl_server rl)) m) \<and>
    sp_listeners (Listeners_Shutdown p) = []"
  using assms by (simp add: inv_intros) (simp add: ShutdownClient_def Listeners_Shutdown_def split: option.split)

theorem listener_table_bounded_witness:
  "listeners_ok (HandleReverseListen (\<lambda>_ _ _ _. Inr 5) 0 ''c'' 1 ''l'' (bytes_of_string ''http://a:1'')
     (newServerPool ''t'' DefaultServerConfig))"
proof -
  have "listeners_ok (newServerPool ''t'' DefaultServerConfig)"
    by (simp add: listeners_ok_def newServerPool_def Let_def)
  from listener_table_bounded [OF this] show ?thesis by blast
qed

text \<open>Fact: listener specifications read back: a scheme, user, password and host without the
  separators of their positions parse to exactly those parts.\<close>

theorem listener_spec_roundtrip:
  assumes "scheme \<in> {''socks5'', ''http''}" "CHR '':'' \<notin> set user" "CHR ''@'' \<notin> set user"
    "CHR ''@'' \<notin> set pass"
  shows "parseListenerSpec (scheme @ ''://'' @ user @ '':'' @ pass @ ''@'' @ host) = Some (host, user, pass, scheme)"
proof -
  have at: "takeWhile (\<lambda>x. x \<noteq> CHR ''@'') (user @ CHR '':'' # pass @ CHR ''@'' # host) = user @ CHR '':'' # pass"
    using assms takeWhile_sep [of "CHR ''@''" "user @ CHR '':'' # pass" host] by simp
  note colon = takeWhile_sep [OF assms(2), of pass]
  have "parseHostAuth (user @ CHR '':'' # pass @ CHR ''@'' # host) = (host, user, pass)"
    by (simp add: parseHostAuth_def splitAt_def at colon Let_def)
  with assms(1) show ?thesis by (auto simp: parseListenerSpec_def)
qed

theorem listener_spec_roundtrip_witness:
  "parseListenerSpec ''socks5://u:p@h:1'' = Some (''h:1'', ''u'', ''p'', ''socks5'')"
  using listener_spec_roundtrip [of "''socks5''" "''u''" "''p''" "''h:1''"] by simp

end
