(* ===== verification/Server_Handler.thy ===== *)
theory Server_Handler
  imports Server_Reverse
begin

text \<open>
  The server's forward connections (\<^verbatim>\<open>src/handler.go\<close>, and \<^verbatim>\<open>unregisterConn\<close> of
  \<^verbatim>\<open>src/server_pool.go\<close>): connection requests, data in both directions, the choice of the
  uplink and downlink channels, prebinding, and the UDP counterparts.

  A handler that starts a goroutine queues it as a task; the goroutine's atomic pieces are the
  definitions \<open>connectTarget_begin\<close>, \<open>_err\<close>, \<open>_close\<close>, \<open>_forget\<close>, \<open>_publish\<close>, \<open>_status\<close> and \<open>_write\<close>,
  \<open>forwardTargetToClient\<close> and \<open>forwardUDPToClient\<close>. Outcomes of socket calls (dial, write, read, listen, address
  resolution) are arguments.
\<close>

section \<open>Removing a connection\<close>

definition closeTargets :: "ServerConnState \<Rightarrow> serverPool \<Rightarrow> serverPool" where
  "closeTargets st p =
     (let p = (case cs_targetConn st of None \<Rightarrow> p | Some t \<Rightarrow> emit (TargetClose t) p)
      in case cs_targetUDP st of None \<Rightarrow> p | Some u \<Rightarrow> emit (UDPClose u) p)"

definition unregisterConn :: "string \<Rightarrow> serverPool \<Rightarrow> serverPool" where
  "unregisterConn connID p =
     (case dict_get (sp_conns p) connID of
        None \<Rightarrow> p
      | Some r \<Rightarrow>
          let p = p\<lparr>sp_conns := dict_del (sp_conns p) connID\<rparr>; st = sp_connHeap p r
          in if cs_closed st then p
             else let p = upd_conn r (cs_closed_update (\<lambda>_. True)) p
                  in if \<not> cs_connected st then p
                     else closeTargets st (upd_conn r (cs_connected_update (\<lambda>_. False)) p))"

section \<open>TCP connection requests\<close>

text \<open>The client and address behind the channel a request arrived on, empty when the channel is
  already gone.\<close>

definition inboundOf :: "serverPool \<Rightarrow> string \<Rightarrow> chid \<Rightarrow> string \<times> string" where
  "inboundOf p clientID chID =
     (case channel_ref p clientID chID of
        None \<Rightarrow> ('''', '''')
      | Some r \<Rightarrow> (ws_clientID (sp_wsHeap p r), ws_remoteAddr (sp_wsHeap p r)))"

definition publishConn :: "string \<Rightarrow> ServerConnState \<Rightarrow> serverPool \<Rightarrow> ref \<times> serverPool" where
  "publishConn connID st p =
     (let r = sp_nextConn p
      in (r, p\<lparr>sp_nextConn := r + 1, sp_connHeap := (sp_connHeap p)(r := st),
               sp_conns := dict_set (sp_conns p) connID r\<rparr>))"

definition newTCPConn :: "string \<Rightarrow> string \<Rightarrow> chid \<Rightarrow> byte \<Rightarrow> string \<times> string \<Rightarrow> ServerConnState" where
  "newTCPConn connID target chID ipStrategy inbound =
     blank_conn\<lparr>cs_connID := connID, cs_target := target, cs_uplinkChID := chID,
       cs_ipStrategy := ipStrategy, cs_isUDP := False, cs_connected := False,
       cs_clientID := fst inbound, cs_clientAddr := snd inbound\<rparr>"

text \<open>The hot path: the connection identifier carries the key of a live pair whose first channel
  is the arrival channel and whose second channel is alive. The lookup may drop an expired
  entry.\<close>

definition promotePair :: "instant \<Rightarrow> string \<Rightarrow> chid \<Rightarrow> string \<Rightarrow> serverPool \<Rightarrow> HotPairEntry option \<times> serverPool" where
  "promotePair now clientID chID connID p =
     (case SplitHotPairConnID connID of
        None \<Rightarrow> (None, p)
      | Some (key, _) \<Rightarrow>
          let (e, t) = Lookup (sp_hotPairs p) clientID key now;
              p = p\<lparr>sp_hotPairs := t\<rparr>
          in (case e of
                None \<Rightarrow> (None, p)
              | Some x \<Rightarrow>
                  if he_ChA x = chID \<and> channelAliveForClient p clientID (he_ChB x) then (Some x, p)
                  else (None, p)))"

definition select_uplink_meta :: "chid \<Rightarrow> bytes" where
  "select_uplink_meta chID = PutUint32 (word_of_int chID)"

definition handleTCPConnect ::
  "instant \<Rightarrow> string \<Rightarrow> chid \<Rightarrow> string \<Rightarrow> bytes \<Rightarrow> serverPool \<Rightarrow> serverPool" where
  "handleTCPConnect now clientID chID connID meta p =
     (case meta of
        [] \<Rightarrow> snd (sendDownlink now connID MsgConnStatus [StatusERR] [] p)
      | ipStrategy # rest \<Rightarrow>
          let target = string_of_bytes rest;
              inbound = inboundOf p clientID chID
          in case dict_get (sp_conns p) connID of
               Some _ \<Rightarrow> p
             | None \<Rightarrow>
                 let (r, p) = publishConn connID (newTCPConn connID target chID ipStrategy inbound) p;
                     (promoted, p) = promotePair now clientID chID connID p;
                     p = (case promoted of
                            Some e \<Rightarrow> upd_conn r (cs_downlinkChID_update (\<lambda>_. he_ChB e)) p
                          | None \<Rightarrow> snd (sendDownlink now connID MsgSelectUplink (select_uplink_meta chID) [] p))
                 in spawn (ConnectTarget r) p)"

section \<open>Connecting to the target\<close>

text \<open>The check before the dial: \<^term>\<open>None\<close> when the connection was closed meanwhile, else the
  address to resolve and dial.\<close>

definition connectTarget_begin :: "ref \<Rightarrow> serverPool \<Rightarrow> (string \<times> byte) option" where
  "connectTarget_begin r p =
     (let st = sp_connHeap p r
      in if cs_closed st then None else Some (cs_target st, cs_ipStrategy st))"

text \<open>After a failed dial: an error status, a close notice, and the identifier is forgotten.\<close>

definition connectTarget_err :: "instant \<Rightarrow> ref \<Rightarrow> serverPool \<Rightarrow> serverPool" where
  "connectTarget_err now r p = snd (sendDownlink now (cs_connID (sp_connHeap p r)) MsgConnStatus [StatusERR] [] p)"

definition connectTarget_close :: "instant \<Rightarrow> ref \<Rightarrow> serverPool \<Rightarrow> serverPool" where
  "connectTarget_close now r p = snd (sendDownlink now (cs_connID (sp_connHeap p r)) MsgTCPClose [] [] p)"

definition connectTarget_forget :: "ref \<Rightarrow> serverPool \<Rightarrow> serverPool" where
  "connectTarget_forget r p = p\<lparr>sp_conns := dict_del (sp_conns p) (cs_connID (sp_connHeap p r))\<rparr>"

text \<open>After a dial that succeeded: under the connection's lock the target is published and the buffered
  data taken over; \<^term>\<open>None\<close> if the connection was closed during the dial. Then, without any lock,
  the status is sent and the buffered data written, piece by piece.\<close>

definition connectTarget_publish :: "nat \<Rightarrow> ref \<Rightarrow> serverPool \<Rightarrow> bytes list option \<times> serverPool" where
  "connectTarget_publish t r p =
     (if cs_closed (sp_connHeap p r) then (None, emit (TargetClose t) p)
      else (Some (cs_pendingData (sp_connHeap p r)),
            upd_conn r (\<lambda>st. st\<lparr>cs_targetConn := Some t, cs_connected := True, cs_pendingData := []\<rparr>) p))"

definition connectTarget_status :: "instant \<Rightarrow> ref \<Rightarrow> serverPool \<Rightarrow> serverPool" where
  "connectTarget_status now r p = snd (sendDownlink now (cs_connID (sp_connHeap p r)) MsgConnStatus [StatusOK] [] p)"

text \<open>One round of the loop over the buffered data, and its end; what is left to write is the result,
  \<^term>\<open>None\<close> when the goroutine is over.\<close>

fun connectTarget_write :: "bool \<Rightarrow> ref \<Rightarrow> nat \<Rightarrow> bytes list \<Rightarrow> serverPool \<Rightarrow> bytes list option \<times> serverPool" where
  "connectTarget_write ok r t [] p = (None, spawn (ForwardTarget r) p)"
| "connectTarget_write ok r t (d # ds) p =
     (if ok then (Some ds, emit (TargetWrite t d) p) else (None, unregisterConn (cs_connID (sp_connHeap p r)) p))"

fun connectTarget_flush :: "(bytes \<Rightarrow> bool) \<Rightarrow> ref \<Rightarrow> nat \<Rightarrow> bytes list \<Rightarrow> serverPool \<Rightarrow> serverPool" where
  "connectTarget_flush wok r t [] p = snd (connectTarget_write True r t [] p)"
| "connectTarget_flush wok r t (d # ds) p =
     (case connectTarget_write (wok d) r t (d # ds) p of
        (None, p) \<Rightarrow> p
      | (Some _, p) \<Rightarrow> connectTarget_flush wok r t ds p)"

text \<open>The rest of \<^verbatim>\<open>connectTarget\<close>, given the outcome of the dial, when nothing else runs in between.\<close>

definition connectTarget_done ::
  "instant \<Rightarrow> (bytes \<Rightarrow> bool) \<Rightarrow> nat option \<Rightarrow> ref \<Rightarrow> serverPool \<Rightarrow> serverPool" where
  "connectTarget_done now wok dialled r p =
     (case dialled of
        None \<Rightarrow> connectTarget_forget r (connectTarget_close now r (connectTarget_err now r p))
      | Some t \<Rightarrow>
          (case connectTarget_publish t r p of
             (None, p) \<Rightarrow> p
           | (Some pending, p) \<Rightarrow> connectTarget_flush wok r t pending (connectTarget_status now r p)))"

definition connectTarget ::
  "instant \<Rightarrow> (bytes \<Rightarrow> bool) \<Rightarrow> (string \<Rightarrow> byte \<Rightarrow> nat option) \<Rightarrow> ref \<Rightarrow> serverPool \<Rightarrow> serverPool" where
  "connectTarget now wok dial r p =
     (case connectTarget_begin r p of
        None \<Rightarrow> p
      | Some (target, strategy) \<Rightarrow> connectTarget_done now wok (dial target strategy) r p)"

section \<open>TCP data and channel selection\<close>

definition pending_bytes :: "bytes list \<Rightarrow> int" where
  "pending_bytes ds = foldl (\<lambda>n d. n + int (length d)) 0 ds"

definition handleTCPData :: "(bytes \<Rightarrow> bool) \<Rightarrow> chid \<Rightarrow> string \<Rightarrow> bytes \<Rightarrow> serverPool \<Rightarrow> serverPool" where
  "handleTCPData wok chID connID payload p =
     (case dict_get (sp_conns p) connID of
        None \<Rightarrow> p
      | Some r \<Rightarrow>
          let st = sp_connHeap p r
          in if cs_uplinkChID st > 0 \<and> chID \<noteq> cs_uplinkChID st then p
             else case cs_targetConn st of
                    None \<Rightarrow>
                      if pending_bytes (cs_pendingData st) + int (length payload) > pendingDataMaxSize
                      then unregisterConn connID p
                      else upd_conn r (cs_pendingData_update (\<lambda>ds. ds @ [payload])) p
                  | Some t \<Rightarrow>
                      if wok payload then emit (TargetWrite t payload) p
                      else unregisterConn connID p)"

text \<open>The channel a downlink selection names: four bytes of metadata, or, for old clients, the channel
  the message came on.\<close>

definition selectedDownlink :: "chid \<Rightarrow> bytes \<Rightarrow> chid" where
  "selectedDownlink chID meta = (if length meta \<ge> 4 then uint (Uint32 (take 4 meta)) else chID)"

definition handleSelectDownlink ::
  "string \<Rightarrow> chid \<Rightarrow> string \<Rightarrow> bytes \<Rightarrow> serverPool \<Rightarrow> serverPool" where
  "handleSelectDownlink clientID chID connID meta p =
     (let downlinkChID = selectedDownlink chID meta
      in case dict_get (sp_conns p) connID of
           None \<Rightarrow> p
         | Some r \<Rightarrow>
             (case channel_ref p clientID downlinkChID of
                None \<Rightarrow> p
              | Some w \<Rightarrow>
                  let ws = sp_wsHeap p w; st = sp_connHeap p r
                  in if ws_closed ws then p
                     else if cs_uplinkChID st > 0 \<and> chID \<noteq> cs_uplinkChID st then p
                     else if cs_clientID st \<noteq> '''' \<and> ws_clientID ws \<noteq> '''' \<and> ws_clientID ws \<noteq> cs_clientID st then p
                     else if cs_downlinkChID st = 0
                     then upd_conn r (cs_downlinkChID_update (\<lambda>_. downlinkChID)) p
                     else p))"

definition handleTCPClose :: "string \<Rightarrow> serverPool \<Rightarrow> serverPool" where
  "handleTCPClose connID p = unregisterConn connID p"

text \<open>One round of \<^verbatim>\<open>forwardTargetToClient\<close>: \<^term>\<open>None\<close> is a failed read. The deferred calls run last in,
  first out: the connection is unregistered before the close notice is sent.\<close>

definition forwardTargetToClient :: "instant \<Rightarrow> ref \<Rightarrow> bytes option \<Rightarrow> serverPool \<Rightarrow> serverPool" where
  "forwardTargetToClient now r read p =
     (let connID = cs_connID (sp_connHeap p r)
      in case read of
           None \<Rightarrow>
             let p = unregisterConn connID p
             in snd (sendDownlink now connID MsgTCPClose [] [] p)
         | Some data \<Rightarrow>
             if data \<noteq> [] then snd (sendDownlink now connID MsgTCPData [] data p) else p)"

section \<open>Prebinding\<close>

definition handleHotPairBegin :: "instant \<Rightarrow> string \<Rightarrow> serverPool \<Rightarrow> serverPool" where
  "handleHotPairBegin now clientID p =
     (let ttl = (if sp_prebindTTL p \<le> 0 then prebindStateTTL else sp_prebindTTL p)
      in p\<lparr>sp_prebindArmed := dict_set (sp_prebindArmed p) clientID (now + ttl)\<rparr>)"

definition prebindTTLFor :: "instant \<Rightarrow> string \<Rightarrow> serverPool \<Rightarrow> duration" where
  "prebindTTLFor now clientID p =
     (let ttl = (if sp_prebindTTL p \<le> 0 then prebindStateTTL else sp_prebindTTL p)
      in case dict_get (sp_prebindArmed p) clientID of
           None \<Rightarrow> ttl
         | Some armedUntil \<Rightarrow> if armedUntil - now > 0 then armedUntil - now else ttl)"

definition handlePrebindRequest ::
  "instant \<Rightarrow> string \<Rightarrow> chid \<Rightarrow> string \<Rightarrow> bytes \<Rightarrow> serverPool \<Rightarrow> serverPool" where
  "handlePrebindRequest now clientID chID connID meta p =
     (case meta of
        [] \<Rightarrow> p
      | ipStrategy # _ \<Rightarrow>
          let inbound = inboundOf p clientID chID
          in case dict_get (sp_conns p) connID of
               Some _ \<Rightarrow> p
             | None \<Rightarrow>
                 let st = blank_conn\<lparr>cs_connID := connID, cs_uplinkChID := chID, cs_ipStrategy := ipStrategy,
                            cs_connected := True, cs_clientID := fst inbound, cs_clientAddr := snd inbound\<rparr>;
                     (_, p) = publishConn connID st p;
                     p = snd (sendDownlink now connID MsgSelectUplink (select_uplink_meta chID) [] p);
                     ttl = prebindTTLFor now (fst inbound) p
                 in spawn (PrebindExpire connID (now + ttl)) p)"

section \<open>UDP\<close>

definition handleUDPConnect ::
  "instant \<Rightarrow> nat option \<Rightarrow> string \<Rightarrow> chid \<Rightarrow> string \<Rightarrow> bytes \<Rightarrow> serverPool \<Rightarrow> serverPool" where
  "handleUDPConnect now listened clientID chID connID meta p =
     (case meta of
        [] \<Rightarrow> snd (sendDownlink now connID MsgConnStatus [StatusERR] [] p)
      | ipStrategy # rest \<Rightarrow>
          let target = string_of_bytes rest;
              inbound = inboundOf p clientID chID
          in if dict_get (sp_conns p) connID \<noteq> None then p
             else case listened of
                    None \<Rightarrow> snd (sendDownlink now connID MsgConnStatus [StatusERR] [] p)
                  | Some u \<Rightarrow>
                      if dict_get (sp_conns p) connID \<noteq> None then emit (UDPClose u) p
                      else let st = blank_conn\<lparr>cs_connID := connID, cs_target := target,
                                      cs_targetUDP := Some u, cs_uplinkChID := chID,
                                      cs_ipStrategy := ipStrategy, cs_isUDP := True, cs_connected := True,
                                      cs_clientID := fst inbound, cs_clientAddr := snd inbound\<rparr>;
                               (r, p) = publishConn connID st p;
                               p = snd (sendDownlink now connID MsgSelectUplink (select_uplink_meta chID) [] p)
                           in spawn (ForwardUDP r) p)"

text \<open>\<open>resolve\<close> is the resolution by strategy and \<open>udpAddr\<close> the parse of the resolved address; the
  outcome of the datagram write is only logged by the code.\<close>

definition handleUDPData ::
  "(string \<Rightarrow> byte \<Rightarrow> string) \<Rightarrow> (string \<Rightarrow> string option) \<Rightarrow> chid \<Rightarrow> string \<Rightarrow> bytes \<Rightarrow> bytes
     \<Rightarrow> serverPool \<Rightarrow> serverPool" where
  "handleUDPData resolve udpAddr chID connID meta payload p =
     (case dict_get (sp_conns p) connID of
        None \<Rightarrow> p
      | Some r \<Rightarrow>
          let st = sp_connHeap p r
          in case cs_targetUDP st of
               None \<Rightarrow> p
             | Some u \<Rightarrow>
                 if cs_uplinkChID st > 0 \<and> chID \<noteq> cs_uplinkChID st then p
                 else let targetAddr = (if meta = [] then cs_target st else string_of_bytes meta)
                      in case udpAddr (resolve targetAddr (cs_ipStrategy st)) of
                           None \<Rightarrow> p
                         | Some a \<Rightarrow> emit (UDPSend u a payload) p)"

definition handleUDPClose :: "string \<Rightarrow> serverPool \<Rightarrow> serverPool" where
  "handleUDPClose connID p = unregisterConn connID p"

text \<open>One round of \<^verbatim>\<open>forwardUDPToClient\<close>; the boolean says whether the loop goes on. \<^term>\<open>None\<close> is a failed
  read, otherwise the sender's address and the datagram.\<close>

definition forwardUDPToClient ::
  "instant \<Rightarrow> ref \<Rightarrow> (string \<times> bytes) option \<Rightarrow> serverPool \<Rightarrow> bool \<times> serverPool" where
  "forwardUDPToClient now r read p =
     (let st = sp_connHeap p r; connID = cs_connID st
      in if \<not> cs_connected st \<or> cs_targetUDP st = None then (False, unregisterConn connID p)
         else case read of
                None \<Rightarrow> (False, unregisterConn connID p)
              | Some (addr, data) \<Rightarrow>
                  (True, if data \<noteq> [] then snd (sendDownlink now connID MsgUDPData (bytes_of_string addr) data p)
                         else p))"

section \<open>What the handlers leave alone\<close>

lemma closeTargets_frame [simp]:
  "chan_view (closeTargets st p) = chan_view p" "conn_view (closeTargets st p) = conn_view p"
  "rev_view (closeTargets st p) = rev_view p" "queue_ok (closeTargets st p) = queue_ok p"
  by (simp_all add: closeTargets_def Let_def split: option.split)

lemma rev_view_fields [simp]:
  "rev_view (p\<lparr>sp_conns := cs\<rparr>) = rev_view p" "rev_view (p\<lparr>sp_connHeap := ch\<rparr>) = rev_view p"
  "rev_view (p\<lparr>sp_nextConn := nc\<rparr>) = rev_view p" "rev_view (p\<lparr>sp_hotPairs := h\<rparr>) = rev_view p"
  "rev_view (p\<lparr>sp_prebindArmed := a\<rparr>) = rev_view p" "rev_view (p\<lparr>sp_bytesReceived := b\<rparr>) = rev_view p"
  "rev_view (p\<lparr>sp_tasks := ts\<rparr>) = rev_view p" "rev_view (p\<lparr>sp_effects := es\<rparr>) = rev_view p"
  "rev_view (p\<lparr>sp_listeners := l\<rparr>) = rev_view p"
  by (simp_all add: rev_view_def)

lemma unregisterConn_frame [simp]:
  "chan_view (unregisterConn connID p) = chan_view p" "rev_view (unregisterConn connID p) = rev_view p"
  "queue_ok (unregisterConn connID p) = queue_ok p"
  by (simp_all add: unregisterConn_def Let_def split: option.split)

lemma publishConn_frame [simp]:
  "chan_view (snd (publishConn connID st p)) = chan_view p" "rev_view (snd (publishConn connID st p)) = rev_view p"
  "queue_ok (snd (publishConn connID st p)) = queue_ok p"
  by (simp_all add: publishConn_def Let_def)

lemma promotePair_frame [simp]:
  "chan_view (snd (promotePair now c ch connID p)) = chan_view p"
  "conn_view (snd (promotePair now c ch connID p)) = conn_view p"
  "rev_view (snd (promotePair now c ch connID p)) = rev_view p"
  "queue_ok (snd (promotePair now c ch connID p)) = queue_ok p"
  by (simp_all add: promotePair_def Let_def split_def split: option.split)

lemma handleTCPConnect_frame [simp]:
  "chan_view (handleTCPConnect now c ch connID meta p) = chan_view p"
  "rev_view (handleTCPConnect now c ch connID meta p) = rev_view p"
  by (simp_all add: handleTCPConnect_def Let_def split_def split: option.split list.split)

lemma queue_ok_handleTCPConnect [inv_intros]:
  "queue_ok p \<Longrightarrow> queue_ok (handleTCPConnect now c ch connID meta p)"
  by (simp add: handleTCPConnect_def Let_def split_def queue_ok_sends split: option.split list.split)

lemma connectTarget_pieces_frame [simp]:
  "chan_view (connectTarget_err now r p) = chan_view p" "rev_view (connectTarget_err now r p) = rev_view p"
  "chan_view (connectTarget_close now r p) = chan_view p" "rev_view (connectTarget_close now r p) = rev_view p"
  "chan_view (connectTarget_forget r p) = chan_view p" "rev_view (connectTarget_forget r p) = rev_view p"
  "queue_ok (connectTarget_forget r p) = queue_ok p"
  "chan_view (snd (connectTarget_publish t r p)) = chan_view p" "rev_view (snd (connectTarget_publish t r p)) = rev_view p"
  "queue_ok (snd (connectTarget_publish t r p)) = queue_ok p"
  "chan_view (connectTarget_status now r p) = chan_view p" "rev_view (connectTarget_status now r p) = rev_view p"
  by (simp_all add: connectTarget_err_def connectTarget_close_def connectTarget_forget_def connectTarget_publish_def connectTarget_status_def)

lemma connectTarget_write_frame [simp]:
  "chan_view (snd (connectTarget_write ok r t ds p)) = chan_view p"
  "rev_view (snd (connectTarget_write ok r t ds p)) = rev_view p"
  "queue_ok (snd (connectTarget_write ok r t ds p)) = queue_ok p"
  by (cases ds; simp)+

lemma queue_ok_connectTarget [inv_intros]:
  "queue_ok p \<Longrightarrow> queue_ok (connectTarget_err now r p)" "queue_ok p \<Longrightarrow> queue_ok (connectTarget_close now r p)"
  "queue_ok p \<Longrightarrow> queue_ok (connectTarget_status now r p)"
  by (simp_all add: connectTarget_err_def connectTarget_close_def connectTarget_status_def queue_ok_sends)

lemma data_handlers_frame [simp]:
  "chan_view (handleTCPData wok ch connID payload p) = chan_view p"
  "rev_view (handleTCPData wok ch connID payload p) = rev_view p"
  "queue_ok (handleTCPData wok ch connID payload p) = queue_ok p"
  "chan_view (handleSelectDownlink c ch connID meta p) = chan_view p"
  "rev_view (handleSelectDownlink c ch connID meta p) = rev_view p"
  "queue_ok (handleSelectDownlink c ch connID meta p) = queue_ok p"
  "chan_view (handleUDPData res addr ch connID meta payload p) = chan_view p"
  "rev_view (handleUDPData res addr ch connID meta payload p) = rev_view p"
  "queue_ok (handleUDPData res addr ch connID meta payload p) = queue_ok p"
  "chan_view (handleHotPairBegin now c p) = chan_view p"
  "rev_view (handleHotPairBegin now c p) = rev_view p"
  "queue_ok (handleHotPairBegin now c p) = queue_ok p"
  by (simp_all add: handleTCPData_def handleSelectDownlink_def handleUDPData_def handleHotPairBegin_def
      Let_def split: option.split)

lemma sending_handlers_frame [simp]:
  "chan_view (forwardTargetToClient now r read p) = chan_view p"
  "rev_view (forwardTargetToClient now r read p) = rev_view p"
  "chan_view (handlePrebindRequest now c ch connID meta p) = chan_view p"
  "rev_view (handlePrebindRequest now c ch connID meta p) = rev_view p"
  "chan_view (handleUDPConnect now u c ch connID meta p) = chan_view p"
  "rev_view (handleUDPConnect now u c ch connID meta p) = rev_view p"
  "chan_view (snd (forwardUDPToClient now r uread p)) = chan_view p"
  "rev_view (snd (forwardUDPToClient now r uread p)) = rev_view p"
  by (simp_all add: forwardTargetToClient_def handlePrebindRequest_def handleUDPConnect_def
      forwardUDPToClient_def Let_def split_def split: option.split list.split)

lemma queue_ok_sending_handlers [inv_intros]:
  "queue_ok p \<Longrightarrow> queue_ok (forwardTargetToClient now r read p)"
  "queue_ok p \<Longrightarrow> queue_ok (handlePrebindRequest now c ch connID meta p)"
  "queue_ok p \<Longrightarrow> queue_ok (handleUDPConnect now u c ch connID meta p)"
  "queue_ok p \<Longrightarrow> queue_ok (snd (forwardUDPToClient now r uread p))"
  by (simp_all add: forwardTargetToClient_def handlePrebindRequest_def handleUDPConnect_def
      forwardUDPToClient_def Let_def split_def queue_ok_sends split: option.split list.split)

section \<open>The connection table\<close>

text \<open>
  A registered connection sits under its own identifier and is not closed; a closed connection
  is not connected; data waiting for the target never exceeds the 1 MB cap, and none waits once
  the target is connected.
\<close>

definition conn_state_ok :: "ServerConnState \<Rightarrow> bool" where
  "conn_state_ok st \<longleftrightarrow> pending_bytes (cs_pendingData st) \<le> pendingDataMaxSize \<and>
     (cs_targetConn st \<noteq> None \<longrightarrow> cs_pendingData st = []) \<and> (cs_closed st \<longrightarrow> \<not> cs_connected st)"

definition conn_table_ok :: "(string, ref) dict \<times> (ref \<Rightarrow> ServerConnState) \<times> nat \<Rightarrow> bool" where
  "conn_table_ok = (\<lambda>(conns, heap, next).
     dict_ok conns \<and>
     (\<forall>connID r. dict_get conns connID = Some r \<longrightarrow>
        r < next \<and> cs_connID (heap r) = connID \<and> \<not> cs_closed (heap r)) \<and>
     (\<forall>r. conn_state_ok (heap r)))"

definition conn_ok :: "serverPool \<Rightarrow> bool" where
  "conn_ok p = conn_table_ok (conn_view p)"

lemma conn_ok_view: "conn_view p = conn_view q \<Longrightarrow> conn_ok p = conn_ok q"
  by (simp add: conn_ok_def)

lemma conn_ok_sends [simp]:
  "conn_ok (snd (sendDownlink now connID mt meta payload p)) = conn_ok p"
  "conn_ok (spawn t p) = conn_ok p" "conn_ok (emit e p) = conn_ok p"
  "conn_ok (closeTargets st p) = conn_ok p" "conn_ok (snd (promotePair now c ch connID p)) = conn_ok p"
  "conn_ok (p\<lparr>sp_prebindArmed := a\<rparr>) = conn_ok p"
  by (rule conn_ok_view; simp)+

lemma conn_ok_lookup:
  "conn_ok p \<Longrightarrow> dict_get (sp_conns p) connID = Some r \<Longrightarrow>
   r < sp_nextConn p \<and> cs_connID (sp_connHeap p r) = connID \<and> \<not> cs_closed (sp_connHeap p r)"
  by (simp add: conn_ok_def conn_table_ok_def conn_view_def)

lemma conn_ok_state: "conn_ok p \<Longrightarrow> conn_state_ok (sp_connHeap p r)"
  by (simp add: conn_ok_def conn_table_ok_def conn_view_def)

lemma conn_ok_del: "conn_ok p \<Longrightarrow> conn_ok (p\<lparr>sp_conns := dict_del (sp_conns p) connID\<rparr>)"
  by (simp add: conn_ok_def conn_table_ok_def conn_view_def)

lemma conn_ok_upd:
  assumes "conn_ok p" "cs_connID (f (sp_connHeap p r)) = cs_connID (sp_connHeap p r)"
    "cs_closed (f (sp_connHeap p r)) \<Longrightarrow> (\<forall>connID. dict_get (sp_conns p) connID \<noteq> Some r) \<or> cs_closed (sp_connHeap p r)"
    "conn_state_ok (f (sp_connHeap p r))"
  shows "conn_ok (upd_conn r f p)"
  using assms by (auto simp: conn_ok_def conn_table_ok_def conn_view_def upd_conn_def)

lemma conn_ok_unregisterConn [inv_intros]: "conn_ok p \<Longrightarrow> conn_ok (unregisterConn connID p)"
proof (cases "dict_get (sp_conns p) connID")
  case (Some r)
  assume ok: "conn_ok p"
  let ?p = "p\<lparr>sp_conns := dict_del (sp_conns p) connID\<rparr>"
  note r = conn_ok_lookup [OF ok Some]
  have free: "dict_get (sp_conns ?p) connID' \<noteq> Some r" for connID'
    using conn_ok_lookup [OF ok, of connID' r] r by auto
  have ok': "conn_ok ?p" using ok by (rule conn_ok_del)
  have st: "conn_state_ok (sp_connHeap p r)" using ok by (rule conn_ok_state)
  have 1: "conn_ok (upd_conn r (cs_closed_update (\<lambda>_. True)) ?p)" if "\<not> cs_connected (sp_connHeap p r)"
    using ok' st free that by (intro conn_ok_upd) (auto simp: conn_state_ok_def)
  have 2: "conn_ok (upd_conn r (\<lambda>st. st\<lparr>cs_closed := True, cs_connected := False\<rparr>) ?p)"
    using ok' st free by (intro conn_ok_upd) (auto simp: conn_state_ok_def)
  have merge: "upd_conn r (cs_connected_update (\<lambda>_. False)) (upd_conn r (cs_closed_update (\<lambda>_. True)) q) =
      upd_conn r (\<lambda>st. st\<lparr>cs_closed := True, cs_connected := False\<rparr>) q" for q
    by (simp add: upd_conn_def)
  show ?thesis
    using 1 2 Some r by (simp add: unregisterConn_def Let_def merge)
qed (simp add: unregisterConn_def)

lemma pending_bytes_simps [simp]:
  "pending_bytes [] = 0" "pending_bytes (ds @ [d]) = pending_bytes ds + int (length d)"
  by (simp_all add: pending_bytes_def)

lemma conn_ok_publish:
  assumes "conn_ok p" "dict_get (sp_conns p) connID = None" "cs_connID st = connID" "\<not> cs_closed st"
    "conn_state_ok st"
  shows "conn_ok (snd (publishConn connID st p))"
proof -
  let ?n = "sp_nextConn p" and ?heap = "(sp_connHeap p)(sp_nextConn p := st)"
  have "conn_table_ok (dict_set (sp_conns p) connID ?n, ?heap, ?n + 1)"
    unfolding conn_table_ok_def prod.case
  proof (intro conjI allI impI)
    show "dict_ok (dict_set (sp_conns p) connID ?n)"
      using assms(1) by (simp add: conn_ok_def conn_table_ok_def conn_view_def)
    fix connID' r assume "dict_get (dict_set (sp_conns p) connID ?n) connID' = Some r"
    then have "connID' = connID \<and> r = ?n \<or> dict_get (sp_conns p) connID' = Some r"
      by (auto split: if_splits)
    then show "r < ?n + 1" "cs_connID (?heap r) = connID'" "\<not> cs_closed (?heap r)"
      using conn_ok_lookup [OF assms(1), of connID' r] assms(3,4) by auto
  qed (use assms(5) conn_ok_state [OF assms(1)] in simp)
  then show ?thesis by (simp add: conn_ok_def conn_view_def publishConn_def Let_def)
qed

lemma conn_state_ok_new:
  "cs_pendingData st = [] \<Longrightarrow> \<not> cs_closed st \<Longrightarrow> conn_state_ok st"
  by (simp add: conn_state_ok_def pendingDataMaxSize_def)

lemma newTCPConn_simps [simp]:
  "cs_connID (newTCPConn connID target ch s inb) = connID" "cs_closed (newTCPConn connID target ch s inb) = False"
  "cs_pendingData (newTCPConn connID target ch s inb) = []"
  "cs_uplinkChID (newTCPConn connID target ch s inb) = ch"
  "cs_downlinkChID (newTCPConn connID target ch s inb) = 0"
  "cs_targetConn (newTCPConn connID target ch s inb) = None"
  "cs_clientID (newTCPConn connID target ch s inb) = fst inb"
  by (simp_all add: newTCPConn_def blank_conn_def)

text \<open>Updates of the fields the table invariant does not mention.\<close>

lemma conn_ok_set_downlink [simp]: "conn_ok p \<Longrightarrow> conn_ok (upd_conn r (cs_downlinkChID_update f) p)"
  using conn_ok_state [of p r] by (auto intro!: conn_ok_upd simp: conn_state_ok_def)

lemma conn_ok_handleTCPConnect [inv_intros]:
  "conn_ok p \<Longrightarrow> conn_ok (handleTCPConnect now c ch connID meta p)"
  by (simp add: handleTCPConnect_def Let_def split_def conn_ok_publish conn_state_ok_new
      split: option.split list.split)

lemma conn_heap_sends [simp]:
  "sp_connHeap (snd (sendDownlink now connID mt meta payload p)) = sp_connHeap p"
  "sp_conns (snd (sendDownlink now connID mt meta payload p)) = sp_conns p"
  "sp_nextConn (snd (sendDownlink now connID mt meta payload p)) = sp_nextConn p"
  using core_views(2) [OF core_sendDownlink, of now connID mt meta payload p] by (simp_all add: conn_view_def)

lemma conn_ok_connectTarget [inv_intros]:
  "conn_ok p \<Longrightarrow> conn_ok (connectTarget_err now r p)" "conn_ok p \<Longrightarrow> conn_ok (connectTarget_close now r p)"
  "conn_ok p \<Longrightarrow> conn_ok (connectTarget_forget r p)" "conn_ok p \<Longrightarrow> conn_ok (snd (connectTarget_publish t r p))"
  "conn_ok p \<Longrightarrow> conn_ok (connectTarget_status now r p)" "conn_ok p \<Longrightarrow> conn_ok (snd (connectTarget_write ok r t ds p))"
proof -
  assume ok: "conn_ok p"
  then show "conn_ok (connectTarget_err now r p)" "conn_ok (connectTarget_close now r p)" "conn_ok (connectTarget_forget r p)"
    "conn_ok (connectTarget_status now r p)"
    by (simp_all add: connectTarget_err_def connectTarget_close_def connectTarget_forget_def connectTarget_status_def conn_ok_del)
  have "conn_ok (upd_conn r (\<lambda>st. st\<lparr>cs_targetConn := Some t, cs_connected := True, cs_pendingData := []\<rparr>) p)"
    if "\<not> cs_closed (sp_connHeap p r)"
    using ok that by (intro conn_ok_upd) (simp_all add: conn_state_ok_new)
  with ok show "conn_ok (snd (connectTarget_publish t r p))" by (simp add: connectTarget_publish_def)
  show "conn_ok (snd (connectTarget_write ok r t ds p))" for ok
    using \<open>conn_ok p\<close> by (cases ds) (simp_all add: conn_ok_unregisterConn)
qed

lemma conn_ok_handleTCPData [inv_intros]:
  assumes "conn_ok p"
  shows "conn_ok (handleTCPData wok ch connID payload p)"
proof -
  have "conn_ok (upd_conn r (cs_pendingData_update (\<lambda>ds. ds @ [payload])) p)"
    if "cs_targetConn (sp_connHeap p r) = None"
      "\<not> pending_bytes (cs_pendingData (sp_connHeap p r)) + int (length payload) > pendingDataMaxSize" for r
    using assms that conn_ok_state [OF assms, of r] by (intro conn_ok_upd) (auto simp: conn_state_ok_def)
  with assms show ?thesis
    by (simp add: handleTCPData_def Let_def conn_ok_unregisterConn split: option.split)
qed

lemma conn_ok_handleSelectDownlink [inv_intros]:
  "conn_ok p \<Longrightarrow> conn_ok (handleSelectDownlink c ch connID meta p)"
  by (simp add: handleSelectDownlink_def Let_def split: option.split)

lemma conn_ok_other_handlers [inv_intros]:
  "conn_ok p \<Longrightarrow> conn_ok (handleUDPData res addr ch connID meta payload p)"
  "conn_ok p \<Longrightarrow> conn_ok (handleHotPairBegin now c p)"
  "conn_ok p \<Longrightarrow> conn_ok (forwardTargetToClient now r read p)"
  "conn_ok p \<Longrightarrow> conn_ok (snd (forwardUDPToClient now r uread p))"
  by (simp_all add: handleUDPData_def handleHotPairBegin_def forwardTargetToClient_def
      forwardUDPToClient_def Let_def split_def conn_ok_unregisterConn split: option.split)

lemma conn_ok_handlePrebindRequest [inv_intros]:
  "conn_ok p \<Longrightarrow> conn_ok (handlePrebindRequest now c ch connID meta p)"
  by (simp add: handlePrebindRequest_def Let_def split_def conn_ok_publish conn_state_ok_new blank_conn_def
      split: option.split list.split)

lemma conn_ok_handleUDPConnect [inv_intros]:
  "conn_ok p \<Longrightarrow> conn_ok (handleUDPConnect now u c ch connID meta p)"
  by (simp add: handleUDPConnect_def Let_def split_def conn_ok_publish conn_state_ok_new blank_conn_def
      split: option.split list.split)

section \<open>The uplink stream\<close>

lemma effects_sendDownlink [simp]:
  "sp_effects (snd (sendDownlink now connID mt meta payload p)) = sp_effects p"
  by (rule core_fields(18) [OF core_sendDownlink])

abbreviation feed :: "chid \<Rightarrow> string \<Rightarrow> serverPool \<Rightarrow> bytes list \<Rightarrow> serverPool" where
  "feed ch connID \<equiv> foldl (\<lambda>s d. handleTCPData (\<lambda>_. True) ch connID d s)"

text \<open>Before the target is connected, data is buffered in order.\<close>

lemma feed_pending:
  assumes "dict_get (sp_conns p) connID = Some r" "cs_targetConn (sp_connHeap p r) = None"
    "cs_uplinkChID (sp_connHeap p r) = ch"
    "pending_bytes (cs_pendingData (sp_connHeap p r)) + int (length (concat ds)) \<le> pendingDataMaxSize"
  shows "feed ch connID p ds = upd_conn r (cs_pendingData_update (\<lambda>b. b @ ds)) p"
  using assms
proof (induction ds arbitrary: p)
  case (Cons d ds)
  let ?p = "upd_conn r (cs_pendingData_update (\<lambda>b. b @ [d])) p"
  have "handleTCPData (\<lambda>_. True) ch connID d p = ?p"
    using Cons.prems by (simp add: handleTCPData_def Let_def)
  moreover have "feed ch connID ?p ds = upd_conn r (cs_pendingData_update (\<lambda>b. b @ ds)) ?p"
    using Cons.prems by (intro Cons.IH) (simp_all add: upd_conn_def)
  ultimately show ?case by (simp add: upd_conn_def comp_def)
next
  case Nil
  have nil: "cs_pendingData_update (\<lambda>b. b @ []) st = st" for st by (cases st) simp
  have "upd_conn r (cs_pendingData_update (\<lambda>b. b @ [])) p = p"
    unfolding upd_conn_def nil by simp
  then show ?case by simp
qed

text \<open>Once it is connected, data goes straight to the target.\<close>

lemma feed_connected:
  assumes "dict_get (sp_conns p) connID = Some r" "cs_targetConn (sp_connHeap p r) = Some t"
    "cs_uplinkChID (sp_connHeap p r) = ch"
  shows "feed ch connID p ds = p\<lparr>sp_effects := sp_effects p @ map (TargetWrite t) ds\<rparr>"
  using assms
proof (induction ds arbitrary: p)
  case (Cons d ds)
  have "handleTCPData (\<lambda>_. True) ch connID d p = emit (TargetWrite t d) p"
    using Cons.prems by (simp add: handleTCPData_def Let_def)
  moreover have "feed ch connID (emit (TargetWrite t d) p) ds =
      (emit (TargetWrite t d) p)\<lparr>sp_effects := sp_effects (emit (TargetWrite t d) p) @ map (TargetWrite t) ds\<rparr>"
    using Cons.prems by (intro Cons.IH) (simp_all add: emit_def)
  ultimately show ?case by (simp add: emit_def)
qed simp

lemma dict_get_unregisterConn [simp]: "dict_get (sp_conns (unregisterConn connID p)) connID = None"
  by (auto simp: unregisterConn_def closeTargets_def emit_def upd_conn_def Let_def split: option.split)

lemma connect_registers:
  assumes "dict_get (sp_conns p) connID = None"
  shows "dict_get (sp_conns (handleTCPConnect now c ch connID (s # t) p)) connID = Some (sp_nextConn p)"
    "cs_uplinkChID (sp_connHeap (handleTCPConnect now c ch connID (s # t) p) (sp_nextConn p)) = ch"
    "cs_target (sp_connHeap (handleTCPConnect now c ch connID (s # t) p) (sp_nextConn p)) = string_of_bytes t"
proof -
  let ?st = "newTCPConn connID (string_of_bytes t) ch s (inboundOf p c ch)"
  let ?p = "snd (publishConn connID ?st p)"
  have view: "conn_view (snd (promotePair now c ch connID ?p)) = conn_view ?p" by simp
  then have "sp_conns (snd (promotePair now c ch connID ?p)) = dict_set (sp_conns p) connID (sp_nextConn p)"
    "sp_connHeap (snd (promotePair now c ch connID ?p)) = (sp_connHeap p)(sp_nextConn p := ?st)"
    by (simp_all add: conn_view_def publishConn_def Let_def)
  with assms show "dict_get (sp_conns (handleTCPConnect now c ch connID (s # t) p)) connID = Some (sp_nextConn p)"
    "cs_uplinkChID (sp_connHeap (handleTCPConnect now c ch connID (s # t) p) (sp_nextConn p)) = ch"
    "cs_target (sp_connHeap (handleTCPConnect now c ch connID (s # t) p) (sp_nextConn p)) = string_of_bytes t"
    by (auto simp: handleTCPConnect_def Let_def split_def spawn_def upd_conn_def publishConn_def
        newTCPConn_def split: option.splits)
qed

lemma connect_owner:
  assumes "dict_get (sp_conns p) connID = None"
  shows "cs_clientID (sp_connHeap (handleTCPConnect now c ch connID (s # t) p) (sp_nextConn p)) = fst (inboundOf p c ch)"
proof -
  let ?st = "newTCPConn connID (string_of_bytes t) ch s (inboundOf p c ch)"
  let ?p = "snd (publishConn connID ?st p)"
  have "conn_view (snd (promotePair now c ch connID ?p)) = conn_view ?p" by simp
  then have "sp_connHeap (snd (promotePair now c ch connID ?p)) = (sp_connHeap p)(sp_nextConn p := ?st)"
    by (simp add: conn_view_def publishConn_def Let_def)
  with assms show ?thesis
    by (auto simp: handleTCPConnect_def Let_def split_def spawn_def upd_conn_def publishConn_def split: option.splits)
qed

section \<open>Properties\<close>

text \<open>Property C16: the first copy of a broadcast connection request wins: it registers the connection with
  its arrival channel as uplink and its target, and any number of further copies, on whatever
  channels, leave the whole pool unchanged.\<close>

theorem first_connect_wins:
  assumes "dict_get (sp_conns p) connID = None"
    and "q = handleTCPConnect now c ch connID (strategy # t) p"
  shows "dict_get (sp_conns q) connID = Some (sp_nextConn p) \<and>
    cs_uplinkChID (sp_connHeap q (sp_nextConn p)) = ch \<and>
    cs_target (sp_connHeap q (sp_nextConn p)) = string_of_bytes t \<and>
    foldl (\<lambda>s (now', c', ch', strategy', t'). handleTCPConnect now' c' ch' connID (strategy' # t') s) q copies = q"
proof -
  note first = connect_registers [OF assms(1), of now c ch strategy t, folded assms(2)]
  have "handleTCPConnect now' c' ch' connID (strategy' # t') q = q" for now' c' ch' strategy' t'
    using first(1) by (simp add: handleTCPConnect_def Let_def)
  then have "foldl (\<lambda>s (now', c', ch', strategy', t'). handleTCPConnect now' c' ch' connID (strategy' # t') s) q copies = q"
    by (induction copies) auto
  with first show ?thesis by blast
qed

theorem first_connect_wins_witness:
  "let p = newServerPool ''t'' DefaultServerConfig
   in cs_uplinkChID (sp_connHeap (handleTCPConnect 0 ''c'' 4 ''id'' [0, 97] p) 0) = 4"
  using first_connect_wins [of "newServerPool ''t'' DefaultServerConfig" "''id''" _ 0 "''c''" 4 0 "[97]"]
  by (simp add: newServerPool_def Let_def)

text \<open>
  The connect goroutine of one connection after its dial, interleaved with data that arrives on the
  uplink: \<open>Proceeds\<close> is the next piece of the goroutine, \<open>Arrives\<close> a data frame. All writes succeed.
\<close>

datatype connect_state = Dialled nat | Published nat "bytes list" | Flushing nat "bytes list" | ConnectOver

datatype uplink_event = Arrives bytes | Proceeds

fun connect_next :: "instant \<Rightarrow> ref \<Rightarrow> connect_state \<Rightarrow> serverPool \<Rightarrow> connect_state \<times> serverPool" where
  "connect_next now r (Dialled t) p =
     (case connectTarget_publish t r p of (None, p) \<Rightarrow> (ConnectOver, p) | (Some ds, p) \<Rightarrow> (Published t ds, p))"
| "connect_next now r (Published t ds) p = (Flushing t ds, connectTarget_status now r p)"
| "connect_next now r (Flushing t ds) p =
     (case connectTarget_write True r t ds p of (None, p) \<Rightarrow> (ConnectOver, p) | (Some ds, p) \<Rightarrow> (Flushing t ds, p))"
| "connect_next now r ConnectOver p = (ConnectOver, p)"

fun uplink_run :: "instant \<Rightarrow> ref \<Rightarrow> chid \<Rightarrow> string \<Rightarrow> uplink_event list \<Rightarrow> connect_state \<Rightarrow> serverPool \<Rightarrow> connect_state \<times> serverPool" where
  "uplink_run now r ch connID [] st p = (st, p)"
| "uplink_run now r ch connID (Arrives d # es) st p = uplink_run now r ch connID es st (handleTCPData (\<lambda>_. True) ch connID d p)"
| "uplink_run now r ch connID (Proceeds # es) st p =
     (let (st, p) = connect_next now r st p in uplink_run now r ch connID es st p)"

fun arrivals :: "uplink_event list \<Rightarrow> bytes list" where
  "arrivals [] = []"
| "arrivals (Arrives d # es) = d # arrivals es"
| "arrivals (Proceeds # es) = arrivals es"

abbreviation proceeds :: "uplink_event list \<Rightarrow> nat" where
  "proceeds es \<equiv> length (filter (\<lambda>e. e = Proceeds) es)"

text \<open>The order in which the target gets the data: what arrives goes through at once.\<close>

fun merged :: "bytes list \<Rightarrow> uplink_event list \<Rightarrow> bytes list" where
  "merged ds [] = []"
| "merged ds (Arrives d # es) = d # merged ds es"
| "merged [] (Proceeds # es) = merged [] es"
| "merged (x # ds) (Proceeds # es) = x # merged ds es"

fun merged_after :: "bytes list \<Rightarrow> uplink_event list \<Rightarrow> bytes list" where
  "merged_after ds [] = []"
| "merged_after ds (Arrives d # es) = d # merged_after ds es"
| "merged_after ds (Proceeds # es) = merged ds es"

lemma merged_arrivals: "merged [] es = arrivals es"
  by (induction es rule: arrivals.induct) simp_all

lemma merged_shuffles: "length ds \<le> proceeds es \<Longrightarrow> merged ds es \<in> shuffles ds (arrivals es)"
  by (induction ds es rule: merged.induct) (auto simp: merged_arrivals intro: Cons_in_shuffles_leftI Cons_in_shuffles_rightI)

lemma merged_in_order: "length ds \<le> length (takeWhile (\<lambda>e. e = Proceeds) es) \<Longrightarrow> merged ds es = ds @ arrivals es"
  by (induction ds es rule: merged.induct) (auto simp: merged_arrivals)

lemma merged_after_shuffles: "Suc (length ds) \<le> proceeds es \<Longrightarrow> merged_after ds es \<in> shuffles ds (arrivals es)"
  by (induction ds es rule: merged_after.induct) (auto intro: merged_shuffles Cons_in_shuffles_rightI)

lemma merged_after_in_order:
  "Suc (length ds) \<le> length (takeWhile (\<lambda>e. e = Proceeds) es) \<Longrightarrow> merged_after ds es = ds @ arrivals es"
  by (cases "(ds, es)" rule: merged_after.cases) (auto intro: merged_in_order)

text \<open>A connection whose target is published: data goes straight through, and the pieces of the
  goroutine keep it so.\<close>

definition published :: "string \<Rightarrow> ref \<Rightarrow> chid \<Rightarrow> nat \<Rightarrow> serverPool \<Rightarrow> bool" where
  "published connID r ch t p \<longleftrightarrow> dict_get (sp_conns p) connID = Some r \<and> cs_targetConn (sp_connHeap p r) = Some t \<and>
     cs_uplinkChID (sp_connHeap p r) = ch"

lemma published_pieces:
  assumes "published connID r ch t p"
  shows "handleTCPData (\<lambda>_. True) ch connID d p = emit (TargetWrite t d) p"
    "published connID r ch t (emit e p)" "published connID r ch t (spawn k p)"
    "published connID r ch t (connectTarget_status now r p)" "sp_effects (connectTarget_status now r p) = sp_effects p"
  using assms by (simp_all add: published_def handleTCPData_def emit_def spawn_def connectTarget_status_def Let_def)

lemma run_over:
  assumes "published connID r ch t p"
  shows "\<exists>q. uplink_run now r ch connID es ConnectOver p = (ConnectOver, q) \<and>
    sp_effects q = sp_effects p @ map (TargetWrite t) (arrivals es)"
  using assms
proof (induction es arbitrary: p rule: arrivals.induct)
  case (2 d es)
  from 2(1) [OF published_pieces(2) [OF 2(2), of "TargetWrite t d"]] published_pieces(1) [OF 2(2)] show ?case
    by (auto simp: emit_def)
qed auto

lemma run_flushing:
  assumes "published connID r ch t p" "Suc (length ds) \<le> proceeds es"
  shows "\<exists>q. uplink_run now r ch connID es (Flushing t ds) p = (ConnectOver, q) \<and>
    sp_effects q = sp_effects p @ map (TargetWrite t) (merged ds es)"
  using assms
proof (induction ds es arbitrary: p rule: merged.induct)
  case (2 ds d es)
  from 2(1) [OF published_pieces(2) [OF 2(2), of "TargetWrite t d"]] published_pieces(1) [OF 2(2)] 2(3) show ?case
    by (auto simp: emit_def)
next
  case (3 es)
  from run_over [OF published_pieces(3) [OF 3(2), of "ForwardTarget r"], of now es] show ?case
    by (simp add: merged_arrivals spawn_def)
next
  case (4 x ds es)
  from 4(1) [OF published_pieces(2) [OF 4(2), of "TargetWrite t x"]] 4(3) show ?case by (auto simp: emit_def)
qed auto

lemma run_published:
  assumes "published connID r ch t p" "Suc (Suc (length ds)) \<le> proceeds es"
  shows "\<exists>q. uplink_run now r ch connID es (Published t ds) p = (ConnectOver, q) \<and>
    sp_effects q = sp_effects p @ map (TargetWrite t) (merged_after ds es)"
  using assms
proof (induction ds es arbitrary: p rule: merged_after.induct)
  case (2 ds d es)
  from 2(1) [OF published_pieces(2) [OF 2(2), of "TargetWrite t d"]] published_pieces(1) [OF 2(2)] 2(3) show ?case
    by (auto simp: emit_def)
next
  case (3 ds es)
  from run_flushing [OF published_pieces(4) [OF 3(1)], of ds es now now] published_pieces(5) [OF 3(1)] 3(2) show ?case by simp
qed auto

lemma run_arrivals: "uplink_run now r ch connID (map Arrives ds @ es) st p = uplink_run now r ch connID es st (feed ch connID p ds)"
  by (induction ds arbitrary: p) simp_all

text \<open>Property C15: the uplink bytes of a connection reach the target complete, but not always in order.
  Data that arrives on the uplink before the target is published (at most 1 MB) is buffered, data
  that arrives later is written at once, and the connect goroutine writes the buffered data without
  a lock. For every interleaving: nothing is lost or written twice, and each of the two parts keeps
  its order; the whole stream is in order if all the buffered data is written before more arrives;
  but a chunk that arrives right after the target is published is written before all buffered
  data.\<close>

theorem uplink_stream_complete:
  assumes "dict_get (sp_conns p) connID = Some r" "conn_ok p"
    "cs_targetConn (sp_connHeap p r) = None" "cs_pendingData (sp_connHeap p r) = []"
    "cs_uplinkChID (sp_connHeap p r) = ch" "int (length (concat early)) \<le> pendingDataMaxSize"
    and "length early + 2 \<le> length (filter (\<lambda>e. e = Proceeds) es)"
  shows "\<exists>q ws. uplink_run now r ch connID (map Arrives early @ Proceeds # es) (Dialled t) p = (ConnectOver, q) \<and>
    sp_effects q = sp_effects p @ map (TargetWrite t) ws \<and> ws \<in> shuffles early (arrivals es) \<and>
    (length early + 1 \<le> length (takeWhile (\<lambda>e. e = Proceeds) es) \<longrightarrow> ws = early @ arrivals es) \<and>
    (\<forall>d fs. es = Arrives d # fs \<longrightarrow> hd ws = d)"
proof -
  let ?p = "upd_conn r (cs_pendingData_update (\<lambda>b. b @ early)) p"
  let ?q = "upd_conn r (\<lambda>st. st\<lparr>cs_targetConn := Some t, cs_connected := True, cs_pendingData := []\<rparr>) ?p"
  have early: "feed ch connID p early = ?p" using assms by (intro feed_pending) simp_all
  have pub: "connectTarget_publish t r ?p = (Some early, ?q)"
    using conn_ok_lookup [OF assms(2,1)] assms(4) by (simp add: connectTarget_publish_def upd_conn_def)
  have "published connID r ch t ?q" using assms(1,5) by (simp add: published_def upd_conn_def)
  from run_published [OF this, of early es now] assms(7) obtain q where
    "uplink_run now r ch connID es (Published t early) ?q = (ConnectOver, q)"
    "sp_effects q = sp_effects ?q @ map (TargetWrite t) (merged_after early es)" by auto
  then have q: "uplink_run now r ch connID (map Arrives early @ Proceeds # es) (Dialled t) p = (ConnectOver, q)"
    "sp_effects q = sp_effects p @ map (TargetWrite t) (merged_after early es)"
    by (simp_all add: run_arrivals early pub) (simp add: upd_conn_def)
  have "merged_after early es \<in> shuffles early (arrivals es)" by (rule merged_after_shuffles) (use assms(7) in simp)
  moreover have "merged_after early es = early @ arrivals es" if "length early + 1 \<le> length (takeWhile (\<lambda>e. e = Proceeds) es)"
    by (rule merged_after_in_order) (use that in simp)
  ultimately show ?thesis using q by (intro exI [of _ q] exI [of _ "merged_after early es"]) auto
qed

text \<open>Two chunks are buffered; a third that arrives after the target is published overtakes them.\<close>

theorem uplink_stream_complete_witness:
  "\<exists>p q ws. uplink_run 0 0 1 ''id'' (map Arrives [[1, 2], [3]] @ Proceeds # Arrives [4] # replicate 4 Proceeds) (Dialled 9) p = (ConnectOver, q) \<and>
     sp_effects q = sp_effects p @ map (TargetWrite 9) ws \<and> ws \<in> shuffles [[1, 2], [3]] [[4]] \<and> hd ws = [4]"
proof -
  let ?n = "newServerPool ''t'' DefaultServerConfig"
  let ?p = "handleTCPConnect 0 ''c'' 1 ''id'' [0, 97] ?n"
  have new: "sp_conns ?n = []" "sp_nextConn ?n = 0" "sp_wsConns ?n = []" "sp_clientChConns ?n = []" "conn_ok ?n"
    by (simp_all add: newServerPool_def Let_def conn_ok_def conn_table_ok_def conn_view_def
        conn_state_ok_def blank_conn_def pendingDataMaxSize_def)
  have ok: "conn_ok ?p" using new(5) by (rule conn_ok_handleTCPConnect)
  note reg = connect_registers [of ?n "''id''" 0 "''c''" 1 0 "[97]", unfolded new, simplified]
  have "SplitHotPairConnID ''id'' = None"
    by (simp add: SplitHotPairConnID_def IndexByte_def hotPairKeyPrefix_def hotPairConnIDSep_def)
  then have st: "cs_targetConn (sp_connHeap ?p 0) = None" "cs_pendingData (sp_connHeap ?p 0) = []"
    by (simp_all add: handleTCPConnect_def promotePair_def Let_def split_def new spawn_def)
      (simp_all add: publishConn_def Let_def new)
  let ?es = "Arrives [4] # replicate 4 Proceeds"
  have "int (length (concat [[1, 2], [3 :: byte]])) \<le> pendingDataMaxSize" "length [[1, 2], [3 :: byte]] + 2 \<le> proceeds ?es"
    "arrivals ?es = [[4]]"
    by (simp_all add: pendingDataMaxSize_def eval_nat_numeral)
  with uplink_stream_complete [OF reg(1) ok st reg(2), of "[[1, 2], [3]]" ?es 0 9] show ?thesis by (metis (no_types, lifting))
qed

text \<open>Property C22: a downlink choice is honoured once and only soundly: a selection changes at most the
  downlink field of the connection, only while none is chosen, only if it came over the uplink
  channel, and the channel it installs is a live one of the sender that does not belong to a
  client other than the connection's owner.\<close>

theorem select_downlink_sound:
  assumes "dict_get (sp_conns p) connID = Some r"
    and "sp_connHeap (handleSelectDownlink c ch connID meta p) r \<noteq> sp_connHeap p r"
  shows "let st = sp_connHeap p r;
             down = cs_downlinkChID (sp_connHeap (handleSelectDownlink c ch connID meta p) r)
    in handleSelectDownlink c ch connID meta p = upd_conn r (cs_downlinkChID_update (\<lambda>_. down)) p \<and>
       cs_downlinkChID st = 0 \<and> (0 < cs_uplinkChID st \<longrightarrow> ch = cs_uplinkChID st) \<and>
       channelAliveForClient p c down \<and>
       (\<forall>w. channel_ref p c down = Some w \<and> cs_clientID st \<noteq> '''' \<and> ws_clientID (sp_wsHeap p w) \<noteq> '''' \<longrightarrow>
          ws_clientID (sp_wsHeap p w) = cs_clientID st)"
proof -
  let ?d = "selectedDownlink ch meta" and ?st = "sp_connHeap p r"
  let ?q = "handleSelectDownlink c ch connID meta p"
  obtain w where w: "channel_ref p c ?d = Some w" "\<not> ws_closed (sp_wsHeap p w)"
    "\<not> (cs_uplinkChID ?st > 0 \<and> ch \<noteq> cs_uplinkChID ?st)"
    "\<not> (cs_clientID ?st \<noteq> '''' \<and> ws_clientID (sp_wsHeap p w) \<noteq> '''' \<and> ws_clientID (sp_wsHeap p w) \<noteq> cs_clientID ?st)"
    "cs_downlinkChID ?st = 0"
    using assms unfolding handleSelectDownlink_def Let_def by (simp only: split: option.splits if_splits) simp_all
  then have q: "?q = upd_conn r (cs_downlinkChID_update (\<lambda>_. ?d)) p"
    using assms(1) unfolding handleSelectDownlink_def Let_def by (simp only: option.case if_False if_True simp_thms) 
  then have down: "cs_downlinkChID (sp_connHeap ?q r) = ?d" by (simp add: upd_conn_def)
  show ?thesis
    unfolding Let_def down using w q by (auto simp: channelAliveForClient_def)
qed

theorem select_downlink_sound_witness:
  "let w = blank_ws\<lparr>ws_chID := 2, ws_clientID := ''c'', ws_closed := False\<rparr>;
       p = (newServerPool ''t'' DefaultServerConfig)\<lparr>sp_clientChConns := [(''c'', [(2, 0)])],
             sp_wsHeap := (\<lambda>_. w), sp_conns := [(''id'', 0)],
             sp_connHeap := (\<lambda>_. newTCPConn ''id'' ''h:1'' 1 0 (''c'', ''a''))\<rparr>
   in cs_downlinkChID (sp_connHeap (handleSelectDownlink ''c'' 1 ''id'' [0, 0, 0, 2] p) 0) = 2 \<and>
      channelAliveForClient p ''c'' 2"
proof -
  let ?w = "blank_ws\<lparr>ws_chID := 2, ws_clientID := ''c'', ws_closed := False\<rparr>"
  let ?p = "(newServerPool ''t'' DefaultServerConfig)\<lparr>sp_clientChConns := [(''c'', [(2, 0)])],
             sp_wsHeap := (\<lambda>_. ?w), sp_conns := [(''id'', 0)],
             sp_connHeap := (\<lambda>_. newTCPConn ''id'' ''h:1'' 1 0 (''c'', ''a''))\<rparr>"
  let ?q = "handleSelectDownlink ''c'' 1 ''id'' [0, 0, 0, 2] ?p"
  have q: "cs_downlinkChID (sp_connHeap ?q 0) = 2"
    by (simp add: handleSelectDownlink_def selectedDownlink_def Uint32_def channel_ref_def upd_conn_def Let_def)
  then have "sp_connHeap ?q 0 \<noteq> sp_connHeap ?p 0" by auto
  from select_downlink_sound [of ?p "''id''" 0, OF _ this] q show ?thesis by (simp add: Let_def)
qed

text \<open>Fact: a hot pair needs no path selection. When the request's identifier carries the key of a
  live pair whose first channel is the arrival channel and whose second is alive, the connection
  is registered with both channels set, and no channel of any client gets a frame: every write
  queue is as before.\<close>

theorem hot_path_needs_no_selection:
  assumes "dict_get (sp_conns p) connID = None" "SplitHotPairConnID connID = Some (key, sfx)"
    "fst (Lookup (sp_hotPairs p) c key now) = Some e" "he_ChA e = ch"
    "channelAliveForClient p c (he_ChB e)"
    and "q = handleTCPConnect now c ch connID (strategy # t) p"
  shows "cs_uplinkChID (sp_connHeap q (sp_nextConn p)) = ch \<and>
    cs_downlinkChID (sp_connHeap q (sp_nextConn p)) = he_ChB e \<and>
    sp_wsHeap q = sp_wsHeap p \<and> sp_globalQueueBytes q = sp_globalQueueBytes p"
proof -
  let ?p = "snd (publishConn connID (newTCPConn connID (string_of_bytes t) ch strategy (inboundOf p c ch)) p)"
  have alive: "channelAliveForClient (?p\<lparr>sp_hotPairs := h\<rparr>) c (he_ChB e)" for h
    using assms(5) by (cases "channel_ref p c (he_ChB e)")
      (simp_all add: channelAliveForClient_def channel_ref_def publishConn_def Let_def)
  have hot: "sp_hotPairs ?p = sp_hotPairs p" by (simp add: publishConn_def Let_def)
  show ?thesis
    unfolding assms(6) using assms(1-4) alive
    by (simp add: handleTCPConnect_def promotePair_def Let_def split_def hot)
      (simp add: upd_conn_def spawn_def publishConn_def Let_def)
qed

theorem hot_path_needs_no_selection_witness:
  "let w = blank_ws\<lparr>ws_chID := 2, ws_clientID := ''c'', ws_closed := False\<rparr>;
       p = (newServerPool ''t'' DefaultServerConfig)\<lparr>sp_clientChConns := [(''c'', [(2, 0)])],
             sp_wsHeap := (\<lambda>_. w),
             sp_hotPairs := [(''c'', [(''prebind-1'', \<lparr>he_Key = ''prebind-1'', he_ChA = 1, he_ChB = 2, he_At = 0\<rparr>)])]\<rparr>
   in cs_downlinkChID (sp_connHeap (handleTCPConnect 5 ''c'' 1 (HotPairConnID ''prebind-1'' ''x'') [0, 97] p) 0) = 2"
proof -
  let ?w = "blank_ws\<lparr>ws_chID := 2, ws_clientID := ''c'', ws_closed := False\<rparr>"
  let ?e = "\<lparr>he_Key = ''prebind-1'', he_ChA = 1, he_ChB = 2, he_At = 0\<rparr>"
  let ?p = "(newServerPool ''t'' DefaultServerConfig)\<lparr>sp_clientChConns := [(''c'', [(2, 0)])],
             sp_wsHeap := (\<lambda>_. ?w), sp_hotPairs := [(''c'', [(''prebind-1'', ?e)])]\<rparr>"
  have split: "SplitHotPairConnID (HotPairConnID ''prebind-1'' ''x'') = Some (''prebind-1'', ''x'')"
    by (rule SplitHotPairConnID_HotPairConnID) (simp_all add: hotPairConnIDSep_def hotPairKeyPrefix_def)
  have "fst (Lookup (sp_hotPairs ?p) ''c'' ''prebind-1'' 5) = Some ?e"
    by (simp add: Lookup_def expired_def hotPairEntryTTL_def time_Second_def)
  moreover have "channelAliveForClient ?p ''c'' 2" by (simp add: channelAliveForClient_def channel_ref_def)
  ultimately show ?thesis
    using hot_path_needs_no_selection [of ?p "HotPairConnID ''prebind-1'' ''x''" "''prebind-1''" "''x''" "''c''" 5 ?e 1 _ 0 "[97]"] split
    by (simp add: newServerPool_def Let_def)
qed

text \<open>Fact: when the target closes the stream, the client is not told: the deferred unregistration
  runs before the deferred close notice, whose lookup then finds no connection, so the whole
  effect of the failed read is the unregistration and no channel gets a frame.\<close>

theorem close_notice_never_sent:
  "forwardTargetToClient now r None p = unregisterConn (cs_connID (sp_connHeap p r)) p \<and>
   sp_wsHeap (forwardTargetToClient now r None p) = sp_wsHeap p"
proof -
  have "forwardTargetToClient now r None p = unregisterConn (cs_connID (sp_connHeap p r)) p"
    by (simp add: forwardTargetToClient_def Let_def sendDownlink_def)
  moreover have "sp_wsHeap (unregisterConn connID p) = sp_wsHeap p" for connID
    by (simp add: unregisterConn_def closeTargets_def emit_def upd_conn_def Let_def split: option.split)
  ultimately show ?thesis by simp
qed

text \<open>Fact: a failed dial forgets the identifier, not the connection: if the connection whose dial
  failed was already replaced in the table by a newer one under the same identifier, the newer
  one is removed from the table although it is neither closed nor disconnected.\<close>

theorem stale_dial_failure_evicts_successor:
  assumes "dict_get (sp_conns p) connID = Some r'" "r' \<noteq> r" "cs_connID (sp_connHeap p r) = connID"
  shows "dict_get (sp_conns (connectTarget_done now wok None r p)) connID = None \<and>
    sp_connHeap (connectTarget_done now wok None r p) r' = sp_connHeap p r'"
  using assms by (simp add: connectTarget_done_def connectTarget_err_def connectTarget_close_def connectTarget_forget_def)

theorem stale_dial_failure_evicts_successor_witness:
  "let p = (newServerPool ''t'' DefaultServerConfig)\<lparr>sp_conns := [(''id'', 1)], sp_nextConn := 2,
             sp_connHeap := (\<lambda>_. newTCPConn ''id'' ''h:1'' 1 0 (''c'', ''a''))\<rparr>
   in dict_get (sp_conns (connectTarget_done 0 (\<lambda>_. True) None 0 p)) ''id'' = None"
  using stale_dial_failure_evicts_successor [of "(newServerPool ''t'' DefaultServerConfig)
      \<lparr>sp_conns := [(''id'', 1)], sp_nextConn := 2,
       sp_connHeap := (\<lambda>_. newTCPConn ''id'' ''h:1'' 1 0 (''c'', ''a''))\<rparr>" "''id''" 1 0 0 "\<lambda>_. True"]
  by (simp add: Let_def)

end
