(* ===== verification/Server_Pool.thy ===== *)
theory Server_Pool
  imports Server_Handler
begin

text \<open>
  The server pool as a whole (\<^verbatim>\<open>src/server_pool.go\<close>, the loops and \<^verbatim>\<open>close\<close> of
  \<^verbatim>\<open>src/connection.go\<close>): admission and registration of channels, message dispatch, channel
  clean-up, shutdown, and the step relation of the running server, with the invariant that every
  reachable state satisfies.
\<close>

section \<open>Channel numbers\<close>

function allocLoop :: "serverPool \<Rightarrow> string \<Rightarrow> int \<Rightarrow> int" where
  "allocLoop p clientID i =
     (if i > maxAllowedChID then 0
      else if \<not> ws_live p (channel_ref p clientID i) then i
      else allocLoop p clientID (i + 1))"
  by pat_completeness auto
termination
  by (relation "measure (\<lambda>(p, c, i). nat (maxAllowedChID + 1 - i))") auto

declare allocLoop.simps [simp del]

definition allocClientChIDLocked :: "serverPool \<Rightarrow> string \<Rightarrow> int" where
  "allocClientChIDLocked p clientID = allocLoop p clientID 1"

section \<open>Admission and registration\<close>

text \<open>\<^verbatim>\<open>fmt.Sscanf(s, "%d", &n)\<close> on ASCII input: leading blanks, an optional sign, decimal digits; the
  rest of the input is ignored and a value outside \<^verbatim>\<open>int\<close> is an error.\<close>

definition is_blank :: "char \<Rightarrow> bool" where
  "is_blank c \<longleftrightarrow> c \<in> {CHR '' '', CHR 0x09, CHR 0x0B, CHR 0x0C, CHR 0x0D}"

definition is_digit :: "char \<Rightarrow> bool" where
  "is_digit c \<longleftrightarrow> 48 \<le> (of_char c :: nat) \<and> (of_char c :: nat) \<le> 57"

definition digits_value :: "string \<Rightarrow> int" where
  "digits_value ds = foldl (\<lambda>n c. n * 10 + (int (of_char c) - 48)) 0 ds"

definition Sscanf_d :: "string \<Rightarrow> int option" where
  "Sscanf_d s =
     (let s = dropWhile is_blank s;
          neg = (s \<noteq> [] \<and> hd s = CHR ''-'');
          s = (if s \<noteq> [] \<and> hd s \<in> {CHR ''-'', CHR ''+''} then tl s else s);
          ds = takeWhile is_digit s;
          v = (if neg then - digits_value ds else digits_value ds)
      in if ds = [] \<or> v < - (2 ^ 63) \<or> v \<ge> 2 ^ 63 then None else Some v)"

record ws_request =
  rq_protocols :: "string list"
  rq_clientID :: string
  rq_chID :: string
  rq_remoteAddr :: string

datatype http_status = StatusUnauthorized | StatusBadRequest | StatusTooManyRequests

definition limits_hit :: "serverPool \<Rightarrow> int \<times> int \<Rightarrow> bool" where
  "limits_hit p counts \<longleftrightarrow>
     sc_MaxTotalChannels (sp_config p) > 0 \<and> fst counts \<ge> sc_MaxTotalChannels (sp_config p) \<or>
     sc_MaxChannelsPerClient (sp_config p) > 0 \<and> snd counts \<ge> sc_MaxChannelsPerClient (sp_config p)"

text \<open>The checks before the upgrade: the client and channel number to register, or the HTTP
  status of the refusal.\<close>

definition handleWebSocket_admit :: "string \<Rightarrow> ws_request \<Rightarrow> serverPool \<Rightarrow> http_status + (string \<times> chid)" where
  "handleWebSocket_admit uuid rq p =
     (if rq_protocols rq = [] \<or> hd (rq_protocols rq) \<noteq> sp_token p then Inl StatusUnauthorized
      else
        let clientID = (if rq_clientID rq = '''' then uuid else rq_clientID rq);
            requested =
              (if rq_chID rq \<noteq> '''' then
                 (case Sscanf_d (rq_chID rq) of
                    None \<Rightarrow> Inl StatusBadRequest
                  | Some ch \<Rightarrow> if ch \<le> 0 \<or> ch > maxAllowedChID then Inl StatusBadRequest else Inr ch)
               else let ch = allocClientChIDLocked p clientID
                    in if ch = 0 then Inl StatusTooManyRequests else Inr ch)
        in case requested of
             Inl e \<Rightarrow> Inl e
           | Inr chID \<Rightarrow>
               if limits_hit p (countActiveChannels p clientID) then Inl StatusTooManyRequests
               else Inr (clientID, chID))"

datatype register_result = ClosedLimit | ClosedInUse | Registered ref

definition newServerWSConn :: "string \<Rightarrow> chid \<Rightarrow> string \<Rightarrow> ServerWSConn" where
  "newServerWSConn clientID chID remoteAddr =
     blank_ws\<lparr>ws_chID := chID, ws_clientID := clientID, ws_remoteAddr := remoteAddr,
       ws_closed := False, ws_writeChan := True, ws_loop := LoopPending, ws_socketOpen := True\<rparr>"

text \<open>The critical section after the upgrade.\<close>

definition handleWebSocket_register ::
  "string \<Rightarrow> chid \<Rightarrow> string \<Rightarrow> serverPool \<Rightarrow> register_result \<times> serverPool" where
  "handleWebSocket_register clientID chID remoteAddr p =
     (if limits_hit p (countActiveChannelsLocked p clientID) then (ClosedLimit, p)
      else if ws_live p (channel_ref p clientID chID) then (ClosedInUse, p)
      else let r = sp_nextWS p;
               m = (case dict_get (sp_clientChConns p) clientID of None \<Rightarrow> [] | Some m \<Rightarrow> m)
           in (Registered r,
               p\<lparr>sp_nextWS := r + 1,
                 sp_wsHeap := (sp_wsHeap p)(r := newServerWSConn clientID chID remoteAddr),
                 sp_clientChConns := dict_set (sp_clientChConns p) clientID (dict_set m chID r),
                 sp_wsConns := sp_wsConns p @ [Some r]\<rparr>))"

datatype ws_result = Refused http_status | UpgradeFailed | Upgraded register_result

definition handleWebSocket :: "string \<Rightarrow> bool \<Rightarrow> ws_request \<Rightarrow> serverPool \<Rightarrow> ws_result \<times> serverPool" where
  "handleWebSocket uuid upgrade_ok rq p =
     (case handleWebSocket_admit uuid rq p of
        Inl e \<Rightarrow> (Refused e, p)
      | Inr (clientID, chID) \<Rightarrow>
          if \<not> upgrade_ok then (UpgradeFailed, p)
          else let (res, p) = handleWebSocket_register clientID chID (rq_remoteAddr rq) p
               in (Upgraded res, p))"

section \<open>Losing a channel\<close>

fun nilFirst :: "ref \<Rightarrow> ref option list \<Rightarrow> ref option list" where
  "nilFirst r [] = []"
| "nilFirst r (x # xs) = (if x = Some r then None # xs else x # nilFirst r xs)"

text \<open>The part of \<^verbatim>\<open>cleanupChannel\<close> under the pool's lock: the table entries. The result is the
  channel that was registered and whether the client has no channel left.\<close>

definition cleanup_tables :: "string \<Rightarrow> chid \<Rightarrow> serverPool \<Rightarrow> (ref option \<times> bool) \<times> serverPool" where
  "cleanup_tables clientID chID p =
     (case dict_get (sp_clientChConns p) clientID of
        None \<Rightarrow> ((None, False), p)
      | Some m \<Rightarrow>
          let wsConn = dict_get m chID;
              m = dict_del m chID;
              gone = (m = []);
              p = (if gone then p\<lparr>sp_clientChConns := dict_del (sp_clientChConns p) clientID,
                                  sp_prebindArmed := dict_del (sp_prebindArmed p) clientID\<rparr>
                   else p\<lparr>sp_clientChConns := dict_set (sp_clientChConns p) clientID m\<rparr>);
              p = (case wsConn of None \<Rightarrow> p | Some r \<Rightarrow> p\<lparr>sp_wsConns := nilFirst r (sp_wsConns p)\<rparr>)
          in ((wsConn, gone), p))"

text \<open>The connections that use the channel.\<close>

definition connsUsing :: "string \<Rightarrow> chid \<Rightarrow> serverPool \<Rightarrow> string list" where
  "connsUsing clientID chID p =
     map fst (filter (\<lambda>(_, r). let st = sp_connHeap p r
        in cs_clientID st = clientID \<and> (cs_uplinkChID st = chID \<or> cs_downlinkChID st = chID)) (sp_conns p))"

definition revConnsUsing :: "string \<Rightarrow> chid \<Rightarrow> serverPool \<Rightarrow> string list" where
  "revConnsUsing clientID chID p =
     map fst (filter (\<lambda>(_, r). let rc = sp_revHeap p r
        in rc_ownerClientID rc = clientID \<and> (rc_sendCh rc = wrap32 chID \<or> rc_recvCh rc = wrap32 chID)) (sp_revConns p))"

definition closeWS :: "ref \<Rightarrow> serverPool \<Rightarrow> serverPool" where
  "closeWS r p =
     (if ws_closed (sp_wsHeap p r) then p
      else upd_ws r (\<lambda>w. w\<lparr>ws_closed := True, ws_writeChan := False, ws_socketOpen := False\<rparr>) p)"

text \<open>The whole clean-up when nothing else runs meanwhile; its pieces as the code releases the locks
  follow.\<close>

definition cleanupChannel :: "string \<Rightarrow> chid \<Rightarrow> serverPool \<Rightarrow> serverPool" where
  "cleanupChannel clientID chID p =
     (let ((wsConn, clientGone), p) = cleanup_tables clientID chID p;
          p = foldl (\<lambda>p connID. unregisterConn connID p) p (connsUsing clientID chID p);
          p = foldl (\<lambda>p connID. removeReverseConn connID p) p (revConnsUsing clientID chID p);
          p = p\<lparr>sp_hotPairs := (if clientGone then InvalidateClient (sp_hotPairs p) clientID
                                else InvalidateChannel (sp_hotPairs p) chID)\<rparr>;
          p = (if clientGone then ShutdownClient clientID p else p)
      in case wsConn of None \<Rightarrow> p | Some r \<Rightarrow> closeWS r p)"

definition cleanup_start :: "string \<Rightarrow> chid \<Rightarrow> serverPool \<Rightarrow> serverPool" where
  "cleanup_start clientID chID p =
     (let ((wsConn, clientGone), p) = cleanup_tables clientID chID p
      in spawn (CleanUp clientID chID wsConn clientGone (CleanConns (connsUsing clientID chID p))) p)"

fun cleanup_next ::
  "string \<Rightarrow> chid \<Rightarrow> ref option \<Rightarrow> bool \<Rightarrow> cleanup_pc \<Rightarrow> serverPool \<Rightarrow> cleanup_pc option \<times> serverPool" where
  "cleanup_next clientID chID wsConn clientGone (CleanConns (connID # ids)) p = (Some (CleanConns ids), unregisterConn connID p)"
| "cleanup_next clientID chID wsConn clientGone (CleanConns []) p = (Some (CleanRevs (revConnsUsing clientID chID p)), p)"
| "cleanup_next clientID chID wsConn clientGone (CleanRevs (connID # ids)) p = (Some (CleanRevs ids), removeReverseConn connID p)"
| "cleanup_next clientID chID wsConn clientGone (CleanRevs []) p = (Some CleanPairs, p)"
| "cleanup_next clientID chID wsConn clientGone CleanPairs p =
     (Some CleanListeners, p\<lparr>sp_hotPairs := (if clientGone then InvalidateClient (sp_hotPairs p) clientID
                                             else InvalidateChannel (sp_hotPairs p) chID)\<rparr>)"
| "cleanup_next clientID chID wsConn clientGone CleanListeners p =
     (Some CleanSocket, if clientGone then ShutdownClient clientID p else p)"
| "cleanup_next clientID chID wsConn clientGone CleanSocket p =
     (None, case wsConn of None \<Rightarrow> p | Some r \<Rightarrow> closeWS r p)"

text \<open>\<^verbatim>\<open>close\<close>: the flag and the socket first, the clean-up afterwards. Between the two the channel
  number can be taken over, so the halves are separate steps; \<open>close_ws\<close> runs them in a row.\<close>

definition closeFrame :: bytes where
  "closeFrame = PutUint16 1000"

definition close_begin :: "ref \<Rightarrow> serverPool \<Rightarrow> bool \<times> serverPool" where
  "close_begin r p =
     (if ws_closed (sp_wsHeap p r) then (False, p)
      else (True, upd_ws r (\<lambda>w. w\<lparr>ws_closed := True, ws_writeChan := False,
                    ws_out := ws_out w @ [(CloseMessage, closeFrame)], ws_socketOpen := False\<rparr>) p))"

definition close_finish :: "ref \<Rightarrow> serverPool \<Rightarrow> serverPool" where
  "close_finish r p = cleanupChannel (ws_clientID (sp_wsHeap p r)) (ws_chID (sp_wsHeap p r)) p"

definition close_ws :: "ref \<Rightarrow> serverPool \<Rightarrow> serverPool" where
  "close_ws r p = (let (started, p) = close_begin r p in if started then close_finish r p else p)"

definition Shutdown :: "serverPool \<Rightarrow> serverPool" where
  "Shutdown p =
     (let p = Listeners_Shutdown p;
          conns = non_nil (sp_wsConns p)
      in foldl (\<lambda>p r. close_ws r p) p conns)"

section \<open>The write loop\<close>

definition writeLoop_start :: "ref \<Rightarrow> serverPool \<Rightarrow> serverPool" where
  "writeLoop_start r p =
     upd_ws r (\<lambda>w. w\<lparr>ws_loop := (if ws_writeChan w then LoopRunning else LoopDone)\<rparr>) p"

definition writeLoop_exit :: "instant \<Rightarrow> ref \<Rightarrow> serverPool \<Rightarrow> serverPool" where
  "writeLoop_exit now r p = upd_ws r (ws_loop_update (\<lambda>_. LoopDone)) (drain now r p)"

text \<open>One round with a task; \<open>ok\<close> is the outcome of the socket write. A receive from the closed and
  empty channel ends the loop.\<close>

definition writeLoop_task :: "bool \<Rightarrow> instant \<Rightarrow> ref \<Rightarrow> serverPool \<Rightarrow> serverPool" where
  "writeLoop_task ok now r p =
     (case ws_queue (sp_wsHeap p r) of
        [] \<Rightarrow> if ws_writeChan (sp_wsHeap p r) then p else writeLoop_exit now r p
      | t # _ \<Rightarrow>
          let p = dequeue now r t p;
              (fine, p) = writeDirect r (wt_msgType t) (wt_data t) ok p
          in if fine then p else writeLoop_exit now r (close_ws r p))"

definition writeLoop_ping :: "bool \<Rightarrow> instant \<Rightarrow> ref \<Rightarrow> serverPool \<Rightarrow> serverPool" where
  "writeLoop_ping ok now r p =
     (let (fine, p) = writeDirect r PingMessage [] ok p
      in if fine then p else writeLoop_exit now r (close_ws r p))"

text \<open>The end of the loop after a failed write, when other goroutines run meanwhile: the close begins,
  its clean-up and the draining of the queue are left as tasks.\<close>

definition writeLoop_broken :: "ref \<Rightarrow> serverPool \<Rightarrow> serverPool" where
  "writeLoop_broken r p =
     (let (started, p) = close_begin r p;
          p = upd_ws r (ws_loop_update (\<lambda>_. LoopDone)) p;
          p = (if started then spawn (FinishClose r) p else p)
      in spawn (ExitLoop r) p)"

section \<open>Dispatch\<close>

text \<open>What a message handler learns from outside the server: outcomes of writes to the target and
  to a reverse pipe, of opening a UDP socket, of starting a listener, and address resolution.\<close>

record server_env =
  env_target_ok :: "bytes \<Rightarrow> bool"
  env_pipe_ok :: bool
  env_udp_socket :: "nat option"
  env_start :: "string \<Rightarrow> string \<Rightarrow> string \<Rightarrow> string \<Rightarrow> string + nat"
  env_resolve :: "string \<Rightarrow> byte \<Rightarrow> string"
  env_udp_addr :: "string \<Rightarrow> string option"

definition handleMessage ::
  "server_env \<Rightarrow> instant \<Rightarrow> string \<Rightarrow> chid \<Rightarrow> int \<Rightarrow> MessageType \<Rightarrow> string \<Rightarrow> bytes \<Rightarrow> bytes
     \<Rightarrow> serverPool \<Rightarrow> serverPool" where
  "handleMessage env now clientID chID rawLen msgType connID meta payload p =
     (let p = addReceivedBytes rawLen p
      in case getReverseConn p connID of
           Some r \<Rightarrow>
             if rc_ownerClientID (sp_revHeap p r) \<noteq> clientID then p
             else handleReverseMessage (env_pipe_ok env) now clientID chID msgType connID meta payload p
         | None \<Rightarrow>
             if msgType = MsgHotPairNotify then
               p\<lparr>sp_hotPairs := HandleNotify (sp_hotPairs p) clientID payload now\<rparr>
             else if msgType = MsgReverseListen then
               HandleReverseListen (env_start env) now clientID chID connID meta p
             else if msgType = MsgTCPConnect then handleTCPConnect now clientID chID connID meta p
             else if msgType = MsgTCPData then handleTCPData (env_target_ok env) chID connID payload p
             else if msgType = MsgSelectDownlink then handleSelectDownlink clientID chID connID meta p
             else if msgType = MsgTCPClose then handleTCPClose connID p
             else if msgType = MsgPrebindRequest then handlePrebindRequest now clientID chID connID meta p
             else if msgType = MsgHotPairBegin then handleHotPairBegin now clientID p
             else if msgType = MsgUDPConnect then
               handleUDPConnect now (env_udp_socket env) clientID chID connID meta p
             else if msgType = MsgUDPData then
               handleUDPData (env_resolve env) (env_udp_addr env) chID connID meta payload p
             else if msgType = MsgUDPClose then handleUDPClose connID p
             else p)"

text \<open>One round of the read loop with a message; other message types and undecodable frames are
  skipped. A failed read closes the channel.\<close>

definition readLoop_message :: "server_env \<Rightarrow> instant \<Rightarrow> ref \<Rightarrow> int \<Rightarrow> bytes \<Rightarrow> serverPool \<Rightarrow> serverPool" where
  "readLoop_message env now r mt msg p =
     (if mt \<noteq> BinaryMessage then p
      else case DecodeMessage msg of
             Some (Inr f) \<Rightarrow>
               handleMessage env now (ws_clientID (sp_wsHeap p r)) (ws_chID (sp_wsHeap p r))
                 (int (length msg)) (f_type f) (f_connID f) (f_meta f) (f_payload f) p
           | _ \<Rightarrow> p)"

definition readLoop_end :: "ref \<Rightarrow> serverPool \<Rightarrow> serverPool" where
  "readLoop_end r p = (if ws_closed (sp_wsHeap p r) then p else close_ws r p)"

section \<open>The channel table\<close>

text \<open>
  The table maps each client's channel numbers, from 1 to 65535, to the channels that carry
  them; registered channels are listed, every live listed channel is registered, so two live
  channels never share a client and a number; no client has an empty table; and the configured
  limits hold.
\<close>

definition within_limits :: "serverPool \<Rightarrow> bool" where
  "within_limits p \<longleftrightarrow>
     (sc_MaxTotalChannels (sp_config p) > 0 \<longrightarrow> int (length (live_refs p)) \<le> sc_MaxTotalChannels (sp_config p)) \<and>
     (\<forall>c. sc_MaxChannelsPerClient (sp_config p) > 0 \<longrightarrow>
        int (length (client_live_refs p c)) \<le> sc_MaxChannelsPerClient (sp_config p))"

definition chan_ok :: "serverPool \<Rightarrow> bool" where
  "chan_ok p \<longleftrightarrow>
     dict_ok (sp_clientChConns p) \<and>
     (\<forall>c m. dict_get (sp_clientChConns p) c = Some m \<longrightarrow> dict_ok m \<and> m \<noteq> []) \<and>
     (\<forall>c ch r. channel_ref p c ch = Some r \<longrightarrow> r < sp_nextWS p \<and> ws_clientID (sp_wsHeap p r) = c \<and>
        ws_chID (sp_wsHeap p r) = ch \<and> 1 \<le> ch \<and> ch \<le> maxAllowedChID \<and> Some r \<in> set (sp_wsConns p)) \<and>
     (\<forall>r. Some r \<in> set (sp_wsConns p) \<longrightarrow> r < sp_nextWS p) \<and>
     distinct (non_nil (sp_wsConns p)) \<and>
     (\<forall>r\<in>set (live_refs p). channel_ref p (ws_clientID (sp_wsHeap p r)) (ws_chID (sp_wsHeap p r)) = Some r) \<and>
     within_limits p"

lemma chan_okD:
  assumes "chan_ok p"
  shows "dict_ok (sp_clientChConns p)"
    and "dict_get (sp_clientChConns p) c = Some m \<Longrightarrow> dict_ok m \<and> m \<noteq> []"
    and "channel_ref p c ch = Some r \<Longrightarrow> r < sp_nextWS p \<and> ws_clientID (sp_wsHeap p r) = c \<and>
        ws_chID (sp_wsHeap p r) = ch \<and> 1 \<le> ch \<and> ch \<le> maxAllowedChID \<and> Some r \<in> set (sp_wsConns p)"
    and "Some r \<in> set (sp_wsConns p) \<Longrightarrow> r < sp_nextWS p"
    and "distinct (non_nil (sp_wsConns p))"
    and "r \<in> set (live_refs p) \<Longrightarrow> channel_ref p (ws_clientID (sp_wsHeap p r)) (ws_chID (sp_wsHeap p r)) = Some r"
    and "within_limits p"
  using assms by (simp_all add: chan_ok_def)

lemma in_live_refs: "r \<in> set (live_refs p) \<longleftrightarrow> Some r \<in> set (sp_wsConns p) \<and> \<not> ws_closed (sp_wsHeap p r)"
  by (auto simp: live_refs_def)

text \<open>The table invariant depends on nothing but the channel view.\<close>

lemma chan_viewD:
  assumes "chan_view p = chan_view q"
  shows "sp_config p = sp_config q" "sp_clientChConns p = sp_clientChConns q" "sp_wsConns p = sp_wsConns q"
    "sp_nextWS p = sp_nextWS q" "ws_core (sp_wsHeap p r) = ws_core (sp_wsHeap q r)"
  using assms by (auto simp: chan_view_def comp_def dest: fun_cong)

lemma chan_view_refs:
  assumes "chan_view p = chan_view q"
  shows "channel_ref p = channel_ref q" "live_refs p = live_refs q" "client_live_refs p = client_live_refs q"
proof -
  note v = chan_viewD [OF assms] and w = ws_core_fields [OF chan_viewD(5) [OF assms]]
  show "channel_ref p = channel_ref q" by (intro ext) (simp add: channel_ref_def v)
  show live: "live_refs p = live_refs q" by (simp add: live_refs_def v w)
  show "client_live_refs p = client_live_refs q" by (intro ext) (simp add: client_live_refs_def live w)
qed

lemma chan_ok_view: "chan_view p = chan_view q \<Longrightarrow> chan_ok p = chan_ok q"
  using chan_viewD [of p q] chan_view_refs [of p q] ws_core_fields [OF chan_viewD(5) [of p q]]
  by (simp add: chan_ok_def within_limits_def)

text \<open>Closing a channel keeps the invariant.\<close>

lemma filter_sublist_length: "length (filter (\<lambda>x. P x \<and> Q x) xs) \<le> length (filter P xs)"
  by (induction xs) auto

lemma live_refs_upd_ws:
  assumes "\<And>w. ws_closed w \<Longrightarrow> ws_closed (f w)"
  shows "\<exists>P. live_refs (upd_ws r f p) = filter P (live_refs p)"
proof -
  have "live_refs (upd_ws r f p) = filter (\<lambda>x. \<not> ws_closed (sp_wsHeap (upd_ws r f p) x)) (live_refs p)"
    using assms by (auto simp: live_refs_def upd_ws_def intro!: filter_cong)
  then show ?thesis by blast
qed

lemma client_live_refs_upd_ws:
  assumes "\<And>w. ws_closed w \<Longrightarrow> ws_closed (f w)" "\<And>w. ws_clientID (f w) = ws_clientID w"
  shows "length (client_live_refs (upd_ws r f p) c) \<le> length (client_live_refs p c)"
proof -
  obtain P where "live_refs (upd_ws r f p) = filter P (live_refs p)"
    using live_refs_upd_ws [of f r p] assms(1) by blast
  moreover have "ws_clientID (sp_wsHeap (upd_ws r f p) x) = ws_clientID (sp_wsHeap p x)" for x
    using assms(2) by (simp add: upd_ws_def)
  ultimately show ?thesis
    using filter_sublist_length [of "\<lambda>x. ws_clientID (sp_wsHeap p x) = c" P "live_refs p"]
    by (simp add: client_live_refs_def conj_commute)
qed

lemma chan_ok_upd_ws:
  assumes "chan_ok p" "\<And>w. ws_closed w \<Longrightarrow> ws_closed (f w)" "\<And>w. ws_clientID (f w) = ws_clientID w"
    "\<And>w. ws_chID (f w) = ws_chID w"
  shows "chan_ok (upd_ws r f p)"
proof -
  let ?q = "upd_ws r f p"
  have same: "sp_config ?q = sp_config p" "sp_clientChConns ?q = sp_clientChConns p" "sp_wsConns ?q = sp_wsConns p"
    "sp_nextWS ?q = sp_nextWS p" "ws_clientID (sp_wsHeap ?q x) = ws_clientID (sp_wsHeap p x)"
    "ws_chID (sp_wsHeap ?q x) = ws_chID (sp_wsHeap p x)" for x
    using assms(3,4) by (simp_all add: upd_ws_def)
  have ref: "channel_ref ?q = channel_ref p" by (intro ext) (simp add: channel_ref_def same)
  obtain P where P: "live_refs ?q = filter P (live_refs p)" using live_refs_upd_ws [of f r p] assms(2) by blast
  then have len: "int (length (live_refs ?q)) \<le> int (length (live_refs p))" by simp
  have "within_limits ?q"
    using chan_okD(7) [OF assms(1)] len client_live_refs_upd_ws [of f r p] assms(2,3)
    unfolding within_limits_def same by (meson of_nat_mono order_trans)
  with assms(1) P show ?thesis by (simp add: chan_ok_def same ref)
qed

lemma chan_ok_closeWS [inv_intros]: "chan_ok p \<Longrightarrow> chan_ok (closeWS r p)"
  by (auto simp: closeWS_def intro: chan_ok_upd_ws)

lemma chan_ok_close_begin [inv_intros]: "chan_ok p \<Longrightarrow> chan_ok (snd (close_begin r p))"
  by (auto simp: close_begin_def intro: chan_ok_upd_ws)

text \<open>Removing a channel's table entries.\<close>

lemma nilFirst_set: "distinct (non_nil xs) \<Longrightarrow> Some x \<in> set (nilFirst r xs) \<longleftrightarrow> Some x \<in> set xs \<and> x \<noteq> r"
proof (induction xs)
  case (Cons y ys)
  then show ?case by (cases y) auto
qed simp

lemma nilFirst_filter:
  "distinct (non_nil xs) \<Longrightarrow> non_nil (nilFirst r xs) = filter (\<lambda>x. x \<noteq> r) (non_nil xs)"
proof (induction xs)
  case (Cons y ys)
  then show ?case
    by (cases y) (auto intro!: filter_True [symmetric])
qed simp

lemma cleanup_absent:
  assumes "chan_ok p" "channel_ref p c ch = None"
  shows "fst (cleanup_tables c ch p) = (None, False) \<and> chan_view (snd (cleanup_tables c ch p)) = chan_view p"
proof (cases "dict_get (sp_clientChConns p) c")
  case (Some m)
  with assms(2) have "dict_get m ch = None" by (simp add: channel_ref_def)
  moreover from this have "dict_del m ch = m"
    by (simp add: AList.delete_eq map_of_eq_None_iff filter_id_conv) force
  moreover have "dict_set (sp_clientChConns p) c m = sp_clientChConns p" using Some by (rule update_triv)
  ultimately show ?thesis
    using Some chan_okD(2) [OF assms(1) Some] by (simp add: cleanup_tables_def Let_def)
qed (simp add: cleanup_tables_def)

lemma dict_empty_iff: "m = [] \<longleftrightarrow> (\<forall>k. dict_get m k = None)"
  by (cases m) auto

lemma cleanup_present:
  assumes ok: "chan_ok p" and r: "channel_ref p c ch = Some r"
  defines "q \<equiv> snd (cleanup_tables c ch p)"
  shows "fst (fst (cleanup_tables c ch p)) = Some r"
    and "sp_wsConns q = nilFirst r (sp_wsConns p)" and "sp_wsHeap q = sp_wsHeap p"
    and "sp_nextWS q = sp_nextWS p" and "sp_config q = sp_config p"
    and "channel_ref q c' ch' = (if c' = c \<and> ch' = ch then None else channel_ref p c' ch')"
    and "dict_ok (sp_clientChConns q)"
    and "dict_get (sp_clientChConns q) c' = Some m \<Longrightarrow> dict_ok m \<and> m \<noteq> []"
    and "snd (fst (cleanup_tables c ch p)) \<longleftrightarrow> (\<forall>ch'. ch' \<noteq> ch \<longrightarrow> channel_ref p c ch' = None)"
proof -
  obtain mc where mc: "dict_get (sp_clientChConns p) c = Some mc" "dict_get mc ch = Some r"
    using r by (auto simp: channel_ref_def split: option.splits)
  note mok = chan_okD(2) [OF ok mc(1)]
  show "fst (fst (cleanup_tables c ch p)) = Some r" "sp_wsConns q = nilFirst r (sp_wsConns p)"
    "sp_wsHeap q = sp_wsHeap p" "sp_nextWS q = sp_nextWS p" "sp_config q = sp_config p"
    using mc by (simp_all add: q_def cleanup_tables_def Let_def)
  show "channel_ref q c' ch' = (if c' = c \<and> ch' = ch then None else channel_ref p c' ch')"
  proof (cases "dict_del mc ch = []")
    case True
    then have "dict_get mc x = None" if "x \<noteq> ch" for x
      using True that by (metis delete_conv' fun_upd_other map_of.simps(1))
    with mc True show ?thesis
      by (auto simp: q_def cleanup_tables_def channel_ref_def Let_def)
  next
    case False
    with mc show ?thesis by (auto simp: q_def cleanup_tables_def channel_ref_def Let_def)
  qed
  show "dict_ok (sp_clientChConns q)"
    using mc chan_okD(1) [OF ok] by (simp add: q_def cleanup_tables_def Let_def)
  show "dict_ok m \<and> m \<noteq> []" if "dict_get (sp_clientChConns q) c' = Some m"
    using that mc mok chan_okD(2) [OF ok, of c' m] by (auto simp: q_def cleanup_tables_def Let_def split: if_splits)
  show "snd (fst (cleanup_tables c ch p)) \<longleftrightarrow> (\<forall>ch'. ch' \<noteq> ch \<longrightarrow> channel_ref p c ch' = None)"
    using mc by (auto simp: cleanup_tables_def channel_ref_def Let_def dict_empty_iff)
qed

lemma chan_ok_cleanup_tables [inv_intros]:
  assumes "chan_ok p"
  shows "chan_ok (snd (cleanup_tables c ch p))"
proof (cases "channel_ref p c ch")
  case None
  with assms cleanup_absent show ?thesis using chan_ok_view by blast
next
  case (Some r)
  note q = cleanup_present [OF assms Some]
  let ?q = "snd (cleanup_tables c ch p)"
  note d = chan_okD(5) [OF assms]
  have live: "live_refs ?q = filter (\<lambda>x. x \<noteq> r) (live_refs p)"
    by (simp add: live_refs_def q nilFirst_filter [OF d] conj_commute)
  have lim: "within_limits ?q"
  proof -
    have "length (live_refs ?q) \<le> length (live_refs p)" by (simp add: live)
    moreover have "length (client_live_refs ?q c') \<le> length (client_live_refs p c')" for c'
      using filter_sublist_length [of "\<lambda>x. ws_clientID (sp_wsHeap p x) = c'" "\<lambda>x. x \<noteq> r" "live_refs p"]
      by (simp add: client_live_refs_def live q conj_commute)
    ultimately show ?thesis
      using chan_okD(7) [OF assms] unfolding within_limits_def q by (meson of_nat_mono order_trans)
  qed
  show ?thesis
    unfolding chan_ok_def
  proof (intro conjI allI impI ballI)
    show "dict_ok (sp_clientChConns ?q)" by (rule q)
    show "dict_ok m" "m \<noteq> []" if "dict_get (sp_clientChConns ?q) c' = Some m" for c' m
      using q(8) [OF that] by simp_all
    fix c' ch' r' assume "channel_ref ?q c' ch' = Some r'"
    then have c': "channel_ref p c' ch' = Some r'" "\<not> (c' = c \<and> ch' = ch)" by (auto simp: q split: if_splits)
    note p' = chan_okD(3) [OF assms c'(1)] chan_okD(3) [OF assms Some]
    show "r' < sp_nextWS ?q" "ws_clientID (sp_wsHeap ?q r') = c'" "ws_chID (sp_wsHeap ?q r') = ch'" "1 \<le> ch'"
      "ch' \<le> maxAllowedChID" using p' by (simp_all add: q)
    show "Some r' \<in> set (sp_wsConns ?q)" using p' c'(2) by (auto simp: q nilFirst_set [OF d])
  next
    fix r' assume "Some r' \<in> set (sp_wsConns ?q)"
    then show "r' < sp_nextWS ?q" using chan_okD(4) [OF assms, of r'] by (simp add: q nilFirst_set [OF d])
  next
    show "distinct (non_nil (sp_wsConns ?q))" using d by (simp add: q nilFirst_filter)
  next
    fix r' assume "r' \<in> set (live_refs ?q)"
    then have "r' \<in> set (live_refs p)" "r' \<noteq> r" by (auto simp: live)
    with chan_okD(6) [OF assms this(1)] Some
    show "channel_ref ?q (ws_clientID (sp_wsHeap ?q r')) (ws_chID (sp_wsHeap ?q r')) = Some r'" by (auto simp: q)
  qed (rule lim)
qed

text \<open>Registering a channel.\<close>

lemma channel_ref_register:
  assumes "handleWebSocket_register c ch ra p = (Registered r, q)"
  shows "channel_ref q c' ch' = (if c' = c \<and> ch' = ch then Some r else channel_ref p c' ch')"
    and "r = sp_nextWS p" "sp_nextWS q = sp_nextWS p + 1" "sp_wsConns q = sp_wsConns p @ [Some r]"
    and "sp_wsHeap q = (sp_wsHeap p)(r := newServerWSConn c ch ra)" "sp_config q = sp_config p"
    and "\<not> limits_hit p (countActiveChannelsLocked p c)" "\<not> ws_live p (channel_ref p c ch)"
    and "conn_view q = conn_view p" "rev_view q = rev_view p" "sp_globalQueueBytes q = sp_globalQueueBytes p"
    and "sp_hotPairs q = sp_hotPairs p" "sp_listeners q = sp_listeners p" "sp_maxPerClient q = sp_maxPerClient p"
  using assms
  by (auto simp: handleWebSocket_register_def Let_def channel_ref_def conn_view_def rev_view_def
      split: if_splits option.splits)

lemma register_refused:
  "handleWebSocket_register c ch ra p = (res, q) \<Longrightarrow> (\<forall>r. res \<noteq> Registered r) \<Longrightarrow> q = p"
  by (auto simp: handleWebSocket_register_def Let_def split: if_splits)

lemma newServerWSConn_simps [simp]:
  "ws_clientID (newServerWSConn c ch ra) = c" "ws_chID (newServerWSConn c ch ra) = ch"
  "\<not> ws_closed (newServerWSConn c ch ra)" "ws_queue (newServerWSConn c ch ra) = []"
  "ws_writeChan (newServerWSConn c ch ra)"
  by (simp_all add: newServerWSConn_def blank_ws_def)

lemma live_refs_register:
  assumes ok: "chan_ok p" and reg: "handleWebSocket_register c ch ra p = (Registered r, q)"
  shows "live_refs q = live_refs p @ [r]"
    and "client_live_refs q c' = client_live_refs p c' @ (if c' = c then [r] else [])"
proof -
  note q = channel_ref_register [OF reg]
  have old: "x \<noteq> r" if "Some x \<in> set (sp_wsConns p)" for x
    using chan_okD(4) [OF ok that] q(2) by simp
  have *: "filter P (non_nil (sp_wsConns p)) = filter Q (non_nil (sp_wsConns p))"
    if "\<And>x. x \<noteq> r \<Longrightarrow> P x = Q x" for P Q
    using old that by (intro filter_cong) auto
  show live: "live_refs q = live_refs p @ [r]"
    unfolding live_refs_def q(4,5) by (auto intro!: *)
  have "x \<noteq> r" if "x \<in> set (live_refs p)" for x using old that by (simp add: in_live_refs)
  then have "filter (\<lambda>x. ws_clientID (sp_wsHeap q x) = c') (live_refs p) = client_live_refs p c'"
    unfolding client_live_refs_def q(5) by (intro filter_cong) auto
  then show "client_live_refs q c' = client_live_refs p c' @ (if c' = c then [r] else [])"
    unfolding client_live_refs_def [of q] live by (simp add: q(5))
qed

lemma chan_ok_register:
  assumes ok: "chan_ok p" and ch: "1 \<le> ch" "ch \<le> maxAllowedChID"
  shows "chan_ok (snd (handleWebSocket_register c ch ra p))"
proof (cases "handleWebSocket_register c ch ra p")
  case (Pair res q)
  show ?thesis
  proof (cases res)
    case (Registered r)
    with Pair have reg: "handleWebSocket_register c ch ra p = (Registered r, q)" by simp
    note q = channel_ref_register [OF reg] and live = live_refs_register [OF ok reg]
    have heap: "sp_wsHeap q x = sp_wsHeap p x" if "x < sp_nextWS p" for x using that q(2) by (simp add: q(5))
    have lim: "within_limits q"
      using q(7) chan_okD(7) [OF ok]
      by (auto simp: within_limits_def limits_hit_def countActiveChannelsLocked_eq live q(6))
    let ?m = "case dict_get (sp_clientChConns p) c of None \<Rightarrow> [] | Some m \<Rightarrow> m"
    have cc: "sp_clientChConns q = dict_set (sp_clientChConns p) c (dict_set ?m ch r)"
      using reg by (auto simp: handleWebSocket_register_def Let_def split: if_splits)
    have m: "dict_ok ?m" using chan_okD(2) [OF ok, of c] by (auto split: option.split)
    have "chan_ok q"
      unfolding chan_ok_def
    proof (intro conjI allI impI ballI)
      show "dict_ok (sp_clientChConns q)" using chan_okD(1) [OF ok] by (simp add: cc)
      show "dict_ok m'" "m' \<noteq> []" if "dict_get (sp_clientChConns q) c' = Some m'" for c' m'
        using that m chan_okD(2) [OF ok, of c' m'] by (auto simp: cc update_nonempty split: if_splits)
      fix c' ch' r' assume r': "channel_ref q c' ch' = Some r'"
      then have or: "c' = c \<and> ch' = ch \<and> r' = r \<or> channel_ref p c' ch' = Some r'" by (auto simp: q(1) split: if_splits)
      show "r' < sp_nextWS q" "1 \<le> ch'" "ch' \<le> maxAllowedChID" "Some r' \<in> set (sp_wsConns q)"
        using or chan_okD(3) [OF ok, of c' ch' r'] ch q(2-4) by auto
      show "ws_clientID (sp_wsHeap q r') = c'" "ws_chID (sp_wsHeap q r') = ch'"
        using or chan_okD(3) [OF ok, of c' ch' r'] q(2) by (auto simp: q(5))
    next
      fix r' assume "Some r' \<in> set (sp_wsConns q)"
      then show "r' < sp_nextWS q" using chan_okD(4) [OF ok, of r'] q(2-4) by auto
    next
      show "distinct (non_nil (sp_wsConns q))" using chan_okD(4,5) [OF ok] q(2) by (auto simp: q(4))
    next
      fix r' assume "r' \<in> set (live_refs q)"
      then consider "r' = r" | "r' \<in> set (live_refs p)" "r' < sp_nextWS p"
        using chan_okD(4) [OF ok] by (auto simp: live in_live_refs)
      then show "channel_ref q (ws_clientID (sp_wsHeap q r')) (ws_chID (sp_wsHeap q r')) = Some r'"
      proof cases
        case 1
        then show ?thesis by (simp add: q(1,5))
      next
        case 2
        note reg' = chan_okD(6) [OF ok 2(1)]
        have "\<not> (ws_clientID (sp_wsHeap p r') = c \<and> ws_chID (sp_wsHeap p r') = ch)"
          using reg' q(8) 2(1) by (auto simp: in_live_refs)
        with reg' show ?thesis by (auto simp: heap [OF 2(2)] q(1))
      qed
    qed (rule lim)
    with Pair show ?thesis by simp
  qed (use Pair ok register_refused [OF Pair] in simp_all)
qed

text \<open>Registering leaves the byte accounting intact.\<close>

lemma queue_ok_register:
  assumes "queue_ok p"
  shows "queue_ok (snd (handleWebSocket_register c ch ra p))"
proof (cases "handleWebSocket_register c ch ra p")
  case (Pair res q)
  show ?thesis
  proof (cases res)
    case (Registered r)
    with Pair have reg: "handleWebSocket_register c ch ra p = (Registered r, q)" by simp
    note q = channel_ref_register [OF reg]
    have "queued_bytes q = queued_bytes p"
      unfolding queued_bytes_def q(3) by (simp add: q(2,5))
    with assms Pair q show ?thesis by (auto simp: queue_ok_def)
  qed (use Pair assms register_refused [OF Pair] in simp_all)
qed

section \<open>Clean-up, loops and dispatch keep the invariants\<close>

definition hot_ok :: "serverPool \<Rightarrow> bool" where
  "hot_ok p = table_ok (sp_hotPairs p)"

text \<open>The state no operation but the listener management and the hot-pair table touches.\<close>

definition dir_view where
  "dir_view p = (sp_listeners p, sp_maxPerClient p)"

lemma listeners_ok_view: "dir_view p = dir_view q \<Longrightarrow> listeners_ok p = listeners_ok q"
  by (simp add: dir_view_def listeners_ok_def)

lemma core_dir: "core p = core q \<Longrightarrow> dir_view p = dir_view q"
  using core_fields(12,13) [of p q] by (simp add: dir_view_def)

lemma core_hot: "core p = core q \<Longrightarrow> hot_ok p = hot_ok q"
  using core_fields(14) [of p q] by (simp add: hot_ok_def)

lemmas dir_core [simp] = core_dir [OF core_sends(1)] core_dir [OF core_sends(2)] core_dir [OF core_sends(3)]
  core_dir [OF core_sends(4)] core_dir [OF core_sends(5)] core_dir [OF core_sends(6)]
  core_dir [OF core_sendDownlink] core_dir [OF core_writeDirect] core_dir [OF core_dequeue]
  core_dir [OF core_drain] core_dir [OF core_reverseNotifyClose]

lemmas hot_core [simp] = core_hot [OF core_sends(1)] core_hot [OF core_sends(2)] core_hot [OF core_sends(3)]
  core_hot [OF core_sends(4)] core_hot [OF core_sends(5)] core_hot [OF core_sends(6)]
  core_hot [OF core_sendDownlink] core_hot [OF core_writeDirect] core_hot [OF core_dequeue]
  core_hot [OF core_drain] core_hot [OF core_reverseNotifyClose] core_hot [OF core_reply]

lemma dir_fields [simp]:
  "dir_view (upd_conn c f p) = dir_view p" "dir_view (upd_rev c g p) = dir_view p"
  "dir_view (upd_ws r h p) = dir_view p" "dir_view (spawn t p) = dir_view p" "dir_view (emit e p) = dir_view p"
  "dir_view (p\<lparr>sp_hotPairs := ht\<rparr>) = dir_view p" "dir_view (p\<lparr>sp_revConns := v\<rparr>) = dir_view p"
  "dir_view (p\<lparr>sp_revHeap := rh\<rparr>) = dir_view p" "dir_view (p\<lparr>sp_nextRev := nr\<rparr>) = dir_view p"
  "dir_view (p\<lparr>sp_conns := cs\<rparr>) = dir_view p" "dir_view (p\<lparr>sp_connHeap := ch\<rparr>) = dir_view p"
  "dir_view (p\<lparr>sp_nextConn := nc\<rparr>) = dir_view p" "dir_view (p\<lparr>sp_prebindArmed := a\<rparr>) = dir_view p"
  "dir_view (p\<lparr>sp_bytesReceived := b\<rparr>) = dir_view p" "dir_view (p\<lparr>sp_clientChConns := cc\<rparr>) = dir_view p"
  "dir_view (p\<lparr>sp_wsConns := ws\<rparr>) = dir_view p" "dir_view (p\<lparr>sp_tasks := ts\<rparr>) = dir_view p"
  by (simp_all add: dir_view_def upd_conn_def upd_rev_def upd_ws_def spawn_def emit_def)

lemma hot_fields [simp]:
  "hot_ok (upd_conn c f p) = hot_ok p" "hot_ok (upd_rev c g p) = hot_ok p"
  "hot_ok (upd_ws r h p) = hot_ok p" "hot_ok (spawn t p) = hot_ok p" "hot_ok (emit e p) = hot_ok p"
  "hot_ok (p\<lparr>sp_hotPairs := ht\<rparr>) = table_ok ht" "hot_ok (p\<lparr>sp_revConns := v\<rparr>) = hot_ok p"
  "hot_ok (p\<lparr>sp_revHeap := rh\<rparr>) = hot_ok p" "hot_ok (p\<lparr>sp_nextRev := nr\<rparr>) = hot_ok p"
  "hot_ok (p\<lparr>sp_conns := cs\<rparr>) = hot_ok p" "hot_ok (p\<lparr>sp_connHeap := ch\<rparr>) = hot_ok p"
  "hot_ok (p\<lparr>sp_nextConn := nc\<rparr>) = hot_ok p" "hot_ok (p\<lparr>sp_prebindArmed := a\<rparr>) = hot_ok p"
  "hot_ok (p\<lparr>sp_bytesReceived := b\<rparr>) = hot_ok p" "hot_ok (p\<lparr>sp_clientChConns := cc\<rparr>) = hot_ok p"
  "hot_ok (p\<lparr>sp_wsConns := ws\<rparr>) = hot_ok p" "hot_ok (p\<lparr>sp_listeners := l\<rparr>) = hot_ok p"
  "hot_ok (p\<lparr>sp_effects := es\<rparr>) = hot_ok p" "hot_ok (p\<lparr>sp_tasks := ts\<rparr>) = hot_ok p"
  by (simp_all add: hot_ok_def upd_conn_def upd_rev_def upd_ws_def spawn_def emit_def)

lemma table_ok_reads:
  "hot_ok p \<Longrightarrow> table_ok (snd (Lookup (sp_hotPairs p) c k now))"
  "hot_ok p \<Longrightarrow> table_ok (snd (Newest (sp_hotPairs p) c now))"
  "hot_ok p \<Longrightarrow> table_ok (HandleNotify (sp_hotPairs p) c payload now)"
  "hot_ok p \<Longrightarrow> table_ok (InvalidateChannel (sp_hotPairs p) ch)"
  "hot_ok p \<Longrightarrow> table_ok (InvalidateClient (sp_hotPairs p) c)"
  by (simp_all add: hot_ok_def inv_intros)

lemma reverse_dir [simp]:
  "dir_view (removeReverseConn connID p) = dir_view p" "hot_ok (removeReverseConn connID p) = hot_ok p"
  "dir_view (handleReverseMessage ok now c ch mt connID meta payload p) = dir_view p"
  "hot_ok (handleReverseMessage ok now c ch mt connID meta payload p) = hot_ok p"
  "dir_view (snd (hotDialEntry now c p)) = dir_view p"
  "dir_view (snd (dialSend now c msg r entry p)) = dir_view p"
  "dir_view (snd (DialStream_finish now ev r p)) = dir_view p" "hot_ok (snd (DialStream_finish now ev r p)) = hot_ok p"
  "dir_view (reverseUpstreamPump now r read p) = dir_view p" "hot_ok (reverseUpstreamPump now r read p) = hot_ok p"
  by (simp_all add: removeReverseConn_def handleReverseMessage_def hotDialEntry_def dialSend_def
      DialStream_finish_def reverseUpstreamPump_def Let_def split_def
      split: option.split list.split dial_event.split)

lemma reverse_hot [inv_intros]:
  "hot_ok p \<Longrightarrow> hot_ok (snd (hotDialEntry now c p))"
  "hot_ok p \<Longrightarrow> hot_ok (snd (dialSend now c msg r entry p))"
  by (simp_all add: hotDialEntry_def dialSend_def Let_def split_def table_ok_reads split: option.split)

lemma dial_dir [simp]: "dir_view (snd (DialStream_begin now uuid c target p)) = dir_view p"
  by (simp add: DialStream_begin_def Let_def split_def)

lemma dial_hot [inv_intros]: "hot_ok p \<Longrightarrow> hot_ok (snd (DialStream_begin now uuid c target p))"
  by (simp add: DialStream_begin_def Let_def split_def reverse_hot)

lemma listen_hot [simp]: "hot_ok (HandleReverseListen start now c ch lid spec p) = hot_ok p"
  "hot_ok (ShutdownClient c p) = hot_ok p" "hot_ok (Listeners_Shutdown p) = hot_ok p"
  by (simp_all add: HandleReverseListen_def ShutdownClient_def Listeners_Shutdown_def Let_def
      split: option.split sum.split)

lemma forward_dir [simp]:
  "dir_view (unregisterConn connID p) = dir_view p" "hot_ok (unregisterConn connID p) = hot_ok p"
  "dir_view (snd (publishConn connID st p)) = dir_view p" "hot_ok (snd (publishConn connID st p)) = hot_ok p"
  "dir_view (snd (promotePair now c ch connID p)) = dir_view p"
  "dir_view (handleTCPData wok ch connID payload p) = dir_view p" "hot_ok (handleTCPData wok ch connID payload p) = hot_ok p"
  "dir_view (handleSelectDownlink c ch connID meta p) = dir_view p" "hot_ok (handleSelectDownlink c ch connID meta p) = hot_ok p"
  "dir_view (handleHotPairBegin now c p) = dir_view p" "hot_ok (handleHotPairBegin now c p) = hot_ok p"
  "dir_view (handleUDPData res addr ch connID meta payload p) = dir_view p"
  "hot_ok (handleUDPData res addr ch connID meta payload p) = hot_ok p"
  by (simp_all add: unregisterConn_def closeTargets_def publishConn_def promotePair_def handleTCPData_def
      handleSelectDownlink_def handleHotPairBegin_def handleUDPData_def Let_def split_def split: option.split)

lemma promotePair_hot [inv_intros]: "hot_ok p \<Longrightarrow> hot_ok (snd (promotePair now c ch connID p))"
  by (simp add: promotePair_def Let_def split_def table_ok_reads split: option.split)

lemma connectTarget_dir [simp]:
  "dir_view (connectTarget_err now r p) = dir_view p" "hot_ok (connectTarget_err now r p) = hot_ok p"
  "dir_view (connectTarget_close now r p) = dir_view p" "hot_ok (connectTarget_close now r p) = hot_ok p"
  "dir_view (connectTarget_forget r p) = dir_view p" "hot_ok (connectTarget_forget r p) = hot_ok p"
  "dir_view (snd (connectTarget_publish t r p)) = dir_view p" "hot_ok (snd (connectTarget_publish t r p)) = hot_ok p"
  "dir_view (connectTarget_status now r p) = dir_view p" "hot_ok (connectTarget_status now r p) = hot_ok p"
  "dir_view (snd (connectTarget_write ok r t ds p)) = dir_view p" "hot_ok (snd (connectTarget_write ok r t ds p)) = hot_ok p"
  by (simp_all add: connectTarget_err_def connectTarget_close_def connectTarget_forget_def connectTarget_publish_def
      connectTarget_status_def) (cases ds; simp)+

lemma sending_dir [simp]:
  "dir_view (handleTCPConnect now c ch connID meta p) = dir_view p"
  "dir_view (forwardTargetToClient now r read p) = dir_view p" "hot_ok (forwardTargetToClient now r read p) = hot_ok p"
  "dir_view (handlePrebindRequest now c ch connID meta p) = dir_view p"
  "hot_ok (handlePrebindRequest now c ch connID meta p) = hot_ok p"
  "dir_view (handleUDPConnect now u c ch connID meta p) = dir_view p"
  "hot_ok (handleUDPConnect now u c ch connID meta p) = hot_ok p"
  "dir_view (snd (forwardUDPToClient now r uread p)) = dir_view p"
  "hot_ok (snd (forwardUDPToClient now r uread p)) = hot_ok p"
  by (simp_all add: handleTCPConnect_def forwardTargetToClient_def
      handlePrebindRequest_def handleUDPConnect_def forwardUDPToClient_def Let_def split_def
      split: option.split list.split)

lemma connect_hot [inv_intros]: "hot_ok p \<Longrightarrow> hot_ok (handleTCPConnect now c ch connID meta p)"
  by (simp add: handleTCPConnect_def Let_def split_def promotePair_hot split: option.split list.split)

text \<open>The invariant of the running server.\<close>

definition server_inv :: "serverPool \<Rightarrow> bool" where
  "server_inv p \<longleftrightarrow> chan_ok p \<and> queue_ok p \<and> conn_ok p \<and> rev_ok p \<and> hot_ok p \<and> listeners_ok p"

lemma server_inv_forward:
  assumes "server_inv p" "chan_view q = chan_view p" "queue_ok p \<Longrightarrow> queue_ok q"
    "conn_ok p \<Longrightarrow> conn_ok q" "rev_view q = rev_view p" "hot_ok p \<Longrightarrow> hot_ok q" "dir_view q = dir_view p"
  shows "server_inv q"
  using assms chan_ok_view [OF assms(2)] rev_ok_view [OF assms(5)] listeners_ok_view [OF assms(7)]
  by (simp add: server_inv_def)

lemma server_inv_reverse:
  assumes "server_inv p" "chan_view q = chan_view p" "queue_ok p \<Longrightarrow> queue_ok q"
    "conn_view q = conn_view p" "rev_ok p \<Longrightarrow> rev_ok q" "hot_ok p \<Longrightarrow> hot_ok q" "dir_view q = dir_view p"
  shows "server_inv q"
  using assms chan_ok_view [OF assms(2)] conn_ok_view [OF assms(4)] listeners_ok_view [OF assms(7)]
  by (simp add: server_inv_def)

lemma server_inv_init: "server_inv (newServerPool token config)"
proof -
  let ?p = "newServerPool token config"
  have f: "sp_clientChConns ?p = []" "sp_wsConns ?p = []" "sp_conns ?p = []" "sp_revConns ?p = []"
    "sp_hotPairs ?p = NewHotPairTable" "sp_listeners ?p = []" "sp_nextWS ?p = 0" "sp_nextRev ?p = 0"
    "sp_wsHeap ?p = (\<lambda>_. blank_ws)" "sp_connHeap ?p = (\<lambda>_. blank_conn)" "sp_globalQueueBytes ?p = 0"
    by (simp_all add: newServerPool_def Let_def)
  have "chan_ok ?p"
    by (simp add: chan_ok_def channel_ref_def within_limits_def live_refs_def client_live_refs_def f)
  moreover have "queue_ok ?p" by (simp add: queue_ok_def queued_bytes_def f blank_ws_def)
  moreover have "conn_ok ?p"
    by (simp add: conn_ok_def conn_table_ok_def conn_view_def f conn_state_ok_new blank_conn_def)
  moreover have "rev_ok ?p" by (simp add: rev_ok_def rev_table_ok_def rev_view_def f)
  moreover have "hot_ok ?p" "listeners_ok ?p" by (simp_all add: hot_ok_def listeners_ok_def f)
  ultimately show ?thesis by (simp add: server_inv_def)
qed

subsection \<open>Message handlers\<close>

lemma inv_unregisterConn: "server_inv p \<Longrightarrow> server_inv (unregisterConn connID p)"
  by (erule server_inv_forward) (simp_all add: inv_intros)

lemma inv_removeReverseConn: "server_inv p \<Longrightarrow> server_inv (removeReverseConn connID p)"
  by (erule server_inv_reverse) (simp_all add: inv_intros)

lemma inv_handleReverseMessage:
  "server_inv p \<Longrightarrow> server_inv (handleReverseMessage ok now c ch mt connID meta payload p)"
  by (erule server_inv_reverse) (simp_all add: inv_intros)

lemma inv_forward_handlers:
  "server_inv p \<Longrightarrow> server_inv (handleTCPConnect now c ch connID meta p)"
  "server_inv p \<Longrightarrow> server_inv (handleTCPData wok ch connID payload p)"
  "server_inv p \<Longrightarrow> server_inv (handleSelectDownlink c ch connID meta p)"
  "server_inv p \<Longrightarrow> server_inv (handlePrebindRequest now c ch connID meta p)"
  "server_inv p \<Longrightarrow> server_inv (handleHotPairBegin now c p)"
  "server_inv p \<Longrightarrow> server_inv (handleUDPConnect now u c ch connID meta p)"
  "server_inv p \<Longrightarrow> server_inv (handleUDPData res addr ch connID meta payload p)"
  "server_inv p \<Longrightarrow> server_inv (forwardTargetToClient now r read p)"
  "server_inv p \<Longrightarrow> server_inv (snd (forwardUDPToClient now r uread p))"
  by (erule server_inv_forward; simp add: inv_intros)+

lemma inv_connectTarget:
  "server_inv p \<Longrightarrow> server_inv (connectTarget_err now r p)"
  "server_inv p \<Longrightarrow> server_inv (connectTarget_close now r p)"
  "server_inv p \<Longrightarrow> server_inv (connectTarget_forget r p)"
  "server_inv p \<Longrightarrow> server_inv (snd (connectTarget_publish t r p))"
  "server_inv p \<Longrightarrow> server_inv (connectTarget_status now r p)"
  "server_inv p \<Longrightarrow> server_inv (snd (connectTarget_write ok r t ds p))"
  by (erule server_inv_forward; simp add: inv_intros)+

lemma rev_ok_listen:
  "rev_view (HandleReverseListen start now c ch lid spec p) = rev_view p"
  "rev_view (ShutdownClient c p) = rev_view p" "rev_view (Listeners_Shutdown p) = rev_view p"
  by (simp_all add: HandleReverseListen_def ShutdownClient_def Listeners_Shutdown_def Let_def
      split: option.split sum.split)

lemma server_inv_listeners:
  assumes "server_inv p" "chan_view q = chan_view p" "queue_ok p \<Longrightarrow> queue_ok q" "conn_view q = conn_view p"
    "rev_view q = rev_view p" "hot_ok p \<Longrightarrow> hot_ok q" "listeners_ok p \<Longrightarrow> listeners_ok q"
  shows "server_inv q"
  using assms chan_ok_view [OF assms(2)] conn_ok_view [OF assms(4)] rev_ok_view [OF assms(5)]
  by (simp add: server_inv_def)

lemma inv_listeners:
  "server_inv p \<Longrightarrow> server_inv (HandleReverseListen start now c ch lid spec p)"
  "server_inv p \<Longrightarrow> server_inv (ShutdownClient c p)"
  "server_inv p \<Longrightarrow> server_inv (Listeners_Shutdown p)"
  by (erule server_inv_listeners; simp add: inv_intros rev_ok_listen)+

lemma inv_addReceivedBytes: "server_inv p \<Longrightarrow> server_inv (addReceivedBytes n p)"
  unfolding addReceivedBytes_def
  by (simp, intro impI, erule server_inv_forward) (simp_all add: conn_ok_def)

lemma inv_hotPairs:
  "server_inv p \<Longrightarrow> (hot_ok p \<Longrightarrow> table_ok t) \<Longrightarrow> server_inv (p\<lparr>sp_hotPairs := t\<rparr>)"
  by (erule server_inv_forward) (simp_all add: conn_ok_def)

lemma inv_handleMessage:
  assumes "server_inv p"
  shows "server_inv (handleMessage env now c ch n mt connID meta payload p)"
proof -
  have "server_inv (addReceivedBytes n p)" using assms by (rule inv_addReceivedBytes)
  then show ?thesis
    by (simp add: handleMessage_def Let_def handleTCPClose_def handleUDPClose_def inv_handleReverseMessage
        inv_forward_handlers inv_listeners inv_unregisterConn inv_hotPairs table_ok_reads split: option.split)
qed

lemma inv_readLoop_message: "server_inv p \<Longrightarrow> server_inv (readLoop_message env now r mt msg p)"
  by (simp add: readLoop_message_def inv_handleMessage split: option.split sum.split)

subsection \<open>Losing channels\<close>

lemma cleanup_tables_frame [simp]:
  "conn_view (snd (cleanup_tables c ch p)) = conn_view p" "rev_view (snd (cleanup_tables c ch p)) = rev_view p"
  "queue_ok (snd (cleanup_tables c ch p)) = queue_ok p" "hot_ok (snd (cleanup_tables c ch p)) = hot_ok p"
  "dir_view (snd (cleanup_tables c ch p)) = dir_view p"
  by (simp_all add: cleanup_tables_def Let_def split: option.split) (simp_all add: rev_view_def)

lemma server_inv_channels:
  assumes "server_inv p" "chan_ok p \<Longrightarrow> chan_ok q" "queue_ok p \<Longrightarrow> queue_ok q" "conn_view q = conn_view p"
    "rev_view q = rev_view p" "hot_ok p \<Longrightarrow> hot_ok q" "dir_view q = dir_view p"
  shows "server_inv q"
  using assms conn_ok_view [OF assms(4)] rev_ok_view [OF assms(5)] listeners_ok_view [OF assms(7)]
  by (simp add: server_inv_def)

lemma inv_cleanup_tables: "server_inv p \<Longrightarrow> server_inv (snd (cleanup_tables c ch p))"
  by (erule server_inv_channels) (simp_all add: inv_intros)

lemma queue_ok_close:
  "queue_ok p \<Longrightarrow> queue_ok (closeWS r p)" "queue_ok p \<Longrightarrow> queue_ok (snd (close_begin r p))"
  "queue_ok p \<Longrightarrow> queue_ok (upd_ws r (ws_loop_update f) p)"
  by (auto simp: closeWS_def close_begin_def upd_ws_def elim!: queue_ok_cong)

lemma inv_closeWS: "server_inv p \<Longrightarrow> server_inv (closeWS r p)"
  by (erule server_inv_channels) (simp_all add: inv_intros queue_ok_close, simp_all add: closeWS_def)

lemma inv_close_begin: "server_inv p \<Longrightarrow> server_inv (snd (close_begin r p))"
  by (erule server_inv_channels) (simp_all add: inv_intros queue_ok_close, simp_all add: close_begin_def)

lemma inv_foldl: "(\<And>p x. server_inv p \<Longrightarrow> server_inv (f p x)) \<Longrightarrow> server_inv p \<Longrightarrow> server_inv (foldl f p xs)"
  by (induction xs arbitrary: p) auto

lemma inv_cleanupChannel: "server_inv p \<Longrightarrow> server_inv (cleanupChannel c ch p)"
  by (auto simp: cleanupChannel_def Let_def split_def split: option.split
      intro!: inv_closeWS inv_listeners inv_hotPairs inv_foldl inv_unregisterConn inv_removeReverseConn
        inv_cleanup_tables table_ok_reads)

lemma inv_close_ws: "server_inv p \<Longrightarrow> server_inv (close_ws r p)"
  by (simp add: close_ws_def close_finish_def Let_def split_def inv_cleanupChannel inv_close_begin)

lemma inv_Shutdown: "server_inv p \<Longrightarrow> server_inv (Shutdown p)"
  by (auto simp: Shutdown_def Let_def intro!: inv_foldl inv_close_ws inv_listeners)

subsection \<open>The write loop\<close>

lemma server_inv_core:
  assumes "server_inv p" "core q = core p" "queue_ok p \<Longrightarrow> queue_ok q"
  shows "server_inv q"
  using assms(1)
proof (rule server_inv_forward)
  show "hot_ok q" if "hot_ok p" using core_hot [OF assms(2)] that by simp
  show "conn_ok q" if "conn_ok p" using conn_ok_view [OF core_views(2) [OF assms(2)]] that by simp
qed (fact core_views [OF assms(2)] core_dir [OF assms(2)] assms(3))+

lemma queue_ok_writeDirect [simp]: "queue_ok p \<Longrightarrow> queue_ok (snd (writeDirect r mt d ok p))"
  by (auto simp: writeDirect_def Let_def addSentBytes_def upd_ws_def elim!: queue_ok_cong)

lemma inv_writeDirect: "server_inv p \<Longrightarrow> server_inv (snd (writeDirect r mt d ok p))"
  by (erule server_inv_core) simp_all

lemma inv_dequeue: "server_inv p \<Longrightarrow> ws_queue (sp_wsHeap p r) = t # q \<Longrightarrow> server_inv (dequeue now r t p)"
  by (erule server_inv_core) (simp_all add: queue_ok_dequeue)

lemma queue_ok_drainN: "queue_ok p \<Longrightarrow> queue_ok (drainN n now r p)"
  by (induction n arbitrary: p) (auto split: list.split intro: queue_ok_dequeue)

lemma inv_drain: "server_inv p \<Longrightarrow> server_inv (drain now r p)"
  by (erule server_inv_core) (simp_all add: drain_def queue_ok_drainN)

lemma chan_ok_loop: "chan_ok p \<Longrightarrow> chan_ok (upd_ws r (ws_loop_update f) p)"
  by (rule chan_ok_upd_ws) simp_all

lemma inv_set_loop: "server_inv p \<Longrightarrow> server_inv (upd_ws r (ws_loop_update f) p)"
  by (erule server_inv_channels) (simp_all add: queue_ok_close chan_ok_loop)

lemma inv_writeLoop_start: "server_inv p \<Longrightarrow> server_inv (writeLoop_start r p)"
proof -
  assume "server_inv p"
  moreover have "writeLoop_start r p = upd_ws r (ws_loop_update
      (\<lambda>_. if ws_writeChan (sp_wsHeap p r) then LoopRunning else LoopDone)) p"
    by (simp add: writeLoop_start_def upd_ws_def)
  ultimately show ?thesis using inv_set_loop by simp
qed

lemma inv_writeLoop_exit: "server_inv p \<Longrightarrow> server_inv (writeLoop_exit now r p)"
  by (simp add: writeLoop_exit_def inv_set_loop inv_drain)

lemma inv_writeLoop:
  "server_inv p \<Longrightarrow> server_inv (writeLoop_task ok now r p)"
  "server_inv p \<Longrightarrow> server_inv (writeLoop_ping ok now r p)"
  by (auto simp: writeLoop_task_def writeLoop_ping_def Let_def split_def split: list.split
      intro!: inv_writeLoop_exit inv_close_ws inv_writeDirect inv_dequeue)

section \<open>The running server\<close>

definition done_task :: "task \<Rightarrow> serverPool \<Rightarrow> serverPool" where
  "done_task t p = p\<lparr>sp_tasks := remove1 t (sp_tasks p)\<rparr>"

text \<open>
  One atomic step of some goroutine. Times, messages, socket outcomes and the order of the steps
  are arbitrary; a channel registers after an admission check that may have been made in any
  earlier state. Closing a channel, cleaning up after it, and connecting to a target release their
  locks in between and are several steps each; a shutdown is the closing of the listeners and then
  of the channels. A goroutine's later pieces wait as tasks; some orders that the code fixes, such
  as draining a queue after the clean-up, are left open.
\<close>

inductive server_step :: "serverPool \<Rightarrow> serverPool \<Rightarrow> bool" where
  register: "handleWebSocket_admit uuid rq p0 = Inr (c, ch) \<Longrightarrow>
     server_step p (snd (handleWebSocket_register c ch ra p))"
| receive: "r < sp_nextWS p \<Longrightarrow> server_step p (readLoop_message env now r mt msg p)"
| closing: "\<not> ws_closed (sp_wsHeap p r) \<Longrightarrow> server_step p (spawn (FinishClose r) (snd (close_begin r p)))"
| closed: "FinishClose r \<in> set (sp_tasks p) \<Longrightarrow>
     server_step p (cleanup_start (ws_clientID (sp_wsHeap p r)) (ws_chID (sp_wsHeap p r)) (done_task (FinishClose r) p))"
| cleaning: "CleanUp c ch w g pc \<in> set (sp_tasks p) \<Longrightarrow>
     cleanup_next c ch w g pc (done_task (CleanUp c ch w g pc) p) = (Some pc', q) \<Longrightarrow>
     server_step p (spawn (CleanUp c ch w g pc') q)"
| cleaned: "CleanUp c ch w g pc \<in> set (sp_tasks p) \<Longrightarrow>
     cleanup_next c ch w g pc (done_task (CleanUp c ch w g pc) p) = (None, q) \<Longrightarrow> server_step p q"
| loop_start: "ws_loop (sp_wsHeap p r) = LoopPending \<Longrightarrow> server_step p (writeLoop_start r p)"
| loop_task: "ws_loop (sp_wsHeap p r) = LoopRunning \<Longrightarrow> server_step p (writeLoop_task True now r p)"
| loop_ping: "ws_loop (sp_wsHeap p r) = LoopRunning \<Longrightarrow> server_step p (writeLoop_ping True now r p)"
| loop_task_broken: "ws_loop (sp_wsHeap p r) = LoopRunning \<Longrightarrow> ws_queue (sp_wsHeap p r) = t # ts \<Longrightarrow>
     writeDirect r (wt_msgType t) (wt_data t) False (dequeue now r t p) = (False, q) \<Longrightarrow> server_step p (writeLoop_broken r q)"
| loop_ping_broken: "ws_loop (sp_wsHeap p r) = LoopRunning \<Longrightarrow>
     writeDirect r PingMessage [] False p = (False, q) \<Longrightarrow> server_step p (writeLoop_broken r q)"
| loop_exit: "ExitLoop r \<in> set (sp_tasks p) \<Longrightarrow> server_step p (writeLoop_exit now r (done_task (ExitLoop r) p))"
| connect_abort: "ConnectTarget r \<in> set (sp_tasks p) \<Longrightarrow> connectTarget_begin r p = None \<Longrightarrow>
     server_step p (done_task (ConnectTarget r) p)"
| connect_dial: "ConnectTarget r \<in> set (sp_tasks p) \<Longrightarrow> connectTarget_begin r p = Some a \<Longrightarrow>
     server_step p (spawn (Dialing r) (done_task (ConnectTarget r) p))"
| connect_failed: "Dialing r \<in> set (sp_tasks p) \<Longrightarrow>
     server_step p (spawn (RefuseClose r) (connectTarget_err now r (done_task (Dialing r) p)))"
| connect_refused: "RefuseClose r \<in> set (sp_tasks p) \<Longrightarrow>
     server_step p (spawn (RefuseForget r) (connectTarget_close now r (done_task (RefuseClose r) p)))"
| connect_forgotten: "RefuseForget r \<in> set (sp_tasks p) \<Longrightarrow>
     server_step p (connectTarget_forget r (done_task (RefuseForget r) p))"
| connect_late: "Dialing r \<in> set (sp_tasks p) \<Longrightarrow> connectTarget_publish t r (done_task (Dialing r) p) = (None, q) \<Longrightarrow>
     server_step p q"
| connect_published: "Dialing r \<in> set (sp_tasks p) \<Longrightarrow>
     connectTarget_publish t r (done_task (Dialing r) p) = (Some ds, q) \<Longrightarrow> server_step p (spawn (AnnounceOK r t ds) q)"
| connect_status: "AnnounceOK r t ds \<in> set (sp_tasks p) \<Longrightarrow>
     server_step p (spawn (FlushPending r t ds) (connectTarget_status now r (done_task (AnnounceOK r t ds) p)))"
| connect_write: "FlushPending r t ds \<in> set (sp_tasks p) \<Longrightarrow>
     connectTarget_write ok r t ds (done_task (FlushPending r t ds) p) = (Some ds', q) \<Longrightarrow>
     server_step p (spawn (FlushPending r t ds') q)"
| connect_over: "FlushPending r t ds \<in> set (sp_tasks p) \<Longrightarrow>
     connectTarget_write ok r t ds (done_task (FlushPending r t ds) p) = (None, q) \<Longrightarrow> server_step p q"
| forward_data: "ForwardTarget r \<in> set (sp_tasks p) \<Longrightarrow>
     server_step p (forwardTargetToClient now r (Some data) p)"
| forward_end: "ForwardTarget r \<in> set (sp_tasks p) \<Longrightarrow>
     server_step p (forwardTargetToClient now r None (done_task (ForwardTarget r) p))"
| forward_udp: "ForwardUDP r \<in> set (sp_tasks p) \<Longrightarrow> forwardUDPToClient now r uread p = (True, q) \<Longrightarrow> server_step p q"
| forward_udp_end: "ForwardUDP r \<in> set (sp_tasks p) \<Longrightarrow> forwardUDPToClient now r uread p = (False, q) \<Longrightarrow>
     server_step p (done_task (ForwardUDP r) q)"
| prebind_expire: "PrebindExpire connID t \<in> set (sp_tasks p) \<Longrightarrow> t \<le> now \<Longrightarrow>
     server_step p (unregisterConn connID (done_task (PrebindExpire connID t) p))"
| cooldown: "CooldownReset t \<in> set (sp_tasks p) \<Longrightarrow> t \<le> now \<Longrightarrow>
     server_step p (cooldownReset (done_task (CooldownReset t) p))"
| dial: "dict_get (sp_revConns p) (dial_connID now uuid c p) = None \<Longrightarrow>
     server_step p (snd (DialStream_begin now uuid c target p))"
| dial_end: "ev = DialResult \<longrightarrow> isSettled (sp_revHeap p r) \<Longrightarrow>
     server_step p (snd (DialStream_finish now ev r p))"
| pump: "ReverseUpstream r \<in> set (sp_tasks p) \<Longrightarrow> server_step p (reverseUpstreamPump now r (Some data) p)"
| pump_end: "ReverseUpstream r \<in> set (sp_tasks p) \<Longrightarrow>
     server_step p (reverseUpstreamPump now r None (done_task (ReverseUpstream r) p))"
| shutdown: "server_step p (Listeners_Shutdown p)"

lemma inv_done_task: "server_inv p \<Longrightarrow> server_inv (done_task t p)"
  unfolding done_task_def by (erule server_inv_channels) (simp_all add: chan_ok_view [OF view_fields(12)] rev_view_def)

lemma inv_spawn: "server_inv p \<Longrightarrow> server_inv (spawn t p)"
  by (erule server_inv_channels) (simp_all add: chan_ok_view [OF view_updates(7)])

lemma inv_cleanup_start: "server_inv p \<Longrightarrow> server_inv (cleanup_start c ch p)"
  by (simp add: cleanup_start_def Let_def split_def inv_spawn inv_cleanup_tables)

lemma inv_cleanup_next: "server_inv p \<Longrightarrow> cleanup_next c ch w g pc p = (pc', q) \<Longrightarrow> server_inv q"
  by (cases "(c, ch, w, g, pc, p)" rule: cleanup_next.cases)
     (auto intro: inv_unregisterConn inv_removeReverseConn inv_hotPairs inv_listeners inv_closeWS table_ok_reads
       split: option.splits if_splits)

lemma inv_writeLoop_broken: "server_inv p \<Longrightarrow> server_inv (writeLoop_broken r p)"
  by (auto simp: writeLoop_broken_def Let_def split_def intro!: inv_spawn inv_set_loop inv_close_begin)

lemma inv_cooldownReset: "server_inv p \<Longrightarrow> server_inv (cooldownReset p)"
  by (erule server_inv_core) (auto simp: cooldownReset_def elim!: queue_ok_cong)

lemma inv_reverse_steps:
  "server_inv p \<Longrightarrow> dict_get (sp_revConns p) (dial_connID now uuid c p) = None \<Longrightarrow>
   server_inv (snd (DialStream_begin now uuid c target p))"
  "server_inv p \<Longrightarrow> server_inv (snd (DialStream_finish now ev r p))"
  "server_inv p \<Longrightarrow> server_inv (reverseUpstreamPump now r read p)"
  by (erule server_inv_reverse; simp add: inv_intros rev_ok_DialStream_begin)+

section \<open>Channel numbers handed out\<close>

lemma allocLoop_spec:
  "1 \<le> i \<Longrightarrow>
   (if allocLoop p c i = 0 then \<forall>k. i \<le> k \<and> k \<le> maxAllowedChID \<longrightarrow> ws_live p (channel_ref p c k)
    else i \<le> allocLoop p c i \<and> allocLoop p c i \<le> maxAllowedChID \<and>
      \<not> ws_live p (channel_ref p c (allocLoop p c i)) \<and>
      (\<forall>k. i \<le> k \<and> k < allocLoop p c i \<longrightarrow> ws_live p (channel_ref p c k)))"
proof (induction p c i rule: allocLoop.induct)
  case (1 p c i)
  consider "i > maxAllowedChID" | "i \<le> maxAllowedChID" "\<not> ws_live p (channel_ref p c i)"
    | "i \<le> maxAllowedChID" "ws_live p (channel_ref p c i)" by linarith
  then show ?case
  proof cases
    case 1
    then have "allocLoop p c i = 0" by (subst allocLoop.simps) simp
    with 1 show ?thesis by auto
  next
    case 2
    then have "allocLoop p c i = i" by (subst allocLoop.simps) simp
    with 2 "1.prems" show ?thesis by auto
  next
    case 3
    then have step: "allocLoop p c i = allocLoop p c (i + 1)" by (subst allocLoop.simps) simp
    have split: "i \<le> k \<longleftrightarrow> k = i \<or> i + 1 \<le> k" for k :: int by linarith
    show ?thesis
      using "1.IH" 3 "1.prems" unfolding step split by (auto split: if_splits)
  qed
qed

lemma admitted_chID:
  "handleWebSocket_admit uuid rq p = Inr (c, ch) \<Longrightarrow> 1 \<le> ch \<and> ch \<le> maxAllowedChID"
  using allocLoop_spec [of 1 p c]
  by (auto simp: handleWebSocket_admit_def allocClientChIDLocked_def Let_def
      split: if_splits option.splits sum.splits)

section \<open>The invariant holds in every reachable state\<close>

lemma inv_register:
  assumes "server_inv p" "1 \<le> ch" "ch \<le> maxAllowedChID"
  shows "server_inv (snd (handleWebSocket_register c ch ra p))"
  using assms(1)
proof (rule server_inv_channels)
  let ?q = "snd (handleWebSocket_register c ch ra p)"
  show "chan_ok ?q" if "chan_ok p" using that assms(2,3) by (rule chan_ok_register)
  show "queue_ok ?q" if "queue_ok p" using that by (rule queue_ok_register)
  show "conn_view ?q = conn_view p" "rev_view ?q = rev_view p" "dir_view ?q = dir_view p"
    by (simp_all add: handleWebSocket_register_def Let_def conn_view_def rev_view_def dir_view_def)
  show "hot_ok ?q" if "hot_ok p" using that by (simp add: handleWebSocket_register_def Let_def hot_ok_def)
qed

lemma inv_step: "server_step p q \<Longrightarrow> server_inv p \<Longrightarrow> server_inv q"
proof (induction rule: server_step.induct)
  case (register uuid rq p0 c ch p ra)
  then show ?case using admitted_chID by (blast intro: inv_register)
next
  case (forward_udp r p now uread q)
  then show ?case using inv_forward_handlers(9) [of p now r uread] by simp
next
  case (forward_udp_end r p now uread q)
  then show ?case using inv_forward_handlers(9) [of p now r uread] by (simp add: inv_done_task)
next
  case (cleaning c ch w g pc p pc' q)
  then show ?case by (metis inv_cleanup_next inv_done_task inv_spawn)
next
  case (cleaned c ch w g pc p q)
  then show ?case by (metis inv_cleanup_next inv_done_task)
next
  case (loop_task_broken p r t ts now q)
  then show ?case by (metis inv_dequeue inv_writeDirect inv_writeLoop_broken snd_conv)
next
  case (loop_ping_broken p r q)
  then show ?case by (metis inv_writeDirect inv_writeLoop_broken snd_conv)
next
  case (connect_late r p t q)
  then show ?case by (metis inv_connectTarget(4) inv_done_task snd_conv)
next
  case (connect_published r p t ds q)
  then show ?case by (metis inv_connectTarget(4) inv_done_task inv_spawn snd_conv)
next
  case (connect_write r t ds p ok ds' q)
  then show ?case by (metis inv_connectTarget(6) inv_done_task inv_spawn snd_conv)
next
  case (connect_over r t ds p ok q)
  then show ?case by (metis inv_connectTarget(6) inv_done_task snd_conv)
qed (auto intro!: inv_readLoop_message inv_spawn inv_close_begin inv_cleanup_start
    inv_done_task inv_writeLoop_start inv_writeLoop inv_writeLoop_exit inv_forward_handlers inv_connectTarget
    inv_unregisterConn inv_cooldownReset inv_reverse_steps inv_listeners)

definition server_start :: "serverPool \<Rightarrow> bool" where
  "server_start p \<longleftrightarrow> (\<exists>token config. p = newServerPool token config)"

interpretation running: invariant_system server_start server_step server_inv
  by unfold_locales (auto simp: server_start_def server_inv_init intro: inv_step)

section \<open>What a lost channel leaves behind\<close>

text \<open>The fields of a connection that say which channels it uses never change on removal.\<close>

definition uses_channel :: "serverPool \<Rightarrow> string \<Rightarrow> chid \<Rightarrow> ref \<Rightarrow> bool" where
  "uses_channel p c ch r \<longleftrightarrow> cs_clientID (sp_connHeap p r) = c \<and>
     (cs_uplinkChID (sp_connHeap p r) = ch \<or> cs_downlinkChID (sp_connHeap p r) = ch)"

definition rev_uses_channel :: "serverPool \<Rightarrow> string \<Rightarrow> chid \<Rightarrow> ref \<Rightarrow> bool" where
  "rev_uses_channel p c ch r \<longleftrightarrow> rc_ownerClientID (sp_revHeap p r) = c \<and>
     (rc_sendCh (sp_revHeap p r) = wrap32 ch \<or> rc_recvCh (sp_revHeap p r) = wrap32 ch)"

lemma unregister_conns:
  "dict_get (sp_conns (unregisterConn connID p)) x = (if x = connID then None else dict_get (sp_conns p) x)"
  by (auto simp: unregisterConn_def closeTargets_def emit_def upd_conn_def Let_def split: option.split)

lemma unregister_uses [simp]: "uses_channel (unregisterConn connID p) = uses_channel p"
  by (intro ext) (auto simp: uses_channel_def unregisterConn_def closeTargets_def emit_def upd_conn_def Let_def
      split: option.split)

lemma foldl_unregister:
  "dict_get (sp_conns (foldl (\<lambda>p connID. unregisterConn connID p) p ids)) x =
     (if x \<in> set ids then None else dict_get (sp_conns p) x)"
  "uses_channel (foldl (\<lambda>p connID. unregisterConn connID p) p ids) = uses_channel p"
  by (induction ids arbitrary: p) (auto simp: unregister_conns)

lemma remove_revConns:
  "dict_get (sp_revConns (removeReverseConn connID p)) x = (if x = connID then None else dict_get (sp_revConns p) x)"
  by (auto simp: removeReverseConn_def upd_rev_def Let_def split: option.split)

lemma remove_rev_uses [simp]: "rev_uses_channel (removeReverseConn connID p) = rev_uses_channel p"
  by (intro ext) (auto simp: rev_uses_channel_def removeReverseConn_def settle_def upd_rev_def Let_def
      split: option.split)

lemma foldl_remove_rev:
  "dict_get (sp_revConns (foldl (\<lambda>p connID. removeReverseConn connID p) p ids)) x =
     (if x \<in> set ids then None else dict_get (sp_revConns p) x)"
  "rev_uses_channel (foldl (\<lambda>p connID. removeReverseConn connID p) p ids) = rev_uses_channel p"
  by (induction ids arbitrary: p) (auto simp: remove_revConns)

lemma connsUsing_complete:
  "dict_get (sp_conns p) connID = Some r \<Longrightarrow> uses_channel p c ch r \<Longrightarrow> connID \<in> set (connsUsing c ch p)"
  by (force simp: connsUsing_def uses_channel_def Let_def dest: map_of_SomeD)

lemma revConnsUsing_complete:
  "dict_get (sp_revConns p) connID = Some r \<Longrightarrow> rev_uses_channel p c ch r \<Longrightarrow> connID \<in> set (revConnsUsing c ch p)"
  by (force simp: revConnsUsing_def rev_uses_channel_def Let_def dest: map_of_SomeD)

text \<open>The four stages of \<^verbatim>\<open>cleanupChannel\<close>, as seen by the tables.\<close>

lemma cleanup_views:
  "conn_view (closeWS r p) = conn_view p" "rev_view (closeWS r p) = rev_view p"
  "sp_clientChConns (closeWS r p) = sp_clientChConns p"
  "sp_clientChConns (ShutdownClient c p) = sp_clientChConns p"
  "sp_hotPairs (closeWS r p) = sp_hotPairs p" "sp_hotPairs (ShutdownClient c p) = sp_hotPairs p"
  by (simp_all add: closeWS_def ShutdownClient_def upd_ws_def split: option.split)
    (simp_all add: conn_view_def rev_view_def)

lemma foldl_views:
  "chan_view (foldl (\<lambda>p connID. unregisterConn connID p) p ids) = chan_view p"
  "rev_view (foldl (\<lambda>p connID. unregisterConn connID p) p ids) = rev_view p"
  "chan_view (foldl (\<lambda>p connID. removeReverseConn connID p) p ids) = chan_view p"
  "conn_view (foldl (\<lambda>p connID. removeReverseConn connID p) p ids) = conn_view p"
  by (induction ids arbitrary: p) simp_all

text \<open>The state after the connections of the channel are gone, before the hot-pair table, the
  listeners and the socket are dealt with.\<close>

definition cleanup_conns :: "string \<Rightarrow> chid \<Rightarrow> serverPool \<Rightarrow> serverPool" where
  "cleanup_conns c ch p =
     (let p = snd (cleanup_tables c ch p);
          p = foldl (\<lambda>p connID. unregisterConn connID p) p (connsUsing c ch p)
      in foldl (\<lambda>p connID. removeReverseConn connID p) p (revConnsUsing c ch p))"

lemma cleanupChannel_eq:
  "cleanupChannel c ch p =
     (let (wsConn, gone) = fst (cleanup_tables c ch p);
          q = (cleanup_conns c ch p)\<lparr>sp_hotPairs :=
                (if gone then InvalidateClient (sp_hotPairs (cleanup_conns c ch p)) c
                 else InvalidateChannel (sp_hotPairs (cleanup_conns c ch p)) ch)\<rparr>;
          q = (if gone then ShutdownClient c q else q)
      in case wsConn of None \<Rightarrow> q | Some r \<Rightarrow> closeWS r q)"
  unfolding cleanupChannel_def cleanup_conns_def Let_def split_def fst_conv snd_conv by (rule refl)

lemma cleanupChannel_views:
  "conn_view (cleanupChannel c ch p) = conn_view (cleanup_conns c ch p)"
  "rev_view (cleanupChannel c ch p) = rev_view (cleanup_conns c ch p)"
  "sp_clientChConns (cleanupChannel c ch p) = sp_clientChConns (cleanup_conns c ch p)"
  by (simp_all add: cleanupChannel_eq Let_def split_def cleanup_views rev_ok_listen split: option.split)

lemma cleanup_conns_forward:
  assumes "dict_get (sp_conns (cleanup_conns c ch p)) connID = Some r"
  shows "\<not> uses_channel (cleanup_conns c ch p) c ch r"
proof -
  let ?p = "snd (cleanup_tables c ch p)"
  let ?q = "foldl (\<lambda>p connID. unregisterConn connID p) ?p (connsUsing c ch ?p)"
  have "conn_view (cleanup_conns c ch p) = conn_view ?q" by (simp add: cleanup_conns_def Let_def foldl_views)
  then have v: "sp_conns (cleanup_conns c ch p) = sp_conns ?q" "sp_connHeap (cleanup_conns c ch p) = sp_connHeap ?q"
    by (simp_all add: conn_view_def)
  with assms have "dict_get (sp_conns ?p) connID = Some r" "connID \<notin> set (connsUsing c ch ?p)"
    by (simp_all add: foldl_unregister split: if_splits)
  then have "\<not> uses_channel ?q c ch r" using connsUsing_complete by (simp add: foldl_unregister) blast
  then show ?thesis by (simp add: uses_channel_def v)
qed

lemma cleanup_conns_reverse:
  assumes "dict_get (sp_revConns (cleanup_conns c ch p)) connID = Some r"
  shows "\<not> rev_uses_channel (cleanup_conns c ch p) c ch r"
proof -
  let ?p = "snd (cleanup_tables c ch p)"
  let ?q = "foldl (\<lambda>p connID. unregisterConn connID p) ?p (connsUsing c ch ?p)"
  have q: "cleanup_conns c ch p = foldl (\<lambda>p connID. removeReverseConn connID p) ?q (revConnsUsing c ch ?q)"
    by (simp add: cleanup_conns_def Let_def)
  with assms have "dict_get (sp_revConns ?q) connID = Some r" "connID \<notin> set (revConnsUsing c ch ?q)"
    by (simp_all add: foldl_remove_rev split: if_splits)
  then show ?thesis using revConnsUsing_complete by (simp add: q foldl_remove_rev) blast
qed

lemma cleanup_conns_channel_ref:
  assumes "chan_ok p"
  shows "channel_ref (cleanup_conns c ch p) c' ch' = (if c' = c \<and> ch' = ch then None else channel_ref p c' ch')"
proof -
  have "chan_view (cleanup_conns c ch p) = chan_view (snd (cleanup_tables c ch p))"
    by (simp add: cleanup_conns_def Let_def foldl_views)
  then have "channel_ref (cleanup_conns c ch p) = channel_ref (snd (cleanup_tables c ch p))"
    by (rule chan_view_refs)
  moreover have "channel_ref (snd (cleanup_tables c ch p)) c' ch' =
      (if c' = c \<and> ch' = ch then None else channel_ref p c' ch')"
  proof (cases "channel_ref p c ch")
    case None
    with cleanup_absent [OF assms None] chan_view_refs(1) show ?thesis by metis
  qed (simp add: cleanup_present(6) [OF assms])
  ultimately show ?thesis by simp
qed

text \<open>What a clean-up does to the channels themselves: it closes the one registered under the number.\<close>

lemma cleanup_tables_ref: "fst (fst (cleanup_tables c ch p)) = channel_ref p c ch"
  by (simp add: cleanup_tables_def channel_ref_def Let_def split: option.split)

lemma cleanup_ws:
  "ws_closed (sp_wsHeap (cleanupChannel c ch p) r) \<longleftrightarrow> ws_closed (sp_wsHeap p r) \<or> channel_ref p c ch = Some r"
  "ws_socketOpen (sp_wsHeap (cleanupChannel c ch p) r) \<longleftrightarrow>
     ws_socketOpen (sp_wsHeap p r) \<and> (channel_ref p c ch = Some r \<longrightarrow> ws_closed (sp_wsHeap p r))"
  "ws_clientID (sp_wsHeap (cleanupChannel c ch p) r) = ws_clientID (sp_wsHeap p r)"
  "ws_chID (sp_wsHeap (cleanupChannel c ch p) r) = ws_chID (sp_wsHeap p r)"
proof -
  let ?k = "cleanup_conns c ch p"
  have "chan_view ?k = chan_view (snd (cleanup_tables c ch p))" by (simp add: cleanup_conns_def Let_def foldl_views)
  moreover have "sp_wsHeap (snd (cleanup_tables c ch p)) = sp_wsHeap p" by (simp add: cleanup_tables_def Let_def split: option.split)
  ultimately have "ws_core (sp_wsHeap ?k x) = ws_core (sp_wsHeap p x)" for x using chan_viewD(5) by metis
  note k = ws_core_fields [OF this]
  define q where "q = (let t = ?k\<lparr>sp_hotPairs := (if snd (fst (cleanup_tables c ch p)) then InvalidateClient (sp_hotPairs ?k) c
      else InvalidateChannel (sp_hotPairs ?k) ch)\<rparr> in if snd (fst (cleanup_tables c ch p)) then ShutdownClient c t else t)"
  have h: "sp_wsHeap q = sp_wsHeap ?k" by (simp add: q_def Let_def ShutdownClient_def split: option.split)
  have e: "cleanupChannel c ch p = (case channel_ref p c ch of None \<Rightarrow> q | Some x \<Rightarrow> closeWS x q)"
    unfolding cleanupChannel_eq q_def Let_def split_def cleanup_tables_ref by (rule refl)
  show "ws_closed (sp_wsHeap (cleanupChannel c ch p) r) \<longleftrightarrow> ws_closed (sp_wsHeap p r) \<or> channel_ref p c ch = Some r"
    "ws_socketOpen (sp_wsHeap (cleanupChannel c ch p) r) \<longleftrightarrow>
       ws_socketOpen (sp_wsHeap p r) \<and> (channel_ref p c ch = Some r \<longrightarrow> ws_closed (sp_wsHeap p r))"
    "ws_clientID (sp_wsHeap (cleanupChannel c ch p) r) = ws_clientID (sp_wsHeap p r)"
    "ws_chID (sp_wsHeap (cleanupChannel c ch p) r) = ws_chID (sp_wsHeap p r)"
    unfolding e using k h by (auto simp: closeWS_def upd_ws_def split: option.split)
qed

section \<open>Whose queues a send reaches\<close>

definition announcements :: "bytes set" where
  "announcements = range backpressure_frame"

text \<open>Compared with \<open>p0\<close>, channels of clients other than \<open>c\<close> have only gained announcements.\<close>

definition only_client :: "serverPool \<Rightarrow> string \<Rightarrow> serverPool \<Rightarrow> bool" where
  "only_client p0 c p \<longleftrightarrow> core p = core p0 \<and>
     (\<forall>r. ws_clientID (sp_wsHeap p0 r) \<noteq> c \<longrightarrow>
        (\<exists>bp. ws_queue (sp_wsHeap p r) = ws_queue (sp_wsHeap p0 r) @ bp \<and> wt_data ` set bp \<subseteq> announcements))"

lemma only_client_cong:
  "only_client p0 c p \<Longrightarrow> core q = core p \<Longrightarrow> (\<And>r. ws_queue (sp_wsHeap q r) = ws_queue (sp_wsHeap p r)) \<Longrightarrow>
   only_client p0 c q"
  by (simp add: only_client_def)

lemma only_client_enqueue:
  assumes "only_client p0 c p" "ws_clientID (sp_wsHeap p0 r) = c \<or> d \<in> announcements"
  shows "only_client p0 c (enqueue r mt d p)"
  unfolding only_client_def
proof (intro conjI allI impI)
  show "core (enqueue r mt d p) = core p0" using assms(1) by (simp add: only_client_def)
  fix x assume x: "ws_clientID (sp_wsHeap p0 x) \<noteq> c"
  with assms(1) obtain bp where bp: "ws_queue (sp_wsHeap p x) = ws_queue (sp_wsHeap p0 x) @ bp"
    "wt_data ` set bp \<subseteq> announcements" by (auto simp: only_client_def)
  show "\<exists>bp. ws_queue (sp_wsHeap (enqueue r mt d p) x) = ws_queue (sp_wsHeap p0 x) @ bp \<and> wt_data ` set bp \<subseteq> announcements"
  proof (cases "x = r")
    case True
    with assms(2) x have "d \<in> announcements" by auto
    with bp True show ?thesis
      by (intro exI [of _ "bp @ [\<lparr>wt_msgType = mt, wt_data = d, wt_size = int (length d)\<rparr>]"])
        (simp add: enqueue_def upd_ws_def)
  next
    case False
    with bp show ?thesis by (auto simp: enqueue_def upd_ws_def)
  qed
qed

lemma queues_kept:
  "ws_queue (sp_wsHeap (refuse now r p) x) = ws_queue (sp_wsHeap p x)"
  "ws_queue (sp_wsHeap (notifyChannelReset r p) x) = ws_queue (sp_wsHeap p x)"
  "sp_wsHeap (spawn t p) = sp_wsHeap p"
  by (simp_all add: refuse_def notifyChannelReset_def upd_ws_def spawn_def Let_def)

interpretation isolation: transport_invariant "only_client p0 c"
  "\<lambda>r _ d. ws_clientID (sp_wsHeap p0 r) = c \<or> d \<in> announcements" for p0 c
proof unfold_locales
  fix p r mt d assume "only_client p0 c p" "ws_clientID (sp_wsHeap p0 r) = c \<or> d \<in> announcements"
  then show "only_client p0 c (enqueue r mt d p)" by (rule only_client_enqueue)
qed (auto elim!: only_client_cong simp: queues_kept announcements_def)

lemma only_client_refl: "only_client p c p"
  by (simp add: only_client_def)

section \<open>Properties\<close>

text \<open>Property C1: in every reachable state of the server the channel table is sound: two live channels
  never share a client and a number, registered channels carry the client and number they are
  registered under, numbers lie between 1 and 65535, and the configured limits on all channels
  and on each client's channels hold, whatever the interleaving of admissions, closes and
  take-overs.\<close>

theorem reachable_channels_sound:
  assumes "server_start p0" "server_step\<^sup>*\<^sup>* p0 p"
  shows "(\<forall>r\<in>set (live_refs p). \<forall>r'\<in>set (live_refs p).
        ws_clientID (sp_wsHeap p r) = ws_clientID (sp_wsHeap p r') \<and> ws_chID (sp_wsHeap p r) = ws_chID (sp_wsHeap p r')
        \<longrightarrow> r = r') \<and>
    (\<forall>c ch r. channel_ref p c ch = Some r \<longrightarrow> ws_clientID (sp_wsHeap p r) = c \<and> ws_chID (sp_wsHeap p r) = ch \<and>
        1 \<le> ch \<and> ch \<le> 65535) \<and>
    within_limits p"
proof -
  have ok: "chan_ok p" using running.reachable_inv [OF assms] by (simp add: server_inv_def)
  note d = chan_okD [OF ok]
  have "r = r'" if "r \<in> set (live_refs p)" "r' \<in> set (live_refs p)"
    "ws_clientID (sp_wsHeap p r) = ws_clientID (sp_wsHeap p r')" "ws_chID (sp_wsHeap p r) = ws_chID (sp_wsHeap p r')" for r r'
    using d(6) [OF that(1), unfolded that(3,4)] d(6) [OF that(2)] by simp
  moreover have "ws_clientID (sp_wsHeap p r) = c \<and> ws_chID (sp_wsHeap p r) = ch \<and> 1 \<le> ch \<and> ch \<le> 65535"
    if "channel_ref p c ch = Some r" for c ch r
    using d(3) [OF that] by (simp add: maxAllowedChID_def)
  ultimately show ?thesis using d(7) by (intro conjI allI impI ballI) blast+
qed

lemma example_admit:
  "handleWebSocket_admit ''u'' \<lparr>rq_protocols = [''t''], rq_clientID = ''c'', rq_chID = ''3'', rq_remoteAddr = ''a''\<rparr>
     (newServerPool ''t'' DefaultServerConfig) = Inr (''c'', 3)"
  by (simp add: handleWebSocket_admit_def Sscanf_d_def is_blank_def is_digit_def digits_value_def
      maxAllowedChID_def limits_hit_def newServerPool_def DefaultServerConfig_def Let_def)

lemma example_register:
  "fst (handleWebSocket_register ''c'' 3 ''a'' (newServerPool ''t'' DefaultServerConfig)) = Registered 0"
  "channel_ref (snd (handleWebSocket_register ''c'' 3 ''a'' (newServerPool ''t'' DefaultServerConfig))) ''c'' 3 = Some 0"
  by (simp_all add: handleWebSocket_register_def limits_hit_def channel_ref_def newServerPool_def
      DefaultServerConfig_def Let_def)

lemma example_open:
  "let p = snd (handleWebSocket_register ''c'' 3 ''a'' (newServerPool ''t'' DefaultServerConfig))
   in \<not> ws_closed (sp_wsHeap p 0) \<and> ws_socketOpen (sp_wsHeap p 0) \<and> sp_wsConns p = [Some 0]"
  by (simp add: handleWebSocket_register_def limits_hit_def channel_ref_def newServerPool_def DefaultServerConfig_def
      newServerWSConn_def blank_ws_def Let_def)

theorem reachable_channels_sound_witness:
  "within_limits (snd (handleWebSocket_register ''c'' 3 ''a'' (newServerPool ''t'' DefaultServerConfig)))"
proof -
  let ?p = "newServerPool ''t'' DefaultServerConfig"
  have "server_step ?p (snd (handleWebSocket_register ''c'' 3 ''a'' ?p))"
    using example_admit by (rule server_step.register)
  then have "server_step\<^sup>*\<^sup>* ?p (snd (handleWebSocket_register ''c'' 3 ''a'' ?p))" by (rule r_into_rtranclp)
  from reachable_channels_sound [OF _ this] show ?thesis by (auto simp: server_start_def)
qed

text \<open>Property C2: in every reachable state the back-pressure counter is the number of bytes queued over
  all channels, every queue holds at most 4096 frames, no registered connection is closed, at
  most 1 MB waits on any connection, and every reverse connection that is no longer registered
  is settled and closed.\<close>

theorem reachable_accounting_exact:
  assumes "server_start p0" "server_step\<^sup>*\<^sup>* p0 p"
  shows "sp_globalQueueBytes p = queued_bytes p \<and>
    (\<forall>r. length (ws_queue (sp_wsHeap p r)) \<le> writeChanCap) \<and>
    (\<forall>connID r. dict_get (sp_conns p) connID = Some r \<longrightarrow> \<not> cs_closed (sp_connHeap p r)) \<and>
    (\<forall>r. pending_bytes (cs_pendingData (sp_connHeap p r)) \<le> pendingDataMaxSize) \<and>
    (\<forall>r < sp_nextRev p. dict_get (sp_revConns p) (rc_connID (sp_revHeap p r)) = Some r \<or>
       rc_settled (sp_revHeap p r) \<and> \<not> rc_open (sp_revHeap p r))"
proof -
  have "server_inv p" using running.reachable_inv [OF assms] .
  then have q: "queue_ok p" and c: "conn_ok p" and r: "rev_ok p" by (simp_all add: server_inv_def)
  have "\<forall>r. pending_bytes (cs_pendingData (sp_connHeap p r)) \<le> pendingDataMaxSize"
    using conn_ok_state [OF c] by (simp add: conn_state_ok_def)
  moreover have "\<forall>connID r. dict_get (sp_conns p) connID = Some r \<longrightarrow> \<not> cs_closed (sp_connHeap p r)"
    using conn_ok_lookup [OF c] by blast
  ultimately show ?thesis using q r by (simp add: queue_ok_def rev_ok_def rev_table_ok_def rev_view_def)
qed

theorem reachable_accounting_exact_witness:
  "let p = snd (handleWebSocket_register ''c'' 3 ''a'' (newServerPool ''t'' DefaultServerConfig))
   in sp_globalQueueBytes p = queued_bytes p"
proof -
  let ?p = "newServerPool ''t'' DefaultServerConfig"
  have "server_step ?p (snd (handleWebSocket_register ''c'' 3 ''a'' ?p))"
    using example_admit by (rule server_step.register)
  then have "server_step\<^sup>*\<^sup>* ?p (snd (handleWebSocket_register ''c'' 3 ''a'' ?p))" by (rule r_into_rtranclp)
  from reachable_accounting_exact [OF _ this] show ?thesis by (auto simp: server_start_def Let_def)
qed

text \<open>Property C21: admission is sound: a connection attempt ends in a registered channel only if its first
  subprotocol is the server's token; the new channel then carries a number between 1 and 65535
  on which the client had no live channel, it is added to the live channels, and the limits
  still hold. Every other outcome leaves the pool unchanged.\<close>

theorem admission_sound:
  assumes "chan_ok p" "handleWebSocket uuid ok rq p = (res, q)"
  shows "(case res of
      Upgraded (Registered r) \<Rightarrow>
        rq_protocols rq \<noteq> [] \<and> hd (rq_protocols rq) = sp_token p \<and>
        (\<exists>c ch. 1 \<le> ch \<and> ch \<le> 65535 \<and> \<not> ws_live p (channel_ref p c ch) \<and> channel_ref q c ch = Some r \<and>
           (rq_clientID rq \<noteq> '''' \<longrightarrow> c = rq_clientID rq)) \<and>
        live_refs q = live_refs p @ [r] \<and> within_limits q
    | _ \<Rightarrow> q = p)"
proof (cases "handleWebSocket_admit uuid rq p")
  case (Inl e)
  with assms(2) show ?thesis by (auto simp: handleWebSocket_def)
next
  case (Inr x)
  obtain c ch where x: "x = (c, ch)" by (cases x)
  have token: "rq_protocols rq \<noteq> []" "hd (rq_protocols rq) = sp_token p" "rq_clientID rq \<noteq> '''' \<Longrightarrow> c = rq_clientID rq"
    using Inr x by (auto simp: handleWebSocket_admit_def Let_def split: if_splits option.splits sum.splits)
  have ch: "1 \<le> ch \<and> ch \<le> maxAllowedChID" using Inr x by (simp add: admitted_chID)
  show ?thesis
  proof (cases "\<not> ok")
    case True
    with assms(2) Inr x show ?thesis by (auto simp: handleWebSocket_def)
  next
    case False
    then obtain res' where reg: "handleWebSocket_register c ch (rq_remoteAddr rq) p = (res', q)" "res = Upgraded res'"
      using assms(2) Inr x by (cases "handleWebSocket_register c ch (rq_remoteAddr rq) p")
        (auto simp: handleWebSocket_def Let_def)
    show ?thesis
    proof (cases res')
      case (Registered r)
      note reg' = reg(1) [unfolded Registered]
      have "chan_ok q" using chan_ok_register [OF assms(1), of ch c "rq_remoteAddr rq"] ch reg(1) by simp
      then show ?thesis
        using token ch channel_ref_register(1) [OF reg', of c ch] channel_ref_register(8) [OF reg'] live_refs_register(1) [OF assms(1) reg'] reg(2) Registered
        by (auto simp: maxAllowedChID_def chan_okD(7))
    qed (use reg register_refused [OF reg(1)] in simp_all)
  qed
qed

theorem admission_sound_witness:
  "let p = newServerPool ''t'' DefaultServerConfig;
       rq = \<lparr>rq_protocols = [''t''], rq_clientID = ''c'', rq_chID = ''3'', rq_remoteAddr = ''a''\<rparr>
   in fst (handleWebSocket ''u'' True rq p) = Upgraded (Registered 0) \<and>
      within_limits (snd (handleWebSocket ''u'' True rq p))"
proof -
  let ?p = "newServerPool ''t'' DefaultServerConfig"
  let ?rq = "\<lparr>rq_protocols = [''t''], rq_clientID = ''c'', rq_chID = ''3'', rq_remoteAddr = ''a''\<rparr>"
  have ok: "chan_ok ?p" using server_inv_init by (simp add: server_inv_def)
  obtain res q where h: "handleWebSocket ''u'' True ?rq ?p = (res, q)" by fastforce
  have res: "fst (handleWebSocket ''u'' True ?rq ?p) = Upgraded (Registered 0)"
    by (simp add: handleWebSocket_def example_admit example_register Let_def split_def)
  with admission_sound [OF ok h] h show ?thesis by (simp add: Let_def)
qed

text \<open>Fact: automatic numbering hands out the smallest number the client does not use on a live
  channel, and fails exactly when all 65535 are in use.\<close>

theorem alloc_smallest_free:
  "let n = allocClientChIDLocked p c in
   if n = 0 then \<forall>k. 1 \<le> k \<and> k \<le> 65535 \<longrightarrow> channelAliveForClient p c k
   else 1 \<le> n \<and> n \<le> 65535 \<and> \<not> channelAliveForClient p c n \<and>
     (\<forall>k. 1 \<le> k \<and> k < n \<longrightarrow> channelAliveForClient p c k)"
  using allocLoop_spec [of 1 p c]
  by (auto simp: Let_def allocClientChIDLocked_def channelAliveForClient_def maxAllowedChID_def split: if_splits)

theorem alloc_smallest_free_witness:
  "let p = newServerPool ''t'' DefaultServerConfig in
   allocClientChIDLocked p ''c'' = 1 \<and> \<not> channelAliveForClient p ''c'' 1"
proof -
  let ?p = "newServerPool ''t'' DefaultServerConfig"
  have n: "allocClientChIDLocked ?p ''c'' = 1"
    by (subst allocClientChIDLocked_def, subst allocLoop.simps)
      (simp add: maxAllowedChID_def channel_ref_def newServerPool_def Let_def)
  with alloc_smallest_free [of ?p "''c''"] show ?thesis by (simp add: Let_def)
qed



text \<open>Fact: reverse connections belong to their client: a message for a reverse connection that comes
  from another client has no effect beyond the received-bytes counter.\<close>

theorem reverse_messages_owner_only:
  assumes "getReverseConn p connID = Some r" "rc_ownerClientID (sp_revHeap p r) \<noteq> c"
  shows "handleMessage env now c ch n mt connID meta payload p = addReceivedBytes n p"
  using assms by (simp add: handleMessage_def getReverseConn_def addReceivedBytes_def Let_def)

theorem reverse_messages_owner_only_witness:
  "let p = (newServerPool ''t'' DefaultServerConfig)\<lparr>sp_nextRev := 1,
         sp_revConns := [(''x'', 0)], sp_revHeap := (\<lambda>_. newServerReverseConn ''x'' ''c'' ''h:1'')\<rparr>
   in rc_rx (sp_revHeap (handleMessage undefined 0 ''mallory'' 0 9 MsgTCPData ''x'' [] [1] p) 0) = []"
  using reverse_messages_owner_only [of "(newServerPool ''t'' DefaultServerConfig)\<lparr>sp_nextRev := 1,
         sp_revConns := [(''x'', 0)], sp_revHeap := (\<lambda>_. newServerReverseConn ''x'' ''c'' ''h:1'')\<rparr>" "''x''" 0
         "''mallory''" undefined 0 0 9 MsgTCPData "[]" "[1]"]
  by (simp add: getReverseConn_def newServerReverseConn_def addReceivedBytes_def Let_def)

text \<open>Fact: forward connections do not check the sending client: the effect of a data, close or
  datagram message on a forward connection is the same whichever client sends it, because only
  the channel number, which every client counts from 1, is compared.\<close>

theorem forward_data_ignores_sender:
  assumes "getReverseConn p connID = None" "mt \<in> {MsgTCPData, MsgTCPClose, MsgUDPData, MsgUDPClose}"
  shows "handleMessage env now c ch n mt connID meta payload p = handleMessage env now c' ch n mt connID meta payload p"
proof -
  let ?h = "\<lambda>mt c. handleMessage env now c ch n mt connID meta payload p"
  have rev: "getReverseConn (addReceivedBytes n p) connID = None"
    using assms(1) by (simp add: getReverseConn_def addReceivedBytes_def)
  have "?h MsgTCPData c = ?h MsgTCPData c'" "?h MsgTCPClose c = ?h MsgTCPClose c'"
    "?h MsgUDPData c = ?h MsgUDPData c'" "?h MsgUDPClose c = ?h MsgUDPClose c'"
    by (simp_all add: handleMessage_def Let_def rev)
  with assms(2) show ?thesis by (elim insertE emptyE) simp_all
qed

theorem forward_data_ignores_sender_witness:
  "let p = (newServerPool ''t'' DefaultServerConfig)\<lparr>sp_conns := [(''id'', 0)], sp_nextConn := 1,
             sp_connHeap := (\<lambda>_. (newTCPConn ''id'' ''h:1'' 1 0 (''alice'', ''a''))\<lparr>cs_targetConn := Some 7\<rparr>)\<rparr>;
       env = \<lparr>env_target_ok = (\<lambda>_. True), env_pipe_ok = True, env_udp_socket = None,
              env_start = (\<lambda>_ _ _ _. Inl ''''), env_resolve = (\<lambda>a _. a), env_udp_addr = Some\<rparr>
   in sp_effects (handleMessage env 0 ''mallory'' 1 0 MsgTCPData ''id'' [] [66] p) = [TargetWrite 7 [66]]"
proof -
  let ?p = "(newServerPool ''t'' DefaultServerConfig)\<lparr>sp_conns := [(''id'', 0)], sp_nextConn := 1,
             sp_connHeap := (\<lambda>_. (newTCPConn ''id'' ''h:1'' 1 0 (''alice'', ''a''))\<lparr>cs_targetConn := Some 7\<rparr>)\<rparr>"
  let ?env = "\<lparr>env_target_ok = (\<lambda>_. True), env_pipe_ok = True, env_udp_socket = None,
              env_start = (\<lambda>_ _ _ _. Inl ''''), env_resolve = (\<lambda>a _. a), env_udp_addr = Some\<rparr>"
  have "sp_effects (handleMessage ?env 0 ''alice'' 1 0 MsgTCPData ''id'' [] [66] ?p) = [TargetWrite 7 [66]]"
    by (simp add: handleMessage_def getReverseConn_def addReceivedBytes_def handleTCPData_def emit_def
        newServerPool_def Let_def)
  moreover have "getReverseConn ?p ''id'' = None" by (simp add: getReverseConn_def newServerPool_def Let_def)
  ultimately show ?thesis
    using forward_data_ignores_sender [of ?p "''id''" MsgTCPData ?env 0 "''mallory''" 1 0 "[]" "[66]" "''alice''"]
    by (simp add: Let_def)
qed

text \<open>Property C26: a slow close hits the successor: when a closed channel's number was taken over by a new
  channel before the old channel's clean-up runs, the clean-up, which goes by client and number,
  unregisters and closes the new, live channel.\<close>

theorem stale_close_kills_successor:
  assumes "chan_ok p" "ws_closed (sp_wsHeap p old)"
    "channel_ref p (ws_clientID (sp_wsHeap p old)) (ws_chID (sp_wsHeap p old)) = Some new" "new \<noteq> old"
    "\<not> ws_closed (sp_wsHeap p new)"
  shows "let q = close_finish old p in ws_closed (sp_wsHeap q new) \<and> new \<notin> set (live_refs q) \<and>
    channel_ref q (ws_clientID (sp_wsHeap p old)) (ws_chID (sp_wsHeap p old)) = None"
proof -
  let ?c = "ws_clientID (sp_wsHeap p old)" and ?ch = "ws_chID (sp_wsHeap p old)"
  have closed: "ws_closed (sp_wsHeap (cleanupChannel ?c ?ch p) new)"
    using cleanup_present(1) [OF assms(1,3)]
    by (simp add: cleanupChannel_eq Let_def split_def closeWS_def upd_ws_def)
  moreover have "channel_ref (cleanupChannel ?c ?ch p) ?c ?ch = None"
    using cleanup_conns_channel_ref [OF assms(1), of ?c ?ch ?c ?ch]
    by (simp add: channel_ref_def cleanupChannel_views(3))
  ultimately show ?thesis by (simp add: close_finish_def in_live_refs Let_def)
qed

theorem stale_close_kills_successor_witness:
  "let p0 = newServerPool ''t'' DefaultServerConfig;
       p1 = snd (handleWebSocket_register ''c'' 3 ''a'' p0);
       p2 = snd (close_begin 0 p1);
       p3 = snd (handleWebSocket_register ''c'' 3 ''b'' p2)
   in \<not> ws_closed (sp_wsHeap p3 1) \<and> ws_closed (sp_wsHeap (close_finish 0 p3) 1)"
proof -
  let ?p0 = "newServerPool ''t'' DefaultServerConfig"
  let ?p1 = "snd (handleWebSocket_register ''c'' 3 ''a'' ?p0)"
  let ?p2 = "snd (close_begin 0 ?p1)"
  let ?p3 = "snd (handleWebSocket_register ''c'' 3 ''b'' ?p2)"
  have "chan_ok ?p0" using server_inv_init by (simp add: server_inv_def)
  then have "chan_ok ?p1" by (rule chan_ok_register) (simp_all add: maxAllowedChID_def)
  then have "chan_ok ?p2" by (rule chan_ok_close_begin)
  then have ok: "chan_ok ?p3" by (rule chan_ok_register) (simp_all add: maxAllowedChID_def)
  have ev: "sp_wsHeap ?p3 0 = (newServerWSConn ''c'' 3 ''a'')\<lparr>ws_closed := True, ws_writeChan := False,
      ws_out := [(CloseMessage, closeFrame)], ws_socketOpen := False\<rparr>"
    "sp_wsHeap ?p3 1 = newServerWSConn ''c'' 3 ''b''" "channel_ref ?p3 ''c'' 3 = Some 1"
    by (simp_all add: handleWebSocket_register_def limits_hit_def channel_ref_def newServerPool_def
        DefaultServerConfig_def close_begin_def upd_ws_def newServerWSConn_def blank_ws_def Let_def)
  with stale_close_kills_successor [OF ok, of 0 1] show ?thesis by (simp add: Let_def)
qed

text \<open>Fact: losing one client's channel drops other clients' hot pairs: the table is told only the
  channel number, so a live pair of another client that uses the same number on its own channels
  is gone as well.\<close>

theorem cleanup_drops_foreign_pairs:
  assumes "server_inv p" "channel_ref p c ch = Some r" "channel_ref p c ch2 = Some r2" "ch2 \<noteq> ch"
    "live (sp_hotPairs p) now d k = Some e" "he_ChA e = ch" "d \<noteq> c"
  shows "live (sp_hotPairs (cleanupChannel c ch p)) now d k = None"
proof -
  have ok: "chan_ok p" "table_ok (sp_hotPairs p)" using assms(1) by (simp_all add: server_inv_def hot_ok_def)
  have gone: "\<not> snd (fst (cleanup_tables c ch p))"
    using cleanup_present(9) [OF ok(1) assms(2)] assms(3,4) by (metis option.distinct(1))
  have unreg: "sp_hotPairs (unregisterConn connID q) = sp_hotPairs q"
    and rem: "sp_hotPairs (removeReverseConn connID q) = sp_hotPairs q" for connID q
    by (simp_all add: unregisterConn_def closeTargets_def emit_def upd_conn_def removeReverseConn_def
        upd_rev_def Let_def split: option.split)
  have folds: "sp_hotPairs (foldl (\<lambda>p connID. unregisterConn connID p) q ids) = sp_hotPairs q"
    "sp_hotPairs (foldl (\<lambda>p connID. removeReverseConn connID p) q ids) = sp_hotPairs q" for q ids
    by (induction ids arbitrary: q) (simp_all add: unreg rem)
  have "sp_hotPairs (snd (cleanup_tables c ch p)) = sp_hotPairs p"
    by (simp add: cleanup_tables_def Let_def split: option.split)
  then have "sp_hotPairs (cleanupChannel c ch p) = InvalidateChannel (sp_hotPairs p) ch"
    using gone by (simp add: cleanupChannel_eq cleanup_conns_def Let_def split_def folds cleanup_views split: option.split)
  then show ?thesis using assms(5,6) by (simp add: live_InvalidateChannel [OF ok(2)])
qed

theorem cleanup_drops_foreign_pairs_witness:
  "let p0 = newServerPool ''t'' DefaultServerConfig;
       p1 = snd (handleWebSocket_register ''c'' 3 ''a'' p0);
       p2 = snd (handleWebSocket_register ''c'' 4 ''a'' p1);
       p = p2\<lparr>sp_hotPairs := [(''d'', [(''k'', \<lparr>he_Key = ''k'', he_ChA = 3, he_ChB = 4, he_At = 0\<rparr>)])]\<rparr>
   in live (sp_hotPairs (cleanupChannel ''c'' 3 p)) 5 ''d'' ''k'' = None"
proof -
  let ?p0 = "newServerPool ''t'' DefaultServerConfig"
  let ?p1 = "snd (handleWebSocket_register ''c'' 3 ''a'' ?p0)"
  let ?p2 = "snd (handleWebSocket_register ''c'' 4 ''a'' ?p1)"
  let ?e = "\<lparr>he_Key = ''k'', he_ChA = 3, he_ChB = 4, he_At = 0\<rparr>"
  let ?p = "?p2\<lparr>sp_hotPairs := [(''d'', [(''k'', ?e)])]\<rparr>"
  have "server_inv ?p1" by (rule inv_register [OF server_inv_init]) (simp_all add: maxAllowedChID_def)
  then have "server_inv ?p2" by (rule inv_register) (simp_all add: maxAllowedChID_def)
  then have inv: "server_inv ?p"
    by (rule inv_hotPairs) (simp add: table_ok_def entries_ok_def entry_ok_def dict_ok_def)
  have "channel_ref ?p ''c'' 3 = Some 0" "channel_ref ?p ''c'' 4 = Some 1"
    by (simp_all add: handleWebSocket_register_def limits_hit_def channel_ref_def newServerPool_def
        DefaultServerConfig_def Let_def)
  moreover have "live (sp_hotPairs ?p) 5 ''d'' ''k'' = Some ?e"
    by (simp add: live_def expired_def hotPairEntryTTL_def time_Second_def)
  ultimately show ?thesis
    using cleanup_drops_foreign_pairs [OF inv, of "''c''" 3 0 4 1 5 "''d''" "''k''" ?e] by (simp add: Let_def)
qed

text \<open>Property C17: clients do not see each other's traffic: sending a frame down a connection that belongs to
  a client puts frames only in that client's queues; every other client's channels get at most
  back-pressure announcements.\<close>

theorem downlink_isolated:
  assumes "chan_ok p" "dict_get (sp_conns p) connID = Some k" "cs_clientID (sp_connHeap p k) = c" "c \<noteq> ''''"
    and "q = snd (sendDownlink now connID mt meta payload p)"
  shows "\<forall>r. ws_clientID (sp_wsHeap p r) \<noteq> c \<longrightarrow>
    (\<exists>bp. ws_queue (sp_wsHeap q r) = ws_queue (sp_wsHeap p r) @ bp \<and> wt_data ` set bp \<subseteq> announcements)"
proof -
  have "only_client p c (snd (sendToChannel now c ch BinaryMessage d p))" for ch d
    using chan_okD(3) [OF assms(1)] by (intro isolation.I_sendToChannel only_client_refl) blast
  moreover have "only_client p c (snd (broadcastWriteToClient now c BinaryMessage d p))" for d
    using assms(4) by (intro isolation.I_broadcastWriteToClient only_client_refl) (auto simp: activeConns_def)
  ultimately have "only_client p c q"
    using assms(2,3) by (simp add: assms(5) sendDownlink_def Let_def)
  then show ?thesis by (simp add: only_client_def)
qed

theorem downlink_isolated_witness:
  "let p0 = newServerPool ''t'' DefaultServerConfig;
       p1 = snd (handleWebSocket_register ''c'' 3 ''a'' p0);
       p2 = snd (handleWebSocket_register ''d'' 3 ''b'' p1);
       p = handleTCPConnect 0 ''c'' 3 ''id'' [0, 97] p2;
       q = snd (sendDownlink 0 ''id'' MsgTCPData [] [1] p)
   in \<exists>bp. ws_queue (sp_wsHeap q 1) = ws_queue (sp_wsHeap p 1) @ bp \<and> wt_data ` set bp \<subseteq> announcements"
proof -
  let ?p0 = "newServerPool ''t'' DefaultServerConfig"
  let ?p1 = "snd (handleWebSocket_register ''c'' 3 ''a'' ?p0)"
  let ?p2 = "snd (handleWebSocket_register ''d'' 3 ''b'' ?p1)"
  let ?p = "handleTCPConnect 0 ''c'' 3 ''id'' [0, 97] ?p2"
  have "server_inv ?p1" by (rule inv_register [OF server_inv_init]) (simp_all add: maxAllowedChID_def)
  then have "server_inv ?p2" by (rule inv_register) (simp_all add: maxAllowedChID_def)
  then have "server_inv ?p" by (rule inv_forward_handlers)
  then have ok: "chan_ok ?p" by (simp add: server_inv_def)
  have ev: "sp_conns ?p2 = []" "sp_nextConn ?p2 = 0" "channel_ref ?p2 ''c'' 3 = Some 0"
    "sp_wsHeap ?p2 0 = newServerWSConn ''c'' 3 ''a''" "sp_wsHeap ?p2 1 = newServerWSConn ''d'' 3 ''b''"
    by (simp_all add: handleWebSocket_register_def limits_hit_def channel_ref_def newServerPool_def
        DefaultServerConfig_def newServerWSConn_def blank_ws_def Let_def)
  have id: "dict_get (sp_conns ?p) ''id'' = Some 0"
    using connect_registers(1) [of ?p2 "''id''" 0 "''c''" 3 0 "[97]"] ev by simp
  have owner: "cs_clientID (sp_connHeap ?p 0) = ''c''"
    using connect_owner [of ?p2 "''id''" 0 "''c''" 3 0 "[97]"] ev by (simp add: inboundOf_def)
  have other: "ws_clientID (sp_wsHeap ?p 1) = ''d''"
    using ws_core_fields(2) [OF chan_viewD(5) [OF handleTCPConnect_frame(1)]] ev(5) by simp
  from downlink_isolated [OF ok id owner _ refl, of 0 MsgTCPData "[]" "[1]"] other show ?thesis by (simp add: Let_def)
qed

text \<open>Fact: a request on a vanished channel reaches everybody: if the channel a connection request came on
  is no longer registered, the connection is created without an owner, and whatever is sent down
  it before a downlink is chosen goes to every live channel of every client.\<close>

theorem orphan_downlink_reaches_all:
  assumes "dict_get (sp_conns p) connID = None" "channel_ref p c ch = None" "SplitHotPairConnID connID = None"
    and "q = handleTCPConnect now c ch connID (strategy # t) p"
  shows "cs_clientID (sp_connHeap q (sp_nextConn p)) = '''' \<and>
    sendDownlink now connID mt meta payload q =
      broadcastWriteToClient now '''' BinaryMessage (EncodeMessage mt connID meta payload) q \<and>
    activeConns q '''' = live_refs q"
proof -
  have owner: "cs_clientID (sp_connHeap q (sp_nextConn p)) = ''''"
    using connect_owner [OF assms(1), of now c ch strategy t] assms(2) by (simp add: assms(4) inboundOf_def)
  have down: "cs_downlinkChID (sp_connHeap q (sp_nextConn p)) = 0"
    using assms(1,3) by (simp add: assms(4) handleTCPConnect_def promotePair_def Let_def split_def spawn_def)
      (simp add: publishConn_def Let_def)
  have "dict_get (sp_conns q) connID = Some (sp_nextConn p)"
    unfolding assms(4) by (rule connect_registers [OF assms(1)])
  with owner down show ?thesis by (simp add: sendDownlink_def Let_def activeConns_all)
qed

theorem orphan_downlink_reaches_all_witness:
  "let q = handleTCPConnect 0 ''c'' 3 ''id'' [0, 97] (newServerPool ''t'' DefaultServerConfig)
   in cs_clientID (sp_connHeap q 0) = ''''"
proof -
  let ?p = "newServerPool ''t'' DefaultServerConfig"
  have "SplitHotPairConnID ''id'' = None"
    by (simp add: SplitHotPairConnID_def IndexByte_def hotPairKeyPrefix_def hotPairConnIDSep_def)
  with orphan_downlink_reaches_all [of ?p "''id''" "''c''" 3 _ 0 0 "[97]"] show ?thesis
    by (simp add: channel_ref_def newServerPool_def Let_def)
qed

end
