(* ===== verification/Lifecycle.thy ===== *)
theory Lifecycle
  imports Client_Dial Server_Pool
begin

text \<open>
  The client and the server as their users see them: \<^verbatim>\<open>src/client.go\<close> with the start of the client pool
  (\<^verbatim>\<open>Start\<close> in \<^verbatim>\<open>src/pool.go\<close>), and \<^verbatim>\<open>src/server.go\<close>. Goroutines that a start launches are recorded: the dial
  loops with their channel and relay node, and the count of channels that the start of the pair
  manager waits for. ECH, TLS and the HTTP server are library calls; whether a certificate or a
  listening socket can be had is an argument.
\<close>

section \<open>Starting the client pool\<close>

record Client =
  cl_config :: Config
  cl_pool :: clientPool
  cl_relay :: RelayNodeManager
  cl_started :: bool
  cl_shutdownDone :: bool
  cl_loops :: "dialLoop list"
  cl_warmerStarts :: "int list"
  cl_reconnectLoops :: nat

text \<open>What a start takes from outside: the sorting routine, the resolver and the results of the probes.\<close>

record start_env =
  se_sort :: sorter
  se_lookup :: "string \<Rightarrow> IP list option"
  se_probe :: "nat \<Rightarrow> instant \<times> duration option"

definition relayLoops :: "nat \<Rightarrow> relayNodeSnapshot list \<Rightarrow> dialLoop list" where
  "relayLoops n nodes =
     concat (map (\<lambda>(nodeIdx, node). map (\<lambda>j. newDialLoop (nodeIdx * n + j) (sn_ip node)) [0..<n])
       (enumerate 0 nodes))"

definition directLoops :: "nat \<Rightarrow> dialLoop list" where
  "directLoops n = map (\<lambda>i. newDialLoop i '''') [0..<n]"

text \<open>The relay manager after adding and testing the configured nodes, and the nodes chosen from it.\<close>

definition startRelays :: "start_env \<Rightarrow> string list \<Rightarrow> RelayNodeManager \<Rightarrow> RelayNodeManager" where
  "startRelays env relayNodes m =
     snd (speedTest_round (se_lookup env) (se_probe env)
       (foldl (\<lambda>m addr. snd (AddNode (se_lookup env) addr ''443'' m)) m relayNodes))"

definition chosenNodes :: "start_env \<Rightarrow> string list \<Rightarrow> RelayNodeManager \<Rightarrow> relayNodeSnapshot list" where
  "chosenNodes env relayNodes m =
     (if length relayNodes > 0 then SelectBestNodes (se_sort env) (length relayNodes) m else [])"

definition warmerStart :: "nat \<Rightarrow> clientPool \<Rightarrow> int list" where
  "warmerStart expectedCount p = (if cf_EnableHotPair (cp_config p) \<and> cp_hasWarmer p then [int expectedCount] else [])"

definition pool_Start :: "start_env \<Rightarrow> string list \<Rightarrow> Client \<Rightarrow> Client" where
  "pool_Start env relayNodes c =
     (let m = startRelays env relayNodes (cl_relay c);
          p = (cl_pool c)\<lparr>cp_relayCount := int (length relayNodes)\<rparr>;
          n = nat (cf_Connections (cp_config p));
          bestNodes = chosenNodes env relayNodes m;
          c = c\<lparr>cl_reconnectLoops := cl_reconnectLoops c + 1, cl_relay := m\<rparr>
      in if bestNodes \<noteq> []
         then let total = length bestNodes * n
              in c\<lparr>cl_pool := reallocChannels total p, cl_loops := cl_loops c @ relayLoops n bestNodes,
                   cl_warmerStarts := cl_warmerStarts c @ warmerStart total p\<rparr>
         else c\<lparr>cl_pool := p, cl_loops := cl_loops c @ directLoops n,
                cl_warmerStarts := cl_warmerStarts c @ warmerStart n p\<rparr>)"

section \<open>The client\<close>

definition NewClient :: "string \<Rightarrow> Config \<Rightarrow> config_error + Client" where
  "NewClient uuid cfg =
     (case Config_Validate cfg of
        Some e \<Rightarrow> Inl e
      | None \<Rightarrow>
          let cfg = (if cf_ClientID cfg = '''' then cfg\<lparr>cf_ClientID := uuid\<rparr> else cfg)
          in Inr \<lparr>cl_config = cfg, cl_pool = newClientPool cfg, cl_relay = NewRelayNodeManager, cl_started = False,
                  cl_shutdownDone = False, cl_loops = [], cl_warmerStarts = [], cl_reconnectLoops = 0\<rparr>)"

text \<open>The result is false for the error "client already started".\<close>

definition Client_Start :: "start_env \<Rightarrow> Client \<Rightarrow> bool \<times> Client" where
  "Client_Start env c =
     (if cl_started c then (False, c)
      else (True, (pool_Start env (cf_RelayNodes (cl_config c)) c)\<lparr>cl_started := True\<rparr>))"

definition Client_Reconnect :: "Client \<Rightarrow> Client" where
  "Client_Reconnect c = c\<lparr>cl_pool := Reconnect (cl_pool c)\<rparr>"

definition pool_Shutdown :: "Client \<Rightarrow> Client" where
  "pool_Shutdown c =
     (if cl_shutdownDone c then c
      else c\<lparr>cl_shutdownDone := True, cl_relay := Relay_Stop (cl_relay c),
             cl_pool := shutdown_client closeFrame (cl_pool c)\<rparr>)"

definition Client_Shutdown :: "Client \<Rightarrow> Client" where
  "Client_Shutdown c =
     (if \<not> cl_started c then c
      else let c = c\<lparr>cl_pool := (cl_pool c)\<lparr>cp_ctxDone := True\<rparr>\<rparr>;
               c = pool_Shutdown c
           in c\<lparr>cl_started := False\<rparr>)"

definition Client_Stats :: "Client \<Rightarrow> PoolStats" where
  "Client_Stats c = Stats_client (NodeCount (cl_relay c)) (cl_pool c)"

definition RegisterTCP :: "string \<Rightarrow> string \<Rightarrow> Client \<Rightarrow> string \<times> Client" where
  "RegisterTCP uuid target c =
     (let st = new_conn_state\<lparr>cc_id := uuid, cc_target := target, cc_connected := Some False\<rparr>;
          p = cl_pool c
      in (uuid, c\<lparr>cl_pool := p\<lparr>cp_conns := dict_set (cp_conns p) uuid st\<rparr>\<rparr>))"

text \<open>The check at the head of each round of a dial loop.\<close>

definition loop_goes_on :: "Client \<Rightarrow> dialLoop \<Rightarrow> bool" where
  "loop_goes_on c l \<longleftrightarrow> \<not> cp_ctxDone (cl_pool c)"

section \<open>The server\<close>

record Server =
  sv_config :: ServerConfig
  sv_pool :: serverPool
  sv_hasCert :: bool
  sv_started :: bool
  sv_listening :: bool

datatype server_error = ServerConfigError server_config_error | ServerCertError | ServerAlreadyStarted | ServerListenError

text \<open>\<open>cert\<close> is whether the certificate can be loaded or generated.\<close>

definition NewServer :: "bool \<Rightarrow> ServerConfig \<Rightarrow> server_error + Server" where
  "NewServer cert cfg =
     (case ServerConfig_Validate cfg of
        Some e \<Rightarrow> Inl (ServerConfigError e)
      | None \<Rightarrow>
          let s = \<lparr>sv_config = cfg, sv_pool = newServerPool (sc_Token cfg) cfg, sv_hasCert = False, sv_started = False,
                   sv_listening = False\<rparr>
          in if sc_CertFile cfg \<noteq> '''' \<and> sc_KeyFile cfg \<noteq> '''' \<or> sc_AutoCert cfg
             then (if cert then Inr (s\<lparr>sv_hasCert := True\<rparr>) else Inl ServerCertError)
             else Inr s)"

definition Server_Start :: "bool \<Rightarrow> Server \<Rightarrow> server_error option \<times> Server" where
  "Server_Start listenOK s =
     (if sv_started s then (Some ServerAlreadyStarted, s)
      else if \<not> listenOK then (Some ServerListenError, s)
      else (None, s\<lparr>sv_listening := True, sv_started := True\<rparr>))"

definition Server_Shutdown :: "Server \<Rightarrow> Server" where
  "Server_Shutdown s =
     (if \<not> sv_started s then s
      else s\<lparr>sv_listening := False, sv_pool := Shutdown (sv_pool s), sv_started := False\<rparr>)"

section \<open>Invariants\<close>

lemma pool_ok_realloc:
  assumes "pool_ok p"
  shows "pool_ok (reallocChannels n p)"
proof -
  have q: "cq_ok p" and c: "conns_ok p" using assms by simp_all
  let ?q = "reallocChannels n p"
  have jobs: "jobs_of ?q x = jobs_of p x" for x
    using cq_okD(5) [OF q, of x] by (simp add: reallocChannels_def newQueue_def)
  have "queued_client ?q = (\<Sum>x<cp_nextQueue p + n. job_bytes (jobs_of p x))"
    unfolding queued_client_def jobs by (simp add: reallocChannels_def)
  also have "\<dots> = queued_client p"
    unfolding queued_client_def using cq_okD(5) [OF q] by (intro sum.mono_neutral_right) auto
  finally have sum: "queued_client ?q = queued_client p" .
  have "non_nil (map Some [a..<b]) = [a..<b]" for a b
    by (induction b) auto
  then have d: "distinct (non_nil (cp_writeQueues ?q))" by (simp add: reallocChannels_def)
  have "cq_ok ?q"
    unfolding cq_ok_def sum jobs using cq_okD(1-5) [OF q] d
    by (auto simp: reallocChannels_def newQueue_def)
  moreover have "conns_ok ?q" by (rule conns_ok_cong [OF c]) (simp_all add: reallocChannels_def)
  ultimately show ?thesis by simp
qed

lemma pool_ok_relayCount: "pool_ok p \<Longrightarrow> pool_ok (p\<lparr>cp_relayCount := k\<rparr>)"
  by (erule pool_ok_cong) simp_all

lemma pool_ok_Start: "pool_ok (cl_pool c) \<Longrightarrow> pool_ok (cl_pool (pool_Start env relays c))"
  using pool_ok_relayCount [of "cl_pool c"] pool_ok_realloc
  by (simp add: pool_Start_def Let_def)

text \<open>The dial loops of a start have the indices of the channel table, in order.\<close>

lemma relayLoops_idx: "map dl_idx (relayLoops n nodes) = [0..<length nodes * n]"
proof (induction nodes rule: rev_induct)
  case (snoc node nodes)
  have "relayLoops n (nodes @ [node]) = relayLoops n nodes @ map (\<lambda>j. newDialLoop (length nodes * n + j) (sn_ip node)) [0..<n]"
    by (simp add: relayLoops_def enumerate_append_eq)
  moreover have "map dl_idx (map (\<lambda>j. newDialLoop (k + j) ip) [0..<n]) = [k..<k + n]" for k ip
    by (rule nth_equalityI) (simp_all add: newDialLoop_def)
  moreover have "[0..<length nodes * n] @ [length nodes * n..<length nodes * n + n] = [0..<length nodes * n + n]"
    using upt_add_eq_append [of 0 "length nodes * n" n] by simp
  ultimately show ?case using snoc by (simp only: map_append length_append) (simp add: add.commute)
qed (simp add: relayLoops_def)

lemma relayLoops_ips: "l \<in> set (relayLoops n nodes) \<Longrightarrow> dl_ip l \<in> sn_ip ` set nodes"
  by (auto simp: relayLoops_def newDialLoop_def in_set_enumerate_eq dest!: nth_mem)

section \<open>Theorems\<close>

text \<open>Property C12: a start launches one dial loop for every channel. With relay nodes the tables have as
  many channels as the chosen nodes times the configured connections, else the configured
  connections; there is one loop per channel, in order, through a relay node of the manager or
  direct; every queue is open and the accounting holds; and the pair manager, if configured, waits
  for exactly that number of channels.\<close>

theorem start_dials_every_channel:
  assumes "NewClient uuid cfg = Inr c" "Client_Start env c = (ok, d)"
  shows "ok \<and> cl_started d \<and> map dl_idx (cl_loops d) = [0..<length (cp_wsConns (cl_pool d))] \<and>
    length (cp_writeQueues (cl_pool d)) = length (cp_wsConns (cl_pool d)) \<and> None \<notin> set (cp_writeQueues (cl_pool d)) \<and>
    (\<exists>k > 0. length (cp_wsConns (cl_pool d)) = k * nat (cf_Connections cfg)) \<and>
    (cf_RelayNodes cfg = [] \<longrightarrow> (\<forall>l\<in>set (cl_loops d). dl_ip l = '''')) \<and>
    cl_warmerStarts d = (if cf_EnableHotPair cfg then [int (length (cl_loops d))] else []) \<and>
    cq_ok (cl_pool d) \<and> conns_ok (cl_pool d)"
proof -
  define cfg' where "cfg' = (if cf_ClientID cfg = '''' then cfg\<lparr>cf_ClientID := uuid\<rparr> else cfg)"
  have c: "cl_config c = cfg'" "cl_pool c = newClientPool cfg'" "\<not> cl_started c" "cl_loops c = []" "cl_warmerStarts c = []"
    using assms(1) by (auto simp: NewClient_def cfg'_def Let_def split: option.splits)
  have cf: "cf_Connections cfg' = cf_Connections cfg" "cf_EnableHotPair cfg' = cf_EnableHotPair cfg" "cf_RelayNodes cfg' = cf_RelayNodes cfg"
    by (simp_all add: cfg'_def)
  let ?n = "nat (cf_Connections cfg)"
  have p: "length (cp_wsConns (newClientPool cfg')) = ?n" "cp_writeQueues (newClientPool cfg') = map Some [0..<?n]"
    "cp_config (newClientPool cfg') = cfg'" "cp_hasWarmer (newClientPool cfg') = cf_EnableHotPair cfg"
    by (simp_all add: newClientPool_def cf Let_def)
  have d: "ok" "d = (pool_Start env (cf_RelayNodes cfg) c)\<lparr>cl_started := True\<rparr>"
    using assms(2) c(1,3) cf(3) by (auto simp: Client_Start_def)
  have inv: "pool_ok (cl_pool d)"
    unfolding d(2) using pool_ok_Start [of c env "cf_RelayNodes cfg"] pool_ok_newClientPool [of cfg'] c(2) by simp
  define best where "best = chosenNodes env (cf_RelayNodes cfg) (startRelays env (cf_RelayNodes cfg) (cl_relay c))"
  show ?thesis
  proof (cases "best = []")
    case True
    then have "cl_pool d = (newClientPool cfg')\<lparr>cp_relayCount := int (length (cf_RelayNodes cfg))\<rparr>" "cl_loops d = directLoops ?n"
      "cl_warmerStarts d = (if cf_EnableHotPair cfg then [int ?n] else [])"
      using c p cf by (simp_all add: d(2) pool_Start_def warmerStart_def Let_def best_def [symmetric])
    with p inv d show ?thesis by (auto simp: directLoops_def newDialLoop_def comp_def intro!: exI [of _ 1])
  next
    case False
    then have "cl_pool d = reallocChannels (length best * ?n) ((newClientPool cfg')\<lparr>cp_relayCount := int (length (cf_RelayNodes cfg))\<rparr>)"
      "cl_loops d = relayLoops ?n best" "cl_warmerStarts d = (if cf_EnableHotPair cfg then [int (length best * ?n)] else [])"
      using c p cf by (simp_all add: d(2) pool_Start_def warmerStart_def Let_def best_def [symmetric])
    moreover have "length (relayLoops ?n best) = length best * ?n"
      using arg_cong [OF relayLoops_idx, of length ?n best] by simp
    moreover have "cf_RelayNodes cfg \<noteq> []" using False by (auto simp: best_def chosenNodes_def)
    ultimately show ?thesis
      using p inv d False by (auto simp: reallocChannels_def relayLoops_idx)
  qed
qed

definition plain_start :: start_env where
  "plain_start = \<lparr>se_sort = sortSlice, se_lookup = (\<lambda>_. None), se_probe = (\<lambda>_. (0, None))\<rparr>"

definition sample_cfg :: Config where
  "sample_cfg = DefaultConfig\<lparr>cf_ServerAddr := ''wss://s'', cf_Connections := 2, cf_ClientID := ''c''\<rparr>"

lemma sample_client: "NewClient ''u'' sample_cfg = Inr \<lparr>cl_config = sample_cfg, cl_pool = newClientPool sample_cfg,
    cl_relay = NewRelayNodeManager, cl_started = False, cl_shutdownDone = False, cl_loops = [], cl_warmerStarts = [], cl_reconnectLoops = 0\<rparr>"
  by (simp add: NewClient_def Config_Validate_def sample_cfg_def DefaultConfig_def HasPrefix_def time_Second_def Let_def)

theorem start_dials_every_channel_witness:
  "\<exists>c d. NewClient ''u'' sample_cfg = Inr c \<and> Client_Start plain_start c = (True, d) \<and> map dl_idx (cl_loops d) = [0, 1] \<and>
     (\<forall>l\<in>set (cl_loops d). dl_ip l = '''')"
proof -
  let ?c = "\<lparr>cl_config = sample_cfg, cl_pool = newClientPool sample_cfg, cl_relay = NewRelayNodeManager, cl_started = False,
    cl_shutdownDone = False, cl_loops = [], cl_warmerStarts = [], cl_reconnectLoops = 0\<rparr>"
  obtain ok d where d: "Client_Start plain_start ?c = (ok, d)" by fastforce
  note T = start_dials_every_channel [OF sample_client d]
  have "cl_pool d = (newClientPool sample_cfg)\<lparr>cp_relayCount := 0\<rparr>"
    using d by (auto simp: Client_Start_def pool_Start_def chosenNodes_def sample_cfg_def DefaultConfig_def Let_def)
  then have "length (cp_wsConns (cl_pool d)) = 2" by (simp add: newClientPool_def sample_cfg_def Let_def)
  with T d sample_client show ?thesis by (auto simp: sample_cfg_def DefaultConfig_def numeral_2_eq_2)
qed

section \<open>Shutting the client down\<close>

text \<open>
  The running client: the value that the user holds, and the dial loops with how far each has come.
  A loop looks at the context before it dials and while it waits, but a dial in progress does not
  look at it, and a dial that succeeds installs its session in any case. Operations that change
  neither the context nor the sockets, such as messages, sends and clean-ups, are one kind of step.
\<close>

datatype loop_phase = AtHead | InDial | InSession | InPause | LoopEnded

type_synonym running_client = "Client \<times> (dialLoop \<times> loop_phase) list"

definition newLoops :: "Client \<Rightarrow> Client \<Rightarrow> (dialLoop \<times> loop_phase) list" where
  "newLoops c d = map (\<lambda>l. (l, AtHead)) (drop (length (cl_loops c)) (cl_loops d))"

inductive client_use :: "running_client \<Rightarrow> running_client \<Rightarrow> bool" where
  cu_start: "client_use (c, ls) (snd (Client_Start env c), ls @ newLoops c (snd (Client_Start env c)))"
| cu_reconnect: "client_use (c, ls) (Client_Reconnect c, ls)"
| cu_shutdown: "client_use (c, ls) (Client_Shutdown c, ls)"
| cu_register: "client_use (c, ls) (snd (RegisterTCP uuid target c), ls)"
| cu_dial: "i < length ls \<Longrightarrow> ls ! i = (l, AtHead) \<Longrightarrow> loop_goes_on c l \<Longrightarrow>
    dialRound_begin env (cp_relayCount (cl_pool c)) l (cl_relay c) = (l', m) \<Longrightarrow>
    client_use (c, ls) (c\<lparr>cl_relay := m\<rparr>, ls[i := (l', InDial)])"
| cu_end: "i < length ls \<Longrightarrow> ls ! i = (l, AtHead) \<Longrightarrow> \<not> loop_goes_on c l \<Longrightarrow> client_use (c, ls) (c, ls[i := (l, LoopEnded)])"
| cu_failed: "i < length ls \<Longrightarrow> ls ! i = (l, InDial) \<Longrightarrow>
    dialFailed (cp_config (cl_pool c)) env (cp_relayCount (cl_pool c)) l (cl_relay c) = (w, l', m) \<Longrightarrow>
    client_use (c, ls) (c\<lparr>cl_relay := m\<rparr>, ls[i := (l', InPause)])"
| cu_session: "i < length ls \<Longrightarrow> ls ! i = (l, InDial) \<Longrightarrow> dl_idx l < length (cp_wsConns (cl_pool c)) \<Longrightarrow>
    dialSucceeded now (cp_relayCount (cl_pool c)) l (cl_relay c) = (l', m) \<Longrightarrow>
    client_use (c, ls) (c\<lparr>cl_relay := m, cl_pool := installSession (dl_idx l) sock (cl_pool c)\<rparr>, ls[i := (l', InSession)])"
| cu_lost: "i < length ls \<Longrightarrow> ls ! i = (l, InSession) \<Longrightarrow> dl_idx l < length (cp_wsConns (cl_pool c)) \<Longrightarrow>
    client_use (c, ls) (c\<lparr>cl_pool := (cl_pool c)\<lparr>cp_wsConns := (cp_wsConns (cl_pool c))[dl_idx l := None]\<rparr>\<rparr>, ls[i := (l, InPause)])"
| cu_pause_over: "i < length ls \<Longrightarrow> ls ! i = (l, InPause) \<Longrightarrow> client_use (c, ls) (c, ls[i := (l, AtHead)])"
| cu_pause_end: "i < length ls \<Longrightarrow> ls ! i = (l, InPause) \<Longrightarrow> cp_ctxDone (cl_pool c) \<Longrightarrow>
    client_use (c, ls) (c, ls[i := (l, LoopEnded)])"
| cu_other: "cp_ctxDone p = cp_ctxDone (cl_pool c) \<Longrightarrow> cp_wsConns p = cp_wsConns (cl_pool c) \<Longrightarrow>
    client_use (c, ls) (c\<lparr>cl_pool := p, cl_relay := m\<rparr>, ls)"

text \<open>A round never changes the channel of a loop.\<close>

lemma dl_idx_round:
  "dialRound_begin env rc l m = (l', m') \<Longrightarrow> dl_idx l' = dl_idx l"
  "dialFailed cfg env rc l m = (w, l', m') \<Longrightarrow> dl_idx l' = dl_idx l"
  "dialSucceeded now rc l m = (l', m') \<Longrightarrow> dl_idx l' = dl_idx l"
  by (auto simp: dialRound_begin_def dialFailed_def dialSucceeded_def Let_def split: if_splits prod.splits option.splits)

text \<open>What stays true of a client that has been shut down while its loops were as in \<open>ls\<close>: only loops
  that were dialling then can be dialling, or have a session that they did not have.\<close>

definition phase_after :: "loop_phase option \<Rightarrow> loop_phase \<Rightarrow> bool" where
  "phase_after before_shutdown ph \<longleftrightarrow> (ph = InDial \<longrightarrow> before_shutdown = Some InDial) \<and>
     (ph = InSession \<longrightarrow> before_shutdown \<in> {Some InDial, Some InSession})"

definition phase_of :: "(dialLoop \<times> loop_phase) list \<Rightarrow> nat \<Rightarrow> loop_phase option" where
  "phase_of ls i = (if i < length ls then Some (snd (ls ! i)) else None)"

lemma phase_afterD:
  "phase_after (phase_of ls i) InDial \<Longrightarrow> i < length ls \<and> snd (ls ! i) = InDial"
  "phase_after (phase_of ls i) InSession \<Longrightarrow> i < length ls \<and> snd (ls ! i) \<in> {InDial, InSession}"
  by (auto simp: phase_after_def phase_of_def split: if_splits)

definition dead :: "(dialLoop \<times> loop_phase) list \<Rightarrow> running_client \<Rightarrow> bool" where
  "dead ls s \<longleftrightarrow> (case s of (c, ms) \<Rightarrow> cp_ctxDone (cl_pool c) \<and> cl_shutdownDone c \<and> length ls \<le> length ms \<and>
     (\<forall>i<length ls. dl_idx (fst (ms ! i)) = dl_idx (fst (ls ! i))) \<and>
     (\<forall>i<length ms. phase_after (phase_of ls i) (snd (ms ! i))) \<and>
     (\<forall>k<length (cp_wsConns (cl_pool c)). cp_wsConns (cl_pool c) ! k \<noteq> None \<longrightarrow>
        (\<exists>l. (l, InDial) \<in> set ls \<and> dl_idx l = k)))"

lemma shutdown_fields:
  "cp_ctxDone (shutdown_client fr p)" "cp_wsConns (shutdown_client fr p) = map (\<lambda>_. None) (cp_wsConns p)"
  "length (cp_writeQueues (shutdown_client fr p)) = length (cp_writeQueues p)"
proof -
  have f: "cp_wsConns (foldl (closeSocket fr) p ss) = cp_wsConns p \<and> cp_ctxDone (foldl (closeSocket fr) p ss) = cp_ctxDone p \<and>
      cp_writeQueues (foldl (closeSocket fr) p ss) = cp_writeQueues p" for p ss
    by (induction ss arbitrary: p) (simp_all add: closeSocket_def cemit_def)
  have u: "cp_ctxDone (foldl (\<lambda>p q. upd_queue q g p) r qs) = cp_ctxDone r \<and>
      cp_wsConns (foldl (\<lambda>p q. upd_queue q g p) r qs) = cp_wsConns r" for g r qs
    by (induction qs arbitrary: r) (simp_all add: upd_queue_def)
  then have q: "cp_ctxDone (closeQueues p) = cp_ctxDone p" "cp_wsConns (closeQueues p) = cp_wsConns p" for p
    by (simp_all add: closeQueues_def)
  show "cp_ctxDone (shutdown_client fr p)" "cp_wsConns (shutdown_client fr p) = map (\<lambda>_. None) (cp_wsConns p)"
    "length (cp_writeQueues (shutdown_client fr p)) = length (cp_writeQueues p)"
    by (simp_all add: shutdown_client_def f q closeQueues_simps Let_def)
qed

lemma dead_shutdown:
  assumes "cl_started c" "\<not> cl_shutdownDone c"
  shows "dead ls (Client_Shutdown c, ls) \<and> \<not> cl_started (Client_Shutdown c)"
  using assms
  by (simp add: Client_Shutdown_def pool_Shutdown_def dead_def phase_after_def phase_of_def Let_def
shutdown_fields)

text \<open>One loop moves on to a phase it may have.\<close>

lemma dead_move:
  assumes "dead ls (c, ms)" "i < length ms" "dl_idx l' = dl_idx (fst (ms ! i))" "phase_after (phase_of ls i) ph"
    and "cp_ctxDone (cl_pool d)" "cl_shutdownDone d"
    and "\<And>k. k < length (cp_wsConns (cl_pool d)) \<Longrightarrow> cp_wsConns (cl_pool d) ! k \<noteq> None \<Longrightarrow> (\<exists>l. (l, InDial) \<in> set ls \<and> dl_idx l = k)"
  shows "dead ls (d, ms[i := (l', ph)])"
  using assms by (auto simp: dead_def nth_list_update)

lemma dead_sockets: "dead ls (c, ms) \<Longrightarrow> k < length (cp_wsConns (cl_pool c)) \<Longrightarrow> cp_wsConns (cl_pool c) ! k \<noteq> None \<Longrightarrow>
    (\<exists>l. (l, InDial) \<in> set ls \<and> dl_idx l = k)"
  by (simp add: dead_def)

lemma dead_dialling:
  assumes "dead ls (c, ms)" "i < length ms" "ms ! i = (l, InDial)"
  shows "\<exists>l'. (l', InDial) \<in> set ls \<and> dl_idx l' = dl_idx l" "phase_of ls i = Some InDial"
proof -
  have "phase_after (phase_of ls i) InDial" using assms by (auto simp: dead_def dest!: spec [of _ i])
  then show ph: "phase_of ls i = Some InDial" by (simp add: phase_after_def)
  then have i: "i < length ls" "snd (ls ! i) = InDial" by (simp_all add: phase_of_def split: if_splits)
  then have "ls ! i = (fst (ls ! i), InDial)" "dl_idx (fst (ls ! i)) = dl_idx l" using assms by (auto simp: dead_def prod_eq_iff)
  then show "\<exists>l'. (l', InDial) \<in> set ls \<and> dl_idx l' = dl_idx l" using nth_mem [OF i(1)] by metis
qed

lemma dead_step: "client_use s s' \<Longrightarrow> dead ls s \<Longrightarrow> dead ls s'"
proof (induction rule: client_use.induct)
  case (cu_start c ms env)
  have n: "phase_after x AtHead" for x by (simp add: phase_after_def)
  have new: "snd (newLoops c d ! k) = AtHead" if "k < length (newLoops c d)" for d k using that by (simp add: newLoops_def)
  let ?d = "snd (Client_Start env c)"
  have "cp_ctxDone (cl_pool ?d)" "cl_shutdownDone ?d"
    "\<And>k. k < length (cp_wsConns (cl_pool ?d)) \<Longrightarrow> cp_wsConns (cl_pool ?d) ! k \<noteq> None \<Longrightarrow> (\<exists>l. (l, InDial) \<in> set ls \<and> dl_idx l = k)"
    using cu_start by (auto simp: dead_def Client_Start_def pool_Start_def reallocChannels_def Let_def split: if_splits)
  with cu_start n new show ?case by (auto simp: dead_def nth_append)
next
  case (cu_dial i ms l c env l' m)
  then show ?case by (simp add: loop_goes_on_def dead_def)
next
  case (cu_end i ms l c)
  then show ?case by (intro dead_move [of ls c]) (auto simp: phase_after_def dead_def)
next
  case (cu_failed i ms l c env w l' m)
  then show ?case using dl_idx_round(2)
    by (intro dead_move [of ls c]) (auto simp: phase_after_def dest: dead_sockets, auto simp: dead_def)
next
  case (cu_session i ms l c now l' m sock)
  note D = dead_dialling [OF cu_session(5,1,2)]
  show ?case
  proof (rule dead_move [OF cu_session(5,1)])
    show "dl_idx l' = dl_idx (fst (ms ! i))" using dl_idx_round(3) [OF cu_session(4)] cu_session(2) by simp
    show "phase_after (phase_of ls i) InSession" using D(2) by (simp add: phase_after_def)
    fix k assume k: "k < length (cp_wsConns (cl_pool (c\<lparr>cl_relay := m, cl_pool := installSession (dl_idx l) sock (cl_pool c)\<rparr>)))"
      "cp_wsConns (cl_pool (c\<lparr>cl_relay := m, cl_pool := installSession (dl_idx l) sock (cl_pool c)\<rparr>)) ! k \<noteq> None"
    show "\<exists>l. (l, InDial) \<in> set ls \<and> dl_idx l = k"
    proof (cases "k = dl_idx l")
      case False
      then show ?thesis using dead_sockets [OF cu_session(5), of k] k by (simp add: installSession_def Let_def)
    qed (use D(1) in simp)
  qed (use cu_session(5) in \<open>simp_all add: dead_def installSession_def Let_def\<close>)
next
  case (cu_lost i ms l c)
  then show ?case
    by (intro dead_move [of ls c]) (auto simp: phase_after_def nth_list_update split: if_splits dest: dead_sockets, auto simp: dead_def)
next
  case (cu_pause_over i ms l c)
  then show ?case by (intro dead_move [of ls c]) (auto simp: phase_after_def dead_def)
next
  case (cu_pause_end i ms l c)
  then show ?case by (intro dead_move [of ls c]) (auto simp: phase_after_def dead_def)
qed (auto simp: dead_def Client_Reconnect_def Reconnect_def Client_Shutdown_def pool_Shutdown_def RegisterTCP_def Let_def)

interpretation after_shutdown: invariant_system "dead ls" client_use "dead ls" for ls
  by unfold_locales (auto dest: dead_step)

text \<open>Property C13: a client cannot be started again after it was shut down. \<^verbatim>\<open>Start\<close> reports success, but the
  context stays cancelled whatever happens afterwards, so no loop begins a dial any more: a loop
  that is dialling was dialling when the shutdown returned, and a loop with a session was dialling
  or had a session then. The channels that can still become available are exactly those of dials
  that were in progress, which the shutdown neither stops nor waits for; without such a dial no
  channel is ever available again.\<close>

theorem restart_after_shutdown_dead:
  assumes "cl_started c" "\<not> cl_shutdownDone c" "client_use\<^sup>*\<^sup>* (Client_Shutdown c, ls) (d, ms)"
  shows "fst (Client_Start env (Client_Shutdown c)) \<and> cp_ctxDone (cl_pool d) \<and>
    (\<forall>i<length ms. snd (ms ! i) = InDial \<longrightarrow> i < length ls \<and> snd (ls ! i) = InDial) \<and>
    (\<forall>i<length ms. snd (ms ! i) = InSession \<longrightarrow> i < length ls \<and> snd (ls ! i) \<in> {InDial, InSession}) \<and>
    (\<forall>ch\<in>set (availableChannels (cl_pool d)). \<exists>l. (l, InDial) \<in> set ls \<and> ch = int (dl_idx l) + 1)"
proof -
  note s = dead_shutdown [OF assms(1,2)]
  have dead: "dead ls (d, ms)" by (rule after_shutdown.reachable_inv [OF _ assms(3)]) (use s in blast)
  have ph: "phase_after (phase_of ls i) (snd (ms ! i))" if "i < length ms" for i using dead that by (simp add: dead_def)
  have "\<forall>i<length ms. snd (ms ! i) = InDial \<longrightarrow> i < length ls \<and> snd (ls ! i) = InDial"
    "\<forall>i<length ms. snd (ms ! i) = InSession \<longrightarrow> i < length ls \<and> snd (ls ! i) \<in> {InDial, InSession}"
    using ph phase_afterD by metis+
  moreover have "\<exists>l. (l, InDial) \<in> set ls \<and> ch = int (dl_idx l) + 1" if "ch \<in> set (availableChannels (cl_pool d))" for ch
    using that dead_sockets [OF dead] by (fastforce simp: availableChannels_def)
  moreover have "cp_ctxDone (cl_pool d)" using dead by (simp add: dead_def)
  ultimately show ?thesis using s by (simp add: Client_Start_def)
qed

text \<open>A dial is in progress at the shutdown and succeeds after it: its channel is available although the
  client was shut down.\<close>

theorem restart_after_shutdown_dead_witness:
  "\<exists>c d ms. cl_started c \<and> client_use\<^sup>*\<^sup>* (Client_Shutdown c, [(newDialLoop 0 '''', InDial), (newDialLoop 1 '''', AtHead)]) (d, ms) \<and>
     cp_ctxDone (cl_pool d) \<and> availableChannels (cl_pool d) = [1] \<and> snd (ms ! 1) \<noteq> InDial"
proof -
  define c where "c = \<lparr>cl_config = sample_cfg, cl_pool = newClientPool sample_cfg, cl_relay = NewRelayNodeManager, cl_started = True,
    cl_shutdownDone = False, cl_loops = [newDialLoop 0 '''', newDialLoop 1 ''''], cl_warmerStarts = [], cl_reconnectLoops = 1\<rparr>"
  define ls where "ls = [(newDialLoop 0 '''', InDial), (newDialLoop 1 '''', AtHead)]"
  obtain l m where sc: "dialSucceeded 0 (cp_relayCount (cl_pool (Client_Shutdown c))) (newDialLoop 0 '''') (cl_relay (Client_Shutdown c)) = (l, m)"
    by fastforce
  have c: "cl_started c" "\<not> cl_shutdownDone c" by (simp_all add: c_def)
  let ?s = "Client_Shutdown c"
  let ?d = "?s\<lparr>cl_relay := m, cl_pool := installSession 0 7 (cl_pool ?s)\<rparr>" and ?ms = "ls[0 := (l, InSession)]"
  have p: "cp_wsConns (cl_pool ?s) = [None, None]" "length (cp_writeQueues (cl_pool ?s)) = 2"
    by (simp_all add: c_def Client_Shutdown_def pool_Shutdown_def shutdown_fields Let_def)
      (simp_all add: newClientPool_def sample_cfg_def Let_def eval_nat_numeral)
  have "client_use (?s, ls) (?d, ?ms)"
    using client_use.cu_session [of 0 ls "newDialLoop 0 ''''" ?s 0 l m 7] sc p(1) by (simp add: ls_def newDialLoop_def)
  then have run: "client_use\<^sup>*\<^sup>* (?s, ls) (?d, ?ms)" by (rule r_into_rtranclp)
  have "cp_writeQueues (cl_pool ?d) ! 0 \<noteq> None" "cp_wsConns (cl_pool ?d) = [Some 7, None]" "length (cp_writeQueues (cl_pool ?d)) = 2"
    using p by (simp_all add: installSession_def Let_def)
  then have "availableChannels (cl_pool ?d) = [1]" by (simp add: availableChannels_def)
  with restart_after_shutdown_dead [OF c run] c run show ?thesis
    by (intro exI [of _ c] exI [of _ ?d] exI [of _ ?ms]) (simp add: ls_def)
qed

section \<open>Shutting the server down\<close>

text \<open>Channels are closed and forgotten, never reopened: a channel that gets closed loses its socket, and
  a channel that is still registered was registered before and has not been closed meanwhile.\<close>

definition shuts :: "serverPool \<Rightarrow> serverPool \<Rightarrow> bool" where
  "shuts p q \<longleftrightarrow> (\<forall>r. (ws_closed (sp_wsHeap p r) \<longrightarrow> ws_closed (sp_wsHeap q r)) \<and>
       (ws_closed (sp_wsHeap q r) \<and> \<not> ws_closed (sp_wsHeap p r) \<longrightarrow> \<not> ws_socketOpen (sp_wsHeap q r)) \<and>
       (\<not> ws_socketOpen (sp_wsHeap p r) \<longrightarrow> \<not> ws_socketOpen (sp_wsHeap q r))) \<and>
     (\<forall>c ch r. channel_ref q c ch = Some r \<longrightarrow>
       channel_ref p c ch = Some r \<and> (ws_closed (sp_wsHeap q r) \<longrightarrow> ws_closed (sp_wsHeap p r)))"

lemma shuts_refl: "shuts p p"
  by (simp add: shuts_def)

lemma shuts_trans: "shuts p q \<Longrightarrow> shuts q s \<Longrightarrow> shuts p s"
  unfolding shuts_def by blast

lemma cleanup_ref:
  assumes "chan_ok p"
  shows "channel_ref (cleanupChannel c ch p) c' ch' = (if c' = c \<and> ch' = ch then None else channel_ref p c' ch')"
proof -
  have "channel_ref (cleanupChannel c ch p) c' ch' = channel_ref (cleanup_conns c ch p) c' ch'"
    by (simp add: channel_ref_def cleanupChannel_views(3))
  then show ?thesis using cleanup_conns_channel_ref [OF assms] by simp
qed

lemma close_ws_shuts:
  assumes "server_inv p"
  shows "shuts p (close_ws r p)" "ws_closed (sp_wsHeap (close_ws r p) r)"
proof -
  let ?b = "snd (close_begin r p)"
  let ?c = "ws_clientID (sp_wsHeap ?b r)" and ?ch = "ws_chID (sp_wsHeap ?b r)"
  have ok: "chan_ok ?b" using inv_close_begin [OF assms, of r] by (simp add: server_inv_def)
  have q: "close_ws r p = (if ws_closed (sp_wsHeap p r) then p else cleanupChannel ?c ?ch ?b)"
    by (simp add: close_ws_def close_finish_def close_begin_def Let_def)
  have b: "channel_ref ?b = channel_ref p" by (intro ext) (simp add: close_begin_def channel_ref_def upd_ws_def)
  have h: "ws_closed (sp_wsHeap ?b x) = (ws_closed (sp_wsHeap p x) \<or> x = r)"
    "ws_socketOpen (sp_wsHeap ?b x) = (ws_socketOpen (sp_wsHeap p x) \<and> x \<noteq> r)" if "\<not> ws_closed (sp_wsHeap p r)" for x
    using that by (auto simp: close_begin_def upd_ws_def)
  show "ws_closed (sp_wsHeap (close_ws r p) r)" using h by (simp add: q cleanup_ws)
  have own: "channel_ref p c ch = Some x \<Longrightarrow> c = ws_clientID (sp_wsHeap ?b x) \<and> ch = ws_chID (sp_wsHeap ?b x)" for c ch x
    using chan_okD(3) [OF ok] by (simp add: b)
  have one: "c = c' \<and> ch = ch'" if "channel_ref p c ch = Some x" "channel_ref p c' ch' = Some x" for c ch c' ch' x
    using own [OF that(1)] own [OF that(2)] by simp
  have "shuts p (cleanupChannel ?c ?ch ?b)" if up: "\<not> ws_closed (sp_wsHeap p r)"
    unfolding shuts_def cleanup_ws cleanup_ref [OF ok] b h [OF up] using own by (auto split: if_splits dest: one)
  then show "shuts p (close_ws r p)" by (simp add: q shuts_refl)
qed

lemma foldl_close:
  assumes "server_inv p"
  shows "shuts p (foldl (\<lambda>p r. close_ws r p) p rs) \<and> (\<forall>r\<in>set rs. ws_closed (sp_wsHeap (foldl (\<lambda>p r. close_ws r p) p rs) r))"
  using assms
proof (induction rs arbitrary: p)
  case (Cons x rs)
  note ih = Cons.IH [OF inv_close_ws [OF Cons.prems], of x] and w = close_ws_shuts [OF Cons.prems, of x]
  have "shuts p (foldl (\<lambda>p r. close_ws r p) (close_ws x p) rs)" using shuts_trans [OF w(1)] ih by blast
  moreover have "ws_closed (sp_wsHeap (foldl (\<lambda>p r. close_ws r p) (close_ws x p) rs) x)"
    using ih w(2) unfolding shuts_def by blast
  ultimately show ?case using ih by simp
qed (simp add: shuts_refl)

text \<open>Once the listeners are closed there is nothing for a clean-up to close.\<close>

lemma close_ws_listeners: "sp_listeners p = [] \<Longrightarrow> sp_listeners (close_ws r p) = []"
proof -
  have u: "dir_view (foldl (\<lambda>p connID. unregisterConn connID p) v ids) = dir_view v"
    "dir_view (foldl (\<lambda>p connID. removeReverseConn connID p) v ids) = dir_view v" for v ids
    by (induction ids arbitrary: v) simp_all
  have k: "sp_listeners (cleanup_conns c ch v) = sp_listeners v" for c ch v
    using u cleanup_tables_frame(5) [of c ch v] by (simp add: cleanup_conns_def Let_def dir_view_def)
  have "sp_listeners (cleanupChannel c ch v) = []" if "sp_listeners v = []" for c ch v
    using that k [of c ch v] by (simp add: cleanupChannel_eq Let_def split_def ShutdownClient_def closeWS_def upd_ws_def split: option.split)
  then show "sp_listeners p = [] \<Longrightarrow> sp_listeners (close_ws r p) = []"
    by (simp add: close_ws_def close_finish_def close_begin_def upd_ws_def Let_def)
qed

text \<open>Property C14: shutting a started server down, with nothing else running meanwhile, closes every channel
  in its table and the socket of each that was not already being closed; no channel stays registered
  except one that was being closed; no reverse listener is left; the server's invariant holds, and
  it is neither started nor listening.\<close>

theorem server_shutdown_closes_all:
  assumes "sv_started s" "server_inv (sv_pool s)"
  shows "let t = Server_Shutdown s
    in (\<forall>r. Some r \<in> set (sp_wsConns (sv_pool s)) \<longrightarrow> ws_closed (sp_wsHeap (sv_pool t) r) \<and>
         (ws_closed (sp_wsHeap (sv_pool s) r) \<or> \<not> ws_socketOpen (sp_wsHeap (sv_pool t) r))) \<and>
       (\<forall>c ch r. channel_ref (sv_pool t) c ch = Some r \<longrightarrow> ws_closed (sp_wsHeap (sv_pool s) r)) \<and>
       sp_listeners (sv_pool t) = [] \<and> server_inv (sv_pool t) \<and> \<not> sv_started t \<and> \<not> sv_listening t"
proof -
  let ?p = "sv_pool s" and ?q = "Shutdown (sv_pool s)"
  let ?l = "Listeners_Shutdown ?p" and ?rs = "non_nil (sp_wsConns (sv_pool s))"
  have l: "sp_wsConns ?l = sp_wsConns ?p" "sp_wsHeap ?l = sp_wsHeap ?p" "channel_ref ?l = channel_ref ?p" "sp_listeners ?l = []"
    by (simp_all add: Listeners_Shutdown_def channel_ref_def fun_eq_iff)
  have q: "?q = foldl (\<lambda>p r. close_ws r p) ?l ?rs" by (simp add: Shutdown_def l(1) Let_def)
  have f: "shuts ?l ?q \<and> (\<forall>r\<in>set ?rs. ws_closed (sp_wsHeap ?q r))"
    unfolding q by (rule foldl_close) (rule inv_listeners(3) [OF assms(2)])
  have "sp_listeners (foldl (\<lambda>p r. close_ws r p) v rs) = []" if "sp_listeners v = []" for v rs
    using that by (induction rs arbitrary: v) (simp_all add: close_ws_listeners)
  then have list: "sp_listeners ?q = []" unfolding q using l(4) by blast
  have closed: "ws_closed (sp_wsHeap ?q r)" if "Some r \<in> set (sp_wsConns ?p)" for r
    using f that by auto
  have "ws_closed (sp_wsHeap ?p r) \<or> \<not> ws_socketOpen (sp_wsHeap ?q r)" if "Some r \<in> set (sp_wsConns ?p)" for r
    using f closed [OF that] unfolding shuts_def l(2) by blast
  moreover have "ws_closed (sp_wsHeap ?p r)" if r: "channel_ref ?q c ch = Some r" for c ch r
  proof -
    have "channel_ref ?p c ch = Some r" "ws_closed (sp_wsHeap ?q r) \<longrightarrow> ws_closed (sp_wsHeap ?p r)"
      using f r unfolding shuts_def l(2,3) by blast+
    moreover from this(1) have "Some r \<in> set (sp_wsConns ?p)" using assms(2) chan_okD(3) by (auto simp: server_inv_def)
    ultimately show ?thesis using closed by blast
  qed
  ultimately show ?thesis
    using closed list inv_Shutdown [OF assms(2)] assms(1) by (simp add: Server_Shutdown_def Let_def)
qed

theorem server_shutdown_closes_all_witness:
  "let p = snd (handleWebSocket_register ''c'' 3 ''a'' (newServerPool ''t'' DefaultServerConfig));
       s = \<lparr>sv_config = DefaultServerConfig, sv_pool = p, sv_hasCert = True, sv_started = True, sv_listening = True\<rparr>
   in ws_socketOpen (sp_wsHeap p 0) \<and> ws_closed (sp_wsHeap (sv_pool (Server_Shutdown s)) 0) \<and>
      \<not> ws_socketOpen (sp_wsHeap (sv_pool (Server_Shutdown s)) 0)"
proof -
  let ?p = "snd (handleWebSocket_register ''c'' 3 ''a'' (newServerPool ''t'' DefaultServerConfig))"
  let ?s = "\<lparr>sv_config = DefaultServerConfig, sv_pool = ?p, sv_hasCert = True, sv_started = True, sv_listening = True\<rparr>"
  have inv: "server_inv ?p" by (rule inv_register [OF server_inv_init]) (simp_all add: maxAllowedChID_def)
  have o: "\<not> ws_closed (sp_wsHeap ?p 0)" "ws_socketOpen (sp_wsHeap ?p 0)" "sp_wsConns ?p = [Some 0]"
    using example_open by (simp_all add: Let_def)
  have "ws_closed (sp_wsHeap (sv_pool (Server_Shutdown ?s)) 0)" "\<not> ws_socketOpen (sp_wsHeap (sv_pool (Server_Shutdown ?s)) 0)"
    using server_shutdown_closes_all [of ?s] inv o by (auto simp: Let_def)
  with o show ?thesis by (simp add: Let_def)
qed

end
