(* ===== verification/Write_Budget.thy ===== *)
theory Write_Budget
  imports Client_Queue
begin

text \<open>
  The write path of the client with all senders and writers running at once. \<^verbatim>\<open>asyncWriteDirect\<close>
  reserves its bytes, reads the queue of the channel, and then sends, possibly after blocking on a
  full queue; a writer receives a job and only then gives its bytes back. Between these points
  anything else may happen, so each is a step of its own here, and the state keeps, beside the
  pool, what is in flight: senders that have reserved, senders that have read their queue, and
  jobs that a writer has received but not yet accounted for.
\<close>

section \<open>Steps\<close>

datatype flight =
    AtQueue nat int bytes
  | AtSend ref int bytes
  | Taken writeJob

fun flight_bytes :: "flight \<Rightarrow> int" where
  "flight_bytes (AtQueue idx mt data) = int (length data)"
| "flight_bytes (AtSend q mt data) = int (length data)"
| "flight_bytes (Taken j) = wj_size j"

definition in_flight :: "flight list \<Rightarrow> int" where
  "in_flight fl = sum_list (map flight_bytes fl)"

definition send_job :: "int \<Rightarrow> bytes \<Rightarrow> writeJob" where
  "send_job mt data = \<lparr>wj_msgType = mt, wj_data = data, wj_size = int (length data)\<rparr>"

text \<open>What the write path consists of; every other operation of the client leaves it alone.\<close>

definition write_view :: "clientPool \<Rightarrow> int \<times> int \<times> (ref \<Rightarrow> writeQueue) \<times> nat \<times> ref option list" where
  "write_view p = (cp_globalQueueBytes p, cp_globalQueueLimit p, cp_queueHeap p, cp_nextQueue p, cp_writeQueues p)"

text \<open>
  A sender whose queue was closed in the meantime panics, and the program ends: it has no step. The
  steps \<open>full\<close> (time-out or cancellation while the queue is full) and \<open>receive\<close> are allowed at any
  time, which covers every timing of the code.
\<close>

inductive write_step :: "clientPool \<times> flight list \<Rightarrow> clientPool \<times> flight list \<Rightarrow> bool" where
  reserve: "chIndex p chID = Some idx \<Longrightarrow> reserveQueueBytes (int (length data)) p = (True, p') \<Longrightarrow>
    write_step (p, fl) (p', AtQueue idx mt data # fl)"
| no_queue: "AtQueue idx mt data \<in> set fl \<Longrightarrow> idx < length (cp_writeQueues p) \<Longrightarrow> cp_writeQueues p ! idx = None \<Longrightarrow>
    write_step (p, fl) (releaseQueueBytes (int (length data)) p, remove1 (AtQueue idx mt data) fl)"
| read_queue: "AtQueue idx mt data \<in> set fl \<Longrightarrow> idx < length (cp_writeQueues p) \<Longrightarrow> cp_writeQueues p ! idx = Some q \<Longrightarrow>
    write_step (p, fl) (p, AtSend q mt data # remove1 (AtQueue idx mt data) fl)"
| put: "AtSend q mt data \<in> set fl \<Longrightarrow> \<not> wq_closed (cp_queueHeap p q) \<Longrightarrow> length (jobs_of p q) < writeQueueSize \<Longrightarrow>
    write_step (p, fl) (putJob q (send_job mt data) p, remove1 (AtSend q mt data) fl)"
| full: "AtSend q mt data \<in> set fl \<Longrightarrow>
    write_step (p, fl) (releaseQueueBytes (int (length data)) p, remove1 (AtSend q mt data) fl)"
| receive: "jobs_of p q = j # js \<Longrightarrow>
    write_step (p, fl) (upd_queue q (wq_jobs_update (\<lambda>_. js)) p, Taken j # fl)"
| account: "Taken j \<in> set fl \<Longrightarrow>
    write_step (p, fl) (releaseQueueBytes (wj_size j) p, remove1 (Taken j) fl)"
| session: "write_step (p, fl) (installSession idx sock p, fl)"
| tables: "write_step (p, fl) (reallocChannels n p, fl)"
| close_all: "write_step (p, fl) (closeQueues p, fl)"
| elsewhere: "write_view p' = write_view p \<Longrightarrow> write_step (p, fl) (p', fl)"

section \<open>Invariant\<close>

fun flight_ok :: "nat \<Rightarrow> flight \<Rightarrow> bool" where
  "flight_ok n (AtQueue idx mt data) = True"
| "flight_ok n (AtSend q mt data) = (q < n)"
| "flight_ok n (Taken j) = job_ok j"

definition budget_ok :: "clientPool \<times> flight list \<Rightarrow> bool" where
  "budget_ok s \<longleftrightarrow> (case s of (p, fl) \<Rightarrow>
     cp_globalQueueBytes p = queued_client p + in_flight fl \<and> cp_globalQueueBytes p \<le> cp_globalQueueLimit p \<and>
     (\<forall>q. length (jobs_of p q) \<le> writeQueueSize \<and> list_all job_ok (jobs_of p q)) \<and>
     (\<forall>q. cp_nextQueue p \<le> q \<longrightarrow> jobs_of p q = []) \<and>
     (\<forall>q. Some q \<in> set (cp_writeQueues p) \<longrightarrow> q < cp_nextQueue p) \<and>
     (\<forall>f\<in>set fl. flight_ok (cp_nextQueue p) f))"

lemma in_flight_simps [simp]:
  "in_flight [] = 0" "in_flight (f # fl) = flight_bytes f + in_flight fl"
  by (simp_all add: in_flight_def)

lemma in_flight_remove: "f \<in> set fl \<Longrightarrow> in_flight (remove1 f fl) = in_flight fl - flight_bytes f"
  by (induction fl) auto

lemma flight_nonneg: "flight_ok n f \<Longrightarrow> 0 \<le> flight_bytes f"
  by (cases f) (auto simp: job_ok_def)

lemma in_flight_nonneg: "\<forall>f\<in>set fl. flight_ok n f \<Longrightarrow> 0 \<le> in_flight fl"
  by (induction fl) (auto dest: flight_nonneg)

lemma in_flight_ge: "\<forall>f\<in>set fl. flight_ok n f \<Longrightarrow> f \<in> set fl \<Longrightarrow> flight_bytes f \<le> in_flight fl"
proof (induction fl)
  case (Cons g fl)
  then show ?case
    using in_flight_nonneg [of fl n] flight_nonneg [of n g] by auto
qed simp

lemma queued_nonneg: "\<forall>q. list_all job_ok (jobs_of p q) \<Longrightarrow> 0 \<le> queued_client p"
  by (auto simp: queued_client_def intro!: sum_nonneg job_bytes_nonneg)

lemma budget_okD:
  assumes "budget_ok (p, fl)"
  shows "cp_globalQueueBytes p = queued_client p + in_flight fl" "cp_globalQueueBytes p \<le> cp_globalQueueLimit p"
    "\<forall>q. length (jobs_of p q) \<le> writeQueueSize \<and> list_all job_ok (jobs_of p q)"
    "\<forall>q. cp_nextQueue p \<le> q \<longrightarrow> jobs_of p q = []"
    "\<forall>q. Some q \<in> set (cp_writeQueues p) \<longrightarrow> q < cp_nextQueue p" "\<forall>f\<in>set fl. flight_ok (cp_nextQueue p) f"
    "0 \<le> queued_client p" "0 \<le> in_flight fl"
  using assms queued_nonneg [of p] in_flight_nonneg [of fl "cp_nextQueue p"] by (auto simp: budget_ok_def)

text \<open>Giving back the bytes of something in flight; the counter does not reach its floor.\<close>

lemma budget_ok_giveback:
  assumes "budget_ok (p, fl)" "f \<in> set fl"
  shows "budget_ok (releaseQueueBytes (flight_bytes f) p, remove1 f fl)"
proof -
  note D = budget_okD [OF assms(1)]
  have f: "0 \<le> flight_bytes f" "flight_bytes f \<le> in_flight fl"
    using D(6) assms(2) flight_nonneg in_flight_ge by blast+
  then have "cp_globalQueueBytes (releaseQueueBytes (flight_bytes f) p) = cp_globalQueueBytes p - flight_bytes f"
    using D(1,7) by (auto simp: releaseQueueBytes_def)
  moreover have "queued_client (releaseQueueBytes (flight_bytes f) p) = queued_client p"
    by (rule queued_client_cong) simp_all
  ultimately show ?thesis
    using D f in_flight_remove [OF assms(2)] set_remove1_subset [of f fl] by (auto simp: budget_ok_def)
qed

lemma budget_ok_reserve:
  assumes "budget_ok (p, fl)" "reserveQueueBytes (int (length data)) p = (True, p')"
  shows "budget_ok (p', AtQueue idx mt data # fl)"
proof -
  have p': "p' = p \<and> data = [] \<or> p' = p\<lparr>cp_globalQueueBytes := cp_globalQueueBytes p + int (length data)\<rparr> \<and>
      cp_globalQueueBytes p + int (length data) \<le> cp_globalQueueLimit p"
    using assms(2) by (auto simp: reserveQueueBytes_def split: if_splits)
  moreover have "queued_client p' = queued_client p"
    using p' by (intro queued_client_cong) auto
  ultimately show ?thesis using assms(1) by (auto simp: budget_ok_def)
qed

lemma budget_ok_put:
  assumes "budget_ok (p, fl)" "AtSend q mt data \<in> set fl" "length (jobs_of p q) < writeQueueSize"
  shows "budget_ok (putJob q (send_job mt data) p, remove1 (AtSend q mt data) fl)"
proof -
  note D = budget_okD [OF assms(1)]
  have q: "q < cp_nextQueue p" using D(6) assms(2) by force
  have "queued_client (putJob q (send_job mt data) p) = queued_client p + int (length data)"
    using queued_client_upd [OF q, of "wq_jobs_update (\<lambda>js. js @ [send_job mt data])"] by (simp add: putJob_def send_job_def)
  with D in_flight_remove [OF assms(2)] assms(3) q set_remove1_subset [of "AtSend q mt data" fl] show ?thesis
    by (auto simp: budget_ok_def putJob_def send_job_def job_ok_def)
qed

lemma budget_ok_receive:
  assumes "budget_ok (p, fl)" "jobs_of p q = j # js"
  shows "budget_ok (upd_queue q (wq_jobs_update (\<lambda>_. js)) p, Taken j # fl)"
proof -
  note D = budget_okD [OF assms(1)]
  have q: "q < cp_nextQueue p" using D(4) assms(2) by (metis list.distinct(1) not_le)
  have "queued_client (upd_queue q (wq_jobs_update (\<lambda>_. js)) p) = queued_client p - wj_size j"
    using queued_client_upd [OF q, of "wq_jobs_update (\<lambda>_. js)"] assms(2) by simp
  moreover have "length (j # js) \<le> writeQueueSize" "list_all job_ok (j # js)" using D(3) assms(2) by metis+
  ultimately show ?thesis using D q by (auto simp: budget_ok_def)
qed

lemma budget_ok_tables:
  assumes "budget_ok (p, fl)"
  shows "budget_ok (installSession idx sock p, fl)" "budget_ok (reallocChannels n p, fl)" "budget_ok (closeQueues p, fl)"
proof -
  note D = budget_okD [OF assms]
  have "flight_ok n f \<Longrightarrow> n \<le> m \<Longrightarrow> flight_ok m f" for n m f by (cases f) auto
  then have fl: "cp_nextQueue p \<le> m \<Longrightarrow> \<forall>f\<in>set fl. flight_ok m f" for m using D(6) by blast
  have 1: "queued_client (installSession idx sock p) = queued_client p"
    by (auto simp: queued_client_def installSession_def Let_def newQueue_def intro!: sum.cong)
  show "budget_ok (installSession idx sock p, fl)"
    using D fl [of "cp_nextQueue p + 1"] set_update_subset_insert [of "cp_writeQueues p" idx "Some (cp_nextQueue p)"]
    unfolding budget_ok_def prod.case 1 by (auto simp: installSession_def newQueue_def Let_def less_Suc_eq)
  have "(\<Sum>q<cp_nextQueue p + n. job_bytes (jobs_of (reallocChannels n p) q)) = (\<Sum>q<cp_nextQueue p. job_bytes (jobs_of p q))"
    by (rule sum.mono_neutral_cong_right) (auto simp: reallocChannels_def newQueue_def)
  then have 2: "queued_client (reallocChannels n p) = queued_client p"
    by (simp add: queued_client_def) (simp add: reallocChannels_def)
  show "budget_ok (reallocChannels n p, fl)"
    using D fl [of "cp_nextQueue p + n"] unfolding budget_ok_def prod.case 2
    by (auto simp: reallocChannels_def newQueue_def)
  have 3: "queued_client (closeQueues p) = queued_client p" by (simp add: queued_client_def closeQueues_simps)
  show "budget_ok (closeQueues p, fl)"
    using D unfolding budget_ok_def prod.case 3 by (auto simp: closeQueues_simps)
qed

lemma budget_ok_elsewhere:
  assumes "budget_ok (p, fl)" "write_view p' = write_view p"
  shows "budget_ok (p', fl)"
  using assms queued_client_cong [of p' p] by (simp add: budget_ok_def write_view_def)

lemma budget_step: "write_step s s' \<Longrightarrow> budget_ok s \<Longrightarrow> budget_ok s'"
proof (induction rule: write_step.induct)
  case (no_queue idx mt data fl p)
  then show ?case using budget_ok_giveback [of p fl "AtQueue idx mt data"] by simp
next
  case (full q mt data fl p)
  then show ?case using budget_ok_giveback [of p fl "AtSend q mt data"] by simp
next
  case (account j fl p)
  then show ?case using budget_ok_giveback [of p fl "Taken j"] by simp
next
  case (read_queue idx mt data fl p q)
  note D = budget_okD [OF read_queue(4)]
  have "q < cp_nextQueue p" using D(5) read_queue(2,3) by (metis nth_mem)
  with D in_flight_remove [OF read_queue(1)] set_remove1_subset [of "AtQueue idx mt data" fl] show ?case
    by (auto simp: budget_ok_def)
qed (auto intro: budget_ok_reserve budget_ok_put budget_ok_receive budget_ok_tables elim: budget_ok_elsewhere)

definition budget_start :: "clientPool \<times> flight list \<Rightarrow> bool" where
  "budget_start s \<longleftrightarrow> (\<exists>cfg. s = (newClientPool cfg, []))"

interpretation writers: invariant_system budget_start write_step budget_ok
proof
  fix s assume "budget_start s"
  then obtain cfg where s: "s = (newClientPool cfg, [])" by (auto simp: budget_start_def)
  show "budget_ok s" using cq_okD [OF cq_ok_newClientPool [of cfg]] by (auto simp: budget_ok_def s)
qed (rule budget_step)

section \<open>The operations as runs\<close>

text \<open>A send or a round of a writer that nothing interrupts is a run of these steps.\<close>

lemma takeJob_run: "write_step\<^sup>*\<^sup>* (p, fl) (takeJob q p, fl)"
proof (cases "jobs_of p q")
  case (Cons j js)
  let ?p = "upd_queue q (wq_jobs_update (\<lambda>_. js)) p"
  have "write_step (p, fl) (?p, Taken j # fl)" using Cons by (rule write_step.receive)
  moreover have "write_step (?p, Taken j # fl) (releaseQueueBytes (wj_size j) ?p, fl)"
    using write_step.account [of j "Taken j # fl" ?p] by simp
  ultimately show ?thesis using Cons by (simp add: takeJob_def)
qed (simp add: takeJob_def)

lemma send_run:
  assumes "fst (asyncWriteDirect_send env mt data q p) \<noteq> SendPanic" "length (jobs_of p q) \<le> writeQueueSize"
  shows "write_step\<^sup>*\<^sup>* (p, AtSend q mt data # fl) (snd (asyncWriteDirect_send env mt data q p), fl)"
proof -
  have up: "\<not> wq_closed (cp_queueHeap p q)" using assms(1) by (auto simp: asyncWriteDirect_send_def Let_def)
  have give: "write_step (p, AtSend q mt data # fl) (releaseQueueBytes (int (length data)) p, fl)"
    using write_step.full [of q mt data "AtSend q mt data # fl" p] by simp
  have put: "write_step (r, AtSend q mt data # fl) (putJob q (send_job mt data) r, fl)"
    if "\<not> wq_closed (cp_queueHeap r q)" "length (jobs_of r q) < writeQueueSize" for r
    using write_step.put [of q mt data "AtSend q mt data # fl" r] that by simp
  have room: "\<not> wq_closed (cp_queueHeap (takeJob q p) q)" "length (jobs_of (takeJob q p) q) < writeQueueSize"
    using up assms(2) by (auto simp: takeJob_def upd_queue_def writeQueueSize_def split: list.split)
  show ?thesis
    using up give put [of p] takeJob_run [of p "AtSend q mt data # fl" q] put [OF room]
    by (auto simp: asyncWriteDirect_send_def send_job_def Let_def split: full_result.split)
qed

lemma asyncWriteDirect_run:
  assumes "fst (asyncWriteDirect env chID mt data p) \<noteq> SendPanic" "\<forall>q. length (jobs_of p q) \<le> writeQueueSize"
  shows "write_step\<^sup>*\<^sup>* (p, fl) (snd (asyncWriteDirect env chID mt data p), fl)"
proof (cases "chIndex p chID")
  case None
  then show ?thesis by (simp add: asyncWriteDirect_def asyncWriteDirect_begin_def)
next
  case (Some idx)
  obtain go p1 where w0: "(if getBackpressureDelay p < 0 then waitOver (se_wait env) p else (True, p)) = (go, p1)" by fastforce
  then have v: "write_view p1 = write_view p"
    by (auto simp: write_view_def waitOver_def split: wait_result.splits if_splits)
  have w: "write_step (p, fl) (p1, fl)" using v by (rule write_step.elsewhere)
  have c: "chIndex p1 chID = Some idx" using v Some by (simp add: chIndex_def write_view_def)
  obtain ok p2 where r: "reserveQueueBytes (int (length data)) p1 = (ok, p2)" by fastforce
  have v2: "cp_writeQueues p2 = cp_writeQueues p1" "cp_queueHeap p2 = cp_queueHeap p1"
    using r by (auto simp: reserveQueueBytes_def split: if_splits)
  have idx: "idx < length (cp_writeQueues p2)" using c v2 by (auto simp: chIndex_def Let_def split: if_splits)
  have b: "asyncWriteDirect_begin env chID data p =
      (if \<not> go then (Inl ErrClientClosing, p1) else if \<not> ok then (Inl ErrQueueLimit, p2)
       else case cp_writeQueues p2 ! idx of None \<Rightarrow> (Inl ErrChannelUnavailable, releaseQueueBytes (int (length data)) p2)
            | Some q \<Rightarrow> (Inr q, p2))"
    using Some r by (simp only: asyncWriteDirect_begin_def w0 option.case prod.case Let_def)
  show ?thesis
  proof (cases "go \<and> ok")
    case False
    have "\<not> ok \<Longrightarrow> p2 = p1" using r by (auto simp: reserveQueueBytes_def split: if_splits)
    with False w b show ?thesis by (auto simp: asyncWriteDirect_def)
  next
    case True
    then have "write_step (p1, fl) (p2, AtQueue idx mt data # fl)" using c r by (auto intro: write_step.reserve)
    with w have run: "write_step\<^sup>*\<^sup>* (p, fl) (p2, AtQueue idx mt data # fl)" by auto
    show ?thesis
    proof (cases "cp_writeQueues p2 ! idx")
      case None
      have "write_step (p2, AtQueue idx mt data # fl) (releaseQueueBytes (int (length data)) p2, fl)"
        using write_step.no_queue [of idx mt data "AtQueue idx mt data # fl" p2] idx None by simp
      with run b True None show ?thesis by (auto simp: asyncWriteDirect_def)
    next
      case (Some q)
      have "write_step (p2, AtQueue idx mt data # fl) (p2, AtSend q mt data # fl)"
        using write_step.read_queue [of idx mt data "AtQueue idx mt data # fl" p2 q] idx Some by simp
      moreover have "length (jobs_of p2 q) \<le> writeQueueSize" using assms(2) v v2 by (simp add: write_view_def)
      ultimately show ?thesis
        using run b True Some assms(1) send_run [of env mt data q p2 fl] by (auto simp: asyncWriteDirect_def)
    qed
  qed
qed

section \<open>Property\<close>

text \<open>Property C5: the write budget is exact under every interleaving of senders and writers. In every
  reachable state of the write path the byte counter is the number of bytes in all queues plus
  the bytes of sends that have reserved but not queued and of jobs received but not yet accounted
  for; it never exceeds the limit, and no queue holds more than its capacity. In particular, when
  nothing is queued or in flight the counter is zero.\<close>

theorem write_budget_exact:
  assumes "write_step\<^sup>*\<^sup>* (newClientPool cfg, []) (p, fl)"
  shows "cp_globalQueueBytes p =
      (\<Sum>q<cp_nextQueue p. sum_list (map wj_size (wq_jobs (cp_queueHeap p q)))) + sum_list (map flight_bytes fl) \<and>
    cp_globalQueueBytes p \<le> cp_globalQueueLimit p \<and>
    (\<forall>q. length (wq_jobs (cp_queueHeap p q)) \<le> writeQueueSize) \<and>
    (\<forall>q j. j \<in> set (wq_jobs (cp_queueHeap p q)) \<longrightarrow> wj_size j = int (length (wj_data j))) \<and>
    ((\<forall>q. wq_jobs (cp_queueHeap p q) = []) \<and> fl = [] \<longrightarrow> cp_globalQueueBytes p = 0)"
proof -
  have "budget_ok (p, fl)" by (rule writers.reachable_inv [OF _ assms]) (auto simp: budget_start_def)
  note D = budget_okD [OF this]
  then show ?thesis
    by (auto simp: queued_client_def job_bytes_def in_flight_def job_ok_def list_all_iff)
qed

text \<open>A send of three bytes on the first channel, read by a writer that has not accounted for it.\<close>

theorem write_budget_exact_witness:
  "\<exists>p. write_step\<^sup>*\<^sup>* (newClientPool DefaultConfig, []) (p, [Taken (send_job BinaryMessage [1, 2, 3])]) \<and>
     cp_globalQueueBytes p = (\<Sum>q<cp_nextQueue p. sum_list (map wj_size (wq_jobs (cp_queueHeap p q)))) + 3"
proof -
  let ?p0 = "newClientPool DefaultConfig" and ?d = "[1, 2, 3] :: bytes"
  let ?p1 = "?p0\<lparr>cp_globalQueueBytes := 3\<rparr>"
  let ?p2 = "putJob 0 (send_job BinaryMessage ?d) ?p1"
  let ?p3 = "upd_queue 0 (wq_jobs_update (\<lambda>_. [])) ?p2"
  have f: "chIndex ?p0 1 = Some 0" "reserveQueueBytes (int (length ?d)) ?p0 = (True, ?p1)"
    "cp_writeQueues ?p1 ! 0 = Some 0" "0 < length (cp_writeQueues ?p1)" "cp_queueHeap ?p1 0 = newQueue"
    by (simp_all add: chIndex_def reserveQueueBytes_def newClientPool_def DefaultConfig_def DefaultBackpressureLimitBytes_def Let_def)
  have 1: "write_step (?p0, []) (?p1, [AtQueue 0 BinaryMessage ?d])" using f(1,2) by (rule write_step.reserve)
  have 2: "write_step (?p1, [AtQueue 0 BinaryMessage ?d]) (?p1, [AtSend 0 BinaryMessage ?d])"
    using write_step.read_queue [of 0 BinaryMessage ?d "[AtQueue 0 BinaryMessage ?d]" ?p1 0] f(3,4) by simp
  have 3: "write_step (?p1, [AtSend 0 BinaryMessage ?d]) (?p2, [])"
    using write_step.put [of 0 BinaryMessage ?d "[AtSend 0 BinaryMessage ?d]" ?p1] f(5) by (simp add: newQueue_def writeQueueSize_def)
  have 4: "write_step (?p2, []) (?p3, [Taken (send_job BinaryMessage ?d)])"
    using write_step.receive [of ?p2 0 "send_job BinaryMessage ?d" "[]" "[]"] f(5) by (simp add: putJob_def newQueue_def)
  have run: "write_step\<^sup>*\<^sup>* (?p0, []) (?p3, [Taken (send_job BinaryMessage ?d)])"
    using 1 2 3 4 by (meson converse_rtranclp_into_rtranclp r_into_rtranclp)
  from write_budget_exact [OF run] have "cp_globalQueueBytes ?p3 =
      (\<Sum>q<cp_nextQueue ?p3. sum_list (map wj_size (wq_jobs (cp_queueHeap ?p3 q)))) +
      sum_list (map flight_bytes [Taken (send_job BinaryMessage ?d)])" by blast
  with run show ?thesis by (intro exI [of _ ?p3]) (simp add: send_job_def)
qed

end
