(* ===== verification/Spec2Isabelle.thy ===== *)
theory Spec2Isabelle
  imports Lifecycle Write_Budget
begin

text \<open>
  xtunnel carries TCP connections and UDP flows of a local SOCKS5 or HTTP proxy through a set of
  parallel WebSocket channels. A \<^bold>\<open>client\<close> opens the channels (directly or through relay
  nodes), sends each connection request over all of them and lets server and client agree on an
  uplink and a downlink channel by who answers first, or uses a \<^bold>\<open>hot pair\<close> of channels prepared
  in advance. A \<^bold>\<open>server\<close> accepts the channels, dials the targets and forwards data. In reverse mode
  the roles change: the server listens and the client dials.

  \<^bold>\<open>Theories and sources.\<close>
  \<^item> \<open>XT_Prelude\<close>: machine integers, byte strings, Go maps as association lists (\<open>dict\<close>),
    slices of pointers, and the locale \<open>invariant_system\<close> (an invariant of all steps holds in every
    reachable state) that the step relations below interpret.
  \<^item> \<open>Protocol\<close> (\<^verbatim>\<open>src/protocol/protocol.go\<close>, \<^verbatim>\<open>errors.go\<close>): frames, hot-pair records, hot-path
    identifiers, error classes. Frames decode to what was encoded, decoding never panics, and every
    decoded frame is canonical.
  \<^item> \<open>IP_Strategy\<close> (\<^verbatim>\<open>src/protocol/ip_strategy.go\<close>): strategies, resolution, the DNS cache, and the
    parts of \<^verbatim>\<open>net\<close> they use. Resolved addresses can be dialled; the cache answers like the resolver.
  \<^item> \<open>Hotpair_Table\<close> (\<^verbatim>\<open>src/hotpair_table.go\<close>): the server's table of hot pairs, proved to refine an
    abstract directory with expiry for all sequences of operations.
  \<^item> \<open>Server_State\<close>, \<open>Server_Queue\<close>, \<open>Server_Handler\<close>, \<open>Server_Reverse\<close>, \<open>Server_Pool\<close>
    (\<^verbatim>\<open>src/server_config.go\<close>, \<^verbatim>\<open>connection.go\<close>, \<^verbatim>\<open>handler.go\<close>, \<^verbatim>\<open>reverse_server.go\<close>, \<^verbatim>\<open>reverse_listener.go\<close>,
    \<^verbatim>\<open>server_pool.go\<close>): the record \<open>serverPool\<close> with the queues, byte accounting and back pressure;
    forward and reverse connections; admission, dispatch, clean-up and shutdown of channels.
    \<open>server_step\<close> is the running server, with the later pieces of goroutines as tasks; \<open>server_inv\<close>
    holds in all its reachable states.
  \<^item> \<open>Client_State\<close>, \<open>Client_Queue\<close>, \<open>Client_Conn\<close>, \<open>Proxy_Dialer\<close>, \<open>Client_Reverse\<close>, \<open>Client_Pool\<close>
    (\<^verbatim>\<open>src/config.go\<close>, \<^verbatim>\<open>pool.go\<close>, \<^verbatim>\<open>proxy_dialer.go\<close>, \<^verbatim>\<open>reverse.go\<close>): the record \<open>clientPool\<close> with the
    write queues and the merging writer, the table of connections and the choice of channels, the
    dialers of the proxies, the reverse mode, and the message handlers and sessions. The steps of
    \<open>client_step\<close> are whole operations of the client, run one at a time; \<open>pool_ok\<close> holds in all
    states reachable so. It does not hold between the pieces of an operation; \<open>hotFallback\<close> run
    after a clean-up breaks it, as \<open>Proxy_Dialer\<close> shows.
  \<^item> \<open>Write_Budget\<close> (\<^verbatim>\<open>asyncWriteDirect\<close> and \<^verbatim>\<open>writeWorker\<close> in \<^verbatim>\<open>src/pool.go\<close>): the client's write
    path with all senders and writers interleaved; \<open>write_step\<close> and \<open>budget_ok\<close>. A send that nothing
    interrupts is a run of these steps.
  \<^item> \<open>Pair_Warmer\<close> (\<^verbatim>\<open>src/pair_warmer.go\<close>): the client's manager of hot pairs, its refresh, and the
    notifications to the server; \<open>warmer_step\<close> and \<open>warmer_ok\<close>.
  \<^item> \<open>Relay\<close> (\<^verbatim>\<open>src/relay.go\<close>): relay nodes, their tests, scores and choice; \<open>relay_step\<close> and
    \<open>relay_ok\<close>.
  \<^item> \<open>Client_Dial\<close> (\<^verbatim>\<open>dialAndServe\<close> in \<^verbatim>\<open>src/pool.go\<close>, \<^verbatim>\<open>src/dialer.go\<close>): retries, back-off and the load
    of relay nodes over all dial loops; \<open>dial_step\<close> and \<open>load_ok\<close>.
  \<^item> \<open>Lifecycle\<close> (\<^verbatim>\<open>src/client.go\<close>, \<^verbatim>\<open>Start\<close> in \<^verbatim>\<open>src/pool.go\<close>, \<^verbatim>\<open>src/server.go\<close>): start and shutdown of
    client and server, and what dial loops do around a shutdown of the client; \<open>client_use\<close> and
    \<open>dead\<close>.
  \<^item> This theory composes client and server: the bytes a client queues arrive at the targets, and a
    pair that the client announces is used by the server.

  \<^bold>\<open>How code becomes definitions.\<close> An operation is a function on the record of its component;
  pointers are numbers into heaps of the record, so that aliasing shows. In \<open>server_step\<close> and
  \<open>write_step\<close> code under one lock is one step, and code that releases a lock, blocks or starts a
  goroutine is cut there: the pieces of \<^verbatim>\<open>connectTarget\<close>, of closing a channel and of its clean-up
  (\<open>cleanup_start\<close>, \<open>cleanup_next\<close>), of a send and of a writer's round. A message handler of the
  server is one step, although some look a connection up, unlock, and act on it. Functions such as
  \<open>cleanupChannel\<close>, \<open>connectTarget_done\<close>, \<open>Shutdown\<close> and \<open>asyncWriteDirect\<close> are the same code
  run without interruption, and properties stated with them say so. Writes to sockets, targets and
  callbacks are recorded as effects in order. What a call takes from outside is an argument: the
  time, random numbers, fresh identifiers, the outcome of dials, writes, lookups and waits.
  Operations that can block for ever say so in their result (\<open>returns\<close> and a false first component
  on the client). Errors and panics are values.

  \<^bold>\<open>Bounds.\<close> The mutual recursion of enqueueing and announcing back pressure is written with fuel 3
  (\<open>updateBackpressureN\<close>) and proved to satisfy the code's equation, so 3 is enough.
  The client's \<^verbatim>\<open>Unregister\<close> and \<^verbatim>\<open>stop\<close> call each other; the depth is bounded by the number of
  connections, each call removing one. All other loops are structural or have a measure. Counters of
  bytes in queues are unbounded integers, far below \<open>2 ^ 63\<close>; products with the limit, statistics,
  channel numbers in frames and relay loads wrap as in Go. Floating-point scores are rationals.

  \<^bold>\<open>Not modelled.\<close> Logging (\<^verbatim>\<open>src/log_hook.go\<close>) and certificates (\<^verbatim>\<open>src/cert.go\<close>) only call the
  standard library. TLS, ECH, the WebSocket and HTTP libraries, and the SOCKS5 and HTTP proxies and
  the in-memory pipe of the module \<^verbatim>\<open>xshared\<close> are outside this repository; they appear as arguments or
  not at all. Interleavings inside an operation are not modelled for the client's message handlers,
  its connection table and the pair manager, except where a property is about them; data races are
  not modelled at the level of memory.
\<close>

section \<open>From the client's writer to the target\<close>

text \<open>A server that is ready for the data of a connection: the identifier belongs to a forward
  connection with this uplink, whose target is connected.\<close>

definition takes_data :: "serverPool \<Rightarrow> chid \<Rightarrow> string \<Rightarrow> nat \<Rightarrow> bool" where
  "takes_data s ch c t \<longleftrightarrow> getReverseConn s c = None \<and>
     (\<exists>r. dict_get (sp_conns s) c = Some r \<and> cs_uplinkChID (sp_connHeap s r) = ch \<and>
          cs_targetConn (sp_connHeap s r) = Some t)"

definition server_reads :: "server_env \<Rightarrow> instant \<Rightarrow> ref \<Rightarrow> (int \<times> bytes) list \<Rightarrow> serverPool \<Rightarrow> serverPool" where
  "server_reads env now r frames s = foldl (\<lambda>s (mt, data). readLoop_message env now r mt data s) s frames"

text \<open>The data frame of a block, and the bytes of one connection in a sequence of blocks.\<close>

abbreviation bytes_for :: "string \<Rightarrow> (string \<times> bytes) list \<Rightarrow> bytes" where
  "bytes_for c bs \<equiv> concat (map snd (filter (\<lambda>x. fst x = c) bs))"

lemma bytes_for_events:
  "map (\<lambda>e. case e of DataByte _ b \<Rightarrow> b)
     (filter (\<lambda>e. \<exists>b. e = DataByte c b) (concat (map (\<lambda>(c, b). map (DataByte c) b) bs))) = bytes_for c bs"
proof (induction bs)
  case (Cons x bs)
  obtain c' b where x: "x = (c', b)" by fastforce
  have "filter (\<lambda>e. \<exists>b. e = DataByte c b) (map (DataByte c') b) = (if c' = c then map (DataByte c) b else [])"
    by (induction b) auto
  with Cons x show ?case by (simp add: comp_def)
qed simp

lemma data_job_events:
  assumes "length c \<le> 255" "length b < 2 ^ 32"
  shows "frame_events (job_frame (data_job c b)) = map (DataByte c) b"
    and "frame_conn (job_frame (data_job c b)) = Some c"
  using assms DecodeMessage_EncodeMessage [of "[]" b MsgTCPData c "[]"]
  by (simp_all add: data_job_def decode_frame_def frame_conn_def)

text \<open>A frame whose meaning is data only is a data frame without metadata.\<close>

lemma data_frame:
  assumes "frame_conn fr \<noteq> None" "set (frame_events fr) \<subseteq> range (\<lambda>(c, b). DataByte c b)"
  obtains f where "fst fr = BinaryMessage" "DecodeMessage (snd fr) = Some (Inr f)" "f_type f = MsgTCPData"
    "f_meta f = []" "frame_conn fr = Some (f_connID f)" "frame_events fr = map (DataByte (f_connID f)) (f_payload f)"
proof -
  obtain mt d where fr: "fr = (mt, d)" by fastforce
  with assms(1) obtain f where f: "mt = BinaryMessage" "decode_frame d = Some f" "f_type f = MsgTCPData"
    by (auto simp: frame_conn_def split: if_splits option.splits)
  then have "f_meta f = []" using assms(2) fr by (auto split: if_splits)
  moreover have "DecodeMessage d = Some (Inr f)"
    using f(2) by (auto simp: decode_frame_def split: option.splits sum.splits)
  ultimately show thesis using f fr by (intro that [of f]) (simp_all add: frame_conn_def)
qed

lemma server_reads_block:
  assumes "fst fr = BinaryMessage" "DecodeMessage (snd fr) = Some (Inr f)" "f_type f = MsgTCPData"
    and "takes_data s ch (f_connID f) t" "ws_chID (sp_wsHeap s r) = ch" "env_target_ok env (f_payload f)"
  shows "readLoop_message env now r (fst fr) (snd fr) s =
    emit (TargetWrite t (f_payload f)) (addReceivedBytes (int (length (snd fr))) s)"
  using assms by (auto simp: readLoop_message_def handleMessage_def takes_data_def getReverseConn_def
      addReceivedBytes_def handleTCPData_def Let_def)

lemma takes_data_emit [simp]:
  "takes_data (emit e (addReceivedBytes n s)) = takes_data s"
  "sp_wsHeap (emit e (addReceivedBytes n s)) = sp_wsHeap s"
  "sp_effects (emit e (addReceivedBytes n s)) = sp_effects s @ [e]"
  by (simp_all add: fun_eq_iff takes_data_def getReverseConn_def emit_def addReceivedBytes_def)

lemma server_reads_data:
  assumes "set (concat (map frame_events frames)) \<subseteq> range (\<lambda>(c, b). DataByte c b)"
    and "\<forall>fr\<in>set frames. \<exists>c. frame_conn fr = Some c \<and> takes_data s ch c (tgt c)"
    and "ws_chID (sp_wsHeap s r) = ch" "\<forall>b. env_target_ok env b"
  shows "\<exists>blocks. sp_effects (server_reads env now r frames s) =
      sp_effects s @ map (\<lambda>(c, b). TargetWrite (tgt c) b) blocks \<and>
    concat (map (\<lambda>(c, b). map (DataByte c) b) blocks) = concat (map frame_events frames)"
  using assms
proof (induction frames arbitrary: s)
  case Nil
  then show ?case by (intro exI [of _ "[]"]) (simp add: server_reads_def)
next
  case (Cons fr frames)
  then have "frame_conn fr \<noteq> None" "set (frame_events fr) \<subseteq> range (\<lambda>(c, b). DataByte c b)" by auto
  then obtain f where f: "fst fr = BinaryMessage" "DecodeMessage (snd fr) = Some (Inr f)" "f_type f = MsgTCPData"
    "f_meta f = []" "frame_conn fr = Some (f_connID f)" "frame_events fr = map (DataByte (f_connID f)) (f_payload f)"
    by (rule data_frame)
  let ?s = "emit (TargetWrite (tgt (f_connID f)) (f_payload f)) (addReceivedBytes (int (length (snd fr))) s)"
  have step: "readLoop_message env now r (fst fr) (snd fr) s = ?s"
    using f(1-3) Cons.prems f(5) by (intro server_reads_block) auto
  obtain blocks where "sp_effects (server_reads env now r frames ?s) =
      sp_effects ?s @ map (\<lambda>(c, b). TargetWrite (tgt c) b) blocks"
    "concat (map (\<lambda>(c, b). map (DataByte c) b) blocks) = concat (map frame_events frames)"
    using Cons.IH [of ?s] Cons.prems by auto
  then show ?case
    using f(6) step by (intro exI [of _ "(f_connID f, f_payload f) # blocks"]) (simp add: server_reads_def split_def)
qed

text \<open>Property C3: bytes travel from the client to the target complete and in order: when the write queue of
  a channel holds data of any number of connections, in any interleaving, the channel's writer
  empties it, and the server, reading the frames that were written on that channel, writes to
  the target of every connection exactly the bytes queued for it, in the order they were queued,
  however the writer merged and cut them into frames.\<close>

theorem uplink_bytes_end_to_end:
  assumes "wq_jobs (cp_queueHeap p q) = map (\<lambda>(c, b). data_job c b) ds"
    and "4 * cf_ReadBufferSize (cp_config p) < 2 ^ 32"
    and "\<forall>(c, b)\<in>set ds. length c \<le> 255 \<and> length b < 2 ^ 32 \<and> takes_data s (ws_chID (sp_wsHeap s r)) c (tgt c)"
    and "\<forall>b. env_target_ok env b"
  shows "\<exists>frames p' blocks. writeWorkerN (length ds) sock q None p = (None, p') \<and>
    wq_jobs (cp_queueHeap p' q) = [] \<and>
    cp_effects p' = cp_effects p @ map (\<lambda>(mt, data). SocketWrite sock mt data) frames \<and>
    sp_effects (server_reads env now r frames s) = sp_effects s @ map (\<lambda>(c, b). TargetWrite (tgt c) b) blocks \<and>
    (\<forall>c. bytes_for c blocks = bytes_for c ds)"
proof -
  have "maxAggregate p < 2 ^ 32" "length (opt_list None @ jobs_of p q) \<le> length ds"
    using assms(1,2) by (simp_all add: maxAggregate_def)
  then obtain frames p' where w: "writeWorkerN (length ds) sock q None p = (None, p')"
    "jobs_of p' q = []" "cp_effects p' = cp_effects p @ written sock frames"
    "concat (map frame_events frames) = jobs_events (jobs_of p q)"
    "frame_conn ` set frames \<subseteq> (\<lambda>j. frame_conn (job_frame j)) ` set (jobs_of p q)"
    by (rule writeWorkerN_stream) auto
  have ev: "jobs_events (jobs_of p q) = concat (map (\<lambda>(c, b). map (DataByte c) b) ds)"
  proof -
    have "map (\<lambda>j. frame_events (job_frame j)) (jobs_of p q) = map (\<lambda>(c, b). map (DataByte c) b) ds"
      unfolding assms(1) using assms(3) by (auto simp: data_job_events simp del: frame_events.simps)
    then show ?thesis by simp
  qed
  have "\<forall>fr\<in>set frames. \<exists>c. frame_conn fr = Some c \<and> takes_data s (ws_chID (sp_wsHeap s r)) c (tgt c)"
  proof
    fix fr assume "fr \<in> set frames"
    with w(5) assms(1) obtain c b where cb: "(c, b) \<in> set ds" "frame_conn fr = frame_conn (job_frame (data_job c b))"
      by auto
    with assms(3) show "\<exists>c. frame_conn fr = Some c \<and> takes_data s (ws_chID (sp_wsHeap s r)) c (tgt c)"
      by (auto simp: data_job_events)
  qed
  moreover have "set (concat (map frame_events frames)) \<subseteq> range (\<lambda>(c, b). DataByte c b)"
    unfolding w(4) ev by force
  ultimately obtain blocks where b: "sp_effects (server_reads env now r frames s) =
      sp_effects s @ map (\<lambda>(c, b). TargetWrite (tgt c) b) blocks"
    "concat (map (\<lambda>(c, b). map (DataByte c) b) blocks) = concat (map frame_events frames)"
    using server_reads_data [of frames s "ws_chID (sp_wsHeap s r)" tgt r env now] assms(4) by auto
  have "bytes_for c blocks = bytes_for c ds" for c
    using bytes_for_events [of c blocks] bytes_for_events [of c ds] b(2) w(4) ev by simp
  with w b(1) show ?thesis
    by (intro exI [of _ frames] exI [of _ p'] exI [of _ blocks]) (auto simp: written_def split_def)
qed

definition sample_server :: serverPool where
  "sample_server = (newServerPool ''t'' DefaultServerConfig)
     \<lparr>sp_conns := [(''a'', 0), (''b'', 1)],
      sp_connHeap := (\<lambda>r. (newTCPConn ''a'' ''h:1'' 1 0 (''c'', ''x''))\<lparr>cs_targetConn := Some (r + 7)\<rparr>),
      sp_wsHeap := (\<lambda>_. blank_ws\<lparr>ws_chID := 1, ws_clientID := ''c''\<rparr>)\<rparr>"

definition good_writes :: server_env where
  "good_writes = \<lparr>env_target_ok = (\<lambda>_. True), env_pipe_ok = True, env_udp_socket = None,
     env_start = (\<lambda>_ _ _ _. Inr 0), env_resolve = (\<lambda>t _. t), env_udp_addr = (\<lambda>_. None)\<rparr>"

theorem uplink_bytes_end_to_end_witness:
  "let p = putJob 0 (data_job ''b'' [3]) (putJob 0 (data_job ''a'' [1, 2]) (newClientPool DefaultConfig))
   in \<exists>frames p' blocks. writeWorkerN 2 5 0 None p = (None, p') \<and>
     cp_effects p' = cp_effects p @ map (\<lambda>(mt, data). SocketWrite 5 mt data) frames \<and>
     sp_effects (server_reads good_writes 0 0 frames sample_server) =
       sp_effects sample_server @ map (\<lambda>(c, b). TargetWrite (if c = ''a'' then 7 else 8) b) blocks \<and>
     bytes_for ''a'' blocks = [1, 2] \<and> bytes_for ''b'' blocks = [3]"
proof -
  let ?p = "putJob 0 (data_job ''b'' [3]) (putJob 0 (data_job ''a'' [1, 2]) (newClientPool DefaultConfig))"
  let ?ds = "[(''a'', [1, 2]), (''b'', [3])] :: (string \<times> bytes) list"
  let ?tgt = "\<lambda>c. if c = ''a'' then 7 else 8"
  have jobs: "wq_jobs (cp_queueHeap ?p 0) = map (\<lambda>(c, b). data_job c b) ?ds"
    and size: "4 * cf_ReadBufferSize (cp_config ?p) < 2 ^ 32"
    by (simp_all add: putJob_def newClientPool_def Let_def DefaultConfig_def newQueue_def)
  have srv: "\<forall>(c, b)\<in>set ?ds. length c \<le> 255 \<and> length b < 2 ^ 32 \<and>
      takes_data sample_server (ws_chID (sp_wsHeap sample_server 0)) c (?tgt c)"
    by (simp add: takes_data_def sample_server_def getReverseConn_def newServerPool_def newTCPConn_def Let_def)
  have env: "\<forall>b. env_target_ok good_writes b" by (simp add: good_writes_def)
  have len: "length ?ds = 2" by simp
  obtain frames p' blocks where r: "writeWorkerN 2 5 0 None ?p = (None, p')"
    "cp_effects p' = cp_effects ?p @ map (\<lambda>(mt, data). SocketWrite 5 mt data) frames"
    "sp_effects (server_reads good_writes 0 0 frames sample_server) =
       sp_effects sample_server @ map (\<lambda>(c, b). TargetWrite (?tgt c) b) blocks"
    "\<forall>c. bytes_for c blocks = bytes_for c ?ds"
    using uplink_bytes_end_to_end [OF jobs size srv env, of 5 0, unfolded len] by blast
  have "bytes_for ''a'' blocks = [1, 2]" "bytes_for ''b'' blocks = [3]"
    using r(4) [rule_format, of "''a''"] r(4) [rule_format, of "''b''"] by simp_all
  with r(1-3) show ?thesis unfolding Let_def by blast
qed

section \<open>From the client's pair manager to the server's hot path\<close>

text \<open>The pairs a flush announces: the pending records whose pair is still ready.\<close>

definition announced :: "PairWarmer \<Rightarrow> HotPairInfo list" where
  "announced w = map snd (dict_filter (\<lambda>key _. lookupReady key w \<noteq> None) (pw_notifyPending w))"

definition notify_frame :: "HotPairInfo list \<Rightarrow> bytes" where
  "notify_frame es = EncodeMessage MsgHotPairNotify '''' [] (EncodeHotPairNotify es)"

text \<open>Pending records are stored under their own key and carry channel numbers.\<close>

definition pending_ok :: "PairWarmer \<Rightarrow> bool" where
  "pending_ok w \<longleftrightarrow> dict_ok (pw_notifyPending w) \<and>
     (\<forall>(k, i)\<in>set (pw_notifyPending w). hp_Key i = k \<and> k \<noteq> '''' \<and> length k \<le> 255 \<and>
        0 < hp_ChA i \<and> hp_ChA i < 2 ^ 32 \<and> 0 < hp_ChB i \<and> hp_ChB i < 2 ^ 32)"

lemma pending_ok_queue:
  assumes "pending_ok w" "let pr = pw_heap w r in length (pr_PrebindID pr) \<le> 255 \<and>
    0 < pr_UplinkChID pr \<and> pr_UplinkChID pr < 2 ^ 32 \<and> 0 < pr_DownlinkChID pr \<and> pr_DownlinkChID pr < 2 ^ 32"
  shows "pending_ok (queueHotPairNotify (Some r) w)"
  using assms dict_set_subset [of "pr_PrebindID (pw_heap w r)" "pair_info (pw_heap w r)" "pw_notifyPending w"]
  by (auto simp: pending_ok_def queueHotPairNotify_def pair_info_def Let_def)

lemma announced_ok:
  assumes "pending_ok w"
  shows "distinct (map hp_Key (announced w))"
    and "filter hot_pair_key_ok (announced w) = announced w"
    and "map hot_pair_wire (announced w) = announced w"
    and "dict_get (pw_notifyPending w) k = Some i \<Longrightarrow> lookupReady k w \<noteq> None \<Longrightarrow>
      i \<in> set (announced w) \<and> hp_Key i = k \<and> usable i"
proof -
  let ?m = "dict_filter (\<lambda>key _. lookupReady key w \<noteq> None) (pw_notifyPending w)"
  have el: "hp_Key i = k \<and> k \<noteq> '''' \<and> length k \<le> 255 \<and> 0 < hp_ChA i \<and> hp_ChA i < 2 ^ 32 \<and>
      0 < hp_ChB i \<and> hp_ChB i < 2 ^ 32" if "(k, i) \<in> set (pw_notifyPending w)" for k i
    using assms that by (auto simp: pending_ok_def)
  have sub: "(k, i) \<in> set (pw_notifyPending w)" if "(k, i) \<in> set ?m" for k i
    using that by (auto simp: dict_filter_def)
  have "map hp_Key (announced w) = map fst ?m"
    unfolding announced_def using sub el by (auto simp: split_def)
  moreover have "dict_ok ?m" using assms by (simp add: pending_ok_def)
  ultimately show "distinct (map hp_Key (announced w))" by (simp add: dict_ok_def)
  show "filter hot_pair_key_ok (announced w) = announced w"
    using sub el by (force simp: announced_def filter_id_conv hot_pair_key_ok_def)
  show "map hot_pair_wire (announced w) = announced w"
    using sub el by (force simp: announced_def hot_pair_wire_def intro!: map_idI)
  show "i \<in> set (announced w) \<and> hp_Key i = k \<and> usable i"
    if "dict_get (pw_notifyPending w) k = Some i" "lookupReady k w \<noteq> None"
  proof -
    from that(1) have m: "(k, i) \<in> set (pw_notifyPending w)" by (rule map_of_SomeD)
    with that(2) have "i \<in> set (announced w)" by (force simp: announced_def dict_filter_def)
    with el [OF m] show ?thesis by (simp add: usable_def)
  qed
qed

lemma installed_distinct:
  "distinct (map hp_Key es) \<Longrightarrow> i \<in> set es \<Longrightarrow> usable i \<Longrightarrow>
   installed now es (hp_Key i) = Some \<lparr>he_Key = hp_Key i, he_ChA = hp_ChA i, he_ChB = hp_ChB i, he_At = now\<rparr>"
proof (induction es)
  case (Cons e es)
  have none: "installed now xs k = None" if "k \<notin> set (map hp_Key xs)" for xs k
    using that by (induction xs) auto
  from Cons show ?case using none [of "hp_Key i" es] by (auto split: option.split)
qed simp

lemma alive_cong:
  "sp_wsHeap t = sp_wsHeap s \<Longrightarrow> sp_clientChConns t = sp_clientChConns s \<Longrightarrow> sp_wsConns t = sp_wsConns s \<Longrightarrow>
   channelAliveForClient t c ch = channelAliveForClient s c ch"
  by (cases "channel_ref s c ch") (simp_all add: channelAliveForClient_def channel_ref_def)

text \<open>A send adds at most its own frame to a queue.\<close>

lemma asyncWriteDirect_new_job:
  assumes "j \<in> set (jobs_of (snd (asyncWriteDirect env ch mt data p)) q)" "j \<notin> set (jobs_of p q)"
  shows "job_frame j = (mt, data)"
proof -
  obtain x p1 where b: "asyncWriteDirect_begin env ch data p = (x, p1)" by fastforce
  then have h: "cp_queueHeap p1 = cp_queueHeap p" by (rule begin_heap)
  have tl: "set (jobs_of (takeJob q' p1) q) \<subseteq> set (jobs_of p q)" for q'
    using h by (auto simp: takeJob_def upd_queue_def dest: list.set_sel(2) split: list.splits if_splits)
  moreover have "set (tl (jobs_of p q)) \<subseteq> set (jobs_of p q)" by (cases "jobs_of p q") auto
  ultimately show ?thesis
    using assms b h
    by (auto simp: asyncWriteDirect_def asyncWriteDirect_send_def putJob_def upd_queue_def Let_def
        split: sum.splits if_splits full_result.splits)
qed

lemma flushSend_new_job:
  "j \<in> set (jobs_of (snd (flushSend env msg chs p)) q) \<Longrightarrow> j \<notin> set (jobs_of p q) \<Longrightarrow> job_frame j = (BinaryMessage, msg)"
proof (induction chs arbitrary: p)
  case (Cons c cs)
  obtain res p1 where a: "asyncWriteDirect (env c) c BinaryMessage msg p = (res, p1)" by fastforce
  show ?case
  proof (cases "j \<in> set (jobs_of p1 q)")
    case True
    with Cons.prems a asyncWriteDirect_new_job [of j "env c" c BinaryMessage msg p q] show ?thesis by simp
  next
    case False
    with Cons a show ?thesis by (auto split: if_splits)
  qed
qed simp

lemma flush_jobs:
  obtains w where "jobs_of (flushHotPairNotify env p) q =
    (if announced (cp_warmer p) = [] then jobs_of p q
     else jobs_of (snd (flushSend env (notify_frame (announced (cp_warmer p)))
            (availableChannels (p\<lparr>cp_warmer := w\<rparr>)) (p\<lparr>cp_warmer := w\<rparr>))) q)"
proof -
  let ?w = "(cp_warmer p)\<lparr>pw_notifyTimer := False\<rparr>"
  define m where "m = dict_filter (\<lambda>key _. lookupReady key ?w \<noteq> None) (pw_notifyPending ?w)"
  define w where "w = ?w\<lparr>pw_notifyPending := m\<rparr>"
  have an: "map snd m = announced (cp_warmer p)" by (simp add: m_def announced_def lookupReady_def)
  show thesis
    by (rule that [of w])
      (unfold flushHotPairNotify_def Let_def split_def m_def [symmetric] w_def [symmetric] notify_frame_def an,
        simp add: with_warmer_def)
qed

lemma flush_new_job:
  assumes "j \<in> set (jobs_of (flushHotPairNotify env p) q)" "j \<notin> set (jobs_of p q)"
  shows "job_frame j = (BinaryMessage, notify_frame (announced (cp_warmer p)))"
proof -
  obtain w where "jobs_of (flushHotPairNotify env p) q =
    (if announced (cp_warmer p) = [] then jobs_of p q
     else jobs_of (snd (flushSend env (notify_frame (announced (cp_warmer p)))
            (availableChannels (p\<lparr>cp_warmer := w\<rparr>)) (p\<lparr>cp_warmer := w\<rparr>))) q)"
    by (rule flush_jobs)
  with assms flushSend_new_job [of j env "notify_frame (announced (cp_warmer p))" _ "p\<lparr>cp_warmer := w\<rparr>" q]
  show ?thesis by (simp split: if_splits)
qed

lemma server_takes_notify:
  assumes "length (EncodeHotPairNotify es) < 2 ^ 32" "getReverseConn s '''' = None"
  shows "readLoop_message env now r BinaryMessage (notify_frame es) s =
    (addReceivedBytes (int (length (notify_frame es))) s)
      \<lparr>sp_hotPairs := HandleNotify (sp_hotPairs s) (ws_clientID (sp_wsHeap s r)) (EncodeHotPairNotify es) now\<rparr>"
  using assms DecodeMessage_EncodeMessage [of "[]" "EncodeHotPairNotify es" MsgHotPairNotify "''''" "[]"]
  by (simp add: readLoop_message_def notify_frame_def handleMessage_def getReverseConn_def addReceivedBytes_def Let_def)

lemma server_takes_connect:
  assumes "length cid \<le> 255" "length (strategy # t) < 2 ^ 16" "length first < 2 ^ 32" "getReverseConn s cid = None"
  shows "readLoop_message env now r BinaryMessage (EncodeMessage MsgTCPConnect cid (strategy # t) first) s =
    handleTCPConnect now (ws_clientID (sp_wsHeap s r)) (ws_chID (sp_wsHeap s r)) cid (strategy # t)
      (addReceivedBytes (int (length (EncodeMessage MsgTCPConnect cid (strategy # t) first))) s)"
  using assms DecodeMessage_EncodeMessage [of "strategy # t" first MsgTCPConnect cid "[]"]
  by (simp add: readLoop_message_def handleMessage_def getReverseConn_def addReceivedBytes_def Let_def)

text \<open>Property C6: a pair prewarmed by the client is usable on the server: whatever frame a flush of the
  pending notifications adds to one of the client's queues, once the server has read it on a
  channel of the client it finds every announced pair under its key, and until the pair expires
  a connect request over the pair's first channel, under an identifier made from the key, is
  registered with its target and both channels preset, and no frame is queued for a selection.\<close>

theorem hot_pair_end_to_end:
  assumes srv: "table_ok (sp_hotPairs s)" "getReverseConn s '''' = None" "ws_clientID (sp_wsHeap s r) = c" "c \<noteq> ''''"
    and cli: "pending_ok (cp_warmer p)" "dict_get (pw_notifyPending (cp_warmer p)) k = Some i"
      "lookupReady k (cp_warmer p) \<noteq> None" "length (EncodeHotPairNotify (announced (cp_warmer p))) < 2 ^ 32"
    and frame: "j \<in> set (wq_jobs (cp_queueHeap (flushHotPairNotify senv p) q))" "j \<notin> set (wq_jobs (cp_queueHeap p q))"
    and s1: "s1 = readLoop_message env now r (wj_msgType j) (wj_data j) s"
    and time: "now \<le> now'" "now' - now \<le> hotPairEntryTTL"
    and cid: "cid = HotPairConnID k uuid" "prefix hotPairKeyPrefix k" "hotPairConnIDSep \<notin> set k" "uuid \<noteq> ''''"
      "length cid \<le> 255" "getReverseConn s cid = None" "dict_get (sp_conns s) cid = None"
    and chans: "ws_clientID (sp_wsHeap s r') = c" "ws_chID (sp_wsHeap s r') = hp_ChA i"
      "channelAliveForClient s c (hp_ChB i)"
    and req: "length target < 2 ^ 16 - 1" "length first < 2 ^ 32"
      "s2 = readLoop_message env now' r' BinaryMessage (EncodeMessage MsgTCPConnect cid (connect_meta p target) first) s1"
  shows "fst (Lookup (sp_hotPairs s1) c k now') =
      Some \<lparr>he_Key = k, he_ChA = hp_ChA i, he_ChB = hp_ChB i, he_At = now\<rparr> \<and>
    dict_get (sp_conns s2) cid = Some (sp_nextConn s) \<and>
    (let st = sp_connHeap s2 (sp_nextConn s)
     in cs_uplinkChID st = hp_ChA i \<and> cs_downlinkChID st = hp_ChB i \<and> cs_target st = target) \<and>
    sp_wsHeap s2 = sp_wsHeap s"
proof -
  let ?es = "announced (cp_warmer p)"
  let ?e = "\<lparr>he_Key = k, he_ChA = hp_ChA i, he_ChB = hp_ChB i, he_At = now\<rparr>"
  note an = announced_ok [OF cli(1)] announced_ok(4) [OF cli(1-3)]
  have "job_frame j = (BinaryMessage, notify_frame ?es)" by (rule flush_new_job [OF frame])
  then have s1': "s1 = (addReceivedBytes (int (length (notify_frame ?es))) s)
      \<lparr>sp_hotPairs := HandleNotify (sp_hotPairs s) c (EncodeHotPairNotify ?es) now\<rparr>"
    using server_takes_notify [OF cli(4) srv(2)] srv(3) s1 by simp
  have f1: "sp_wsHeap s1 = sp_wsHeap s" "sp_conns s1 = sp_conns s" "sp_nextConn s1 = sp_nextConn s"
      "sp_clientChConns s1 = sp_clientChConns s" "sp_wsConns s1 = sp_wsConns s" "sp_revConns s1 = sp_revConns s"
      "sp_hotPairs s1 = HandleNotify (sp_hotPairs s) c (EncodeHotPairNotify ?es) now"
    by (simp_all add: s1' addReceivedBytes_def)
  have "parse_hot_pairs (EncodeHotPairNotify ?es) = ?es"
    using parse_hot_pairs_records [of ?es] an(2,3)
    by (metis EncodeHotPairNotify_concat filter_id_conv)
  moreover have "\<not> expired now' ?e" using time by (simp add: expired_def)
  moreover have "k \<noteq> ''''" using cid(2) by (auto simp: hotPairKeyPrefix_def)
  ultimately have look: "fst (Lookup (sp_hotPairs s1) c k now') = Some ?e"
    using srv(1,4) an(1,5) installed_distinct [of ?es i now] live_HandleNotify_later [OF _ time(1)]
    by (auto simp: f1 fst_Lookup)
  define s1a where "s1a = addReceivedBytes (int (length (EncodeMessage MsgTCPConnect cid (connect_meta p target) first))) s1"
  have f2: "sp_wsHeap s1a = sp_wsHeap s" "sp_conns s1a = sp_conns s" "sp_nextConn s1a = sp_nextConn s"
      "channelAliveForClient s1a c (hp_ChB i)" "sp_hotPairs s1a = sp_hotPairs s1"
    using chans(3) f1 alive_cong [of s1a s] by (simp_all add: s1a_def addReceivedBytes_def)
  have meta: "connect_meta p target = cf_IPStrategy (cp_config p) # bytes_of_string target" by (simp add: connect_meta_def)
  have s2: "s2 = handleTCPConnect now' c (hp_ChA i) cid (cf_IPStrategy (cp_config p) # bytes_of_string target) s1a"
    using server_takes_connect [of cid "cf_IPStrategy (cp_config p)" "bytes_of_string target" first s1 env now' r']
      cid req chans f1 by (simp add: meta s1a_def getReverseConn_def)
  have split: "SplitHotPairConnID cid = Some (k, uuid)"
    unfolding cid(1) by (rule SplitHotPairConnID_HotPairConnID) (use cid in auto)
  have new: "dict_get (sp_conns s1a) cid = None" using cid(7) f2 by simp
  show ?thesis
    using look connect_registers [OF new, of now' c "hp_ChA i" "cf_IPStrategy (cp_config p)" "bytes_of_string target"]
      hot_path_needs_no_selection [OF new split _ _ _ s2, of ?e] f2
    by (simp add: s2 [symmetric] Let_def)
qed

definition pair_client :: clientPool where
  "pair_client = (newClientPool DefaultConfig)
     \<lparr>cp_wsConns := [Some 7], cp_writeQueues := [Some 0], cp_warmer := queueHotPairNotify (Some 0) sample_warmer\<rparr>"

definition pair_server :: serverPool where
  "pair_server = (newServerPool ''t'' DefaultServerConfig)
     \<lparr>sp_clientChConns := [(''c'', [(1, 0), (2, 1)])],
      sp_wsHeap := (\<lambda>r. blank_ws\<lparr>ws_chID := int r + 1, ws_clientID := ''c'', ws_closed := False\<rparr>)\<rparr>"

lemma pair_client_fields:
  "pw_notifyPending (cp_warmer pair_client) = [(''prebind-a'', \<lparr>hp_Key = ''prebind-a'', hp_ChA = 1, hp_ChB = 2\<rparr>)]"
  "lookupReady ''prebind-a'' (cp_warmer pair_client) = Some 0"
  "announced (cp_warmer pair_client) = [\<lparr>hp_Key = ''prebind-a'', hp_ChA = 1, hp_ChB = 2\<rparr>]"
  "pending_ok (cp_warmer pair_client)"
  by (simp_all add: pair_client_def announced_def pending_ok_def queueHotPairNotify_def sample_warmer_simps pair_info_def
      lookupReady_def dict_filter_def dict_ok_def Let_def) (simp_all add: sample_warmer_def addPair_def NewPairWarmer_def Let_def)

lemma notify_frame_length:
  "length (EncodeHotPairNotify [\<lparr>hp_Key = ''prebind-a'', hp_ChA = 1, hp_ChB = 2\<rparr>]) = 18"
  "length (notify_frame [\<lparr>hp_Key = ''prebind-a'', hp_ChA = 1, hp_ChB = 2\<rparr>]) = 26"
  by (simp_all add: notify_frame_def length_EncodeMessage EncodeHotPairNotify_concat length_hot_pair_record
      hot_pair_key_ok_def hotPairRecordFixedLen_def headerLen_def)

lemma pair_client_flush:
  "jobs_of (flushHotPairNotify (\<lambda>_. plain_env) pair_client) 0 =
     [\<lparr>wj_msgType = BinaryMessage, wj_data = notify_frame (announced (cp_warmer pair_client)), wj_size = 26\<rparr>]"
proof -
  let ?msg = "notify_frame (announced (cp_warmer pair_client))"
  have ch: "availableChannels (pair_client\<lparr>cp_warmer := w\<rparr>) = [1]" for w
    by (simp add: availableChannels_def pair_client_def)
  have send: "fst (asyncWriteDirect plain_env 1 BinaryMessage ?msg (pair_client\<lparr>cp_warmer := w\<rparr>)) = Sent"
    "jobs_of (snd (asyncWriteDirect plain_env 1 BinaryMessage ?msg (pair_client\<lparr>cp_warmer := w\<rparr>))) 0 =
      [\<lparr>wj_msgType = BinaryMessage, wj_data = ?msg, wj_size = 26\<rparr>]" for w
    using notify_frame_length(2)
    by (simp_all add: pair_client_fields(3) asyncWriteDirect_def asyncWriteDirect_begin_def asyncWriteDirect_send_def
        chIndex_def getBackpressureDelay_def reserveQueueBytes_def putJob_def upd_queue_def Let_def)
      (simp_all add: pair_client_def newClientPool_def DefaultConfig_def
        DefaultBackpressureLimitBytes_def newQueue_def writeQueueSize_def asyncWriteDirect_send_def
        putJob_def upd_queue_def Let_def)
  obtain w where "jobs_of (flushHotPairNotify (\<lambda>_. plain_env) pair_client) 0 =
    (if announced (cp_warmer pair_client) = [] then jobs_of pair_client 0
     else jobs_of (snd (flushSend (\<lambda>_. plain_env) ?msg (availableChannels (pair_client\<lparr>cp_warmer := w\<rparr>))
            (pair_client\<lparr>cp_warmer := w\<rparr>))) 0)"
    by (rule flush_jobs)
  then show ?thesis
    using send [of w] by (simp add: ch split_def Let_def) (simp add: pair_client_fields(3))
qed

theorem hot_pair_end_to_end_witness:
  "let j = hd (wq_jobs (cp_queueHeap (flushHotPairNotify (\<lambda>_. plain_env) pair_client) 0));
       s1 = readLoop_message good_writes 5 0 (wj_msgType j) (wj_data j) pair_server;
       cid = HotPairConnID ''prebind-a'' ''u'';
       s2 = readLoop_message good_writes 9 0 BinaryMessage
              (EncodeMessage MsgTCPConnect cid (connect_meta pair_client ''h:80'') []) s1
   in fst (Lookup (sp_hotPairs s1) ''c'' ''prebind-a'' 9) =
        Some \<lparr>he_Key = ''prebind-a'', he_ChA = 1, he_ChB = 2, he_At = 5\<rparr> \<and>
      cs_uplinkChID (sp_connHeap s2 0) = 1 \<and> cs_downlinkChID (sp_connHeap s2 0) = 2 \<and>
      cs_target (sp_connHeap s2 0) = ''h:80''"
proof -
  define k where "k = ''prebind-a''"
  let ?i = "\<lparr>hp_Key = ''prebind-a'', hp_ChA = 1, hp_ChB = 2\<rparr>"
  let ?jobs = "wq_jobs (cp_queueHeap (flushHotPairNotify (\<lambda>_. plain_env) pair_client) 0)"
  have srv: "sp_hotPairs pair_server = NewHotPairTable" "sp_conns pair_server = []" "sp_nextConn pair_server = 0"
    "getReverseConn pair_server x = None" "ws_clientID (sp_wsHeap pair_server r) = ''c''"
    "ws_chID (sp_wsHeap pair_server r) = int r + 1" "channelAliveForClient pair_server ''c'' 2" for x r
    by (simp_all add: pair_server_def newServerPool_def getReverseConn_def channelAliveForClient_def channel_ref_def Let_def)
  have cid: "prefix hotPairKeyPrefix k" "hotPairConnIDSep \<notin> set k" "length (HotPairConnID k ''u'') \<le> 255"
    by (simp_all add: k_def hotPairKeyPrefix_def hotPairConnIDSep_def HotPairConnID_def)
  have "jobs_of pair_client 0 = []" by (simp add: pair_client_def newClientPool_def newQueue_def Let_def)
  then have j: "hd ?jobs \<in> set ?jobs" "hd ?jobs \<notin> set (jobs_of pair_client 0)" by (simp_all add: pair_client_flush)
  have ttl: "(9 :: int) - 5 \<le> hotPairEntryTTL" by (simp add: hotPairEntryTTL_def time_Second_def)
  show ?thesis
    using hot_pair_end_to_end [where s = pair_server and r = 0 and r' = 0 and c = "''c''" and p = pair_client and k = k
        and i = ?i and now = 5 and now' = 9 and uuid = "''u''" and env = good_writes and target = "''h:80''"
        and first = "[]" and j = "hd ?jobs" and q = 0 and senv = "\<lambda>_. plain_env", OF _ _ _ _ _ _ _ _ j refl _ ttl refl cid(1,2) _ cid(3)]
      srv notify_frame_length(1) pair_client_fields
    by (simp add: k_def Let_def)
qed

end
